(* ===== verification/Prelude.thy ===== *)
theory Prelude
  imports Main "HOL-Library.Char_ord" "HOL-Library.List_Lexorder"
    "HOL-Library.Product_Lexorder" "HOL-Library.Monad_Syntax"
begin

text \<open>
  Shared vocabulary of the development.

  \<^item> A Rust \<open>&str\<close> is its UTF-8 bytes, a HOL \<open>string\<close>; offsets into it are byte offsets.
    Rust compares strings bytewise, which is the lexicographic order of
    \<^theory_text>\<open>List_Lexorder\<close> over \<^theory_text>\<open>Char_ord\<close>.
  \<^item> A computation that may panic returns an \<open>option\<close> whose \<open>None\<close> is the panic.
  \<^item> A Rust \<open>Result<T, E>\<close> is the sum \<open>E + T\<close>, with \<open>Inl\<close> for \<open>Err\<close>.
  \<^item> The collections \<open>rust_str\<close> and \<open>rust_eval\<close> gather the rewrite rules of the string layer
    and the definitions unfolded when a closed term is evaluated.
\<close>

named_theorems rust_str
named_theorems rust_eval

type_synonym 'a may_panic = "'a option"

type_synonym span = "nat \<times> nat"

datatype ordering = Less | Equal | Greater

definition cmp :: "'a::linorder \<Rightarrow> 'a \<Rightarrow> ordering" where
  "cmp a b = (if a < b then Less else if a = b then Equal else Greater)"

subsection \<open>Bytes\<close>

definition byte :: "char \<Rightarrow> nat" where
  [rust_eval]: "byte c = of_char c"

definition is_ascii_whitespace :: "char \<Rightarrow> bool" where
  [rust_eval]: "is_ascii_whitespace c \<longleftrightarrow>
     byte c = 32 \<or> byte c = 9 \<or> byte c = 10 \<or> byte c = 12 \<or> byte c = 13"

definition is_ascii_digit :: "char \<Rightarrow> bool" where
  [rust_eval]: "is_ascii_digit c \<longleftrightarrow> 48 \<le> byte c \<and> byte c \<le> 57"

definition is_ascii_alphabetic :: "char \<Rightarrow> bool" where
  [rust_eval]: "is_ascii_alphabetic c \<longleftrightarrow>
     (65 \<le> byte c \<and> byte c \<le> 90) \<or> (97 \<le> byte c \<and> byte c \<le> 122)"

definition is_ascii_alphanumeric :: "char \<Rightarrow> bool" where
  [rust_eval]: "is_ascii_alphanumeric c \<longleftrightarrow> is_ascii_alphabetic c \<or> is_ascii_digit c"

definition is_ascii_hexdigit :: "char \<Rightarrow> bool" where
  [rust_eval]: "is_ascii_hexdigit c \<longleftrightarrow>
     is_ascii_digit c \<or> (65 \<le> byte c \<and> byte c \<le> 70) \<or> (97 \<le> byte c \<and> byte c \<le> 102)"

definition to_ascii_lower :: "char \<Rightarrow> char" where
  [rust_eval]: "to_ascii_lower c = (if 65 \<le> byte c \<and> byte c \<le> 90 then char_of (byte c + 32) else c)"

definition to_ascii_lowercase :: "string \<Rightarrow> string" where
  [rust_eval]: "to_ascii_lowercase s = map to_ascii_lower s"

text \<open>A byte \<open>10xxxxxx\<close> continues a UTF-8 sequence; every other byte starts one.\<close>

definition is_continuation :: "char \<Rightarrow> bool" where
  [rust_eval]: "is_continuation c \<longleftrightarrow> 128 \<le> byte c \<and> byte c < 192"

subsection \<open>Slices\<close>

definition is_char_boundary :: "string \<Rightarrow> nat \<Rightarrow> bool" where
  [rust_eval]: "is_char_boundary s i \<longleftrightarrow>
     i = 0 \<or> i = length s \<or> (i < length s \<and> \<not> is_continuation (s ! i))"

text \<open>\<open>&s[i..j]\<close>: a range out of order, out of bounds or off a character boundary panics.\<close>

definition str_slice :: "string \<Rightarrow> nat \<Rightarrow> nat \<Rightarrow> string may_panic" where
  [rust_eval]: "str_slice s i j =
     (if i \<le> j \<and> j \<le> length s \<and> is_char_boundary s i \<and> is_char_boundary s j
      then Some (take (j - i) (drop i s)) else None)"

text \<open>
  The shape of valid UTF-8: each lead byte is followed by its continuation bytes. This is
  weaker than Rust's invariant on \<open>str\<close> (it admits overlong forms and surrogates), so a fact
  proved under it holds for every \<open>str\<close>.
\<close>

fun utf8_shape :: "string \<Rightarrow> bool" where
  "utf8_shape [] = True"
| "utf8_shape (a # s) =
     (if byte a < 128 then utf8_shape s
      else if 192 \<le> byte a \<and> byte a < 224 then
        (case s of b # s' \<Rightarrow> is_continuation b \<and> utf8_shape s' | _ \<Rightarrow> False)
      else if 224 \<le> byte a \<and> byte a < 240 then
        (case s of b # c # s' \<Rightarrow> is_continuation b \<and> is_continuation c \<and> utf8_shape s' | _ \<Rightarrow> False)
      else if 240 \<le> byte a then
        (case s of b # c # d # s' \<Rightarrow>
           is_continuation b \<and> is_continuation c \<and> is_continuation d \<and> utf8_shape s' | _ \<Rightarrow> False)
      else False)"

subsection \<open>Searching and splitting\<close>

definition starts_with :: "string \<Rightarrow> string \<Rightarrow> bool" where
  [rust_eval]: "starts_with s p \<longleftrightarrow> take (length p) s = p"

definition ends_with :: "string \<Rightarrow> string \<Rightarrow> bool" where
  [rust_eval]: "ends_with s p \<longleftrightarrow> length p \<le> length s \<and> drop (length s - length p) s = p"

text \<open>\<open>s.split(d)\<close>: always at least one piece.\<close>

fun split_on :: "char \<Rightarrow> string \<Rightarrow> string list" where
  "split_on d [] = [[]]"
| "split_on d (c # cs) =
     (if c = d then [] # split_on d cs
      else (case split_on d cs of [] \<Rightarrow> [[c]] | p # ps \<Rightarrow> (c # p) # ps))"

text \<open>\<open>s.split(d).next().unwrap_or(s)\<close>.\<close>

definition first_piece :: "char \<Rightarrow> string \<Rightarrow> string" where
  [rust_eval]: "first_piece d s = (case split_on d s of [] \<Rightarrow> s | p # _ \<Rightarrow> p)"

definition split_once :: "char \<Rightarrow> string \<Rightarrow> (string \<times> string) option" where
  [rust_eval]: "split_once d s =
     (case dropWhile (\<lambda>c. c \<noteq> d) s of [] \<Rightarrow> None
      | _ # t \<Rightarrow> Some (takeWhile (\<lambda>c. c \<noteq> d) s, t))"

text \<open>\<open>s.find(p)\<close> and \<open>s.contains(p)\<close> for a literal pattern: the first offset.\<close>

fun str_find :: "string \<Rightarrow> string \<Rightarrow> nat option" where
  "str_find p s = (if starts_with s p then Some 0 else (case s of [] \<Rightarrow> None | _ # t \<Rightarrow> map_option Suc (str_find p t)))"

declare str_find.simps [simp del]

definition str_contains :: "string \<Rightarrow> string \<Rightarrow> bool" where
  [rust_eval]: "str_contains s p \<longleftrightarrow> str_find p s \<noteq> None"

fun join_with :: "string \<Rightarrow> string list \<Rightarrow> string" where
  "join_with sep [] = []"
| "join_with sep [s] = s"
| "join_with sep (s # t # ts) = s @ sep @ join_with sep (t # ts)"

text \<open>
  \<open>s.trim_end()\<close>: drops trailing Unicode \<open>White_Space\<close>. The function walks the reversed bytes
  and recognises the UTF-8 encodings of U+0009..U+000D, U+0020, U+0085, U+00A0, U+1680,
  U+2000..U+200A, U+2028, U+2029, U+202F, U+205F and U+3000.
\<close>

definition whitespace_len_rev :: "string \<Rightarrow> nat" where
  [rust_eval]: "whitespace_len_rev s =
     (case s of
        [] \<Rightarrow> 0
      | a # t \<Rightarrow>
          if byte a = 32 \<or> (9 \<le> byte a \<and> byte a \<le> 13) then 1
          else (case t of
              [] \<Rightarrow> 0
            | b # u \<Rightarrow>
                if byte b = 194 \<and> (byte a = 133 \<or> byte a = 160) then 2
                else (case u of
                    [] \<Rightarrow> 0
                  | c # _ \<Rightarrow>
                      if (byte c = 225 \<and> byte b = 154 \<and> byte a = 128)
                       \<or> (byte c = 226 \<and> byte b = 128 \<and>
                            ((128 \<le> byte a \<and> byte a \<le> 138) \<or> byte a = 168
                              \<or> byte a = 169 \<or> byte a = 175))
                       \<or> (byte c = 226 \<and> byte b = 129 \<and> byte a = 159)
                       \<or> (byte c = 227 \<and> byte b = 128 \<and> byte a = 128)
                      then 3 else 0)))"

function trim_end_rev :: "string \<Rightarrow> string" where
  "trim_end_rev s =
     (if whitespace_len_rev s = 0 then s
      else trim_end_rev (drop (whitespace_len_rev s) s))"
  by pat_completeness auto
termination
proof (relation "measure length", simp)
  fix s
  assume "whitespace_len_rev s \<noteq> 0"
  moreover have "whitespace_len_rev [] = 0"
    by (simp add: whitespace_len_rev_def)
  ultimately show "(drop (whitespace_len_rev s) s, s) \<in> measure length"
    by (cases s) auto
qed

declare trim_end_rev.simps [simp del]

definition trim_end :: "string \<Rightarrow> string" where
  [rust_eval]: "trim_end s = rev (trim_end_rev (rev s))"

subsection \<open>Integers read from text\<close>

definition digits_value :: "string \<Rightarrow> nat" where
  [rust_eval]: "digits_value s = foldl (\<lambda>n c. 10 * n + (byte c - 48)) 0 s"

definition parse_digits :: "string \<Rightarrow> nat option" where
  [rust_eval]: "parse_digits s =
     (if s \<noteq> [] \<and> list_all is_ascii_digit s then Some (digits_value s) else None)"

text \<open>\<open>str::parse::<u64>\<close> takes an optional \<open>+\<close>; overflow is an error.\<close>

definition parse_u64 :: "string \<Rightarrow> nat option" where
  [rust_eval]: "parse_u64 s =
     (let body = (case s of c # t \<Rightarrow> if c = CHR ''+'' then t else s | [] \<Rightarrow> s)
      in case parse_digits body of
           Some n \<Rightarrow> if n < 2 ^ 64 then Some n else None
         | None \<Rightarrow> None)"

text \<open>\<open>str::parse::<i64>\<close> takes an optional sign; overflow is an error.\<close>

definition parse_i64 :: "string \<Rightarrow> int option" where
  [rust_eval]: "parse_i64 s =
     (case s of
        c # t \<Rightarrow>
          if c = CHR ''-'' then
            (case parse_digits t of
               Some n \<Rightarrow> if n \<le> 2 ^ 63 then Some (- int n) else None
             | None \<Rightarrow> None)
          else
            (case parse_digits (if c = CHR ''+'' then t else s) of
               Some n \<Rightarrow> if n < 2 ^ 63 then Some (int n) else None
             | None \<Rightarrow> None)
      | [] \<Rightarrow> None)"

definition backquote :: "string \<Rightarrow> string" where
  [rust_eval]: "backquote s = [CHR 0x60] @ s @ [CHR 0x60]"

text \<open>Formatting a number in decimal.\<close>

fun show_nat :: "nat \<Rightarrow> string" where
  "show_nat n = (if n < 10 then [char_of (48 + n)] else show_nat (n div 10) @ [char_of (48 + n mod 10)])"

declare show_nat.simps [simp del]

section \<open>Facts about bytes and strings\<close>

lemma byte_less_256: "byte c < 256"
  by (simp add: byte_def)

lemma digit_not_sign [simp]:
  "is_ascii_digit CHR ''+'' = False" "is_ascii_digit CHR ''-'' = False"
  "is_ascii_digit CHR ''.'' = False" "is_ascii_digit CHR '','' = False"
  "is_ascii_whitespace CHR '','' = False"
  by (simp_all add: rust_eval)

lemma digit_not_whitespace: "is_ascii_digit c \<Longrightarrow> \<not> is_ascii_whitespace c"
  by (auto simp: rust_eval)

lemma whitespace_ascii: "is_ascii_whitespace c \<Longrightarrow> byte c < 128"
  by (auto simp: is_ascii_whitespace_def)

lemma cmp_swap:
  "cmp a b = Less \<longleftrightarrow> cmp b a = Greater"
  by (auto simp: cmp_def)

lemma cmp_eq_iff: "cmp a b = Equal \<longleftrightarrow> a = b"
  by (auto simp: cmp_def)

lemma all_prefixes_Cons:
  "(\<forall>p t. b # bs = p @ t \<longrightarrow> P p) \<longleftrightarrow> P [] \<and> (\<forall>p t. bs = p @ t \<longrightarrow> P (b # p))"
  by (metis append_Cons append_Nil append_eq_Cons_conv)

lemma all_infixes_Cons:
  "(\<forall>a p t. b # bs = a @ p @ t \<longrightarrow> P p)
     \<longleftrightarrow> (\<forall>p t. b # bs = p @ t \<longrightarrow> P p) \<and> (\<forall>a p t. bs = a @ p @ t \<longrightarrow> P p)"
  by (metis append_Cons append_Nil append_eq_Cons_conv)

lemma in_map_filter: "y \<in> set (List.map_filter f xs) \<longleftrightarrow> (\<exists>x \<in> set xs. f x = Some y)"
  by (induction xs) (auto simp: List.map_filter_def split: option.splits)

lemma starts_with_iff: "starts_with s p \<longleftrightarrow> (\<exists>t. s = p @ t)"
  by (metis append_eq_conv_conj append_take_drop_id starts_with_def)

lemma str_find_Some: "str_find p s = Some i \<Longrightarrow> \<exists>a b. s = a @ p @ b \<and> length a = i"
proof (induction p s arbitrary: i rule: str_find.induct)
  case (1 p s)
  show ?case
  proof (cases "starts_with s p")
    case True
    with 1(2) have "i = 0" by (simp add: str_find.simps [of p s])
    with True show ?thesis by (auto simp: starts_with_iff)
  next
    case False
    with 1(2) obtain c t j where t: "s = c # t" "str_find p t = Some j" "i = Suc j"
      by (auto simp: str_find.simps [of p s] split: list.splits)
    from 1(1) [OF False t(1,2)] obtain a b where "t = a @ p @ b" "length a = j" by blast
    with t have "s = (c # a) @ p @ b \<and> length (c # a) = i" by simp
    then show ?thesis by blast
  qed
qed

lemma str_find_append: "\<exists>i \<le> length a. str_find p (a @ p @ b) = Some i"
proof (induction a)
  case (Cons c a)
  then show ?case by (auto simp: str_find.simps [of p "c # _"])
qed (simp add: str_find.simps [of p "p @ _"] starts_with_iff)

lemma str_contains_iff: "str_contains s p \<longleftrightarrow> (\<exists>a b. s = a @ p @ b)"
proof
  assume "\<exists>a b. s = a @ p @ b"
  then show "str_contains s p" using str_find_append [of _ p] by (fastforce simp: str_contains_def)
next
  assume "str_contains s p"
  then show "\<exists>a b. s = a @ p @ b" using str_find_Some [of p s] unfolding str_contains_def by blast
qed

lemma split_on_not_Nil [simp]: "split_on d s \<noteq> []"
  by (induction s) (auto split: list.splits)

lemma length_split_on: "length (split_on d s) = Suc (count_list s d)"
  by (induction s) (auto split: list.splits)

lemma split_on_none [rust_str]: "d \<notin> set s \<Longrightarrow> split_on d s = [s]"
  by (induction s) auto

lemma hd_split_on: "hd (split_on d s) = takeWhile (\<lambda>c. c \<noteq> d) s"
  by (induction s) (auto split: list.splits)

lemma first_piece_takeWhile [rust_str]: "first_piece d s = takeWhile (\<lambda>c. c \<noteq> d) s"
  using hd_split_on [of d s] by (auto simp: first_piece_def split: list.splits)

lemma split_on_append [rust_str]:
  "d \<notin> set p \<Longrightarrow> split_on d (p @ d # s) = p # split_on d s"
  by (induction p) auto

lemma split_on_pieces: "p \<in> set (split_on d s) \<Longrightarrow> d \<notin> set p"
  by (induction s arbitrary: p) (auto split: list.splits if_splits)

lemma join_split_on: "join_with [d] (split_on d s) = s"
proof (induction s)
  case Nil
  then show ?case by simp
next
  case (Cons c s)
  show ?case
  proof (cases "split_on d s")
    case Nil
    then show ?thesis by simp
  next
    case (Cons p ps)
    with Cons.IH show ?thesis by (cases ps) auto
  qed
qed

lemma split_once_Some [rust_str]:
  "d \<notin> set p \<Longrightarrow> split_once d (p @ d # t) = Some (p, t)"
  by (simp add: split_once_def takeWhile_append dropWhile_append)

lemma split_once_None [rust_str]: "d \<notin> set s \<Longrightarrow> split_once d s = None"
  by (auto simp: split_once_def split: list.split dest!: arg_cong [of _ _ "\<lambda>t. t = []"])

lemma split_once_cases:
  "split_once d s = (if d \<in> set s
     then Some (takeWhile (\<lambda>c. c \<noteq> d) s, tl (dropWhile (\<lambda>c. c \<noteq> d) s)) else None)"
proof (cases "d \<in> set s")
  case True
  then have "dropWhile (\<lambda>c. c \<noteq> d) s \<noteq> []"
    by (auto simp: dropWhile_eq_Nil_conv)
  with True show ?thesis
    by (auto simp: split_once_def split: list.splits)
next
  case False
  then show ?thesis by (simp add: split_once_None)
qed

lemma str_slice_length: "str_slice s i j = Some t \<Longrightarrow> length t = j - i"
  by (auto simp: str_slice_def split: if_splits)

lemma str_slice_Some:
  "str_slice s i j = Some t \<longleftrightarrow>
     i \<le> j \<and> j \<le> length s \<and> is_char_boundary s i \<and> is_char_boundary s j
     \<and> t = take (j - i) (drop i s)"
  by (auto simp: str_slice_def)

lemma trim_end_rev_suffix: "\<exists>p. s = p @ trim_end_rev s"
proof (induction s rule: trim_end_rev.induct)
  case (1 s)
  show ?case
  proof (cases "whitespace_len_rev s = 0")
    case True
    then show ?thesis by (simp add: trim_end_rev.simps [of s])
  next
    case False
    let ?n = "whitespace_len_rev s"
    from "1.IH" [OF False] obtain p where "drop ?n s = p @ trim_end_rev (drop ?n s)"
      by blast
    then have "s = (take ?n s @ p) @ trim_end_rev (drop ?n s)"
      by (metis append_assoc append_take_drop_id)
    with False show ?thesis
      by (metis trim_end_rev.simps)
  qed
qed

lemma trim_end_prefix: "\<exists>q. s = trim_end s @ q"
proof -
  obtain p where "rev s = p @ trim_end_rev (rev s)"
    using trim_end_rev_suffix by blast
  then have "s = rev (trim_end_rev (rev s)) @ rev p"
    by (metis rev_append rev_rev_ident)
  then show ?thesis by (auto simp: trim_end_def)
qed

section \<open>Character boundaries\<close>


text \<open>No continuation byte follows an ASCII byte (flag set) or starts the text.\<close>

fun lead_from :: "bool \<Rightarrow> string \<Rightarrow> bool" where
  "lead_from f [] = True"
| "lead_from f (c # s) = ((f \<longrightarrow> \<not> is_continuation c) \<and> lead_from (byte c < 128) s)"

abbreviation lead_ok :: "string \<Rightarrow> bool" where
  "lead_ok s \<equiv> lead_from True s"

lemma continuation_not_ascii: "is_continuation c \<Longrightarrow> \<not> byte c < 128"
  by (simp add: is_continuation_def)

lemma lead_from_append:
  "lead_from f (p @ s) \<longleftrightarrow> lead_from f p \<and> lead_from (if p = [] then f else byte (last p) < 128) s"
  by (induction p arbitrary: f) auto

lemma lead_from_weaken: "lead_from True s \<Longrightarrow> lead_from f s"
  by (cases s) auto

lemma lead_from_hd: "lead_from True s \<Longrightarrow> s = [] \<or> \<not> is_continuation (hd s)"
  by (cases s) auto

lemma lead_ok_ascii_split:
  "byte c < 128 \<Longrightarrow> lead_ok (p @ c # q) \<longleftrightarrow> lead_ok p \<and> lead_ok q"
  by (auto simp: lead_from_append dest: continuation_not_ascii lead_from_weaken)

lemma lead_ok_append_left: "lead_ok (p @ s) \<Longrightarrow> lead_ok p"
  by (simp add: lead_from_append)

lemma lead_ok_after_ascii:
  "lead_ok (p @ s) \<Longrightarrow> list_all (\<lambda>c. byte c < 128) p \<Longrightarrow> lead_ok s"
  by (auto simp: lead_from_append list_all_iff split: if_splits)

lemma utf8_shape_lead_from: "utf8_shape s \<Longrightarrow> lead_from f s"
  by (induction s arbitrary: f rule: utf8_shape.induct)
    (auto simp: is_continuation_def split: if_splits list.splits)

lemma ascii_utf8_shape: "list_all (\<lambda>c. byte c < 128) s \<Longrightarrow> utf8_shape s"
  by (induction s) auto

lemma str_slice_append:
  assumes "lead_ok (q @ r)" and "lead_ok r"
  shows "str_slice (p @ q @ r) (length p) (length p + length q) = Some q"
  using assms [THEN lead_from_hd]
  by (auto simp: str_slice_def is_char_boundary_def nth_append hd_conv_nth split: if_splits)

lemma str_slice_all [simp]: "str_slice s 0 (length s) = Some s"
  by (simp add: str_slice_def is_char_boundary_def)

lemma str_slice_suffix:
  "lead_ok q \<Longrightarrow> str_slice (p @ q) (length p) (length (p @ q)) = Some q"
  using str_slice_append [of q "[]" p] by simp

lemma str_slice_prefix:
  "lead_ok q \<Longrightarrow> str_slice (p @ q) 0 (length p) = Some p"
  using lead_from_hd [of q]
  by (auto simp: str_slice_def is_char_boundary_def nth_append hd_conv_nth)

lemma takeWhile_stop_lead_ok:
  assumes "lead_ok s" and "\<And>c. \<not> P c \<Longrightarrow> byte c < 128"
  shows "lead_ok (dropWhile P s)"
proof (cases "dropWhile P s")
  case (Cons c r)
  then have "\<not> P c"
    using hd_dropWhile [of P s] by auto
  then have c: "byte c < 128" by (rule assms(2))
  have "s = takeWhile P s @ c # r"
    using Cons by (metis takeWhile_dropWhile_id)
  with assms(1) c have "lead_ok r"
    by (metis lead_ok_ascii_split)
  with Cons c show ?thesis
    by (auto dest: continuation_not_ascii lead_from_weaken)
next
  case Nil
  show ?thesis by (simp only: Nil lead_from.simps)
qed


section \<open>A loop that keeps the best candidate\<close>

text \<open>
  The contract of a loop body that looks at one item, may draw a candidate from it, and
  replaces the best candidate so far only by one of strictly higher rank.
\<close>

locale keep_best =
  fixes step :: "'b option \<Rightarrow> 'c \<Rightarrow> 'b option"
    and cand :: "'c \<Rightarrow> 'b option"
    and rank :: "'b \<Rightarrow> 'k::linorder"
  assumes step_none: "cand c = None \<Longrightarrow> step best c = best"
    and step_first: "cand c = Some x \<Longrightarrow> step None c = Some x"
    and step_better: "cand c = Some x \<Longrightarrow> rank b < rank x \<Longrightarrow> step (Some b) c = Some x"
    and step_keep: "cand c = Some x \<Longrightarrow> rank x \<le> rank b \<Longrightarrow> step (Some b) c = Some b"
begin

lemma step_cases:
  "step best c = best \<and> (\<forall>x. cand c = Some x \<longrightarrow> (\<exists>b. best = Some b \<and> rank x \<le> rank b))
   \<or> (\<exists>x. cand c = Some x \<and> step best c = Some x \<and> (\<forall>b. best = Some b \<longrightarrow> rank b < rank x))"
proof (cases "cand c")
  case None
  then show ?thesis by (simp add: step_none)
next
  case (Some x)
  show ?thesis
  proof (cases best)
    case None
    with Some show ?thesis by (simp add: step_first)
  next
    fix b
    assume "best = Some b"
    with Some show ?thesis
      by (cases "rank b < rank x") (auto simp: step_better step_keep)
  qed
qed

lemma foldl_best:
  "foldl step best cs = Some r \<Longrightarrow>
     (best = Some r \<or> (\<exists>c \<in> set cs. cand c = Some r))
     \<and> (\<forall>b. best = Some b \<longrightarrow> rank b \<le> rank r)
     \<and> (\<forall>c \<in> set cs. \<forall>x. cand c = Some x \<longrightarrow> rank x \<le> rank r)"
proof (induction cs arbitrary: best)
  case Nil
  then show ?case by simp
next
  case (Cons c cs)
  then have "foldl step (step best c) cs = Some r" by simp
  note IH = Cons.IH [OF this]
  show ?case
    using step_cases [of best c]
  proof
    assume "step best c = best \<and> (\<forall>x. cand c = Some x \<longrightarrow> (\<exists>b. best = Some b \<and> rank x \<le> rank b))"
    with IH show ?thesis by fastforce
  next
    assume "\<exists>x. cand c = Some x \<and> step best c = Some x \<and> (\<forall>b. best = Some b \<longrightarrow> rank b < rank x)"
    with IH show ?thesis by fastforce
  qed
qed

lemma foldl_none:
  "foldl step best cs = None \<longleftrightarrow> best = None \<and> (\<forall>c \<in> set cs. cand c = None)"
proof (induction cs arbitrary: best)
  case Nil
  then show ?case by simp
next
  case (Cons c cs)
  then show ?case
    using step_cases [of best c] by (cases best; cases "cand c") (auto simp: step_none)
qed

end

section \<open>Loops whose body may panic\<close>

fun fold_may :: "('s \<Rightarrow> 'x \<Rightarrow> 's may_panic) \<Rightarrow> 's \<Rightarrow> 'x list \<Rightarrow> 's may_panic" where
  "fold_may f s [] = Some s"
| "fold_may f s (x # xs) = do { s' \<leftarrow> f s x; fold_may f s' xs }"

lemma fold_may_invariant:
  assumes "fold_may f s xs = Some s'" "P s" "\<And>s x s'. x \<in> set xs \<Longrightarrow> P s \<Longrightarrow> f s x = Some s' \<Longrightarrow> P s'"
  shows "P s'"
  using assms
proof (induction xs arbitrary: s)
  case (Cons x xs)
  then obtain s1 where s1: "f s x = Some s1" "fold_may f s1 xs = Some s'"
    by (auto simp: bind_eq_Some_conv)
  have "P s1" using Cons.prems(2,3) s1(1) by auto
  then show ?case using Cons.IH [OF s1(2)] Cons.prems(3) by (meson list.set_intros(2))
qed simp

lemma fold_may_append:
  "fold_may f s (xs @ ys) = do { s' \<leftarrow> fold_may f s xs; fold_may f s' ys }"
  by (induction xs arbitrary: s) (auto split: Option.bind_splits)

lemma fold_may_total:
  "(\<And>s x. x \<in> set xs \<Longrightarrow> f s x \<noteq> None) \<Longrightarrow> fold_may f s xs \<noteq> None"
  by (induction xs arbitrary: s) (auto split: Option.bind_splits)

text \<open>A loop that only appends to its accumulator is a concatenation.\<close>

fun concat_may :: "'a list may_panic list \<Rightarrow> 'a list may_panic" where
  "concat_may [] = Some []"
| "concat_may (x # xs) = do { a \<leftarrow> x; b \<leftarrow> concat_may xs; Some (a @ b) }"

lemma concat_may_append: "concat_may (xs @ ys) = do { a \<leftarrow> concat_may xs; b \<leftarrow> concat_may ys; Some (a @ b) }"
  by (induction xs) (auto split: Option.bind_splits)

lemma concat_may_total: "(\<And>x. x \<in> set xs \<Longrightarrow> x \<noteq> None) \<Longrightarrow> concat_may xs \<noteq> None"
proof (induction xs)
  case (Cons a xs)
  then obtain x y where "a = Some x" "concat_may xs = Some y" by fastforce
  then show ?case by simp
qed simp

lemma concat_may_Some: "concat_may xs = Some ys \<Longrightarrow> (\<forall>x \<in> set xs. x \<noteq> None) \<and> ys = concat (map the xs)"
  by (induction xs arbitrary: ys) (auto simp: bind_eq_Some_conv)

lemma fold_may_concat:
  assumes "\<And>out x. x \<in> set xs \<Longrightarrow> f out x = map_option ((@) out) (g x)"
  shows "fold_may f out xs = map_option ((@) out) (concat_may (map g xs))"
  using assms
proof (induction xs arbitrary: out)
  case (Cons x xs)
  then show ?case by (cases "g x"; cases "concat_may (map g xs)") simp_all
qed simp

lemma map_option_append_Nil [simp]: "map_option ((@) []) x = x"
  by (cases x) simp_all

end
