(* ===== verification/VersionConstraint.thy ===== *)
theory VersionConstraint
  imports Prelude
begin

text \<open>
  \<^verbatim>\<open>crates/tfls-core/src/version_constraint.rs\<close>: the parser of Terraform version constraints,
  the cursor classification that drives completion, and the evaluation of candidate versions.

  \<open>parse\<close> and \<open>cursor_slot\<close> slice the input by byte offsets, so they return
  \<^typ>\<open>'a may_panic\<close>; a malformed piece is an \<open>Inl\<close> that carries the code's span and message.
  The derived \<open>Ord\<close> of \<open>PreSegment\<close> and \<open>VersionKey\<close> is an instance of
  \<^theory_text>\<open>linorder\<close>.
\<close>

section \<open>Operators and constraints\<close>

datatype constraint_op = OpEq | OpNe | OpGt | OpGte | OpLt | OpLte | OpPessimistic

fun token :: "constraint_op \<Rightarrow> string" where
  "token OpEq = ''=''"
| "token OpNe = ''!=''"
| "token OpGt = ''>''"
| "token OpGte = ''>=''"
| "token OpLt = ''<''"
| "token OpLte = ''<=''"
| "token OpPessimistic = ''~>''"

definition all_operators :: "constraint_op list" where
  "all_operators = [OpGte, OpPessimistic, OpEq, OpNe, OpGt, OpLt, OpLte]"

record constraint =
  c_op :: constraint_op
  c_version :: string
  c_span :: span

record constraint_error =
  ce_span :: span
  ce_message :: string

record parsed =
  p_constraints :: "constraint list"
  p_errors :: "constraint_error list"

datatype cursor_slot =
    AtOperator
  | AfterOperator constraint_op
  | InsideVersion constraint_op string
  | Trailing

section \<open>Parsing\<close>

text \<open>\<open>split_commas\<close>: the loop over \<open>input.bytes().enumerate()\<close> with its \<open>start\<close>.\<close>

fun split_commas_from :: "string \<Rightarrow> nat \<Rightarrow> nat \<Rightarrow> span list" where
  "split_commas_from [] i start = [(start, i)]"
| "split_commas_from (b # bs) i start =
     (if b = CHR '','' then (start, i) # split_commas_from bs (Suc i) (Suc i)
      else split_commas_from bs (Suc i) start)"

definition split_commas :: "string \<Rightarrow> span list" where
  [rust_eval]: "split_commas input = split_commas_from input 0 0"

definition leading_ws :: "string \<Rightarrow> nat" where
  [rust_eval]: "leading_ws s = length (takeWhile is_ascii_whitespace s)"

definition operator_tokens :: "(string \<times> constraint_op) list" where
  [rust_eval]: "operator_tokens =
     [(''~>'', OpPessimistic), (''>='', OpGte), (''<='', OpLte), (''!='', OpNe),
      (''>'', OpGt), (''<'', OpLt), (''='', OpEq)]"

fun detect_in :: "(string \<times> constraint_op) list \<Rightarrow> string \<Rightarrow> constraint_op \<times> nat" where
  "detect_in [] s = (OpEq, 0)"
| "detect_in ((tok, op) # rest) s =
     (if starts_with s tok then (op, length tok) else detect_in rest s)"

definition detect_operator :: "string \<Rightarrow> constraint_op \<times> nat" where
  [rust_eval]: "detect_operator s = detect_in operator_tokens s"

definition starts_with_operator_char :: "string \<Rightarrow> bool" where
  [rust_eval]: "starts_with_operator_char s =
     (case s of [] \<Rightarrow> False | b # _ \<Rightarrow> b \<in> set ''=!<>~^&|+'')"

definition non_version_prefix_len :: "string \<Rightarrow> nat" where
  [rust_eval]: "non_version_prefix_len s =
     max (length (takeWhile (\<lambda>b. \<not> is_ascii_alphanumeric b \<and> \<not> is_ascii_whitespace b) s)) 1"

fun check_segments :: "string list \<Rightarrow> string + unit" where
  "check_segments [] = Inr ()"
| "check_segments (part # parts) =
     (if part = [] then Inl ''empty segment''
      else if \<not> list_all is_ascii_digit part then Inl ''segment must be numeric''
      else check_segments parts)"

definition validate_version :: "string \<Rightarrow> string + unit" where
  [rust_eval]: "validate_version s =
     (if s = [] then Inl ''empty''
      else let core = first_piece CHR ''-'' (first_piece CHR ''+'' s)
           in if core = [] then Inl ''missing numeric core''
              else check_segments (split_on CHR ''.'' core))"

definition empty_constraint_message :: string where
  [rust_eval]: "empty_constraint_message =
     ''empty constraint '' @ [CHR 0xE2, CHR 0x80, CHR 0x94]
       @ '' remove stray comma or fill in a version''"

definition parse_piece :: "string \<Rightarrow> span \<Rightarrow> (constraint_error + constraint) may_panic" where
  [rust_eval]: "parse_piece source sp = do {
     raw \<leftarrow> str_slice source (fst sp) (snd sp);
     let trimmed_start = leading_ws raw;
     let trimmed_end_rev = leading_ws (rev raw);
     content \<leftarrow> str_slice raw trimmed_start (length raw - trimmed_end_rev);
     let content_start = fst sp + trimmed_start;
     if content = [] then
       Some (Inl \<lparr>ce_span = sp, ce_message = empty_constraint_message\<rparr>)
     else do {
       let (op, op_len) = detect_operator content;
       after_op \<leftarrow> str_slice content op_len (length content);
       let version_start_rel = op_len + leading_ws after_op;
       rest \<leftarrow> str_slice content version_start_rel (length content);
       let version_text = trim_end rest;
       let version_abs_start = content_start + version_start_rel;
       if op_len = 0 \<and> starts_with_operator_char content then do {
         bad \<leftarrow> str_slice content 0 (non_version_prefix_len content);
         Some (Inl \<lparr>ce_span = (content_start, content_start + non_version_prefix_len content),
                    ce_message = ''unknown operator '' @ backquote bad\<rparr>)
       }
       else if version_text = [] then
         Some (Inl \<lparr>ce_span = (content_start, content_start + length content),
                    ce_message = ''operator '' @ backquote (token op) @ '' is missing a version''\<rparr>)
       else (case validate_version version_text of
           Inl err \<Rightarrow>
             Some (Inl \<lparr>ce_span = (version_abs_start, version_abs_start + length version_text),
                        ce_message = ''malformed version '' @ backquote version_text @ '': '' @ err\<rparr>)
         | Inr _ \<Rightarrow>
             Some (Inr \<lparr>c_op = op, c_version = version_text,
                        c_span = (content_start, version_abs_start + length version_text)\<rparr>))
     }
   }"

fun parse_pieces :: "string \<Rightarrow> span list \<Rightarrow> parsed may_panic" where
  "parse_pieces input [] = Some \<lparr>p_constraints = [], p_errors = []\<rparr>"
| "parse_pieces input (piece # pieces) =
     do {
       r \<leftarrow> parse_piece input piece;
       p \<leftarrow> parse_pieces input pieces;
       Some (case r of
           Inr c \<Rightarrow> p\<lparr>p_constraints := c # p_constraints p\<rparr>
         | Inl e \<Rightarrow> p\<lparr>p_errors := e # p_errors p\<rparr>)
     }"

definition parse :: "string \<Rightarrow> parsed may_panic" where
  [rust_eval]: "parse input = parse_pieces input (split_commas input)"

section \<open>The cursor\<close>

fun piece_start_from :: "string \<Rightarrow> nat \<Rightarrow> nat \<Rightarrow> nat \<Rightarrow> nat" where
  "piece_start_from [] i off start = start"
| "piece_start_from (b # bs) i off start =
     (if i \<ge> off then start
      else piece_start_from bs (Suc i) off (if b = CHR '','' then Suc i else start))"

definition split_ws_and_rest :: "string \<Rightarrow> nat \<times> string" where
  [rust_eval]: "split_ws_and_rest s = (leading_ws s, drop (leading_ws s) s)"

definition cursor_slot :: "string \<Rightarrow> nat \<Rightarrow> cursor_slot may_panic" where
  [rust_eval]: "cursor_slot input offset = do {
     let byte_offset = min offset (length input);
     let piece_start = piece_start_from input 0 byte_offset 0;
     before_cursor \<leftarrow> str_slice input piece_start byte_offset;
     trimmed \<leftarrow> str_slice before_cursor (leading_ws before_cursor) (length before_cursor);
     if trimmed = [] then Some AtOperator
     else do {
       let (op, op_len) = detect_operator trimmed;
       if op_len < length trimmed \<and> list_all (\<lambda>b. b \<in> set ''~><=!'') trimmed
       then Some AtOperator
       else do {
         after_op \<leftarrow> str_slice trimmed op_len (length trimmed);
         let (version_pre_ws, version_text_rel) = split_ws_and_rest after_op;
         Some (if version_text_rel = [] then
                 (if op_len = 0 then AtOperator
                  else if version_pre_ws > 0 \<or> op_len > 0 then AfterOperator op
                  else AtOperator)
               else InsideVersion op version_text_rel)
       }
     }
   }"

section \<open>Version keys and their order\<close>

datatype pre_segment = Num nat | Text string

datatype version_key =
  VersionKey (vk_major: int) (vk_minor: int) (vk_patch: int) (vk_stability: nat)
    (vk_pre: "pre_segment list")

instantiation pre_segment :: linorder
begin

definition less_eq_pre_segment :: "pre_segment \<Rightarrow> pre_segment \<Rightarrow> bool" where
  "less_eq_pre_segment a b =
     (case (a, b) of
        (Num m, Num n) \<Rightarrow> m \<le> n
      | (Num _, Text _) \<Rightarrow> True
      | (Text _, Num _) \<Rightarrow> False
      | (Text s, Text t) \<Rightarrow> s \<le> t)"

definition less_pre_segment :: "pre_segment \<Rightarrow> pre_segment \<Rightarrow> bool" where
  "less_pre_segment a b =
     (case (a, b) of
        (Num m, Num n) \<Rightarrow> m < n
      | (Num _, Text _) \<Rightarrow> True
      | (Text _, Num _) \<Rightarrow> False
      | (Text s, Text t) \<Rightarrow> s < t)"

instance
  by standard (auto simp: less_eq_pre_segment_def less_pre_segment_def split: pre_segment.splits)

end

text \<open>The derived order compares the fields in their order of declaration.\<close>

definition vk_tuple :: "version_key \<Rightarrow> int \<times> int \<times> int \<times> nat \<times> pre_segment list" where
  "vk_tuple k = (vk_major k, vk_minor k, vk_patch k, vk_stability k, vk_pre k)"

instantiation version_key :: linorder
begin

definition less_eq_version_key :: "version_key \<Rightarrow> version_key \<Rightarrow> bool" where
  "less_eq_version_key a b \<longleftrightarrow> vk_tuple a \<le> vk_tuple b"

definition less_version_key :: "version_key \<Rightarrow> version_key \<Rightarrow> bool" where
  "less_version_key a b \<longleftrightarrow> vk_tuple a < vk_tuple b"

instance
proof
  fix a b :: version_key
  assume "a \<le> b" and "b \<le> a"
  then have "vk_tuple a = vk_tuple b"
    unfolding less_eq_version_key_def by (rule antisym)
  then show "a = b"
    by (cases a, cases b) (simp add: vk_tuple_def)
qed (auto simp: less_eq_version_key_def less_version_key_def)

end

definition classify_segment :: "string \<Rightarrow> pre_segment" where
  [rust_eval]: "classify_segment seg =
     (if list_all is_ascii_digit seg
      then (case parse_u64 seg of Some n \<Rightarrow> Num n | None \<Rightarrow> Text seg)
      else Text seg)"

definition pre_segments :: "string \<Rightarrow> pre_segment list" where
  [rust_eval]: "pre_segments p =
     map classify_segment (filter (\<lambda>s. s \<noteq> []) (split_on CHR ''.'' (first_piece CHR ''+'' p)))"

text \<open>\<open>parts.next().and_then(|s| s.parse().ok()).unwrap_or(0)\<close>.\<close>

definition part_or_zero :: "string list \<Rightarrow> nat \<Rightarrow> int" where
  [rust_eval]: "part_or_zero parts i =
     (if i < length parts then (case parse_i64 (parts ! i) of Some n \<Rightarrow> n | None \<Rightarrow> 0) else 0)"

definition version_key :: "string \<Rightarrow> version_key option" where
  [rust_eval]: "version_key v =
     (let (core0, pre) = (case split_once CHR ''-'' v of
                            Some (c, p) \<Rightarrow> (c, Some p)
                          | None \<Rightarrow> (v, None));
          parts = split_on CHR ''.'' (first_piece CHR ''+'' core0)
      in case parse_i64 (hd parts) of
           None \<Rightarrow> None
         | Some major \<Rightarrow>
             Some (VersionKey major (part_or_zero parts 1) (part_or_zero parts 2)
               (if pre = None then 1 else 0)
               (case pre of Some p \<Rightarrow> pre_segments p | None \<Rightarrow> [])))"

section \<open>Evaluation of constraints\<close>

definition segment_count :: "string \<Rightarrow> nat" where
  [rust_eval]: "segment_count v =
     length (split_on CHR ''.'' (first_piece CHR ''+'' (first_piece CHR ''-'' v)))"

definition pessimistic_matches :: "string \<Rightarrow> version_key \<Rightarrow> bool" where
  [rust_eval]: "pessimistic_matches constraint_version candidate =
     (case version_key constraint_version of
        None \<Rightarrow> False
      | Some ck \<Rightarrow>
          if candidate < ck then False
          else if segment_count constraint_version \<le> 1 then True
          else if segment_count constraint_version = 2 then vk_major candidate = vk_major ck
          else vk_major candidate = vk_major ck \<and> vk_minor candidate = vk_minor ck)"

definition pre_excluded :: "version_key \<Rightarrow> version_key \<Rightarrow> bool" where
  [rust_eval]: "pre_excluded candidate operand \<longleftrightarrow>
     vk_stability candidate = 0 \<and> vk_stability operand = 1 \<and>
     (vk_major candidate \<noteq> vk_major operand \<or> vk_minor candidate \<noteq> vk_minor operand
       \<or> vk_patch candidate \<noteq> vk_patch operand)"

definition satisfies_one :: "constraint \<Rightarrow> version_key \<Rightarrow> bool" where
  [rust_eval]: "satisfies_one c candidate =
     (case version_key (c_version c) of
        None \<Rightarrow> False
      | Some k \<Rightarrow>
          (case c_op c of
             OpEq \<Rightarrow> candidate = k
           | OpNe \<Rightarrow> candidate \<noteq> k
           | OpGt \<Rightarrow> \<not> pre_excluded candidate k \<and> candidate > k
           | OpGte \<Rightarrow> \<not> pre_excluded candidate k \<and> candidate \<ge> k
           | OpLt \<Rightarrow> \<not> pre_excluded candidate k \<and> candidate < k
           | OpLte \<Rightarrow> \<not> pre_excluded candidate k \<and> candidate \<le> k
           | OpPessimistic \<Rightarrow>
               \<not> pre_excluded candidate k \<and> pessimistic_matches (c_version c) candidate))"

definition satisfies_all :: "constraint list \<Rightarrow> string \<Rightarrow> bool" where
  [rust_eval]: "satisfies_all constraints candidate =
     (case version_key candidate of
        None \<Rightarrow> False
      | Some k \<Rightarrow> list_all (\<lambda>c. satisfies_one c k) constraints)"

text \<open>The \<open>lower_bound\<close> of a constraint, and the loop that keeps the best one.\<close>

definition lower_bound :: "constraint \<Rightarrow> string option" where
  [rust_eval]: "lower_bound c =
     (if c_op c \<in> {OpEq, OpGt, OpGte, OpPessimistic} then Some (c_version c) else None)"

definition min_admitted_step ::
  "(string \<times> version_key) option \<Rightarrow> constraint \<Rightarrow> (string \<times> version_key) option" where
  [rust_eval]: "min_admitted_step best c =
     (case lower_bound c of
        None \<Rightarrow> best
      | Some v \<Rightarrow>
          (case version_key v of
             None \<Rightarrow> best
           | Some key \<Rightarrow>
               (case best of
                  None \<Rightarrow> Some (v, key)
                | Some (_, prev_key) \<Rightarrow> if key > prev_key then Some (v, key) else best)))"

definition min_admitted_version :: "constraint list \<Rightarrow> string option" where
  [rust_eval]: "min_admitted_version constraints =
     map_option fst (foldl min_admitted_step None constraints)"

definition compare_versions :: "string \<Rightarrow> string \<Rightarrow> ordering option" where
  [rust_eval]: "compare_versions a b = do {
     ak \<leftarrow> version_key a;
     bk \<leftarrow> version_key b;
     Some (cmp ak bk)
   }"

definition version_at_least :: "string \<Rightarrow> string \<Rightarrow> bool" where
  [rust_eval]: "version_at_least version threshold =
     (compare_versions version threshold \<in> {Some Greater, Some Equal})"

section \<open>Slices of a constraint string\<close>

text \<open>Skipping ASCII whitespace.\<close>

lemma takeWhile_leading_ws: "takeWhile is_ascii_whitespace s = take (leading_ws s) s"
  unfolding leading_ws_def by (rule takeWhile_eq_take)

lemma drop_leading_ws: "drop (leading_ws s) s = dropWhile is_ascii_whitespace s"
  unfolding leading_ws_def by (rule dropWhile_eq_drop [symmetric])

lemma leading_ws_le: "leading_ws s \<le> length s"
  by (simp add: leading_ws_def length_takeWhile_le)

lemma dropWhile_ws_lead_ok: "lead_ok s \<Longrightarrow> lead_ok (dropWhile is_ascii_whitespace s)"
  by (induction s) (auto simp: whitespace_ascii)

lemma str_slice_skip_ws:
  assumes "lead_ok s"
  shows "str_slice s (leading_ws s) (length s) = Some (dropWhile is_ascii_whitespace s)"
proof -
  have "s = takeWhile is_ascii_whitespace s @ dropWhile is_ascii_whitespace s"
    by simp
  then show ?thesis
    using str_slice_suffix [OF dropWhile_ws_lead_ok [OF assms], of "takeWhile is_ascii_whitespace s"]
    by (simp add: leading_ws_def)
qed

text \<open>The pieces between commas.\<close>

definition piece_text :: "string \<Rightarrow> span \<Rightarrow> string" where
  "piece_text s sp = take (snd sp - fst sp) (drop (fst sp) s)"

lemma split_commas_from_text:
  "CHR '','' \<notin> set cur \<Longrightarrow> input = pre @ cur @ bs \<Longrightarrow>
   map (piece_text input) (split_commas_from bs (length pre + length cur) (length pre))
     = split_on CHR '','' (cur @ bs)"
proof (induction bs arbitrary: pre cur)
  case Nil
  then show ?case
    by (simp add: piece_text_def rust_str)
next
  case (Cons b bs)
  show ?case
  proof (cases "b = CHR '',''")
    case True
    with Cons.prems Cons.IH [of "[]" "pre @ cur @ [b]"] show ?thesis
      by (simp add: piece_text_def rust_str)
  next
    case False
    with Cons.prems Cons.IH [of "cur @ [b]" pre] show ?thesis
      by simp
  qed
qed

lemma split_commas_text: "map (piece_text input) (split_commas input) = split_on CHR '','' input"
  using split_commas_from_text [of "[]" input "[]" input] by (simp add: split_commas_def)


definition piece_at :: "string \<Rightarrow> span \<Rightarrow> bool" where
  "piece_at input sp \<longleftrightarrow>
     (\<exists>p r. input = p @ piece_text input sp @ r \<and> length p = fst sp
        \<and> snd sp = fst sp + length (piece_text input sp)
        \<and> (p = [] \<or> last p = CHR '','') \<and> (r = [] \<or> hd r = CHR '',''))"

lemma piece_atI:
  assumes "input = p @ raw @ r" "sp = (length p, length p + length raw)"
    and "p = [] \<or> last p = CHR '',''" "r = [] \<or> hd r = CHR '',''"
  shows "piece_at input sp"
  using assms by (auto simp: piece_at_def piece_text_def)

lemma split_commas_from_piece_at:
  "input = pre @ cur @ bs \<Longrightarrow> pre = [] \<or> last pre = CHR '','' \<Longrightarrow>
   sp \<in> set (split_commas_from bs (length pre + length cur) (length pre)) \<Longrightarrow> piece_at input sp"
proof (induction bs arbitrary: pre cur)
  case Nil
  then show ?case
    by (intro piece_atI [of _ pre cur "[]"]) auto
next
  case (Cons b bs)
  show ?case
  proof (cases "b = CHR '',''")
    case True
    with Cons.prems have "sp = (length pre, length pre + length cur) \<or>
        sp \<in> set (split_commas_from bs (length (pre @ cur @ [b]) + length ([]::string)) (length (pre @ cur @ [b])))"
      by simp
    then show ?thesis
    proof
      assume "sp = (length pre, length pre + length cur)"
      with Cons.prems True show ?thesis
        by (intro piece_atI [of _ pre cur "b # bs"]) auto
    next
      assume "sp \<in> set (split_commas_from bs (length (pre @ cur @ [b]) + length ([]::string)) (length (pre @ cur @ [b])))"
      moreover have "input = (pre @ cur @ [b]) @ [] @ bs"
        using Cons.prems by simp
      moreover have "pre @ cur @ [b] = [] \<or> last (pre @ cur @ [b]) = CHR '',''"
        using True by simp
      ultimately show ?thesis
        by (rule Cons.IH [rotated -1])
    qed
  next
    case False
    with Cons.prems Cons.IH [of pre "cur @ [b]"] show ?thesis
      by simp
  qed
qed

lemma split_commas_piece_at: "sp \<in> set (split_commas input) \<Longrightarrow> piece_at input sp"
  using split_commas_from_piece_at [of input "[]" "[]" input sp] by (simp add: split_commas_def)

fun shift_span :: "nat \<Rightarrow> span \<Rightarrow> span" where
  "shift_span n (i, j) = (n + i, n + j)"

fun shift_result :: "nat \<Rightarrow> constraint_error + constraint \<Rightarrow> constraint_error + constraint" where
  "shift_result n (Inl e) = Inl (e\<lparr>ce_span := shift_span n (ce_span e)\<rparr>)"
| "shift_result n (Inr c) = Inr (c\<lparr>c_span := shift_span n (c_span c)\<rparr>)"

abbreviation parse_raw :: "string \<Rightarrow> (constraint_error + constraint) may_panic" where
  "parse_raw raw \<equiv> parse_piece raw (0, length raw)"

lemma parse_piece_cong:
  assumes "str_slice s i (i + n) = Some raw"
  shows "parse_piece s (i, i + n) = map_option (shift_result i) (parse_raw raw)"
proof -
  have n: "n = length raw"
    using str_slice_length [OF assms] by simp
  show ?thesis
    using assms
    by (auto simp: n parse_piece_def Let_def bind_eq_Some_conv add.assoc
      split: prod.split sum.split option.split bind_split)
qed

lemma parse_piece_at:
  assumes "lead_ok input" "piece_at input sp"
  shows "parse_piece input sp = map_option (shift_result (fst sp)) (parse_raw (piece_text input sp))
    \<and> lead_ok (piece_text input sp)"
proof -
  from assms(2) obtain p r where *: "input = p @ piece_text input sp @ r" "length p = fst sp"
      "snd sp = fst sp + length (piece_text input sp)"
      "p = [] \<or> last p = CHR '',''" "r = [] \<or> hd r = CHR '',''"
    unfolding piece_at_def by blast
  have comma: "byte CHR '','' < 128" "\<not> is_continuation CHR '',''"
    by (simp_all add: rust_eval)
  have r: "lead_ok (piece_text input sp @ r)"
  proof (cases p rule: rev_cases)
    case Nil
    with * assms show ?thesis by simp
  next
    case (snoc p' c)
    with * comma assms(1) lead_ok_ascii_split [of c p' "piece_text input sp @ r"] show ?thesis
      by (metis append.assoc append_Cons append_Nil last_snoc snoc_eq_iff_butlast)
  qed
  have "lead_ok r"
  proof (cases r)
    case (Cons c r')
    with * comma r lead_ok_ascii_split [of c "piece_text input sp" r'] show ?thesis by auto
  qed simp
  with r *(1) have "str_slice input (length p) (length p + length (piece_text input sp)) = Some (piece_text input sp)"
    by (metis str_slice_append)
  with *(2,3) parse_piece_cong [of input "fst sp" "length (piece_text input sp)" "piece_text input sp"]
  show ?thesis
    using lead_ok_append_left [OF r] by (cases sp) simp
qed



lemma trim_ascii_slice:
  assumes "lead_ok raw" "\<not> list_all is_ascii_whitespace raw"
  obtains w1 content w2 where "raw = w1 @ content @ w2"
    "list_all is_ascii_whitespace w1" "list_all is_ascii_whitespace w2"
    "content \<noteq> []" "\<not> is_ascii_whitespace (hd content)" "\<not> is_ascii_whitespace (last content)"
    "leading_ws raw = length w1" "leading_ws (rev raw) = length w2"
    "str_slice raw (leading_ws raw) (length raw - leading_ws (rev raw)) = Some content"
    "lead_ok content"
proof -
  let ?w1 = "takeWhile is_ascii_whitespace raw"
  let ?d = "dropWhile is_ascii_whitespace raw"
  let ?w2 = "rev (takeWhile is_ascii_whitespace (rev raw))"
  let ?c = "rev (dropWhile is_ascii_whitespace (rev ?d))"
  from assms(2) obtain x where x: "x \<in> set raw" "\<not> is_ascii_whitespace x"
    by (auto simp: list_all_iff)
  have d: "?d \<noteq> []" "\<not> is_ascii_whitespace (hd ?d)"
    using x hd_dropWhile [of is_ascii_whitespace raw] by auto
  have rraw: "rev raw = rev ?d @ rev ?w1"
    by (metis rev_append takeWhile_dropWhile_id)
  have w2: "takeWhile is_ascii_whitespace (rev raw) = takeWhile is_ascii_whitespace (rev ?d)"
    unfolding rraw using d by (intro takeWhile_append1 [of "hd ?d"]) auto
  have dc: "?d = ?c @ ?w2"
    unfolding w2 by (metis rev_append rev_rev_ident takeWhile_dropWhile_id)
  have raw: "raw = ?w1 @ ?c @ ?w2"
    using dc by (metis takeWhile_dropWhile_id)
  have c: "?c \<noteq> []"
    using d(2) hd_in_set [OF d(1)] by auto
  have hdc: "hd ?c = hd ?d"
    using dc c by (metis hd_append2)
  have lastc: "\<not> is_ascii_whitespace (last ?c)"
    using hd_dropWhile [of is_ascii_whitespace "rev ?d"] c by (simp add: last_rev)
  have ok: "lead_ok ?d"
    using assms(1) by (rule dropWhile_ws_lead_ok)
  have okw2: "lead_ok ?w2"
    by (rule utf8_shape_lead_from, rule ascii_utf8_shape)
      (auto simp: list_all_iff whitespace_ascii dest: set_takeWhileD)
  have "str_slice raw (length ?w1) (length ?w1 + length ?c) = Some ?c"
    using str_slice_append [of ?c ?w2 ?w1] ok okw2 dc raw by simp
  moreover have "length raw - length ?w2 = length ?w1 + length ?c"
    by (subst raw) simp
  ultimately have "str_slice raw (leading_ws raw) (length raw - leading_ws (rev raw)) = Some ?c"
    by (simp add: leading_ws_def)
  then show ?thesis
    using that [of ?w1 ?c ?w2] raw c hdc d lastc ok dc lead_ok_append_left [of ?c ?w2]
    by (auto simp: leading_ws_def list_all_iff dest: set_takeWhileD)
qed

lemma detect_operator_token:
  "detect_operator s = (op, n) \<Longrightarrow>
     n = 0 \<and> op = OpEq \<or> take n s = token op \<and> n = length (token op)"
  by (auto simp: detect_operator_def operator_tokens_def starts_with_def split: if_splits)

lemma token_ascii: "list_all (\<lambda>c. byte c < 128) (token op)"
  by (cases op) (simp_all add: byte_def)

lemma detect_operator_cases:
  assumes "detect_operator s = (op, n)"
  shows "n \<le> length s \<and> list_all (\<lambda>c. byte c < 128) (take n s)
    \<and> (n = 0 \<and> op = OpEq \<or> take n s = token op \<and> 0 < n)"
proof (cases "n = 0")
  case True
  then show ?thesis
    using detect_operator_token [OF assms] by (cases op) auto
next
  case False
  then have t: "take n s = token op" "n = length (token op)"
    using detect_operator_token [OF assms] by auto
  then have "n \<le> length s"
    by (metis length_take min.cobounded1)
  with t False token_ascii show ?thesis by simp
qed

lemma token_not_ws: "list_all (\<lambda>c. \<not> is_ascii_whitespace c) (token op)"
  by (cases op) (simp_all add: rust_eval)

lemma parse_raw_blank:
  "list_all is_ascii_whitespace raw \<Longrightarrow> raw \<noteq> [] \<Longrightarrow> parse_raw raw = None"
  by (simp add: parse_piece_def leading_ws_def Let_def list_all_iff str_slice_def)
    (simp add: takeWhile_eq_all_conv [THEN iffD2])

lemma parse_raw_empty:
  "parse_raw [] = Some (Inl \<lparr>ce_span = (0, 0), ce_message = empty_constraint_message\<rparr>)"
  by (simp add: parse_piece_def Let_def leading_ws_def str_slice_def is_char_boundary_def)

lemma operator_prefix_slice:
  assumes "lead_ok s" "starts_with_operator_char s"
  shows "\<exists>bad. str_slice s 0 (non_version_prefix_len s) = Some bad"
proof -
  let ?P = "\<lambda>b. \<not> is_ascii_alphanumeric b \<and> \<not> is_ascii_whitespace b"
  have s: "s \<noteq> []" "?P (hd s)"
    using assms(2) by (auto simp: rust_eval split: list.splits)
  then have "non_version_prefix_len s = length (takeWhile ?P s)"
    by (cases s) (simp_all add: non_version_prefix_len_def)
  moreover have "lead_ok (dropWhile ?P s)"
    using assms(1) by (rule takeWhile_stop_lead_ok) (auto simp: rust_eval)
  ultimately show ?thesis
    using str_slice_prefix [of "dropWhile ?P s" "takeWhile ?P s"] by simp
qed

text \<open>What the non-blank piece comes to, once every slice is known to succeed.\<close>

definition piece_outcome :: "nat \<Rightarrow> string \<Rightarrow> (constraint_error + constraint) may_panic" where
  "piece_outcome start content =
     (let (op, op_len) = detect_operator content;
          version_start_rel = op_len + leading_ws (drop op_len content);
          version_text = trim_end (dropWhile is_ascii_whitespace (drop op_len content));
          version_abs_start = start + version_start_rel
      in if op_len = 0 \<and> starts_with_operator_char content then
           do {
             bad \<leftarrow> str_slice content 0 (non_version_prefix_len content);
             Some (Inl \<lparr>ce_span = (start, start + non_version_prefix_len content),
                 ce_message = ''unknown operator '' @ backquote bad\<rparr>)
           }
         else if version_text = [] then
           Some (Inl \<lparr>ce_span = (start, start + length content),
               ce_message = ''operator '' @ backquote (token op) @ '' is missing a version''\<rparr>)
         else (case validate_version version_text of
             Inl err \<Rightarrow>
               Some (Inl \<lparr>ce_span = (version_abs_start, version_abs_start + length version_text),
                   ce_message = ''malformed version '' @ backquote version_text @ '': '' @ err\<rparr>)
           | Inr _ \<Rightarrow>
               Some (Inr \<lparr>c_op = op, c_version = version_text,
                   c_span = (start, version_abs_start + length version_text)\<rparr>)))"

lemma parse_raw_content:
  assumes "lead_ok raw" "raw = w1 @ content @ w2" "content \<noteq> []" "lead_ok content"
    "leading_ws raw = length w1"
    "str_slice raw (leading_ws raw) (length raw - leading_ws (rev raw)) = Some content"
  shows "parse_raw raw = piece_outcome (length w1) content"
proof -
  obtain op n where det: "detect_operator content = (op, n)" by fastforce
  note D = detect_operator_cases [OF det]
  let ?a = "drop n content"
  have oka: "lead_ok ?a"
    using D assms(4) lead_ok_after_ascii [of "take n content" ?a] by simp
  have s1: "str_slice content n (length content) = Some ?a"
    using str_slice_suffix [OF oka, of "take n content"] D by (simp add: min_absorb2)
  let ?v = "dropWhile is_ascii_whitespace ?a"
  have okv: "lead_ok ?v" using oka by (rule dropWhile_ws_lead_ok)
  have "content = (take n content @ takeWhile is_ascii_whitespace ?a) @ ?v"
    by simp
  then have s2: "str_slice content (n + leading_ws ?a) (length content) = Some ?v"
    using str_slice_suffix [OF okv, of "take n content @ takeWhile is_ascii_whitespace ?a"] D
    by (simp add: min_absorb2 leading_ws_def)
  show ?thesis
    using assms(3,5,6) s1 s2 det
    by (simp add: parse_piece_def piece_outcome_def Let_def split: sum.split)
qed

lemma piece_outcome_total:
  assumes "lead_ok content"
  shows "piece_outcome n content \<noteq> None"
  using operator_prefix_slice [OF assms]
  by (auto simp: piece_outcome_def Let_def split: prod.split sum.split)

lemma parse_raw_cases:
  assumes "lead_ok raw" "\<not> list_all is_ascii_whitespace raw"
  obtains w1 content w2 where "raw = w1 @ content @ w2"
    "list_all is_ascii_whitespace w1" "content \<noteq> []" "\<not> is_ascii_whitespace (hd content)"
    "lead_ok content" "parse_raw raw = piece_outcome (length w1) content"
  by (rule trim_ascii_slice [OF assms], rule that; (assumption | rule parse_raw_content [OF assms(1)]))

lemma parse_raw_None_iff:
  assumes "lead_ok raw"
  shows "parse_raw raw = None \<longleftrightarrow> raw \<noteq> [] \<and> list_all is_ascii_whitespace raw"
proof (cases "list_all is_ascii_whitespace raw")
  case True
  then show ?thesis
    using parse_raw_empty parse_raw_blank [OF True] by (cases "raw = []") auto
next
  case False
  have "parse_raw raw \<noteq> None"
    by (rule parse_raw_cases [OF assms False]) (metis piece_outcome_total)
  with False show ?thesis by simp
qed

text \<open>\<open>parse\<close> over the comma-separated pieces.\<close>

definition summary :: "parsed \<Rightarrow> (constraint_op \<times> string) list \<times> string list" where
  "summary p = (map (\<lambda>c. (c_op c, c_version c)) (p_constraints p), map ce_message (p_errors p))"

lemma parse_pieces_None_iff:
  "parse_pieces input sps = None \<longleftrightarrow> (\<exists>sp \<in> set sps. parse_piece input sp = None)"
  by (induction sps) (auto simp: bind_eq_None_conv)

lemma parse_None_iff:
  assumes "lead_ok input"
  shows "parse input = None \<longleftrightarrow>
    (\<exists>raw \<in> set (split_on CHR '','' input). raw \<noteq> [] \<and> list_all is_ascii_whitespace raw)"
proof -
  have *: "parse_piece input sp = None \<longleftrightarrow> piece_text input sp \<noteq> [] \<and> list_all is_ascii_whitespace (piece_text input sp)"
    if "sp \<in> set (split_commas input)" for sp
    using parse_piece_at [OF assms split_commas_piece_at [OF that]] parse_raw_None_iff by auto
  show ?thesis
    unfolding parse_def parse_pieces_None_iff split_commas_text [symmetric]
    using * by auto
qed

lemma parse_pieces_Cons_iff:
  "parse_pieces input (sp # sps) = Some p \<longleftrightarrow>
     (\<exists>p'. parse_pieces input sps = Some p' \<and>
        ((\<exists>c. parse_piece input sp = Some (Inr c) \<and> p = p'\<lparr>p_constraints := c # p_constraints p'\<rparr>) \<or>
         (\<exists>e. parse_piece input sp = Some (Inl e) \<and> p = p'\<lparr>p_errors := e # p_errors p'\<rparr>)))"
proof (cases "parse_piece input sp")
  case (Some r)
  then show ?thesis
    by (cases r; cases "parse_pieces input sps") auto
qed simp

lemma parse_pieces_length:
  "parse_pieces input sps = Some p \<Longrightarrow>
   length (p_constraints p) + length (p_errors p) = length sps"
  by (induction sps arbitrary: p) (auto simp: parse_pieces_Cons_iff simp del: parse_pieces.simps(2))

lemma parse_pieces_constraints:
  "parse_pieces input sps = Some p \<Longrightarrow> c \<in> set (p_constraints p) \<Longrightarrow>
   \<exists>sp \<in> set sps. parse_piece input sp = Some (Inr c)"
  by (induction sps arbitrary: p)
    (fastforce simp: parse_pieces_Cons_iff simp del: parse_pieces.simps(2))+

lemma trim_end_dropWhile_ws:
  "trim_end s \<noteq> [] \<Longrightarrow> take (length (trim_end s)) s = trim_end s"
  using trim_end_prefix [of s] by (metis append_eq_conv_conj)

lemma parse_raw_constraint:
  assumes "lead_ok raw" "parse_raw raw = Some (Inr c)"
  obtains w1 ws rest tok where
    "raw = w1 @ tok @ ws @ c_version c @ rest"
    "list_all is_ascii_whitespace ws" "list_all is_ascii_whitespace w1"
    "tok = token (c_op c) \<or> tok = [] \<and> c_op c = OpEq \<and> ws = []"
    "c_span c = (length w1, length w1 + length tok + length ws + length (c_version c))"
    "c_version c \<noteq> []" "validate_version (c_version c) = Inr ()"
proof -
  have ne: "\<not> list_all is_ascii_whitespace raw"
    using assms(2) parse_raw_empty parse_raw_blank [of raw] by (cases "raw = []") auto
  obtain w1 content w2 where c: "raw = w1 @ content @ w2" "list_all is_ascii_whitespace w1"
     "content \<noteq> []" "\<not> is_ascii_whitespace (hd content)" "lead_ok content"
     "parse_raw raw = piece_outcome (length w1) content"
    by (rule parse_raw_cases [OF assms(1) ne])
  obtain op n where det: "detect_operator content = (op, n)" by fastforce
  note D = detect_operator_cases [OF det]
  let ?a = "drop n content"
  let ?ws = "takeWhile is_ascii_whitespace ?a"
  let ?v = "dropWhile is_ascii_whitespace ?a"
  from assms(2) c(6) det have r: "c_op c = op" "c_version c = trim_end ?v" "trim_end ?v \<noteq> []"
      "c_span c = (length w1, length w1 + (n + leading_ws ?a) + length (trim_end ?v))"
      "validate_version (trim_end ?v) = Inr ()"
    by (auto simp: piece_outcome_def Let_def bind_eq_Some_conv split: if_splits sum.splits)
  obtain q where q: "?v = trim_end ?v @ q" using trim_end_prefix by blast
  have "content = take n content @ ?ws @ trim_end ?v @ q"
    using q by (metis append_take_drop_id takeWhile_dropWhile_id)
  moreover have "take n content = token op \<or> take n content = [] \<and> op = OpEq \<and> ?ws = []"
    using D c(3,4) by (cases content) auto
  ultimately show ?thesis
    using that [of w1 "take n content" ?ws "q @ w2"] c(1,2) r D
    by (simp add: leading_ws_def min_absorb2 list_all_iff) (metis set_takeWhileD)
qed



fun outcome_summary :: "constraint_error + constraint \<Rightarrow> string + constraint_op \<times> string" where
  "outcome_summary (Inl e) = Inl (ce_message e)"
| "outcome_summary (Inr c) = Inr (c_op c, c_version c)"

fun gather :: "(string + constraint_op \<times> string) list \<Rightarrow> (constraint_op \<times> string) list \<times> string list" where
  "gather [] = ([], [])"
| "gather (Inr x # rs) = (x # fst (gather rs), snd (gather rs))"
| "gather (Inl m # rs) = (fst (gather rs), m # snd (gather rs))"

abbreviation piece_summary :: "string \<Rightarrow> (string + constraint_op \<times> string) may_panic" where
  "piece_summary raw \<equiv> map_option outcome_summary (parse_raw raw)"

lemma outcome_summary_shift [simp]: "outcome_summary (shift_result n r) = outcome_summary r"
  by (cases r) auto

lemma gather_append:
  "gather (xs @ ys) = (fst (gather xs) @ fst (gather ys), snd (gather xs) @ snd (gather ys))"
  by (induction xs rule: gather.induct) auto

lemma summary_cons:
  "summary (p\<lparr>p_constraints := c # cs\<rparr>) = ((c_op c, c_version c) # map (\<lambda>c. (c_op c, c_version c)) cs, snd (summary p))"
  "summary (p\<lparr>p_errors := e # es\<rparr>) = (fst (summary p), ce_message e # map ce_message es)"
  "fst (summary p) = map (\<lambda>c. (c_op c, c_version c)) (p_constraints p)"
  "snd (summary p) = map ce_message (p_errors p)"
  by (simp_all add: summary_def)

lemma parse_pieces_summary:
  assumes "\<forall>sp \<in> set sps. map_option outcome_summary (parse_piece input sp) = piece_summary (piece_text input sp)"
  shows "map_option summary (parse_pieces input sps)
    = map_option gather (those (map piece_summary (map (piece_text input) sps)))"
  using assms
proof (induction sps)
  case Nil
  then show ?case by (simp add: summary_def)
next
  case (Cons sp sps)
  then have IH: "map_option summary (parse_pieces input sps)
      = map_option gather (those (map piece_summary (map (piece_text input) sps)))"
    by simp
  show ?case
  proof (cases "parse_piece input sp")
    case None
    with Cons.prems have "piece_summary (piece_text input sp) = None" by auto
    with None show ?thesis by simp
  next
    case (Some r)
    with Cons.prems have "piece_summary (piece_text input sp) = Some (outcome_summary r)"
      by auto
    with Some IH show ?thesis
      by (cases "parse_pieces input sps"; cases r;
          cases "those (map piece_summary (map (piece_text input) sps))")
        (auto simp: summary_cons(1,2) summary_cons(3,4) [symmetric])
  qed
qed

lemma parse_summary:
  assumes "lead_ok input"
  shows "map_option summary (parse input)
    = map_option gather (those (map piece_summary (split_on CHR '','' input)))"
proof -
  have "map_option outcome_summary (parse_piece input sp) = piece_summary (piece_text input sp)"
    if "sp \<in> set (split_commas input)" for sp
    using parse_piece_at [OF assms split_commas_piece_at [OF that]]
    by (simp add: option.map_comp comp_def)
  then show ?thesis
    unfolding parse_def split_commas_text [symmetric] by (intro parse_pieces_summary) blast
qed

lemma those_append:
  "those (xs @ ys) = (case those xs of None \<Rightarrow> None | Some a \<Rightarrow> map_option ((@) a) (those ys))"
proof (induction xs)
  case Nil
  show ?case by (cases "those ys") auto
next
  case (Cons x xs)
  then show ?case
    by (cases x; cases "those xs"; cases "those ys") auto
qed

lemma split_on_comma_append: "split_on d (a @ d # b) = split_on d a @ split_on d b"
  by (induction a) (auto split: list.splits)

lemma parse_comma_summary:
  assumes "utf8_shape a" "utf8_shape b" "parse a = Some pa" "parse b = Some pb"
  obtains p where "parse (a @ '','' @ b) = Some p"
    "summary p = (fst (summary pa) @ fst (summary pb), snd (summary pa) @ snd (summary pb))"
proof -
  have ok: "lead_ok a" "lead_ok b" using assms utf8_shape_lead_from by blast+
  have okab: "lead_ok (a @ CHR '','' # b)"
    using ok by (simp add: lead_ok_ascii_split byte_def)
  have "map_option gather (those (map piece_summary (split_on CHR '','' a))) = Some (summary pa)"
    using parse_summary [OF ok(1)] assms(3) by simp
  then obtain ra where ra: "those (map piece_summary (split_on CHR '','' a)) = Some ra"
      "gather ra = summary pa"
    unfolding map_option_eq_Some by blast
  have "map_option gather (those (map piece_summary (split_on CHR '','' b))) = Some (summary pb)"
    using parse_summary [OF ok(2)] assms(4) by simp
  then obtain rb where rb: "those (map piece_summary (split_on CHR '','' b)) = Some rb"
      "gather rb = summary pb"
    unfolding map_option_eq_Some by blast
  from ra rb have "map_option summary (parse (a @ CHR '','' # b)) = Some (gather (ra @ rb))"
    by (simp add: parse_summary [OF okab] split_on_comma_append those_append)
  with ra rb that show ?thesis by (auto simp: gather_append)
qed

lemma satisfies_one_cong:
  "c_op c = c_op d \<Longrightarrow> c_version c = c_version d \<Longrightarrow> satisfies_one c k = satisfies_one d k"
  by (simp add: satisfies_one_def split: option.split constraint_op.split)

definition bare :: "constraint_op \<times> string \<Rightarrow> constraint" where
  "bare x = \<lparr>c_op = fst x, c_version = snd x, c_span = (0, 0)\<rparr>"

lemma satisfies_one_bare: "satisfies_one (bare (c_op c, c_version c)) k = satisfies_one c k"
  by (rule satisfies_one_cong) (simp_all add: bare_def)

lemma satisfies_all_summary:
  assumes "fst (summary p) = fst (summary q) @ fst (summary r)"
  shows "satisfies_all (p_constraints p) v
    \<longleftrightarrow> satisfies_all (p_constraints q) v \<and> satisfies_all (p_constraints r) v"
proof -
  have *: "list_all (\<lambda>c. satisfies_one c k) (p_constraints p)
      \<longleftrightarrow> list_all (\<lambda>x. satisfies_one (bare x) k) (fst (summary p))" for k p
    by (simp add: summary_def list_all_iff satisfies_one_bare)
  show ?thesis
    by (simp add: satisfies_all_def * assms split: option.split)
qed

section \<open>Printed constraints are read back\<close>

definition plain_version :: "string \<Rightarrow> bool" where
  "plain_version v \<longleftrightarrow> validate_version v = Inr () \<and>
     list_all (\<lambda>c. is_ascii_alphanumeric c \<or> c \<in> set ''.+-'') v"

lemma check_segments_ok:
  "check_segments ps = Inr () \<longleftrightarrow> (\<forall>p \<in> set ps. p \<noteq> [] \<and> list_all is_ascii_digit p)"
  by (induction ps) auto

lemma takeWhile_hd: "takeWhile P s \<noteq> [] \<Longrightarrow> hd (takeWhile P s) = hd s"
  by (cases s) auto

lemma validate_version_hd:
  assumes "validate_version v = Inr ()"
  shows "v \<noteq> [] \<and> is_ascii_digit (hd v)"
proof -
  let ?core = "takeWhile (\<lambda>c. c \<noteq> CHR ''-'') (takeWhile (\<lambda>c. c \<noteq> CHR ''+'') v)"
  let ?seg = "takeWhile (\<lambda>c. c \<noteq> CHR ''.'') ?core"
  from assms have v: "v \<noteq> []" "?core \<noteq> []"
      "\<forall>p \<in> set (split_on CHR ''.'' ?core). p \<noteq> [] \<and> list_all is_ascii_digit p"
    by (auto simp: validate_version_def first_piece_takeWhile check_segments_ok Let_def split: if_splits)
  moreover have "?seg \<in> set (split_on CHR ''.'' ?core)"
    using hd_in_set [OF split_on_not_Nil, of "CHR ''.''" ?core] by (simp add: hd_split_on)
  ultimately have s: "?seg \<noteq> []" "is_ascii_digit (hd ?seg)"
    by (auto simp: list_all_iff)
  have "hd ?seg = hd v"
    using s(1) v by (metis takeWhile_hd takeWhile.simps(1))
  with s v show ?thesis by simp
qed

lemma plain_char:
  "is_ascii_alphanumeric c \<or> c \<in> set ''.+-'' \<Longrightarrow>
     byte c < 128 \<and> \<not> is_ascii_whitespace c \<and> c \<noteq> CHR '','' \<and> byte c \<noteq> 11"
  by (auto simp: rust_eval)

lemma trim_end_plain:
  assumes "plain_version v"
  shows "trim_end v = v"
proof -
  have "v \<noteq> []"
    using assms validate_version_hd by (simp add: plain_version_def)
  then have "last v \<in> set v" by simp
  with assms have "byte (last v) < 128" "\<not> is_ascii_whitespace (last v)" "byte (last v) \<noteq> 11"
    using plain_char [of "last v"] by (auto simp: plain_version_def list_all_iff)
  then have "whitespace_len_rev (rev v) = 0"
    using \<open>v \<noteq> []\<close>
    by (cases v rule: rev_cases)
      (auto simp: whitespace_len_rev_def is_ascii_whitespace_def split: list.splits)
  then show ?thesis
    by (simp add: trim_end_def trim_end_rev.simps [of "rev v"])
qed


text \<open>
  A written constraint: whitespace, an operator (or none), whitespace, a version, whitespace.
\<close>

type_synonym written = "string \<times> constraint_op option \<times> string \<times> string \<times> string"

fun write_piece :: "written \<Rightarrow> string" where
  "write_piece (w1, opt, ws, v, w2) =
     w1 @ (case opt of Some op \<Rightarrow> token op @ ws | None \<Rightarrow> []) @ v @ w2"

fun written_ok :: "written \<Rightarrow> bool" where
  "written_ok (w1, opt, ws, v, w2) \<longleftrightarrow>
     list_all is_ascii_whitespace w1 \<and> list_all is_ascii_whitespace ws
     \<and> list_all is_ascii_whitespace w2 \<and> plain_version v"

fun written_meaning :: "written \<Rightarrow> constraint_op \<times> string" where
  "written_meaning (w1, opt, ws, v, w2) = (case opt of Some op \<Rightarrow> op | None \<Rightarrow> OpEq, v)"

lemma written_chars:
  assumes "written_ok w" "c \<in> set (write_piece w)"
  shows "byte c < 128 \<and> c \<noteq> CHR '',''"
proof -
  obtain w1 opt ws v w2 where w: "w = (w1, opt, ws, v, w2)" by (cases w)
  have ws: "is_ascii_whitespace d \<Longrightarrow> byte d < 128 \<and> d \<noteq> CHR '',''" for d
    by (auto simp: rust_eval)
  have tok: "d \<in> set (token op) \<Longrightarrow> byte d < 128 \<and> d \<noteq> CHR '',''" for d op
    by (cases op) (auto simp: rust_eval)
  have v: "d \<in> set v \<Longrightarrow> byte d < 128 \<and> d \<noteq> CHR '',''" for d
    using assms(1) plain_char [of d] by (simp add: w list_all_iff plain_version_def)
  from assms ws tok v show ?thesis
    by (auto simp: w list_all_iff split: option.splits)
qed

lemma detect_operator_token_append:
  assumes "r \<noteq> []" "is_ascii_whitespace (hd r) \<or> is_ascii_digit (hd r)"
  shows "detect_operator (token op @ r) = (op, length (token op))"
proof -
  have "hd r \<noteq> CHR ''=''" "hd r \<noteq> CHR ''>''"
    using assms(2) by (auto simp: rust_eval)
  with assms(1) show ?thesis
    by (cases r; cases op) (simp_all add: rust_eval)
qed

lemma detect_operator_digit:
  assumes "is_ascii_digit (hd v)" "v \<noteq> []"
  shows "detect_operator (v @ s) = (OpEq, 0)"
proof -
  have "hd v \<notin> set ''~><!=''"
    using assms(1) by (auto simp: rust_eval)
  with assms(2) show ?thesis
    by (cases v) (simp_all add: rust_eval)
qed

lemma leading_ws_append:
  "list_all is_ascii_whitespace w \<Longrightarrow> s \<noteq> [] \<Longrightarrow> \<not> is_ascii_whitespace (hd s) \<Longrightarrow>
   leading_ws (w @ s) = length w \<and> dropWhile is_ascii_whitespace (w @ s) = s"
  by (cases s) (auto simp: leading_ws_def list_all_iff)

text \<open>The content between the outer whitespace reads back as operator and version.\<close>

lemma piece_outcome_written:
  assumes "plain_version v" "list_all is_ascii_whitespace ws"
  shows "map_option outcome_summary
      (piece_outcome n ((case opt of Some op \<Rightarrow> token op @ ws | None \<Rightarrow> []) @ v))
    = Some (Inr (case opt of Some op \<Rightarrow> op | None \<Rightarrow> OpEq, v))"
proof -
  have v: "v \<noteq> []" "is_ascii_digit (hd v)" "\<not> is_ascii_whitespace (hd v)"
      "validate_version v = Inr ()"
    using assms(1) validate_version_hd digit_not_whitespace by (auto simp: plain_version_def)
  note lw = leading_ws_append [OF assms(2) v(1,3)] leading_ws_append [of "[]" v, simplified, OF v(1,3)]
  show ?thesis
  proof (cases opt)
    case None
    have "\<not> starts_with_operator_char v"
      using v by (cases v) (auto simp: rust_eval)
    with None v lw show ?thesis
      using detect_operator_digit [OF v(2,1), of "[]"]
      by (simp add: piece_outcome_def trim_end_plain [OF assms(1)])
  next
    case (Some op)
    have "hd (ws @ v) = (if ws = [] then hd v else hd ws)" by simp
    then have "is_ascii_whitespace (hd (ws @ v)) \<or> is_ascii_digit (hd (ws @ v))"
      using v assms(2) by (cases ws) auto
    with v have "detect_operator (token op @ ws @ v) = (op, length (token op))"
      by (intro detect_operator_token_append) auto
    moreover have "length (token op) \<noteq> 0" by (cases op) auto
    ultimately show ?thesis
      using Some v lw by (simp add: piece_outcome_def trim_end_plain [OF assms(1)])
  qed
qed

declare written_ok.simps [simp del] write_piece.simps [simp del]

lemma piece_summary_written:
  assumes "written_ok w"
  shows "piece_summary (write_piece w) = Some (Inr (written_meaning w))"
proof -
  obtain w1 opt ws v w2 where w: "w = (w1, opt, ws, v, w2)" by (cases w)
  let ?c = "(case opt of Some op \<Rightarrow> token op @ ws | None \<Rightarrow> []) @ v"
  have raw: "write_piece w = w1 @ ?c @ w2" by (simp add: w write_piece.simps)
  have ok: "list_all is_ascii_whitespace w1" "list_all is_ascii_whitespace ws"
      "list_all is_ascii_whitespace w2" "plain_version v"
    using assms by (simp_all add: w written_ok.simps)
  have v: "v \<noteq> []" "is_ascii_digit (hd v)" "\<not> is_ascii_whitespace (hd v)"
    using ok(4) validate_version_hd digit_not_whitespace by (auto simp: plain_version_def)
  have last: "\<not> is_ascii_whitespace (last ?c)"
    using ok(4) v(1) plain_char [of "last v"] by (auto simp: plain_version_def list_all_iff)
  have hd: "\<not> is_ascii_whitespace (hd ?c)"
    using v token_not_ws [of "the opt"] by (cases opt; cases "the opt") auto
  have ascii: "list_all (\<lambda>c. byte c < 128) (write_piece w)"
    using written_chars [OF assms] by (auto simp: list_all_iff)
  have okall: "lead_ok (w1 @ ?c @ w2)" "lead_ok (?c @ w2)" "lead_ok w2" "lead_ok ?c"
    using ascii unfolding raw by (auto intro!: utf8_shape_lead_from ascii_utf8_shape)
  have lw: "leading_ws (w1 @ ?c @ w2) = length w1"
    using leading_ws_append [OF ok(1), of "?c @ w2"] v hd hd_append2 [of ?c w2] by simp
  have "leading_ws (rev w2 @ rev ?c @ rev w1) = length w2"
    using leading_ws_append [of "rev w2" "rev ?c @ rev w1"] ok(3) v last
    by (auto simp: hd_append hd_rev)
  then have rw: "leading_ws (rev (w1 @ ?c @ w2)) = length w2" by simp
  have "str_slice (w1 @ ?c @ w2) (leading_ws (w1 @ ?c @ w2))
      (length (w1 @ ?c @ w2) - leading_ws (rev (w1 @ ?c @ w2))) = Some ?c"
    unfolding lw rw using str_slice_append [OF okall(2,3), of w1] by simp
  then have "parse_raw (w1 @ ?c @ w2) = piece_outcome (length w1) ?c"
    using v by (intro parse_raw_content [OF okall(1) refl _ okall(4) lw]) auto
  with piece_outcome_written [OF ok(4,2)] show ?thesis
    unfolding raw by (simp add: w)
qed

lemma split_on_join:
  "ps \<noteq> [] \<Longrightarrow> \<forall>p \<in> set ps. d \<notin> set p \<Longrightarrow> split_on d (join_with [d] ps) = ps"
  by (induction "[d]" ps rule: join_with.induct) (auto simp: rust_str)

lemma lead_ok_join:
  "\<forall>p \<in> set ps. list_all (\<lambda>c. byte c < 128) p \<Longrightarrow> lead_ok (join_with '','' ps)"
proof -
  assume "\<forall>p \<in> set ps. list_all (\<lambda>c. byte c < 128) p"
  then have "list_all (\<lambda>c. byte c < 128) (join_with '','' ps)"
    by (induction "'',''" ps rule: join_with.induct) (auto simp: byte_def)
  then show ?thesis
    by (intro utf8_shape_lead_from ascii_utf8_shape)
qed

lemma gather_Inr: "gather (map (\<lambda>x. Inr (f x)) xs) = (map f xs, [])"
  by (induction xs) auto

lemma those_map_Some: "those (map (\<lambda>x. Some (f x)) xs) = Some (map f xs)"
  by (induction xs) auto

lemma parse_written:
  assumes "ws \<noteq> []" "list_all written_ok ws"
  shows "map_option summary (parse (join_with '','' (map write_piece ws)))
    = Some (map written_meaning ws, [])"
proof -
  have pieces: "split_on CHR '','' (join_with '','' (map write_piece ws)) = map write_piece ws"
    using assms(1)
  proof (intro split_on_join ballI)
    fix p
    assume "p \<in> set (map write_piece ws)"
    then show "CHR '','' \<notin> set p"
      using assms(2) written_chars by (fastforce simp: list_all_iff)
  qed simp
  have ok: "lead_ok (join_with '','' (map write_piece ws))"
    using assms(2) written_chars by (intro lead_ok_join) (auto simp: list_all_iff)
  have "map piece_summary (map write_piece ws) = map (\<lambda>w. Some (Inr (written_meaning w))) ws"
    using assms(2) piece_summary_written by (auto simp: list_all_iff)
  then show ?thesis
    unfolding parse_summary [OF ok] pieces
    by (simp only: those_map_Some option.map gather_Inr)
qed



section \<open>Keys read from version strings\<close>

definition key_ok :: "version_key \<Rightarrow> bool" where
  "key_ok k \<longleftrightarrow> 0 \<le> vk_major k \<and> 0 \<le> vk_minor k \<and> 0 \<le> vk_patch k
     \<and> vk_stability k \<le> 1 \<and> (vk_stability k = 1 \<longrightarrow> vk_pre k = [])"

lemma parse_i64_nonneg:
  assumes "parse_i64 s = Some n" "CHR ''-'' \<notin> set s"
  shows "0 \<le> n"
  using assms by (auto simp: parse_i64_def split: list.splits option.splits if_splits)

lemma part_or_zero_nonneg:
  "\<forall>p \<in> set parts. CHR ''-'' \<notin> set p \<Longrightarrow> 0 \<le> part_or_zero parts i"
  by (auto simp: part_or_zero_def split: option.split dest: parse_i64_nonneg nth_mem)

lemma set_split_on: "p \<in> set (split_on d s) \<Longrightarrow> set p \<subseteq> set s"
  by (induction s arbitrary: p) (fastforce split: list.splits if_splits)+

lemma version_key_ok:
  assumes "version_key v = Some k"
  shows "key_ok k"
proof -
  let ?core = "takeWhile (\<lambda>c. c \<noteq> CHR ''-'') v"
  let ?parts = "split_on CHR ''.'' (takeWhile (\<lambda>c. c \<noteq> CHR ''+'') ?core)"
  have core: "CHR ''-'' \<notin> set (takeWhile (\<lambda>c. c \<noteq> CHR ''+'') ?core)"
    by (auto dest!: set_takeWhileD)
  then have parts: "\<forall>p \<in> set ?parts. CHR ''-'' \<notin> set p"
    using set_split_on by fastforce
  have *: "takeWhile (\<lambda>c. c \<noteq> CHR ''-'') v = v" if "CHR ''-'' \<notin> set v"
    using that by auto
  from assms have k: "parse_i64 (hd ?parts) = Some (vk_major k)"
      "vk_minor k = part_or_zero ?parts 1" "vk_patch k = part_or_zero ?parts 2"
      "vk_stability k \<le> 1" "vk_stability k = 1 \<longrightarrow> vk_pre k = []"
    by (auto simp: version_key_def split_once_cases first_piece_takeWhile Let_def *
        split: if_splits option.splits)
  have "0 \<le> vk_major k"
    using parse_i64_nonneg [OF k(1)] parts by simp
  with k part_or_zero_nonneg [OF parts] show ?thesis
    by (simp add: key_ok_def)
qed

lemma key_less_iff:
  "VersionKey a b c s p < VersionKey a' b' c' s' p' \<longleftrightarrow>
     a < a' \<or> a = a' \<and> (b < b' \<or> b = b' \<and> (c < c' \<or> c = c' \<and>
       (s < s' \<or> s = s' \<and> p < p')))"
  by (auto simp: less_version_key_def vk_tuple_def less_prod_def')

lemma major_window:
  assumes "key_ok c" "vk_stability k = 1" "\<not> pre_excluded c k" "k \<le> c"
  shows "vk_major c = vk_major k \<longleftrightarrow> c < VersionKey (vk_major k + 1) 0 0 1 []"
proof -
  obtain a b p s q where c: "c = VersionKey a b p s q" by (cases c)
  obtain a' b' p' s' q' where k: "k = VersionKey a' b' p' s' q'" by (cases k)
  have "a' \<le> a"
    using assms(4) by (auto simp: c k not_less [symmetric] key_less_iff)
  moreover have "s \<noteq> 0 \<or> a = a'"
    using assms by (auto simp: pre_excluded_def c k)
  ultimately show ?thesis
    using assms(1) by (auto simp: c k key_less_iff key_ok_def)
qed

lemma minor_window:
  assumes "key_ok c" "vk_stability k = 1" "\<not> pre_excluded c k" "k \<le> c"
  shows "vk_major c = vk_major k \<and> vk_minor c = vk_minor k
    \<longleftrightarrow> c < VersionKey (vk_major k) (vk_minor k + 1) 0 1 []"
proof -
  obtain a b p s q where c: "c = VersionKey a b p s q" by (cases c)
  obtain a' b' p' s' q' where k: "k = VersionKey a' b' p' s' q'" by (cases k)
  have "a' < a \<or> a = a' \<and> b' \<le> b"
    using assms(4) by (auto simp: c k not_less [symmetric] key_less_iff)
  moreover have "s \<noteq> 0 \<or> a = a' \<and> b = b'"
    using assms by (auto simp: pre_excluded_def c k)
  ultimately show ?thesis
    using assms(1) by (auto simp: c k key_less_iff key_ok_def)
qed

section \<open>The lowest admitted version\<close>

definition lower_candidate :: "constraint \<Rightarrow> (string \<times> version_key) option" where
  "lower_candidate c = do { v \<leftarrow> lower_bound c; k \<leftarrow> version_key v; Some (v, k) }"

interpretation lowest: keep_best min_admitted_step lower_candidate snd
  by unfold_locales
    (auto simp: min_admitted_step_def lower_candidate_def bind_eq_Some_conv bind_eq_None_conv
      split: option.splits)

lemma satisfies_one_lower_bound:
  assumes "satisfies_one c k" "lower_bound c = Some w" "version_key w = Some kw"
  shows "kw \<le> k"
  using assms
  by (auto simp: satisfies_one_def lower_bound_def pessimistic_matches_def
      split: option.splits constraint_op.splits if_splits)

section \<open>The cursor\<close>

lemma piece_start_from_eq:
  "i + length bs = off \<Longrightarrow> CHR '','' \<notin> set bs \<Longrightarrow> piece_start_from (bs @ r) i off start = start"
  by (induction bs arbitrary: i; cases r) auto

lemma piece_start_after_comma:
  "length (p @ CHR '','' # q) + i \<le> off \<Longrightarrow>
   piece_start_from (p @ CHR '','' # q @ r) i off start
     = piece_start_from (q @ r) (i + Suc (length p)) off (i + Suc (length p))"
  by (induction p arbitrary: i start) auto

section \<open>Properties\<close>


text \<open>
  C34. Parsing panics on exactly the inputs in which some comma-separated piece is nonempty
  and blank: there the two whitespace counts overlap and the slice
  \<open>&raw[trimmed_start..raw.len() - trimmed_end_rev]\<close> runs backwards. A trailing
  comma followed by a space is enough.
\<close>

theorem parse_panics_iff_blank_piece:
  assumes "utf8_shape input"
  shows "parse input = None \<longleftrightarrow>
    (\<exists>piece \<in> set (split_on CHR '','' input). piece \<noteq> [] \<and> list_all is_ascii_whitespace piece)"
  using parse_None_iff [OF utf8_shape_lead_from [OF assms]] .

theorem parse_panics_iff_blank_piece_witness:
  "utf8_shape ''>= 1.0, '' \<and> parse ''>= 1.0, '' = None"
proof -
  have h: "utf8_shape ''>= 1.0, ''"
    by (simp add: rust_eval)
  have "parse ''>= 1.0, '' = None"
    unfolding parse_panics_iff_blank_piece [OF h]
    by (simp add: rust_eval)
  with h show ?thesis by blast
qed

text \<open>
  Every constraint that \<open>parse\<close> returns carries a span inside the input, and the text under
  the span is the operator token (nothing for a bare version, which means \<open>=\<close>), ASCII
  whitespace, and the version, which passed \<open>validate_version\<close>.
\<close>

theorem parse_constraint_span:
  assumes "utf8_shape input" "parse input = Some p" "c \<in> set (p_constraints p)"
  shows "\<exists>tok ws. fst (c_span c) < snd (c_span c) \<and> snd (c_span c) \<le> length input
    \<and> piece_text input (c_span c) = tok @ ws @ c_version c
    \<and> (tok = token (c_op c) \<or> tok = [] \<and> ws = [] \<and> c_op c = OpEq)
    \<and> list_all is_ascii_whitespace ws \<and> validate_version (c_version c) = Inr ()"
proof -
  have ok: "lead_ok input" using assms(1) by (rule utf8_shape_lead_from)
  obtain sp where sp: "sp \<in> set (split_commas input)" "parse_piece input sp = Some (Inr c)"
    using parse_pieces_constraints assms(2,3) unfolding parse_def by blast
  note at = parse_piece_at [OF ok split_commas_piece_at [OF sp(1)]]
  obtain r where r: "parse_raw (piece_text input sp) = Some r" "shift_result (fst sp) r = Inr c"
    using at sp(2) by (cases "parse_raw (piece_text input sp)") auto
  obtain d where d: "parse_raw (piece_text input sp) = Some (Inr d)" "shift_result (fst sp) (Inr d) = Inr c"
    using r by (cases r) auto
  obtain w1 ws rest tok where w: "piece_text input sp = w1 @ tok @ ws @ c_version d @ rest"
      "list_all is_ascii_whitespace ws"
      "tok = token (c_op d) \<or> tok = [] \<and> c_op d = OpEq \<and> ws = []"
      "c_span d = (length w1, length w1 + length tok + length ws + length (c_version d))"
      "c_version d \<noteq> []" "validate_version (c_version d) = Inr ()"
    by (rule parse_raw_constraint [OF conjunct2 [OF at] d(1)])
  obtain q s where q: "input = q @ piece_text input sp @ s" "length q = fst sp"
    using split_commas_piece_at [OF sp(1)] unfolding piece_at_def by blast
  have c: "c_op c = c_op d" "c_version c = c_version d"
      "c_span c = (fst sp + length w1, fst sp + (length w1 + length tok + length ws + length (c_version d)))"
    using d(2) w(4) by auto
  have input: "input = (q @ w1) @ (tok @ ws @ c_version d) @ rest @ s"
    using q(1) w(1) by simp
  have span: "c_span c = (length (q @ w1), length (q @ w1) + length (tok @ ws @ c_version d))"
    using c(3) q(2) by simp
  have "piece_text input (c_span c) = tok @ ws @ c_version c"
    unfolding span c(2) by (subst input) (simp add: piece_text_def)
  moreover have "snd (c_span c) \<le> length input"
    unfolding span by (subst input) simp
  moreover have "fst (c_span c) < snd (c_span c)"
    using w(5) by (simp add: span)
  ultimately show ?thesis
    using w(2,3,6) by (auto simp: c(1,2))
qed

theorem parse_constraint_span_witness:
  "\<exists>tok ws. piece_text '', > 1.2'' (2, 7) = tok @ ws @ ''1.2''
    \<and> (tok = token OpGt \<or> tok = [] \<and> ws = [] \<and> OpGt = OpEq)
    \<and> list_all is_ascii_whitespace ws \<and> validate_version ''1.2'' = Inr ()"
proof -
  let ?c = "\<lparr>c_op = OpGt, c_version = ''1.2'', c_span = (2, 7)\<rparr>"
  have u: "utf8_shape '', > 1.2''"
    by (simp add: rust_eval)
  have p: "parse '', > 1.2'' = Some \<lparr>p_constraints = [?c],
      p_errors = [\<lparr>ce_span = (0, 0), ce_message = empty_constraint_message\<rparr>]\<rparr>"
    by (simp add: rust_eval trim_end_rev.simps)
  show ?thesis
    using parse_constraint_span [OF u p, of ?c] by auto
qed

text \<open>
  C35. Printing then parsing: any nonempty list of constraints, each written as an optional operator
  and a well-formed version with arbitrary ASCII whitespace before, between and after, and
  joined by commas, parses without error to exactly those operators and versions.
\<close>

theorem parse_reads_written:
  assumes "ws \<noteq> []" "list_all written_ok ws"
  shows "\<exists>p. parse (join_with '','' (map write_piece ws)) = Some p
    \<and> map (\<lambda>c. (c_op c, c_version c)) (p_constraints p) = map written_meaning ws
    \<and> p_errors p = []"
  using parse_written [OF assms] by (auto simp: summary_def)

theorem parse_reads_written_witness:
  "\<exists>p. parse ''~>1.2, >= 3.0-rc '' = Some p
    \<and> map (\<lambda>c. (c_op c, c_version c)) (p_constraints p) = [(OpPessimistic, ''1.2''), (OpGte, ''3.0-rc'')]
    \<and> p_errors p = []"
proof -
  let ?ws = "[([], Some OpPessimistic, [], ''1.2'', []), ('' '', Some OpGte, '' '', ''3.0-rc'', '' '')]"
  have "list_all written_ok ?ws"
    by (simp add: written_ok.simps plain_version_def rust_eval)
  from parse_reads_written [OF _ this] show ?thesis
    by (simp add: write_piece.simps)
qed

text \<open>
  A comma is conjunction: if two constraint strings parse, their comma-join parses, and a
  candidate satisfies the join exactly when it satisfies both.
\<close>

theorem comma_is_conjunction:
  assumes "utf8_shape a" "utf8_shape b" "parse a = Some pa" "parse b = Some pb"
  shows "\<exists>p. parse (a @ '','' @ b) = Some p
    \<and> length (p_errors p) = length (p_errors pa) + length (p_errors pb)
    \<and> (\<forall>v. satisfies_all (p_constraints p) v
          \<longleftrightarrow> satisfies_all (p_constraints pa) v \<and> satisfies_all (p_constraints pb) v)"
proof -
  obtain p where p: "parse (a @ '','' @ b) = Some p"
      "summary p = (fst (summary pa) @ fst (summary pb), snd (summary pa) @ snd (summary pb))"
    by (rule parse_comma_summary [OF assms])
  have "length (p_errors p) = length (snd (summary p))"
    by (simp add: summary_def)
  with p satisfies_all_summary [of p pa pb] show ?thesis
    by (auto simp: summary_def)
qed

theorem comma_is_conjunction_witness:
  "\<exists>p. parse (''>= 1.0'' @ '','' @ ''< 2.0'') = Some p
    \<and> length (p_errors p) = 0
    \<and> (\<forall>v. satisfies_all (p_constraints p) v
          \<longleftrightarrow> satisfies_all [\<lparr>c_op = OpGte, c_version = ''1.0'', c_span = (0, 6)\<rparr>] v
            \<and> satisfies_all [\<lparr>c_op = OpLt, c_version = ''2.0'', c_span = (0, 5)\<rparr>] v)"
proof -
  have u: "utf8_shape ''>= 1.0''" "utf8_shape ''< 2.0''"
    by (simp_all add: rust_eval)
  have p: "parse ''>= 1.0'' = Some \<lparr>p_constraints = [\<lparr>c_op = OpGte, c_version = ''1.0'', c_span = (0, 6)\<rparr>], p_errors = []\<rparr>"
      "parse ''< 2.0'' = Some \<lparr>p_constraints = [\<lparr>c_op = OpLt, c_version = ''2.0'', c_span = (0, 5)\<rparr>], p_errors = []\<rparr>"
    by (simp_all add: rust_eval trim_end_rev.simps)
  show ?thesis
    using comma_is_conjunction [OF u p] by simp
qed

text \<open>
  The pessimistic operator is a half-open window: for a stable operand, \<open>~> A.B.C\<close> admits
  what \<open>>= A.B.C\<close> admits below \<open>A.(B+1).0\<close>, \<open>~> A.B\<close> what \<open>>= A.B\<close> admits below
  \<open>(A+1).0.0\<close>, and \<open>~> A\<close> is \<open>>= A\<close>.
\<close>

theorem pessimistic_is_window:
  assumes "version_key v = Some k" "vk_stability k = 1" "version_key w = Some c"
  shows "satisfies_one \<lparr>c_op = OpPessimistic, c_version = v, c_span = sp\<rparr> c \<longleftrightarrow>
    satisfies_one \<lparr>c_op = OpGte, c_version = v, c_span = sp\<rparr> c \<and>
    (if segment_count v \<le> 1 then True
     else if segment_count v = 2 then c < VersionKey (vk_major k + 1) 0 0 1 []
     else c < VersionKey (vk_major k) (vk_minor k + 1) 0 1 [])"
proof (cases "\<not> pre_excluded c k \<and> k \<le> c")
  case True
  then show ?thesis
    using assms major_window [OF version_key_ok [OF assms(3)] assms(2)]
      minor_window [OF version_key_ok [OF assms(3)] assms(2)]
    by (auto simp: satisfies_one_def pessimistic_matches_def dest: leD)
next
  case False
  then show ?thesis
    using assms by (auto simp: satisfies_one_def pessimistic_matches_def)
qed

theorem pessimistic_is_window_witness:
  "satisfies_one \<lparr>c_op = OpPessimistic, c_version = ''1.2.3'', c_span = (0, 8)\<rparr> (VersionKey 1 2 9 1 [])"
proof -
  have k: "version_key ''1.2.3'' = Some (VersionKey 1 2 3 1 [])"
      "version_key ''1.2.9'' = Some (VersionKey 1 2 9 1 [])"
    by (simp_all add: rust_eval)
  have "satisfies_one \<lparr>c_op = OpGte, c_version = ''1.2.3'', c_span = (0, 8)\<rparr> (VersionKey 1 2 9 1 [])"
    by (simp add: satisfies_one_def k pre_excluded_def not_less [symmetric] key_less_iff)
  then show ?thesis
    using pessimistic_is_window [OF k(1) _ k(2), of "(0, 8)"]
    by (simp add: key_less_iff rust_eval)
qed

lemma version_at_least_iff:
  "version_at_least a b \<longleftrightarrow> (\<exists>ka kb. version_key a = Some ka \<and> version_key b = Some kb \<and> kb \<le> ka)"
  by (cases "version_key a"; cases "version_key b") (auto simp: version_at_least_def compare_versions_def cmp_def)

lemma version_at_least_trans: "version_at_least a b \<Longrightarrow> version_at_least b c \<Longrightarrow> version_at_least a c"
  by (auto simp: version_at_least_iff intro: order_trans)

lemma min_admitted_None: "min_admitted_version cs = None \<longleftrightarrow> (\<forall>c \<in> set cs. lower_candidate c = None)"
  using lowest.foldl_none [of None cs] by (simp add: min_admitted_version_def)

lemma min_admitted_best:
  assumes "min_admitted_version cs = Some v"
  shows "\<exists>c \<in> set cs. lower_bound c = Some v"
    "c \<in> set cs \<Longrightarrow> lower_candidate c = Some (w, k) \<Longrightarrow> version_at_least v w"
    "satisfies_all cs cand \<Longrightarrow> version_at_least cand v"
proof -
  from assms obtain key where f: "foldl min_admitted_step None cs = Some (v, key)"
    by (auto simp: min_admitted_version_def)
  note best = lowest.foldl_best [OF f]
  obtain d where d: "d \<in> set cs" "lower_candidate d = Some (v, key)"
    using best by auto
  then have v: "lower_bound d = Some v" "version_key v = Some key"
    by (auto simp: lower_candidate_def bind_eq_Some_conv)
  show "\<exists>c \<in> set cs. lower_bound c = Some v" using d(1) v(1) by blast
  show "version_at_least v w" if "c \<in> set cs" "lower_candidate c = Some (w, k)"
    using that best v(2) by (fastforce simp: version_at_least_iff lower_candidate_def bind_eq_Some_conv)
  show "version_at_least cand v" if cand: "satisfies_all cs cand"
  proof -
    from cand obtain k where "version_key cand = Some k" "satisfies_one d k"
      using d(1) by (auto simp: satisfies_all_def list_all_iff split: option.splits)
    with satisfies_one_lower_bound [OF _ v] v(2) show ?thesis by (auto simp: version_at_least_iff)
  qed
qed

text \<open>
  C36. \<open>min_admitted_version\<close> is a sound floor: it is one of the lower bounds in the list, it is
  at least every other readable lower bound, and every candidate that satisfies the whole
  list is at or above it. It is \<open>None\<close> exactly when no lower bound is readable.
\<close>

theorem min_admitted_is_floor:
  "(min_admitted_version cs = None \<longleftrightarrow> (\<forall>c \<in> set cs. lower_candidate c = None))
   \<and> (\<forall>v. min_admitted_version cs = Some v \<longrightarrow>
        (\<exists>c \<in> set cs. lower_bound c = Some v)
        \<and> (\<forall>c \<in> set cs. \<forall>w k. lower_candidate c = Some (w, k) \<longrightarrow> version_at_least v w)
        \<and> (\<forall>cand. satisfies_all cs cand \<longrightarrow> version_at_least cand v))"
  using min_admitted_None min_admitted_best by blast

theorem min_admitted_is_floor_witness:
  "min_admitted_version [\<lparr>c_op = OpGte, c_version = ''1.0'', c_span = (0, 6)\<rparr>] = Some ''1.0''
   \<and> version_at_least ''1.3.5'' ''1.0''"
proof -
  let ?cs = "[\<lparr>c_op = OpGte, c_version = ''1.0'', c_span = (0, 6)\<rparr>]"
  have k: "version_key ''1.0'' = Some (VersionKey 1 0 0 1 [])"
      "version_key ''1.3.5'' = Some (VersionKey 1 3 5 1 [])"
    by (simp_all add: rust_eval)
  have m: "min_admitted_version ?cs = Some ''1.0''"
    by (simp add: min_admitted_version_def min_admitted_step_def lower_bound_def k)
  have "satisfies_all ?cs ''1.3.5''"
    by (simp add: satisfies_all_def satisfies_one_def k pre_excluded_def not_less [symmetric] key_less_iff)
  with m min_admitted_is_floor [of ?cs] show ?thesis by blast
qed

text \<open>
  Pre-release gate: against a stable operand, a range operator admits a pre-release
  candidate only when major, minor and patch agree with the operand's.
\<close>

theorem prerelease_needs_same_core:
  assumes "satisfies_one c k" "c_op c \<notin> {OpEq, OpNe}"
    and "version_key (c_version c) = Some operand" "vk_stability operand = 1" "vk_stability k = 0"
  shows "vk_major k = vk_major operand \<and> vk_minor k = vk_minor operand \<and> vk_patch k = vk_patch operand"
  using assms
  by (cases "c_op c") (auto simp: satisfies_one_def pre_excluded_def)

theorem prerelease_needs_same_core_witness:
  "satisfies_one \<lparr>c_op = OpLt, c_version = ''1.4.0'', c_span = (0, 7)\<rparr> (VersionKey 1 4 0 0 [Text ''beta''])
   \<and> vk_major (VersionKey 1 4 0 0 [Text ''beta'']) = vk_major (VersionKey 1 4 0 1 [])"
proof -
  let ?c = "\<lparr>c_op = OpLt, c_version = ''1.4.0'', c_span = (0::nat, 7::nat)\<rparr>"
  have k: "version_key (c_version ?c) = Some (VersionKey 1 4 0 1 [])"
    by (simp add: rust_eval)
  then have s: "satisfies_one ?c (VersionKey 1 4 0 0 [Text ''beta''])"
    by (simp add: satisfies_one_def pre_excluded_def key_less_iff)
  show ?thesis
    using prerelease_needs_same_core [OF s _ k] s by simp
qed

text \<open>
  \<open>compare_versions\<close> is a total order on readable versions: it answers whenever both sides are
  readable, swapping the arguments swaps the answer, \<open>Equal\<close> means equal keys, and \<open>Less\<close>
  is transitive.
\<close>

theorem compare_versions_total_order:
  "(compare_versions a b = None \<longleftrightarrow> version_key a = None \<or> version_key b = None)
   \<and> (compare_versions a b = Some Less \<longleftrightarrow> compare_versions b a = Some Greater)
   \<and> (compare_versions a b = Some Equal \<longleftrightarrow> version_key a \<noteq> None \<and> version_key a = version_key b)
   \<and> \<not> (compare_versions a b = Some Less \<and> compare_versions b c = Some Less
        \<and> compare_versions a c \<noteq> Some Less)"
  by (cases "version_key a"; cases "version_key b"; cases "version_key c")
    (auto simp: compare_versions_def cmp_def)

lemma piece_start_pre:
  assumes "pre = [] \<or> (\<exists>q. pre = q @ '','')" "CHR '','' \<notin> set b"
  shows "piece_start_from (pre @ b @ r) 0 (length (pre @ b)) 0 = length pre"
proof (cases "pre = []")
  case True
  then show ?thesis
    using piece_start_from_eq [OF _ assms(2), of 0 "length b" r 0] by simp
next
  case False
  then obtain q where q: "pre = q @ '',''" using assms(1) by blast
  have "piece_start_from (q @ CHR '','' # [] @ (b @ r)) 0 (length (pre @ b)) 0
      = piece_start_from ([] @ (b @ r)) (0 + Suc (length q)) (length (pre @ b)) (0 + Suc (length q))"
    by (rule piece_start_after_comma) (simp add: q)
  then show ?thesis
    using piece_start_from_eq [OF _ assms(2), of "length pre" "length (pre @ b)" r "length pre"]
    by (simp add: q)
qed

text \<open>The classification of the text between the last comma and the cursor.\<close>

definition slot_of :: "string \<Rightarrow> cursor_slot" where
  "slot_of b =
     (let trimmed = dropWhile is_ascii_whitespace b;
          (op, op_len) = detect_operator trimmed;
          text = dropWhile is_ascii_whitespace (drop op_len trimmed)
      in if trimmed = [] then AtOperator
         else if op_len < length trimmed \<and> list_all (\<lambda>b. b \<in> set ''~><=!'') trimmed then AtOperator
         else if text = [] then (if op_len = 0 then AtOperator else AfterOperator op)
         else InsideVersion op text)"

lemma cursor_slot_eq:
  assumes "pre = [] \<or> (\<exists>q. pre = q @ '','')" "CHR '','' \<notin> set b" "lead_ok (b @ r)" "lead_ok r"
  shows "cursor_slot (pre @ b @ r) (length (pre @ b)) = Some (slot_of b)"
proof -
  have okb: "lead_ok b" using assms(3) by (rule lead_ok_append_left)
  let ?t = "dropWhile is_ascii_whitespace b"
  obtain op n where det: "detect_operator ?t = (op, n)" by fastforce
  note D = detect_operator_cases [OF det]
  have "lead_ok (drop n ?t)"
    using D dropWhile_ws_lead_ok [OF okb] lead_ok_after_ascii [of "take n ?t" "drop n ?t"] by simp
  from str_slice_suffix [OF this, of "take n ?t"] D
  have s: "str_slice ?t n (length ?t) = Some (drop n ?t)"
    by (simp add: min_absorb2)
  have o: "min (length (pre @ b)) (length (pre @ b @ r)) = length (pre @ b)" by simp
  have 1: "str_slice (pre @ b @ r) (length pre) (length (pre @ b)) = Some b"
    using str_slice_append [OF assms(3,4), of pre] by simp
  note 2 = str_slice_skip_ws [OF okb]
  show ?thesis
    unfolding cursor_slot_def slot_of_def Let_def o piece_start_pre [OF assms(1,2)] 1 bind.bind_lunit 2
      det split_conv s split_ws_and_rest_def drop_leading_ws
    by (simp del: dropWhile_eq_Nil_conv)
qed

lemma slot_of_blank: "list_all is_ascii_whitespace w \<Longrightarrow> slot_of w = AtOperator"
  by (simp add: slot_of_def list_all_iff Let_def split: prod.split)

lemma dropWhile_ws_token:
  "list_all is_ascii_whitespace w \<Longrightarrow>
   dropWhile is_ascii_whitespace (w @ token op @ t) = token op @ t"
  using token_not_ws [of op] leading_ws_append [of w "token op @ t"] by (cases op) auto

lemma detect_operator_ws:
  assumes "t = [] \<or> is_ascii_whitespace (hd t) \<or> is_ascii_digit (hd t)"
  shows "detect_operator (token op @ t) = (op, length (token op))"
  using assms detect_operator_token_append [of t op]
  by (cases "t = []") (cases op; simp add: rust_eval)+

lemma slot_of_operator:
  assumes "list_all is_ascii_whitespace w" "list_all is_ascii_whitespace ws"
  shows "slot_of (w @ token op @ ws) = AfterOperator op"
proof -
  have d: "detect_operator (token op @ ws) = (op, length (token op))"
    using assms(2) by (intro detect_operator_ws) (cases ws; simp)
  have n: "\<not> list_all (\<lambda>b. b \<in> set ''~><=!'') ws" if "ws \<noteq> []"
    using assms(2) that by (cases ws) (auto simp: rust_eval)
  have t: "token op \<noteq> []" by (cases op) auto
  have "dropWhile is_ascii_whitespace ws = []"
    using assms(2) by (simp add: list_all_iff)
  with d n t show ?thesis
    by (auto simp: slot_of_def dropWhile_ws_token [OF assms(1)] Let_def)
qed

lemma slot_of_version:
  assumes "list_all is_ascii_whitespace w" "list_all is_ascii_whitespace ws"
    and "part \<noteq> []" "is_ascii_digit (hd part)"
  shows "slot_of (w @ token op @ ws @ part) = InsideVersion op part"
proof -
  have d: "detect_operator (token op @ ws @ part) = (op, length (token op))"
    using assms by (intro detect_operator_ws) (cases ws; simp)
  have n: "\<not> list_all (\<lambda>b. b \<in> set ''~><=!'') part"
    using assms(3,4) by (cases part) (auto simp: rust_eval)
  have "dropWhile is_ascii_whitespace (ws @ part) = part"
    using leading_ws_append [OF assms(2,3)] digit_not_whitespace assms(4) by blast
  moreover have "\<exists>x \<in> set part. \<not> is_ascii_whitespace x"
    using hd_in_set [OF assms(3)] assms(4) digit_not_whitespace by blast
  ultimately show ?thesis
    using d n assms(3) by (auto simp: slot_of_def dropWhile_ws_token [OF assms(1)] Let_def)
qed

text \<open>
  The cursor classification follows the piece before the cursor, whatever comes after it:
  blank offers operators; a complete operator, with or without space, waits for its version;
  once the version has begun, the operator and the text typed so far are reported.
\<close>

theorem cursor_slot_classifies:
  assumes "utf8_shape r" "utf8_shape part" "CHR '','' \<notin> set part"
    and "pre = [] \<or> (\<exists>q. pre = q @ '','')"
    and "list_all is_ascii_whitespace w" "list_all is_ascii_whitespace ws"
  shows "cursor_slot (pre @ w @ r) (length (pre @ w)) = Some AtOperator
    \<and> cursor_slot (pre @ w @ token op @ ws @ r) (length (pre @ w @ token op @ ws)) = Some (AfterOperator op)
    \<and> (part \<noteq> [] \<and> is_ascii_digit (hd part) \<longrightarrow>
        cursor_slot (pre @ w @ token op @ ws @ part @ r) (length (pre @ w @ token op @ ws @ part))
          = Some (InsideVersion op part))"
proof -
  have ascii: "list_all (\<lambda>c. byte c < 128) (w @ token op @ ws)" "list_all (\<lambda>c. byte c < 128) w"
    using assms(5,6) token_ascii by (auto simp: list_all_iff whitespace_ascii)
  have lead: "lead_ok (t @ s)" if "list_all (\<lambda>c. byte c < 128) t" "lead_ok s" for s t
    using that utf8_shape_lead_from [OF ascii_utf8_shape, of t] by (auto simp: lead_from_append lead_from_weaken)
  have r: "lead_ok r" and p: "lead_ok (part @ r)"
    using assms(1,2) utf8_shape_lead_from by (auto simp: lead_from_append)
  have nc: "CHR '','' \<notin> set w" "CHR '','' \<notin> set ws" "CHR '','' \<notin> set (token op)"
    using assms(5,6) by (auto simp: list_all_iff) (cases op; simp)
  have 1: "cursor_slot (pre @ w @ r) (length (pre @ w)) = Some AtOperator"
    using cursor_slot_eq [OF assms(4) nc(1) lead [OF ascii(2) r] r] slot_of_blank [OF assms(5)] by simp
  have 2: "cursor_slot (pre @ (w @ token op @ ws) @ r) (length (pre @ w @ token op @ ws)) = Some (AfterOperator op)"
    using cursor_slot_eq [OF assms(4) _ lead [OF ascii(1) r] r] nc slot_of_operator [OF assms(5,6)] by simp
  have 3: "cursor_slot (pre @ (w @ token op @ ws @ part) @ r) (length (pre @ w @ token op @ ws @ part))
      = Some (InsideVersion op part)" if "part \<noteq> []" "is_ascii_digit (hd part)"
    using cursor_slot_eq [OF assms(4), of "w @ token op @ ws @ part" r] lead [OF ascii(1) p] r nc assms(3)
      slot_of_version [OF assms(5,6) that] by simp
  from 1 2 3 show ?thesis by simp
qed

theorem cursor_slot_classifies_witness:
  "cursor_slot ''>= 1.0, ~> 1.4 '' 14 = Some (InsideVersion OpPessimistic ''1.4'')"
  using cursor_slot_classifies [of "'' ''" "''1.4''" "''>= 1.0,''" "'' ''" "'' ''" OpPessimistic]
  by (simp add: rust_eval)

text \<open>
  The \<open>Trailing\<close> slot, documented for a cursor after a complete constraint, is never produced.
\<close>

theorem cursor_slot_never_trailing: "cursor_slot input off \<noteq> Some Trailing"
  by (auto simp: cursor_slot_def Let_def bind_eq_Some_conv split: prod.splits if_splits)

end
