(* ===== verification/Hcl.thy ===== *)
theory Hcl
  imports Prelude
begin

text \<open>
  The HCL syntax trees that the program receives from the \<^verbatim>\<open>hcl-edit\<close> crate. The crate is not
  part of the repository; the constructors below are the ones the program's own exhaustive
  matches name (\<^verbatim>\<open>crates/tfls-diag/src/expr_walk.rs\<close>, \<open>visit_expr\<close>, \<open>visit_body\<close> and
  \<open>visit_template_elements\<close>), with the source spans that the modelled code
  reads (\<open>None\<close> where the crate recorded none; of an operator \<open>GetAttr\<close> the span of its identifier, of \<open>LegacyIndex\<close> that of the operator) and without the decoration it does not read. Parsing text into such trees is the crate's work and a parameter of the model.
\<close>

datatype expr =
    ENull
  | EBool bool
  | ENumber string
  | EString "span option" string
  | EArray "expr list"
  | EObject "span option" "(obj_key \<times> expr) list"
  | EStringTemplate "span option" "element list"
  | EHeredocTemplate "element list"
  | EParenthesis expr
  | EVariable string
  | EConditional expr expr expr
  | EFuncCall "span option" "string list" string "expr list"  \<comment> \<open>namespace, name, arguments\<close>
  | ETraversal "span option" expr "trav_op list"
  | EUnaryOp string expr
  | EBinaryOp "span option" expr string expr
  | EFor "string option" string expr "expr option" expr "expr option"
      \<comment> \<open>key variable, value variable, collection, key, value, condition\<close>
and obj_key =
    KIdent string
  | KExpr expr
and trav_op =
    GetAttr "span option" string
  | Index expr
  | LegacyIndex "span option" nat
  | AttrSplat
  | FullSplat
and element =
    Literal string
  | Interpolation expr
  | DirIf expr "element list" "element list option"
  | DirFor expr "element list"

text \<open>An identifier or a block label is its text with the span the parser recorded for it.\<close>

type_synonym ident = "string \<times> span option"

datatype body_item =
    Attribute ident expr "span option" "span option"
      \<comment> \<open>key, value, span of the value, span of the attribute\<close>
  | Block "span option" ident "ident list" "body_item list"
      \<comment> \<open>span of the block, identifier, labels, body\<close>

type_synonym body = "body_item list"

end
