(* ===== verification/BTree.thy ===== *)
theory BTree
  imports Prelude
begin

text \<open>
  The standard library's \<open>BTreeMap\<close>, as the program uses it: an association list in strictly
  ascending key order, which is also its iteration order. The locale \<open>ordered_map\<close> states what
  its clients rely on; the interpretation \<open>bt\<close> discharges it for the functions below.
\<close>

type_synonym ('k, 'v) btree = "('k \<times> 'v) list"

definition bt_ok :: "('k::linorder, 'v) btree \<Rightarrow> bool" where
  "bt_ok m \<longleftrightarrow> sorted_wrt (<) (map fst m)"

fun bt_insert :: "'k::linorder \<Rightarrow> 'v \<Rightarrow> ('k, 'v) btree \<Rightarrow> ('k, 'v) btree" where
  "bt_insert k v [] = [(k, v)]"
| "bt_insert k v ((k', v') # m) =
     (if k < k' then (k, v) # (k', v') # m
      else if k = k' then (k, v) # m
      else (k', v') # bt_insert k v m)"

definition bt_get :: "('k, 'v) btree \<Rightarrow> 'k \<Rightarrow> 'v option" where
  "bt_get m k = map_of m k"

definition bt_keys :: "('k, 'v) btree \<Rightarrow> 'k list" where
  "bt_keys m = map fst m"

definition bt_values :: "('k, 'v) btree \<Rightarrow> 'v list" where
  "bt_values m = map snd m"

text \<open>\<open>m.extend(kvs)\<close>: one insertion per entry, in order.\<close>

definition bt_extend :: "('k::linorder, 'v) btree \<Rightarrow> ('k \<times> 'v) list \<Rightarrow> ('k, 'v) btree" where
  "bt_extend m kvs = foldl (\<lambda>m (k, v). bt_insert k v m) m kvs"

text \<open>The keys of two maps, collected in a \<open>BTreeSet\<close>.\<close>

definition bt_union_keys :: "('k::linorder, 'v) btree \<Rightarrow> ('k, 'w) btree \<Rightarrow> 'k list" where
  "bt_union_keys xs ys = remdups (sort (bt_keys xs @ bt_keys ys))"

section \<open>The contract of an ordered map\<close>

locale ordered_map =
  fixes empty :: "'m"
    and insert :: "'k::linorder \<Rightarrow> 'v \<Rightarrow> 'm \<Rightarrow> 'm"
    and get :: "'m \<Rightarrow> 'k \<Rightarrow> 'v option"
    and keys :: "'m \<Rightarrow> 'k list"
    and invar :: "'m \<Rightarrow> bool"
  assumes get_empty: "get empty k = None"
    and get_insert: "invar m \<Longrightarrow> get (insert k v m) = (get m)(k \<mapsto> v)"
    and invar_empty: "invar empty"
    and invar_insert: "invar m \<Longrightarrow> invar (insert k v m)"
    and keys_sorted: "invar m \<Longrightarrow> sorted_wrt (<) (keys m)"
    and keys_dom: "invar m \<Longrightarrow> set (keys m) = dom (get m)"
begin

text \<open>A run of insertions: the invariant is kept and the last value of a key wins.\<close>

definition extend :: "'m \<Rightarrow> ('k \<times> 'v) list \<Rightarrow> 'm" where
  "extend m kvs = foldl (\<lambda>m (k, v). insert k v m) m kvs"

lemma invar_extend: "invar m \<Longrightarrow> invar (extend m kvs)"
  unfolding extend_def
  by (induction kvs arbitrary: m) (auto simp: invar_insert split: prod.split)

lemma get_extend: "invar m \<Longrightarrow> get (extend m kvs) = get m ++ map_of (rev kvs)"
  unfolding extend_def
proof (induction kvs arbitrary: m)
  case Nil
  then show ?case by simp
next
  case (Cons kv kvs)
  obtain k v where kv: "kv = (k, v)" by (cases kv)
  have "foldl (\<lambda>m (k, v). insert k v m) m (kv # kvs)
      = foldl (\<lambda>m (k, v). insert k v m) (insert k v m) kvs"
    by (simp add: kv)
  moreover have "get (foldl (\<lambda>m (k, v). insert k v m) (insert k v m) kvs)
      = get (insert k v m) ++ map_of (rev kvs)"
    by (rule Cons.IH) (rule invar_insert [OF Cons.prems])
  ultimately show ?case
    using Cons.prems by (auto simp: kv get_insert map_add_def fun_eq_iff split: option.splits)
qed

lemma keys_insert: "invar m \<Longrightarrow> set (keys (insert k v m)) = Set.insert k (set (keys m))"
  by (simp add: keys_dom invar_insert get_insert)

lemma keys_extend: "invar m \<Longrightarrow> set (keys (extend m kvs)) = set (keys m) \<union> fst ` set kvs"
  by (auto simp: keys_dom invar_extend get_extend dom_map_of_conv_image_fst)

lemma keys_distinct: "invar m \<Longrightarrow> distinct (keys m)"
  using keys_sorted [of m] by (auto simp: strict_sorted_iff)

end

section \<open>The sorted association list meets it\<close>

lemma bt_keys_simps [simp]: "bt_keys [] = []" "bt_keys (kv # m) = fst kv # bt_keys m"
  by (simp_all add: bt_keys_def)

lemma bt_values_simps [simp]: "bt_values [] = []" "bt_values (kv # m) = snd kv # bt_values m"
  by (simp_all add: bt_values_def)

lemma bt_ok_keys: "bt_ok m \<longleftrightarrow> sorted_wrt (<) (bt_keys m)"
  by (simp add: bt_ok_def bt_keys_def)

lemma bt_ok_Nil [simp]: "bt_ok []"
  by (simp add: bt_ok_keys)

lemma bt_ok_Cons: "bt_ok (kv # m) \<longleftrightarrow> bt_ok m \<and> (\<forall>k' \<in> set (bt_keys m). fst kv < k')"
  by (auto simp: bt_ok_keys)

lemma bt_insert_keys: "set (bt_keys (bt_insert k v m)) = insert k (set (bt_keys m))"
  by (induction k v m rule: bt_insert.induct) auto

lemma bt_insert_ok: "bt_ok m \<Longrightarrow> bt_ok (bt_insert k v m)"
  by (induction k v m rule: bt_insert.induct) (fastforce simp: bt_ok_Cons bt_insert_keys)+

lemma bt_get_Cons: "bt_get ((k, v) # m) = (bt_get m)(k \<mapsto> v)"
  by (simp add: bt_get_def fun_eq_iff)

lemma bt_keys_dom: "set (bt_keys m) = dom (bt_get m)"
  by (induction m) (auto simp: bt_get_def)

lemma bt_get_absent: "k \<notin> set (bt_keys m) \<Longrightarrow> bt_get m k = None"
  by (auto simp: bt_keys_dom)

lemma bt_get_insert: "bt_ok m \<Longrightarrow> bt_get (bt_insert k v m) = (bt_get m)(k \<mapsto> v)"
proof (induction m)
  case Nil
  then show ?case by (simp add: bt_get_def fun_eq_iff)
next
  case (Cons kv m)
  obtain k' v' where kv: "kv = (k', v')" by (cases kv)
  from Cons show ?case
    by (auto simp: kv bt_get_Cons bt_ok_Cons fun_eq_iff)
qed

interpretation bt: ordered_map "[]" bt_insert bt_get bt_keys bt_ok
  by unfold_locales
    (simp_all add: bt_get_insert bt_insert_ok bt_keys_dom bt_ok_keys [symmetric], simp add: bt_get_def)

lemma bt_extend_eq: "bt_extend m kvs = bt.extend m kvs"
  by (simp add: bt_extend_def bt.extend_def)

lemma bt_extend_ok: "bt_ok m \<Longrightarrow> bt_ok (bt_extend m kvs)"
  by (simp add: bt_extend_eq bt.invar_extend)

lemma bt_get_extend: "bt_ok m \<Longrightarrow> bt_get (bt_extend m kvs) = bt_get m ++ map_of (rev kvs)"
  by (simp add: bt_extend_eq bt.get_extend)

lemma bt_union_keys_ok:
  "sorted_wrt (<) (bt_union_keys xs ys) \<and> set (bt_union_keys xs ys) = set (bt_keys xs) \<union> set (bt_keys ys)"
  by (auto simp: bt_union_keys_def strict_sorted_iff)

text \<open>Two ordered maps with the same lookups are the same list.\<close>

lemma bt_ok_distinct: "bt_ok m \<Longrightarrow> distinct (bt_keys m)"
  by (simp add: bt_ok_keys strict_sorted_iff)

lemma bt_rebuild: "bt_ok m \<Longrightarrow> map (\<lambda>k. (k, the (bt_get m k))) (bt_keys m) = m"
  using bt_ok_distinct [of m]
  by (auto simp: bt_keys_def bt_get_def comp_def intro!: map_idI)

lemma bt_ext:
  assumes "bt_ok m" "bt_ok m'" "bt_get m = bt_get m'"
  shows "m = m'"
proof -
  have "bt_keys m = bt_keys m'"
    using assms bt_keys_dom [of m] bt_keys_dom [of m']
    by (intro strict_sorted_equal) (simp_all add: bt_ok_keys)
  with assms show ?thesis
    by (metis bt_rebuild)
qed

lemma bt_get_map:
  "bt_get (map (\<lambda>k. (k, f k)) ks) k = (if k \<in> set ks then Some (f k) else None)"
  by (induction ks) (auto simp: bt_get_def)

lemma bt_keys_map: "bt_keys (map (\<lambda>k. (k, f k)) ks) = ks"
  by (simp add: bt_keys_def comp_def)

lemma bt_get_values: "bt_get m k = Some v \<Longrightarrow> v \<in> set (bt_values m)"
  by (auto simp: bt_get_def bt_values_def dest!: map_of_SomeD intro: rev_image_eqI)

lemma bt_insert_values: "set (bt_values (bt_insert k v m)) \<subseteq> insert v (set (bt_values m))"
  by (induction k v m rule: bt_insert.induct) (auto simp: bt_values_def)

lemma bt_extend_values: "set (bt_values (bt_extend m kvs)) \<subseteq> set (bt_values m) \<union> snd ` set kvs"
proof (induction kvs arbitrary: m)
  case Nil
  then show ?case by (simp add: bt_extend_def)
next
  case (Cons kv kvs)
  obtain k v where kv: "kv = (k, v)" by (cases kv)
  have "bt_extend m (kv # kvs) = bt_extend (bt_insert k v m) kvs"
    by (simp add: bt_extend_def kv)
  with Cons.IH [of "bt_insert k v m"] bt_insert_values [of k v m] show ?case
    by (auto simp: kv)
qed

text \<open>Inserting keys above all others appends; a sorted list rebuilds itself.\<close>

lemma bt_insert_append:
  "\<forall>k' \<in> set (bt_keys m). k' < k \<Longrightarrow> bt_insert k v m = m @ [(k, v)]"
  by (induction k v m rule: bt_insert.induct) auto

lemma bt_extend_sorted:
  "sorted_wrt (<) (bt_keys (m @ kvs)) \<Longrightarrow> bt_extend m kvs = m @ kvs"
proof (induction kvs arbitrary: m)
  case Nil
  then show ?case by (simp add: bt_extend_def)
next
  case (Cons kv kvs)
  obtain k v where kv: "kv = (k, v)" by (cases kv)
  have "bt_extend m (kv # kvs) = bt_extend (bt_insert k v m) kvs"
    by (simp add: bt_extend_def kv)
  also have "bt_insert k v m = m @ [(k, v)]"
    using Cons.prems by (intro bt_insert_append) (auto simp: kv bt_keys_def sorted_wrt_append)
  also have "bt_extend (m @ [(k, v)]) kvs = m @ kv # kvs"
    using Cons.IH [of "m @ [(k, v)]"] Cons.prems by (simp add: kv)
  finally show ?case .
qed

section \<open>Sizes, for recursion through the values of a map\<close>

lemma size_list_member:
  fixes x :: "'a::size"
  shows "x \<in> set xs \<Longrightarrow> size x < Suc (size_list size xs)"
  by (induction xs) auto

lemma size_entry [termination_simp]:
  fixes m :: "('k \<times> 'v::size) list"
  shows "(k, v) \<in> set m \<Longrightarrow> size v < Suc (size_list (\<lambda>x. Suc (size (snd x))) m)"
  by (induction m) auto

lemma size_bt_values [termination_simp]:
  fixes m :: "('k \<times> 'v::size) list"
  shows "v \<in> set (bt_values m) \<Longrightarrow> size v < Suc (size_list (\<lambda>x. Suc (size (snd x))) m)"
  using size_entry by (force simp: bt_values_def)

lemma size_bt_get [termination_simp]:
  fixes m :: "('k \<times> 'v::size) list"
  shows "bt_get m k = Some v \<Longrightarrow> size v < Suc (size_list (\<lambda>x. Suc (size (snd x))) m)"
  by (rule size_bt_values, rule bt_get_values)

end
