(* ===== verification/VariableType.thy ===== *)
theory VariableType
  imports Hcl BTree
begin

text \<open>
  \<^verbatim>\<open>crates/tfls-core/src/variable_type.rs\<close>: the structural types of Terraform variables, how
  they are read from type expressions, inferred from value expressions with the help of a
  schema oracle, merged, compared with a declared type, and explained.

  \<open>merge_types\<close> recurses on an accumulator that is itself a merge, so it is defined with fuel;
  the nesting depth of the arguments is enough (\<open>merge_types_unfold\<close> below is the recursion of
  the code, without fuel).
\<close>

section \<open>Types and their display\<close>

datatype primitive = PString | PNumber | PBool

datatype vtype =
    TAny
  | TPrim primitive
  | TList vtype
  | TSet vtype
  | TMap vtype
  | TTuple "vtype list"
  | TObject "(string, vtype) btree"

text \<open>A well-formed type: every object's fields are a proper ordered map.\<close>

fun type_ok :: "vtype \<Rightarrow> bool" where
  "type_ok (TList t) = type_ok t"
| "type_ok (TSet t) = type_ok t"
| "type_ok (TMap t) = type_ok t"
| "type_ok (TTuple ts) = list_all type_ok ts"
| "type_ok (TObject fs) = (bt_ok fs \<and> list_all type_ok (bt_values fs))"
| "type_ok _ = True"

fun show_primitive :: "primitive \<Rightarrow> string" where
  "show_primitive PString = ''string''"
| "show_primitive PNumber = ''number''"
| "show_primitive PBool = ''bool''"

fun show_type :: "vtype \<Rightarrow> string" where
  "show_type TAny = ''any''"
| "show_type (TPrim p) = show_primitive p"
| "show_type (TList t) = ''list('' @ show_type t @ '')''"
| "show_type (TSet t) = ''set('' @ show_type t @ '')''"
| "show_type (TMap t) = ''map('' @ show_type t @ '')''"
| "show_type (TTuple ts) = ''tuple(['' @ join_with '', '' (map show_type ts) @ ''])''"
| "show_type (TObject fs) =
     ''object({ '' @ join_with '', '' (map (\<lambda>(k, v). k @ '' = '' @ show_type v) fs) @ '' })''"

section \<open>Type expressions\<close>

fun object_key_as_ident :: "obj_key \<Rightarrow> string option" where
  "object_key_as_ident (KIdent s) = Some s"
| "object_key_as_ident (KExpr (EVariable s)) = Some s"
| "object_key_as_ident (KExpr (EString _ s)) = Some s"
| "object_key_as_ident (KExpr _) = None"

text \<open>The loop over an object literal's entries: keys that are not identifiers are skipped.\<close>

definition collect_fields :: "(obj_key \<times> vtype) list \<Rightarrow> (string, vtype) btree" where
  "collect_fields kvs = foldl
     (\<lambda>fields (key, t). case object_key_as_ident key of
        None \<Rightarrow> fields | Some name \<Rightarrow> bt_insert name t fields) [] kvs"

fun parse_type_expr :: "expr \<Rightarrow> vtype" where
  "parse_type_expr (EVariable v) =
     (if v = ''string'' then TPrim PString
      else if v = ''number'' then TPrim PNumber
      else if v = ''bool'' then TPrim PBool
      else TAny)"
| "parse_type_expr (EFuncCall _ namespace name args) =
     (if namespace \<noteq> [] then TAny
      else case args of
        [arg] \<Rightarrow>
          if name = ''list'' then TList (parse_type_expr arg)
          else if name = ''set'' then TSet (parse_type_expr arg)
          else if name = ''map'' then TMap (parse_type_expr arg)
          else if name = ''tuple'' then
            (case arg of EArray items \<Rightarrow> TTuple (map parse_type_expr items) | _ \<Rightarrow> TAny)
          else if name = ''object'' then
            (case arg of EObject _ fs \<Rightarrow>
               TObject (collect_fields (map (\<lambda>(key, value). (key, parse_type_expr value)) fs))
             | _ \<Rightarrow> TAny)
          else TAny
      | _ \<Rightarrow> TAny)"
| "parse_type_expr _ = TAny"

section \<open>Merging\<close>

function merge_shapes :: "vtype \<Rightarrow> vtype \<Rightarrow> vtype" where
  "merge_shapes a b =
     (if a = TAny then b
      else if b = TAny then a
      else case (a, b) of
        (TObject a_fields, TObject b_fields) \<Rightarrow>
          TObject (foldl (\<lambda>acc (k, v).
            bt_insert k (case bt_get acc k of Some existing \<Rightarrow> merge_shapes existing v | None \<Rightarrow> v) acc)
            a_fields b_fields)
      | _ \<Rightarrow> a)"
  by pat_completeness auto
termination
  by (relation "measure (\<lambda>(a, b). size b)") (auto simp: termination_simp)


declare merge_shapes.simps [simp del]

fun type_depth :: "vtype \<Rightarrow> nat" where
  "type_depth (TList t) = Suc (type_depth t)"
| "type_depth (TSet t) = Suc (type_depth t)"
| "type_depth (TMap t) = Suc (type_depth t)"
| "type_depth (TTuple ts) = Suc (foldr max (map type_depth ts) 0)"
| "type_depth (TObject fs) = Suc (foldr max (map type_depth (bt_values fs)) 0)"
| "type_depth _ = 0"

text \<open>One unfolding of \<open>merge_types\<close>, with the recursive call as the parameter \<open>rec\<close>.\<close>

definition merge_body :: "(vtype \<Rightarrow> vtype \<Rightarrow> vtype) \<Rightarrow> vtype \<Rightarrow> vtype \<Rightarrow> vtype" where
  "merge_body rec a b =
     (if a = b then a
      else if a = TAny then b
      else if b = TAny then a
      else case (a, b) of
        (TList x, TList y) \<Rightarrow> TList (rec x y)
      | (TSet x, TSet y) \<Rightarrow> TSet (rec x y)
      | (TMap x, TMap y) \<Rightarrow> TMap (rec x y)
      | (TTuple xs, TTuple ys) \<Rightarrow>
          (if length xs = length ys then TTuple (map2 rec xs ys)
           else TList (foldl rec (hd (xs @ ys)) (tl (xs @ ys))))
      | (TList x, TTuple ys) \<Rightarrow> TList (foldl rec x ys)
      | (TTuple ys, TList x) \<Rightarrow> TList (foldl rec x ys)
      | (TSet x, TTuple ys) \<Rightarrow> TList (foldl rec x ys)
      | (TTuple ys, TSet x) \<Rightarrow> TList (foldl rec x ys)
      | (TObject xs, TObject ys) \<Rightarrow>
          TObject (map (\<lambda>k. (k,
            case (bt_get xs k, bt_get ys k) of
              (Some vx, Some vy) \<Rightarrow> rec vx vy
            | (Some vx, None) \<Rightarrow> rec vx TAny
            | (None, Some vx) \<Rightarrow> rec vx TAny
            | (None, None) \<Rightarrow> TAny)) (bt_union_keys xs ys))
      | _ \<Rightarrow> TAny)"

fun merge_fuel :: "nat \<Rightarrow> vtype \<Rightarrow> vtype \<Rightarrow> vtype" where
  "merge_fuel 0 a b = (if a = b then a else if a = TAny then b else if b = TAny then a else TAny)"
| "merge_fuel (Suc n) a b = merge_body (merge_fuel n) a b"

definition merge_types :: "vtype \<Rightarrow> vtype \<Rightarrow> vtype" where
  "merge_types a b = merge_fuel (max (type_depth a) (type_depth b)) a b"

definition merge_observations :: "vtype list \<Rightarrow> vtype option" where
  "merge_observations obs =
     (case obs of [] \<Rightarrow> None | first # rest \<Rightarrow> Some (foldl merge_types first rest))"

section \<open>Checking a value's shape against a declared type\<close>

definition primitives_compatible :: "primitive \<Rightarrow> primitive \<Rightarrow> bool" where
  "primitives_compatible a b \<longleftrightarrow>
     (a, b) \<in> {(PString, PString), (PNumber, PNumber), (PBool, PBool), (PString, PNumber),
       (PNumber, PString), (PString, PBool), (PBool, PString)}"

function satisfies :: "vtype \<Rightarrow> vtype \<Rightarrow> bool" where
  "satisfies declared actual =
     (if declared = TAny \<or> actual = TAny then True
      else case (declared, actual) of
        (TPrim a, TPrim b) \<Rightarrow> primitives_compatible a b
      | (TList inner, TTuple items) \<Rightarrow> list_all (satisfies inner) items
      | (TSet inner, TTuple items) \<Rightarrow> list_all (satisfies inner) items
      | (TList _, TList _) \<Rightarrow> True
      | (TList _, TSet _) \<Rightarrow> True
      | (TSet _, TSet _) \<Rightarrow> True
      | (TSet _, TList _) \<Rightarrow> True
      | (TMap _, TMap _) \<Rightarrow> True
      | (TMap inner, TObject fields) \<Rightarrow> list_all (satisfies inner) (bt_values fields)
      | (TTuple decl_items, TTuple act_items) \<Rightarrow>
          length decl_items = length act_items
          \<and> list_all (\<lambda>(d, a). satisfies d a) (zip decl_items act_items)
      | (TObject decl, TObject act) \<Rightarrow>
          list_all (\<lambda>k. bt_get decl k \<noteq> None) (bt_keys act)
          \<and> list_all (\<lambda>(k, d_ty). case bt_get act k of
                Some a_ty \<Rightarrow> satisfies d_ty a_ty | None \<Rightarrow> d_ty = TAny) decl
      | _ \<Rightarrow> False)"
  by pat_completeness auto
termination
  by (relation "measure (\<lambda>(d, a). size d)")
    (auto simp: termination_simp size_list_member dest: set_zip_leftD)

declare satisfies.simps [simp del]

text \<open>The message of a type mismatch; the empty string when there is none.\<close>

definition field_list :: "string \<Rightarrow> string list \<Rightarrow> string list" where
  "field_list what ks =
     (if ks = [] then []
      else [what @ '' field'' @ (if length ks = 1 then [] else ''s'') @ '': ''
              @ join_with '', '' (map backquote ks)])"

definition wrong_fields ::
  "(string, vtype) btree \<Rightarrow> (string, vtype) btree \<Rightarrow> string list" where
  "wrong_fields decl act =
     concat (map (\<lambda>(k, d_ty). case bt_get act k of
       Some a_ty \<Rightarrow>
         if satisfies d_ty a_ty then []
         else [backquote k @ '' expected '' @ backquote (show_type d_ty)
                 @ '', got '' @ backquote (show_type a_ty)]
     | None \<Rightarrow> []) decl)"

definition explain_mismatch :: "vtype \<Rightarrow> vtype \<Rightarrow> string" where
  "explain_mismatch declared actual =
     (if satisfies declared actual then []
      else case (declared, actual) of
        (TObject decl, TObject act) \<Rightarrow>
          (let extras = filter (\<lambda>k. bt_get decl k = None) (bt_keys act);
               missing = map fst (filter (\<lambda>(k, d_ty). bt_get act k = None \<and> d_ty \<noteq> TAny) decl)
           in join_with ''; ''
                (field_list ''unknown'' extras @ field_list ''missing'' missing
                  @ wrong_fields decl act))
      | _ \<Rightarrow> ''expected '' @ backquote (show_type declared) @ '', got ''
               @ backquote (show_type actual))"


section \<open>The shape of a value expression\<close>

record schema_lookup =
  resource_attr :: "string \<Rightarrow> string \<Rightarrow> vtype option"
  data_source_attr :: "string \<Rightarrow> string \<Rightarrow> vtype option"
  variable_type :: "string \<Rightarrow> vtype option"
  local_shape :: "string \<Rightarrow> vtype option"
  module_output :: "string \<Rightarrow> string \<Rightarrow> vtype option"
  each_value :: "vtype option"

definition no_schema_lookup :: schema_lookup where
  "no_schema_lookup = \<lparr>resource_attr = (\<lambda>_ _. None), data_source_attr = (\<lambda>_ _. None),
     variable_type = (\<lambda>_. None), local_shape = (\<lambda>_. None), module_output = (\<lambda>_ _. None),
     each_value = None\<rparr>"

definition is_resource_type :: "string \<Rightarrow> bool" where
  "is_resource_type s \<longleftrightarrow> CHR ''_'' \<in> set s"

fun get_attrs :: "trav_op list \<Rightarrow> string list" where
  "get_attrs [] = []"
| "get_attrs (GetAttr _ i # ops) = i # get_attrs ops"
| "get_attrs (_ # ops) = get_attrs ops"

definition nth_opt :: "'a list \<Rightarrow> nat \<Rightarrow> 'a option" where
  "nth_opt xs i = (if i < length xs then Some (xs ! i) else None)"

text \<open>
  The header of a traversal: \<open>Inl\<close> is the early return of \<open>each.key\<close>, \<open>Inr\<close> the looked-up
  type with the number of attribute operators it consumed.
\<close>

definition header_type ::
  "schema_lookup \<Rightarrow> string \<Rightarrow> string list \<Rightarrow> (vtype + vtype \<times> nat) option" where
  "header_type schema base idents =
     (if base = ''var'' then do {
        name \<leftarrow> nth_opt idents 0; ty \<leftarrow> variable_type schema name; Some (Inr (ty, 1)) }
      else if base = ''local'' then do {
        name \<leftarrow> nth_opt idents 0; ty \<leftarrow> local_shape schema name; Some (Inr (ty, 1)) }
      else if base = ''module'' then do {
        m \<leftarrow> nth_opt idents 0; out \<leftarrow> nth_opt idents 1;
        ty \<leftarrow> module_output schema m out; Some (Inr (ty, 2)) }
      else if base = ''each'' then do {
        what \<leftarrow> nth_opt idents 0;
        if what = ''key'' then Some (Inl (TPrim PString))
        else if what = ''value'' then do { ty \<leftarrow> each_value schema; Some (Inr (ty, 1)) }
        else None }
      else if base = ''data'' then do {
        rt \<leftarrow> nth_opt idents 0; _ \<leftarrow> nth_opt idents 1; attr \<leftarrow> nth_opt idents 2;
        ty \<leftarrow> data_source_attr schema rt attr; Some (Inr (ty, 3)) }
      else if is_resource_type base then do {
        _ \<leftarrow> nth_opt idents 0; attr \<leftarrow> nth_opt idents 1;
        ty \<leftarrow> resource_attr schema base attr; Some (Inr (ty, 2)) }
      else None)"

definition drill_attr :: "vtype \<Rightarrow> string \<Rightarrow> vtype" where
  "drill_attr current i =
     (case current of
        TObject flds \<Rightarrow> (case bt_get flds i of Some t \<Rightarrow> t | None \<Rightarrow> TAny)
      | TMap inner \<Rightarrow> inner
      | TList inner \<Rightarrow> inner
      | TSet inner \<Rightarrow> inner
      | _ \<Rightarrow> TAny)"

definition drill_index :: "vtype \<Rightarrow> vtype" where
  "drill_index current =
     (case current of
        TList inner \<Rightarrow> inner
      | TSet inner \<Rightarrow> inner
      | TMap inner \<Rightarrow> inner
      | TTuple (t # _) \<Rightarrow> t
      | _ \<Rightarrow> TAny)"

text \<open>The walk over the operators; \<open>n\<close> counts the header attributes still to be consumed.\<close>

fun drill :: "nat \<Rightarrow> vtype \<Rightarrow> trav_op list \<Rightarrow> vtype" where
  "drill n current [] = current"
| "drill n current (GetAttr _ i # ops) =
     (if n > 0 then drill (n - 1) current ops else drill n (drill_attr current i) ops)"
| "drill n current (Index _ # ops) =
     (if n > 0 then drill n current ops else drill n (drill_index current) ops)"
| "drill n current (LegacyIndex _ _ # ops) =
     (if n > 0 then drill n current ops else drill n (drill_index current) ops)"
| "drill n current (AttrSplat # ops) = drill n current ops"
| "drill n current (FullSplat # ops) = drill n current ops"

definition traversal_attr_type :: "expr \<Rightarrow> trav_op list \<Rightarrow> schema_lookup \<Rightarrow> vtype option" where
  "traversal_attr_type root ops schema =
     (case root of
        EVariable base \<Rightarrow>
          (case header_type schema base (get_attrs ops) of
             None \<Rightarrow> None
           | Some (Inl ty) \<Rightarrow> Some ty
           | Some (Inr (ty, n)) \<Rightarrow> Some (drill n ty ops))
      | _ \<Rightarrow> None)"

fun leading_attrs :: "trav_op list \<Rightarrow> string list" where
  "leading_attrs (GetAttr _ i # ops) = i # leading_attrs ops"
| "leading_attrs _ = []"

definition for_expr_body_via_schema ::
  "expr \<Rightarrow> string \<Rightarrow> expr \<Rightarrow> schema_lookup \<Rightarrow> vtype option" where
  "for_expr_body_via_schema collection iter_var body schema =
     (case (body, collection) of
        (ETraversal _ (EVariable body_base) (GetAttr _ body_attr # _),
         ETraversal _ (EVariable coll_base) coll_ops) \<Rightarrow>
          (if body_base \<noteq> iter_var then None
           else let coll_idents = leading_attrs coll_ops in
             if coll_base = ''data'' then do {
               rt \<leftarrow> nth_opt coll_idents 0; _ \<leftarrow> nth_opt coll_idents 1;
               data_source_attr schema rt body_attr }
             else if \<not> is_resource_type coll_base then None
             else do {
               _ \<leftarrow> nth_opt coll_idents 0;
               resource_attr schema coll_base body_attr })
      | _ \<Rightarrow> None)"

text \<open>Calls: the shapes of the arguments are computed first, as the code's recursive calls do.\<close>

definition common_element :: "vtype list \<Rightarrow> vtype option" where
  "common_element ts =
     (case ts of [] \<Rightarrow> None | t # us \<Rightarrow> if list_all (\<lambda>u. u = t) us then Some t else None)"

definition string_keys :: "expr list \<Rightarrow> (string, vtype) btree" where
  "string_keys items =
     foldl (\<lambda>keys item. case item of EString _ s \<Rightarrow> bt_insert s TAny keys | _ \<Rightarrow> keys) [] items"

fun concat_elements :: "vtype list \<Rightarrow> vtype list" where
  "concat_elements [] = []"
| "concat_elements (TTuple items # ts) = items @ concat_elements ts"
| "concat_elements (TList inner # ts) = inner # concat_elements ts"
| "concat_elements (TSet inner # ts) = inner # concat_elements ts"
| "concat_elements (other # ts) = other # concat_elements ts"

fun merge_call :: "(string, vtype) btree \<Rightarrow> vtype list \<Rightarrow> (string, vtype) btree option" where
  "merge_call combined [] = Some combined"
| "merge_call combined (TObject flds # ts) = merge_call (bt_extend combined flds) ts"
| "merge_call combined (_ # ts) = None"

definition lookup_in_map :: "vtype \<Rightarrow> (expr \<times> vtype) list \<Rightarrow> vtype option" where
  "lookup_in_map map_ty rest =
     (case (case (rest, map_ty) of
              ((EString _ key, _) # _, TObject flds) \<Rightarrow> bt_get flds key
            | _ \<Rightarrow> None) of
        Some t \<Rightarrow> Some t
      | None \<Rightarrow>
          (case map_ty of
             TMap inner \<Rightarrow> Some inner
           | TObject flds \<Rightarrow> common_element (bt_values flds)
           | _ \<Rightarrow> None))"

definition first_concrete :: "vtype list \<Rightarrow> vtype" where
  "first_concrete ts = (case filter (\<lambda>t. t \<noteq> TAny) ts of [] \<Rightarrow> TAny | t # _ \<Rightarrow> t)"

definition string_functions :: "string list" where
  "string_functions =
     [''format'', ''join'', ''trim'', ''trimspace'', ''trimprefix'', ''trimsuffix'', ''upper'',
      ''lower'', ''title'', ''replace'', ''regex'', ''abspath'', ''dirname'', ''basename'',
      ''pathexpand'', ''uuid'', ''uuidv5'', ''base64encode'', ''base64decode'', ''filebase64'',
      ''filemd5'', ''filesha1'', ''filesha256'', ''filesha512'', ''md5'', ''sha1'', ''sha256'',
      ''sha512'', ''bcrypt'', ''templatefile'', ''file'', ''yamlencode'', ''jsonencode'',
      ''timestamp'', ''formatdate'']"

definition number_functions :: "string list" where
  "number_functions =
     [''length'', ''ceil'', ''floor'', ''abs'', ''log'', ''max'', ''min'', ''pow'', ''signum'',
      ''parseint'']"

definition bool_functions :: "string list" where
  "bool_functions =
     [''alltrue'', ''anytrue'', ''can'', ''contains'', ''startswith'', ''endswith'',
      ''fileexists'', ''issensitive'']"

definition call_shape :: "string \<Rightarrow> (expr \<times> vtype) list \<Rightarrow> vtype" where
  "call_shape name args =
     (if name = ''toset'' \<or> name = ''tolist'' then
        (case args of
           (EArray arr, _) # _ \<Rightarrow> if string_keys arr \<noteq> [] then TObject (string_keys arr) else TAny
         | _ \<Rightarrow> TAny)
      else if name = ''tomap'' then (case args of (_, t) # _ \<Rightarrow> t | [] \<Rightarrow> TAny)
      else if name = ''element'' then
        (case args of
           (_, TTuple items) # _ \<Rightarrow> (case common_element items of Some t \<Rightarrow> t | None \<Rightarrow> TAny)
         | (_, TList inner) # _ \<Rightarrow> inner
         | (_, TSet inner) # _ \<Rightarrow> inner
         | _ \<Rightarrow> TAny)
      else if name = ''concat'' then
        (case common_element (concat_elements (map snd args)) of
           Some first \<Rightarrow> TList first | None \<Rightarrow> TAny)
      else if name \<in> set string_functions then TPrim PString
      else if name \<in> set number_functions then TPrim PNumber
      else if name \<in> set bool_functions then TPrim PBool
      else if name = ''split'' \<or> name = ''keys'' then TList (TPrim PString)
      else if name = ''values'' then
        (case args of
           (_, TMap inner) # _ \<Rightarrow> TList inner
         | (_, TObject flds) # _ \<Rightarrow>
             (case common_element (bt_values flds) of Some f \<Rightarrow> TList f | None \<Rightarrow> TAny)
         | _ \<Rightarrow> TAny)
      else if name = ''merge'' then
        (case merge_call [] (map snd args) of
           Some combined \<Rightarrow> if combined \<noteq> [] then TObject combined else TAny
         | None \<Rightarrow> TAny)
      else if name = ''lookup'' then
        (case (case args of (_, map_ty) # rest \<Rightarrow> lookup_in_map map_ty rest | [] \<Rightarrow> None) of
           Some t \<Rightarrow> t
         | None \<Rightarrow> (case args of _ # _ # (_, t) # _ \<Rightarrow> t | _ \<Rightarrow> TAny))
      else if name = ''try'' \<or> name = ''coalesce'' then first_concrete (map snd args)
      else if name = ''object'' then
        (case args of (EObject _ _, t) # _ \<Rightarrow> t | _ \<Rightarrow> TAny)
      else TAny)"

fun parse_value_shape_with_schema :: "schema_lookup \<Rightarrow> expr \<Rightarrow> vtype" where
  "parse_value_shape_with_schema schema (EObject _ fs) =
     TObject (collect_fields
       (map (\<lambda>(key, value). (key, parse_value_shape_with_schema schema value)) fs))"
| "parse_value_shape_with_schema schema (EArray items) =
     TTuple (map (parse_value_shape_with_schema schema) items)"
| "parse_value_shape_with_schema schema (EString _ _) = TPrim PString"
| "parse_value_shape_with_schema schema (EStringTemplate _ _) = TPrim PString"
| "parse_value_shape_with_schema schema (EHeredocTemplate _) = TPrim PString"
| "parse_value_shape_with_schema schema (ENumber _) = TPrim PNumber"
| "parse_value_shape_with_schema schema (EBool _) = TPrim PBool"
| "parse_value_shape_with_schema schema (EFuncCall _ namespace name args) =
     (if namespace \<noteq> [] then TAny
      else call_shape name (map (\<lambda>a. (a, parse_value_shape_with_schema schema a)) args))"
| "parse_value_shape_with_schema schema (EConditional _ t f) =
     merge_shapes (parse_value_shape_with_schema schema t) (parse_value_shape_with_schema schema f)"
| "parse_value_shape_with_schema schema (EParenthesis e) = parse_value_shape_with_schema schema e"
| "parse_value_shape_with_schema schema (ETraversal _ root ops) =
     (case traversal_attr_type root ops schema of Some t \<Rightarrow> t | None \<Rightarrow> TAny)"
| "parse_value_shape_with_schema schema (EFor _ value_var collection key value _) =
     (let elem = (case for_expr_body_via_schema collection value_var value schema of
                    Some t \<Rightarrow> t
                  | None \<Rightarrow> parse_value_shape_with_schema schema value)
      in if key \<noteq> None then TMap elem else TList elem)"
| "parse_value_shape_with_schema schema _ = TAny"

definition parse_value_shape :: "expr \<Rightarrow> vtype" where
  "parse_value_shape e = parse_value_shape_with_schema no_schema_lookup e"

section \<open>What a merge keeps\<close>

lemma foldl_closed:
  assumes "\<And>x y. P x \<Longrightarrow> P y \<Longrightarrow> P (f x y)" "P a" "\<forall>t \<in> set ts. P t"
  shows "P (foldl f a ts)"
  using assms(2,3) by (induction ts arbitrary: a) (auto simp: assms(1))

lemma foldl_agree:
  assumes "\<And>x y. P x \<Longrightarrow> P y \<Longrightarrow> P (f x y)" "\<And>x y. P x \<Longrightarrow> P y \<Longrightarrow> f x y = g x y"
    and "P a" "\<forall>t \<in> set ts. P t"
  shows "foldl f a ts = foldl g a ts"
  using assms(3,4)
proof (induction ts arbitrary: a)
  case (Cons t ts)
  then have "P (f a t)" and eq: "f a t = g a t" and ts: "\<forall>x \<in> set ts. P x"
    using assms(1,2) by auto
  from Cons.IH [OF this(1) ts] show ?case
    by (simp add: eq [symmetric])
qed simp

lemma hd_append_tl:
  "length xs \<noteq> length ys \<Longrightarrow> \<forall>t \<in> set xs \<union> set ys. P t \<Longrightarrow>
   P (hd (xs @ ys)) \<and> (\<forall>t \<in> set (tl (xs @ ys)). P t)"
  by (cases xs; cases ys) auto

lemma zip_closed:
  "\<forall>t \<in> set xs \<union> set ys. P t \<Longrightarrow> (a, b) \<in> set (zip xs ys) \<Longrightarrow> P a \<and> P b"
  by (auto dest: set_zip_leftD set_zip_rightD)

lemma bt_values_map: "bt_values (map (\<lambda>k. (k, f k)) ks) = map f ks"
  by (simp add: bt_values_def comp_def)

text \<open>
  The contract of a predicate that one level of merging carries from the components
  (\<open>inner\<close>) to the whole (\<open>outer\<close>).
\<close>

locale merge_invariant =
  fixes inner outer :: "vtype \<Rightarrow> bool"
  assumes inner_any: "inner TAny" and outer_any: "outer TAny"
    and outer_list: "outer (TList t) \<longleftrightarrow> inner t"
    and outer_set: "outer (TSet t) \<longleftrightarrow> inner t"
    and outer_map: "outer (TMap t) \<longleftrightarrow> inner t"
    and outer_tuple: "outer (TTuple ts) \<longleftrightarrow> (\<forall>t \<in> set ts. inner t)"
    and outer_field: "outer (TObject fs) \<Longrightarrow> bt_get fs k = Some t \<Longrightarrow> inner t"
    and outer_object: "sorted_wrt (<) ks \<Longrightarrow> (\<And>k. inner (h k)) \<Longrightarrow>
          outer (TObject (map (\<lambda>k. (k, h k)) ks))"
begin

definition merged_field ::
  "(vtype \<Rightarrow> vtype \<Rightarrow> vtype) \<Rightarrow> (string, vtype) btree \<Rightarrow> (string, vtype) btree \<Rightarrow> string \<Rightarrow> vtype" where
  "merged_field f xs ys k = (case (bt_get xs k, bt_get ys k) of
     (Some vx, Some vy) \<Rightarrow> f vx vy | (Some vx, None) \<Rightarrow> f vx TAny
   | (None, Some vx) \<Rightarrow> f vx TAny | (None, None) \<Rightarrow> TAny)"

lemma merge_body_object:
  "xs \<noteq> ys \<Longrightarrow> merge_body f (TObject xs) (TObject ys)
     = TObject (map (\<lambda>k. (k, merged_field f xs ys k)) (bt_union_keys xs ys))"
  by (simp add: merge_body_def merged_field_def)

lemma merge_body_closed:
  assumes rec: "\<And>x y. inner x \<Longrightarrow> inner y \<Longrightarrow> inner (f x y)" and "outer a" "outer b"
  shows "outer (merge_body f a b)"
proof (cases "a = b \<or> a = TAny \<or> b = TAny")
  case True
  with assms show ?thesis by (auto simp: merge_body_def)
next
  case False
  note closed = foldl_closed [of inner f, OF rec]
  note outer = outer_any outer_list outer_set outer_map outer_tuple
  show ?thesis
  proof (cases a; cases b)
    fix xs ys assume ab: "a = TTuple xs" "b = TTuple ys"
    then have t: "\<forall>t \<in> set xs \<union> set ys. inner t" using assms(2,3) by (auto simp: outer)
    show ?thesis
    proof (cases "length xs = length ys")
      case True
      then show ?thesis
        using False rec zip_closed [OF t] by (auto simp: ab merge_body_def outer)
    next
      case diff: False
      from hd_append_tl [OF diff t] show ?thesis
        using False diff closed [of "hd (xs @ ys)" "tl (xs @ ys)"]
        by (simp add: ab merge_body_def outer)
    qed
  next
    fix xs ys assume ab: "a = TObject xs" "b = TObject ys"
    have "inner (merged_field f xs ys k)" for k
      using assms(2,3) rec inner_any outer_field [of xs k] outer_field [of ys k]
      by (auto simp: ab merged_field_def split: option.splits)
    then show ?thesis
      using False bt_union_keys_ok [of xs ys] outer_object by (simp add: ab merge_body_object)
  qed (use False assms rec closed in \<open>auto simp: merge_body_def outer\<close>)
qed

lemma merge_body_agree:
  assumes rec: "\<And>x y. inner x \<Longrightarrow> inner y \<Longrightarrow> inner (f x y)"
    and eq: "\<And>x y. inner x \<Longrightarrow> inner y \<Longrightarrow> f x y = g x y" and "outer a" "outer b"
  shows "merge_body f a b = merge_body g a b"
proof (cases "a = b \<or> a = TAny \<or> b = TAny")
  case True
  then show ?thesis by (auto simp: merge_body_def)
next
  case False
  note agree = foldl_agree [of inner f g, OF rec eq]
  note outer = outer_any outer_list outer_set outer_map outer_tuple
  show ?thesis
  proof (cases a; cases b)
    fix xs ys assume ab: "a = TTuple xs" "b = TTuple ys"
    then have t: "\<forall>t \<in> set xs \<union> set ys. inner t" using assms(3,4) by (auto simp: outer)
    show ?thesis
    proof (cases "length xs = length ys")
      case True
      then show ?thesis
        using False eq zip_closed [OF t] by (auto simp: ab merge_body_def)
    next
      case diff: False
      from hd_append_tl [OF diff t] show ?thesis
        using False diff agree [of "hd (xs @ ys)" "tl (xs @ ys)"]
        by (simp add: ab merge_body_def)
    qed
  next
    fix xs ys assume ab: "a = TObject xs" "b = TObject ys"
    have "merged_field f xs ys k = merged_field g xs ys k" for k
      using assms(3,4) eq inner_any outer_field [of xs k] outer_field [of ys k]
      by (auto simp: ab merged_field_def split: option.splits)
    then show ?thesis
      using False by (simp add: ab merge_body_object)
  qed (use False assms(3,4) eq agree in \<open>auto simp: merge_body_def outer\<close>)
qed

end

section \<open>Nesting depth, and enough fuel\<close>

lemma foldr_max_le: "foldr max ns 0 \<le> (n::nat) \<longleftrightarrow> (\<forall>m \<in> set ns. m \<le> n)"
  by (induction ns) auto

interpretation depth: merge_invariant "\<lambda>t. type_depth t \<le> n" "\<lambda>t. type_depth t \<le> Suc n" for n
proof
  fix fs k t
  assume "type_depth (TObject fs) \<le> Suc n" "bt_get fs k = Some t"
  then show "type_depth t \<le> n"
    using bt_get_values by (fastforce simp: foldr_max_le)
qed (auto simp: foldr_max_le bt_values_map)

declare type_depth.simps(4,5) [simp del] merge_fuel.simps(2) [simp del]

lemma merge_fuel_depth:
  "type_depth a \<le> n \<Longrightarrow> type_depth b \<le> n \<Longrightarrow> type_depth (merge_fuel n a b) \<le> n"
proof (induction n arbitrary: a b)
  case (Suc n)
  then show ?case
    unfolding merge_fuel.simps(2) by (intro depth.merge_body_closed) auto
qed auto

lemma merge_fuel_step:
  "type_depth a \<le> n \<Longrightarrow> type_depth b \<le> n \<Longrightarrow> merge_fuel (Suc n) a b = merge_fuel n a b"
proof (induction n arbitrary: a b)
  case 0
  then show ?case
    by (cases a; cases b) (auto simp: merge_fuel.simps(2) merge_body_def type_depth.simps)
next
  case (Suc n)
  have "merge_body (merge_fuel (Suc n)) a b = merge_body (merge_fuel n) a b"
    using Suc.prems Suc.IH merge_fuel_depth [where n = n]
    by (intro depth.merge_body_agree [where n = n]) auto
  then show ?case
    by (simp only: merge_fuel.simps(2))
qed

lemma merge_fuel_enough:
  assumes "type_depth a \<le> n" "type_depth b \<le> n" "n \<le> m"
  shows "merge_fuel m a b = merge_fuel n a b"
  using assms(3)
proof (induction m rule: dec_induct)
  case (step k)
  then show ?case using assms merge_fuel_step [of a k b] by simp
qed simp

lemma merge_types_fuel:
  "type_depth a \<le> n \<Longrightarrow> type_depth b \<le> n \<Longrightarrow> merge_fuel n a b = merge_types a b"
  unfolding merge_types_def by (rule merge_fuel_enough) auto

lemma merge_types_body: "merge_types a b = merge_body merge_types a b"
proof -
  let ?n = "max (type_depth a) (type_depth b)"
  have "merge_types a b = merge_fuel (Suc ?n) a b"
    by (rule merge_types_fuel [symmetric]) auto
  also have "\<dots> = merge_body (merge_fuel ?n) a b"
    by (rule merge_fuel.simps(2))
  also have "\<dots> = merge_body merge_types a b"
    by (rule depth.merge_body_agree [where n = ?n])
      (auto intro: merge_fuel_depth merge_types_fuel)
  finally show ?thesis .
qed

section \<open>Well-formed types\<close>

interpretation ok: merge_invariant type_ok type_ok
proof
  fix fs :: "(string, vtype) btree" and k t
  assume "type_ok (TObject fs)" "bt_get fs k = Some t"
  then show "type_ok t"
    using bt_get_values by (fastforce simp: list_all_iff)
qed (auto simp: list_all_iff bt_values_map bt_ok_keys bt_keys_map)

lemma merge_fuel_ok: "type_ok a \<Longrightarrow> type_ok b \<Longrightarrow> type_ok (merge_fuel n a b)"
proof (induction n arbitrary: a b)
  case (Suc n)
  then show ?case
    unfolding merge_fuel.simps(2) by (intro ok.merge_body_closed)
qed simp

lemma merge_types_ok: "type_ok a \<Longrightarrow> type_ok b \<Longrightarrow> type_ok (merge_types a b)"
  by (simp add: merge_types_def merge_fuel_ok)

lemma bt_insert_type_ok:
  "type_ok (TObject fs) \<Longrightarrow> type_ok t \<Longrightarrow> type_ok (TObject (bt_insert k t fs))"
  using bt_insert_values [of k t fs] by (auto simp: bt_insert_ok list_all_iff)

lemma merge_shapes_ok: "type_ok a \<Longrightarrow> type_ok b \<Longrightarrow> type_ok (merge_shapes a b)"
proof (induction a b rule: merge_shapes.induct)
  case (1 a b)
  show ?case
  proof (cases "\<exists>xs ys. a = TObject xs \<and> b = TObject ys")
    case False
    with "1.prems" show ?thesis
      by (subst merge_shapes.simps) (auto split: vtype.splits)
  next
    case True
    then obtain xs ys where ab: "a = TObject xs" "b = TObject ys" by blast
    let ?step = "\<lambda>acc (k, v). bt_insert k
        (case bt_get acc k of Some existing \<Rightarrow> merge_shapes existing v | None \<Rightarrow> v) acc"
    have "type_ok (TObject (foldl ?step acc kvs))"
      if "type_ok (TObject acc)" "set kvs \<subseteq> set ys" for acc kvs
      using that
    proof (induction kvs arbitrary: acc)
      case (Cons kv kvs)
      obtain k v where kv: "kv = (k, v)" by (cases kv)
      have v: "type_ok v" "(k, v) \<in> set ys"
        using Cons.prems(2) "1.prems"(2) by (auto simp: ab kv list_all_iff bt_values_def)
      have "type_ok (case bt_get acc k of Some e \<Rightarrow> merge_shapes e v | None \<Rightarrow> v)"
        using v "1.IH" [of a b xs ys "(k, v)" k v acc] ok.outer_field [OF Cons.prems(1)]
        by (auto simp: ab split: option.split)
      then have "type_ok (TObject (?step acc kv))"
        using bt_insert_type_ok [OF Cons.prems(1)] by (simp add: kv)
      with Cons.IH [of "?step acc kv"] Cons.prems(2) show ?case by simp
    qed simp
    from this [of xs ys] "1.prems" show ?thesis
      by (subst merge_shapes.simps) (simp add: ab)
  qed
qed

lemma bt_extend_type_ok:
  "type_ok (TObject fs) \<Longrightarrow> \<forall>(k, t) \<in> set kvs. type_ok t \<Longrightarrow> type_ok (TObject (bt_extend fs kvs))"
  using bt_extend_values [of fs kvs] by (fastforce simp: bt_extend_ok list_all_iff)

lemma collect_fields_extend:
  "collect_fields kvs =
     bt_extend [] (List.map_filter (\<lambda>(key, t). map_option (\<lambda>n. (n, t)) (object_key_as_ident key)) kvs)"
proof -
  have "foldl (\<lambda>fields (key, t). case object_key_as_ident key of
      None \<Rightarrow> fields | Some name \<Rightarrow> bt_insert name t fields) acc kvs
    = bt_extend acc (List.map_filter (\<lambda>(key, t). map_option (\<lambda>n. (n, t)) (object_key_as_ident key)) kvs)"
    for acc
    by (induction kvs arbitrary: acc)
      (auto simp: bt_extend_def List.map_filter_def split: option.splits)
  then show ?thesis by (simp add: collect_fields_def)
qed

lemma collect_fields_ok:
  "\<forall>(key, t) \<in> set kvs. type_ok t \<Longrightarrow> type_ok (TObject (collect_fields kvs))"
  unfolding collect_fields_extend
  by (rule bt_extend_type_ok) (auto simp: List.map_filter_def)

lemma parse_type_expr_ok: "type_ok (parse_type_expr e)"
proof (induction e rule: parse_type_expr.induct)
  case (2 sp namespace name args)
  show ?case
  proof (cases "namespace = [] \<and> (\<exists>arg. args = [arg])")
    case True
    then obtain arg where args: "args = [arg]" "namespace = []" by blast
    have arg: "type_ok (parse_type_expr arg)"
      if "name = ''list'' \<or> name = ''set'' \<or> name = ''map''"
      using "2.IH"(1-3) args that by auto
    have items: "type_ok (case arg of EArray items \<Rightarrow> TTuple (map parse_type_expr items) | _ \<Rightarrow> TAny)"
      if "name = ''tuple''"
      using "2.IH"(4) args that by (cases arg) (auto simp: list_all_iff)
    have fs: "type_ok (case arg of EObject _ fs \<Rightarrow> TObject (collect_fields
        (map (\<lambda>(key, value). (key, parse_type_expr value)) fs)) | _ \<Rightarrow> TAny)"
      if "name = ''object''"
    proof (cases "\<exists>sp fs. arg = EObject sp fs")
      case True
      then obtain sp fs where fs: "arg = EObject sp fs" by blast
      have "\<forall>(key, t) \<in> set (map (\<lambda>(key, value). (key, parse_type_expr value)) fs). type_ok t"
        using "2.IH"(5) args that fs by auto
      from collect_fields_ok [OF this] show ?thesis by (simp add: fs)
    qed (auto split: expr.split)
    consider "name = ''list'' \<or> name = ''set'' \<or> name = ''map''" | "name = ''tuple''"
      | "name = ''object''" | "name \<notin> {''list'', ''set'', ''map'', ''tuple'', ''object''}"
      by blast
    then show ?thesis
    proof cases
      case 1
      with arg args show ?thesis by auto
    next
      case 2
      with items args show ?thesis by simp
    next
      case 3
      with fs args show ?thesis by (simp del: type_ok.simps)
    next
      case 4
      with args show ?thesis by simp
    qed
  next
    case False
    then have "namespace \<noteq> [] \<or> args = [] \<or> (\<exists>x y zs. args = x # y # zs)"
      by (metis neq_Nil_conv)
    then show ?thesis by auto
  qed
qed simp_all

text \<open>The schema oracle answers only with well-formed types.\<close>

definition schema_ok :: "schema_lookup \<Rightarrow> bool" where
  "schema_ok s \<longleftrightarrow>
     (\<forall>a b t. resource_attr s a b = Some t \<longrightarrow> type_ok t)
     \<and> (\<forall>a b t. data_source_attr s a b = Some t \<longrightarrow> type_ok t)
     \<and> (\<forall>a t. variable_type s a = Some t \<longrightarrow> type_ok t)
     \<and> (\<forall>a t. local_shape s a = Some t \<longrightarrow> type_ok t)
     \<and> (\<forall>a b t. module_output s a b = Some t \<longrightarrow> type_ok t)
     \<and> (\<forall>t. each_value s = Some t \<longrightarrow> type_ok t)"

lemma schema_okD:
  assumes "schema_ok s"
  shows "resource_attr s a b = Some t \<Longrightarrow> type_ok t"
    and "data_source_attr s a b = Some t \<Longrightarrow> type_ok t"
    and "variable_type s a = Some t \<Longrightarrow> type_ok t"
    and "local_shape s a = Some t \<Longrightarrow> type_ok t"
    and "module_output s a b = Some t \<Longrightarrow> type_ok t"
    and "each_value s = Some t \<Longrightarrow> type_ok t"
  using assms unfolding schema_ok_def by blast+

lemma header_type_ok:
  "schema_ok s \<Longrightarrow> header_type s base idents = Some (Inl t) \<Longrightarrow> type_ok t"
  "schema_ok s \<Longrightarrow> header_type s base idents = Some (Inr (t, n)) \<Longrightarrow> type_ok t"
  by (auto simp: header_type_def bind_eq_Some_conv split: if_splits dest: schema_okD)

lemma drill_attr_ok: "type_ok t \<Longrightarrow> type_ok (drill_attr t i)"
  by (cases t) (auto simp: drill_attr_def split: option.splits intro: ok.outer_field)

lemma drill_index_ok: "type_ok t \<Longrightarrow> type_ok (drill_index t)"
  by (cases t) (auto simp: drill_index_def split: list.splits)

lemma drill_ok: "type_ok t \<Longrightarrow> type_ok (drill n t ops)"
  by (induction n t ops rule: drill.induct) (auto simp: drill_attr_ok drill_index_ok)

lemma traversal_attr_type_ok:
  "schema_ok s \<Longrightarrow> traversal_attr_type root ops s = Some t \<Longrightarrow> type_ok t"
  by (auto simp: traversal_attr_type_def split: expr.splits option.splits sum.splits
      intro: drill_ok header_type_ok)

lemma for_expr_body_via_schema_ok:
  "schema_ok s \<Longrightarrow> for_expr_body_via_schema c v b s = Some t \<Longrightarrow> type_ok t"
  by (auto simp: for_expr_body_via_schema_def Let_def bind_eq_Some_conv
      split: expr.splits list.splits trav_op.splits if_splits dest: schema_okD)

lemma common_element_set: "common_element ts = Some t \<Longrightarrow> t \<in> set ts"
  by (auto simp: common_element_def split: list.splits if_splits)

lemma string_keys_ok: "type_ok (TObject (string_keys items))"
proof -
  let ?step = "\<lambda>keys item. case item of EString _ s \<Rightarrow> bt_insert s TAny keys | _ \<Rightarrow> keys"
  have step: "type_ok (TObject (?step acc item))" if "type_ok (TObject acc)" for acc item
    using that bt_insert_type_ok [OF that, of TAny] by (simp split: expr.split)
  have "type_ok (TObject (foldl ?step acc items))" if "type_ok (TObject acc)" for acc
    using that
  proof (induction items arbitrary: acc)
    case (Cons x xs)
    from Cons.IH [OF step [OF Cons.prems]] show ?case by simp
  qed simp
  then show ?thesis by (simp add: string_keys_def)
qed

lemma concat_elements_ok: "list_all type_ok ts \<Longrightarrow> list_all type_ok (concat_elements ts)"
  by (induction ts rule: concat_elements.induct) auto

lemma merge_call_ok:
  "type_ok (TObject c) \<Longrightarrow> list_all type_ok ts \<Longrightarrow> merge_call c ts = Some r \<Longrightarrow> type_ok (TObject r)"
proof (induction c ts rule: merge_call.induct)
  case (2 combined flds ts)
  have "type_ok (TObject (bt_extend combined flds))"
    by (rule bt_extend_type_ok) (use 2 in \<open>auto simp: list_all_iff bt_values_def\<close>)
  with 2 show ?case by simp
qed auto

lemma first_concrete_ok: "list_all type_ok ts \<Longrightarrow> type_ok (first_concrete ts)"
proof -
  assume "list_all type_ok ts"
  moreover have "t \<in> set ts" if "filter (\<lambda>t. t \<noteq> TAny) ts = t # us" for t us
    using that by (metis filter_is_subset list.set_intros(1) subsetD)
  ultimately show ?thesis
    unfolding first_concrete_def list_all_iff by (auto split: list.split)
qed

lemma lookup_in_map_ok:
  "type_ok m \<Longrightarrow> lookup_in_map m rest = Some t \<Longrightarrow> type_ok t"
  by (cases m)
   (auto simp: lookup_in_map_def list_all_iff split: option.splits list.splits expr.splits prod.splits
     dest: common_element_set bt_get_values)

lemma type_ok_if: "(c \<Longrightarrow> type_ok a) \<Longrightarrow> (\<not> c \<Longrightarrow> type_ok b) \<Longrightarrow> type_ok (if c then a else b)"
  by simp

lemma call_shape_ok:
  assumes "\<forall>a \<in> set args. type_ok (snd a)"
  shows "type_ok (call_shape name args)"
proof -
  have snds: "list_all type_ok (map snd args)" using assms by (simp add: list_all_iff)
  have common: "type_ok (case common_element ts of Some t \<Rightarrow> t | None \<Rightarrow> TAny)"
    if "list_all type_ok ts" for ts
    using that by (auto simp: list_all_iff dest: common_element_set split: option.split)
  have common_list: "type_ok (case common_element ts of Some t \<Rightarrow> TList t | None \<Rightarrow> TAny)"
    if "list_all type_ok ts" for ts
    using that by (auto simp: list_all_iff dest: common_element_set split: option.split)
  have keys: "type_ok (if string_keys arr \<noteq> [] then TObject (string_keys arr) else TAny)" for arr
    using string_keys_ok by simp
  have merged: "type_ok (case merge_call [] (map snd args) of
      Some c \<Rightarrow> if c \<noteq> [] then TObject c else TAny | None \<Rightarrow> TAny)"
    using merge_call_ok [OF _ snds, of "[]"] by (simp split: option.split)
  have found: "type_ok t"
    if "(case args of (_, m) # rest \<Rightarrow> lookup_in_map m rest | [] \<Rightarrow> None) = Some t" for t
    using that assms by (auto intro: lookup_in_map_ok split: list.splits)
  show ?thesis
    unfolding call_shape_def
    apply (intro type_ok_if)
    subgoal using keys by (auto split: list.split prod.split expr.split)
    subgoal using assms by (auto split: list.split)
    subgoal using assms common by (auto split: list.split vtype.split)
    subgoal using concat_elements_ok [OF snds] by (rule common_list)
    subgoal by simp
    subgoal by simp
    subgoal by simp
    subgoal by simp
    subgoal using assms common_list by (auto split: list.split vtype.split)
    subgoal by (rule merged)
    subgoal using assms found by (auto split: option.split list.split)
    subgoal by (rule first_concrete_ok [OF snds])
    subgoal using assms by (auto split: list.split expr.split)
    subgoal by simp
    done
qed

lemma parse_value_shape_with_schema_ok:
  "schema_ok s \<Longrightarrow> type_ok (parse_value_shape_with_schema s e)"
proof (induction s e rule: parse_value_shape_with_schema.induct)
  case (1 schema sp fs)
  have "\<forall>(key, t) \<in> set (map (\<lambda>(key, value). (key, parse_value_shape_with_schema schema value)) fs).
      type_ok t"
    using "1.IH" "1.prems" by auto
  from collect_fields_ok [OF this] show ?case by simp
next
  case (2 schema items)
  then show ?case by (simp add: list_all_iff)
next
  case (8 schema sp namespace name args)
  then show ?case by (auto intro!: call_shape_ok)
next
  case (9 schema c t f)
  then show ?case by (simp add: merge_shapes_ok)
next
  case (11 schema sp root ops)
  then show ?case by (auto split: option.split intro: traversal_attr_type_ok)
next
  case (12 schema kv v c k b cond)
  then show ?case by (auto simp: Let_def split: option.split intro: for_expr_body_via_schema_ok)
qed simp_all

lemma fold_merge_ok:
  "list_all type_ok ts \<Longrightarrow> type_ok t \<Longrightarrow> type_ok (foldl merge_types t ts)"
  by (rule foldl_closed) (auto simp: merge_types_ok list_all_iff)

text \<open>
  Every type the crate produces is well formed: reading a type expression, inferring a value's
  shape (when the schema oracle answers with well-formed types), and merging observed types all
  give types whose objects hold each field once, in key order, at every depth.
\<close>

theorem types_well_formed:
  assumes "schema_ok s" "list_all type_ok obs" "merge_observations obs = Some t"
  shows "type_ok (parse_type_expr e) \<and> type_ok (parse_value_shape_with_schema s v) \<and> type_ok t"
  using assms
  by (auto simp: parse_type_expr_ok parse_value_shape_with_schema_ok merge_observations_def
      intro: fold_merge_ok split: list.splits)

lemma types_well_formed_witness:
  "type_ok (parse_type_expr (EVariable ''string'')) \<and>
   type_ok (parse_value_shape_with_schema no_schema_lookup (EArray [EBool True])) \<and>
   type_ok (merge_types (TObject [(''a'', TAny)]) (TObject [(''b'', TPrim PBool)]))"
  using types_well_formed [of no_schema_lookup "[TObject [(''a'', TAny)], TObject [(''b'', TPrim PBool)]]"
      "merge_types (TObject [(''a'', TAny)]) (TObject [(''b'', TPrim PBool)])"
      "EVariable ''string''" "EArray [EBool True]"]
  by (simp add: schema_ok_def no_schema_lookup_def merge_observations_def bt_ok_Cons)

section \<open>Reading back a written type\<close>

fun type_to_expr :: "vtype \<Rightarrow> expr" where
  "type_to_expr TAny = EVariable ''any''"
| "type_to_expr (TPrim p) = EVariable (show_primitive p)"
| "type_to_expr (TList t) = EFuncCall None [] ''list'' [type_to_expr t]"
| "type_to_expr (TSet t) = EFuncCall None [] ''set'' [type_to_expr t]"
| "type_to_expr (TMap t) = EFuncCall None [] ''map'' [type_to_expr t]"
| "type_to_expr (TTuple ts) = EFuncCall None [] ''tuple'' [EArray (map type_to_expr ts)]"
| "type_to_expr (TObject fs) =
     EFuncCall None [] ''object'' [EObject None (map (\<lambda>(k, t). (KIdent k, type_to_expr t)) fs)]"

lemma collect_fields_idents: "collect_fields (map (\<lambda>(k, t). (KIdent k, f t)) fs) = bt_extend [] (map (\<lambda>(k, t). (k, f t)) fs)"
proof -
  have "List.map_filter (\<lambda>(key, t). map_option (\<lambda>n. (n, t)) (object_key_as_ident key))
      (map (\<lambda>(k, t). (KIdent k, f t)) fs) = map (\<lambda>(k, t). (k, f t)) fs"
    by (induction fs) (auto simp: List.map_filter_def)
  then show ?thesis by (simp add: collect_fields_extend)
qed

text \<open>
  Reading a type expression inverts writing it: for every well-formed type, the constraint
  expression written for it (\<open>list(...)\<close>, \<open>object({...})\<close> and so on) is read back as that type.
\<close>

theorem type_expr_roundtrip: "type_ok t \<Longrightarrow> parse_type_expr (type_to_expr t) = t"
proof (induction t rule: type_to_expr.induct)
  case (2 p)
  then show ?case by (cases p) auto
next
  case (6 ts)
  then show ?case by (simp add: list_all_iff map_idI)
next
  case (7 fs)
  have eq: "map (\<lambda>(k, t). (k, parse_type_expr (type_to_expr t))) fs = fs"
    using 7 by (auto simp: list_all_iff bt_values_def intro!: map_idI)
  have "collect_fields (map (\<lambda>(k, t). (KIdent k, parse_type_expr (type_to_expr t))) fs) = bt_extend [] fs"
    using collect_fields_idents [of "\<lambda>t. parse_type_expr (type_to_expr t)" fs] eq by simp
  also have "\<dots> = fs"
    using bt_extend_sorted [of "[]" fs] "7.prems" by (simp add: bt_ok_keys)
  finally show ?case
    by (simp add: comp_def case_prod_unfold)
qed auto

lemma type_expr_roundtrip_witness:
  "parse_type_expr (EFuncCall None [] ''object'' [EObject None [(KIdent ''a'', EVariable ''number''),
     (KIdent ''b'', EFuncCall None [] ''list'' [EVariable ''any''])]])
   = TObject [(''a'', TPrim PNumber), (''b'', TList TAny)]"
  using type_expr_roundtrip [of "TObject [(''a'', TPrim PNumber), (''b'', TList TAny)]"]
  by (simp add: bt_ok_Cons)

section \<open>Merging the arms of a conditional\<close>

lemma merge_shapes_any [simp]: "merge_shapes TAny b = b" "merge_shapes a TAny = a"
  by (simp_all add: merge_shapes.simps)

lemma merge_shapes_other:
  "a \<noteq> TAny \<Longrightarrow> b \<noteq> TAny \<Longrightarrow> \<not> (\<exists>xs ys. a = TObject xs \<and> b = TObject ys) \<Longrightarrow> merge_shapes a b = a"
  by (subst merge_shapes.simps) (auto split: vtype.split)

definition shape_field :: "(string, vtype) btree \<Rightarrow> (string, vtype) btree \<Rightarrow> string \<Rightarrow> vtype option" where
  "shape_field xs ys k = (case (bt_get xs k, bt_get ys k) of
     (Some x, Some y) \<Rightarrow> Some (merge_shapes x y)
   | (Some x, None) \<Rightarrow> Some x | (None, y) \<Rightarrow> y)"

lemma merge_shapes_object:
  assumes "bt_ok xs" "bt_ok ys"
  shows "\<exists>zs. merge_shapes (TObject xs) (TObject ys) = TObject zs \<and> bt_ok zs
    \<and> bt_get zs = shape_field xs ys"
proof -
  let ?step = "\<lambda>acc (k, v). bt_insert k
      (case bt_get acc k of Some existing \<Rightarrow> merge_shapes existing v | None \<Rightarrow> v) acc"
  have "bt_ok (foldl ?step acc kvs) \<and> bt_get (foldl ?step acc kvs) = shape_field acc kvs"
    if "bt_ok acc" "distinct (map fst kvs)" for acc kvs
    using that
  proof (induction kvs arbitrary: acc)
    case Nil
    then show ?case by (auto simp: shape_field_def bt_get_def fun_eq_iff split: option.split)
  next
    case (Cons kv kvs)
    obtain k v where kv: "kv = (k, v)" by (cases kv)
    let ?m = "bt_insert k (case bt_get acc k of Some e \<Rightarrow> merge_shapes e v | None \<Rightarrow> v) acc"
    have absent: "bt_get kvs k = None"
      using Cons.prems(2) by (simp add: kv bt_get_def map_of_eq_None_iff)
    have "bt_ok (foldl ?step ?m kvs) \<and> bt_get (foldl ?step ?m kvs) = shape_field ?m kvs"
      by (rule Cons.IH) (use Cons.prems in \<open>auto simp: bt_insert_ok kv\<close>)
    moreover have "shape_field ?m kvs = shape_field acc (kv # kvs)"
      using absent Cons.prems(1)
      by (auto simp: shape_field_def fun_eq_iff kv bt_get_insert bt_get_Cons split: option.splits)
    ultimately show ?case by (simp add: kv)
  qed
  from this [of xs ys] bt_ok_distinct [OF assms(2)] assms(1) show ?thesis
    by (subst merge_shapes.simps) (simp add: bt_keys_def)
qed

section \<open>What satisfies a declared type\<close>

lemma satisfies_any [simp]: "satisfies TAny a" "satisfies d TAny"
  by (simp_all add: satisfies.simps)

lemma satisfies_object:
  assumes "bt_ok decl" "bt_ok act"
  shows "satisfies (TObject decl) (TObject act) \<longleftrightarrow>
    (\<forall>k. case (bt_get decl k, bt_get act k) of
       (Some d, Some a) \<Rightarrow> satisfies d a
     | (Some d, None) \<Rightarrow> d = TAny
     | (None, a) \<Rightarrow> a = None)"
proof -
  have "(\<forall>(k, d) \<in> set decl. case bt_get act k of Some a \<Rightarrow> satisfies d a | None \<Rightarrow> d = TAny)
    \<longleftrightarrow> (\<forall>k d. bt_get decl k = Some d \<longrightarrow>
          (case bt_get act k of Some a \<Rightarrow> satisfies d a | None \<Rightarrow> d = TAny))"
    using bt_ok_distinct [OF assms(1)] by (auto simp: bt_get_def bt_keys_def)
  moreover have "(\<forall>k \<in> set (bt_keys act). bt_get decl k \<noteq> None)
    \<longleftrightarrow> (\<forall>k. bt_get act k \<noteq> None \<longrightarrow> bt_get decl k \<noteq> None)"
    by (auto simp: bt_keys_dom)
  ultimately show ?thesis
    by (subst satisfies.simps) (simp add: list_all_iff, auto split: option.splits)
qed

lemma satisfies_map:
  "satisfies (TMap t) (TObject act) \<longleftrightarrow> (\<forall>v \<in> set (bt_values act). satisfies t v)"
  by (subst satisfies.simps) (simp add: list_all_iff)

lemma bt_values_get: "bt_ok m \<Longrightarrow> v \<in> set (bt_values m) \<longleftrightarrow> (\<exists>k. bt_get m k = Some v)"
  using bt_ok_distinct [of m] by (force simp: bt_values_def bt_get_def bt_keys_def)

lemma satisfies_merge_shapes:
  "type_ok d \<Longrightarrow> type_ok a \<Longrightarrow> type_ok b \<Longrightarrow> satisfies d a \<Longrightarrow> satisfies d b \<Longrightarrow>
   satisfies d (merge_shapes a b)"
proof (induction "size d" arbitrary: d a b rule: less_induct)
  case less
  show ?case
  proof (cases "\<exists>xs ys. a = TObject xs \<and> b = TObject ys")
    case False
    then show ?thesis
      using less.prems by (cases "a = TAny"; cases "b = TAny") (simp_all add: merge_shapes_other)
  next
    case True
    then obtain xs ys where ab: "a = TObject xs" "b = TObject ys" by blast
    have oks: "bt_ok xs" "bt_ok ys" using less.prems by (simp_all add: ab)
    obtain zs where zs: "merge_shapes a b = TObject zs" "bt_ok zs" "bt_get zs = shape_field xs ys"
      using merge_shapes_object [OF oks] unfolding ab by blast
    have inner: "bt_get xs k = Some x \<Longrightarrow> type_ok x" "bt_get ys k = Some x \<Longrightarrow> type_ok x" for k x
      using less.prems(2,3) ok.outer_field unfolding ab by blast+
    have field: "satisfies t z"
      if "size t < size d" "type_ok t" "bt_get zs k = Some z"
        "\<forall>x. bt_get xs k = Some x \<or> bt_get ys k = Some x \<longrightarrow> satisfies t x" for t z k
      using that less.hyps [of t] inner
      by (auto simp: zs(3) shape_field_def split: option.splits)
    show ?thesis
    proof (cases d)
      case (TMap t)
      have "\<forall>x. bt_get xs k = Some x \<or> bt_get ys k = Some x \<longrightarrow> satisfies t x" for k
        using less.prems(4,5) by (auto simp: TMap ab satisfies_map dest: bt_get_values)
      then show ?thesis
        using less.prems(1) field [of t] 
        by (auto simp: TMap zs satisfies_map bt_values_get)
    next
      case (TObject fs)
      then have fs: "bt_ok fs" using less.prems(1) by simp
      have case_of: "case (bt_get fs k, bt_get zs k) of (Some d, Some z) \<Rightarrow> satisfies d z
        | (Some d, None) \<Rightarrow> d = TAny | (None, z) \<Rightarrow> z = None" for k
      proof -
        have xk: "case (bt_get fs k, bt_get xs k) of (Some d, Some z) \<Rightarrow> satisfies d z
            | (Some d, None) \<Rightarrow> d = TAny | (None, z) \<Rightarrow> z = None"
          and yk: "case (bt_get fs k, bt_get ys k) of (Some d, Some z) \<Rightarrow> satisfies d z
            | (Some d, None) \<Rightarrow> d = TAny | (None, z) \<Rightarrow> z = None"
          using less.prems(4,5) unfolding ab TObject satisfies_object [OF fs oks(1)] 
            satisfies_object [OF fs oks(2)] by auto
        show ?thesis
        proof (cases "bt_get fs k")
          case None
          with xk yk show ?thesis by (auto simp: zs(3) shape_field_def)
        next
          case (Some t)
          have "size t < size d" using size_bt_get [OF Some] by (simp add: TObject termination_simp)
          moreover have "type_ok t" using ok.outer_field [OF _ Some] less.prems(1) TObject by blast
          moreover have "\<forall>x. bt_get xs k = Some x \<or> bt_get ys k = Some x \<longrightarrow> satisfies t x"
            using xk yk by (auto simp: Some split: option.splits)
          ultimately show ?thesis
            using field [of t k] xk yk
            by (auto simp: Some zs(3) shape_field_def split: option.splits)
        qed
      qed
      then show ?thesis unfolding TObject zs(1) satisfies_object [OF fs zs(2)] by blast
    qed (use less.prems(4) in \<open>simp_all add: ab satisfies.simps\<close>)
  qed
qed

text \<open>
  C8. The diagnostic on a conditional raises no false alarm: when both arms of
  \<open>cond ? t : f\<close> satisfy the declared type, so does the shape inferred for the whole conditional
  (a field-by-field merge of the two arms' shapes).
\<close>

theorem conditional_no_false_alarm:
  assumes "type_ok d" "schema_ok s"
    and "satisfies d (parse_value_shape_with_schema s t)"
    and "satisfies d (parse_value_shape_with_schema s f)"
  shows "satisfies d (parse_value_shape_with_schema s (EConditional c t f))"
  using assms by (simp add: satisfies_merge_shapes parse_value_shape_with_schema_ok)

lemma conditional_no_false_alarm_witness:
  "satisfies (TObject [(''a'', TPrim PNumber), (''b'', TAny)])
     (parse_value_shape (EConditional (EBool True)
        (EObject None [(KIdent ''a'', ENumber ''1'')])
        (EObject None [(KIdent ''a'', EString None ''2''), (KIdent ''b'', ENull)])))"
  unfolding parse_value_shape_def
  by (rule conditional_no_false_alarm)
    (simp_all add: schema_ok_def no_schema_lookup_def bt_ok_Cons collect_fields_def
      satisfies.simps bt_get_def primitives_compatible_def)

text \<open>\<open>vaguer t u\<close>: \<open>u\<close> is \<open>t\<close> with some parts replaced by \<open>any\<close>.\<close>

inductive vaguer :: "vtype \<Rightarrow> vtype \<Rightarrow> bool" where
  vague_any: "vaguer t TAny"
| vague_refl: "vaguer t t"
| vague_list: "vaguer t u \<Longrightarrow> vaguer (TList t) (TList u)"
| vague_set: "vaguer t u \<Longrightarrow> vaguer (TSet t) (TSet u)"
| vague_map: "vaguer t u \<Longrightarrow> vaguer (TMap t) (TMap u)"
| vague_tuple: "length ts = length us \<Longrightarrow> \<forall>i < length ts. vaguer (ts ! i) (us ! i) \<Longrightarrow>
    vaguer (TTuple ts) (TTuple us)"
| vague_object: "map fst fs = map fst gs \<Longrightarrow> \<forall>i < length fs. vaguer (snd (fs ! i)) (snd (gs ! i)) \<Longrightarrow>
    vaguer (TObject fs) (TObject gs)"

inductive_simps vaguer_simps:
  "vaguer TAny u" "vaguer (TPrim p) u" "vaguer (TList t) u" "vaguer (TSet t) u" "vaguer (TMap t) u"
  "vaguer (TTuple ts) u" "vaguer (TObject fs) u"

lemma satisfies_items:
  "satisfies (TList t) (TTuple ts) \<longleftrightarrow> (\<forall>i < length ts. satisfies t (ts ! i))"
  "satisfies (TSet t) (TTuple ts) \<longleftrightarrow> (\<forall>i < length ts. satisfies t (ts ! i))"
  "satisfies (TTuple ds) (TTuple ts) \<longleftrightarrow>
     length ds = length ts \<and> (\<forall>i < length ts. satisfies (ds ! i) (ts ! i))"
  "satisfies (TMap t) (TObject fs) \<longleftrightarrow> (\<forall>i < length fs. satisfies t (snd (fs ! i)))"
  by (simp_all add: satisfies.simps [of "TList t" "TTuple ts"] satisfies.simps [of "TSet t" "TTuple ts"]
    satisfies.simps [of "TTuple ds" "TTuple ts"] satisfies.simps [of "TMap t" "TObject fs"]
    list_all_length bt_values_def conj_commute cong: conj_cong)

lemma vague_fields:
  assumes "map fst fs = map fst gs" "\<forall>i < length fs. R (snd (fs ! i)) (snd (gs ! i))"
  shows "rel_option R (bt_get fs k) (bt_get gs k)"
proof -
  from assms(1) have "length fs = length gs" by (rule map_eq_imp_length_eq)
  then show ?thesis
    using assms
  proof (induction fs gs rule: list_induct2)
    case (Cons f fs g gs)
    have "R (snd f) (snd g)" using Cons.prems(2) by force
    moreover have "\<forall>i < length fs. R (snd (fs ! i)) (snd (gs ! i))"
      using Cons.prems(2) by force
    ultimately show ?case
      using Cons by (cases f; cases g) (auto simp: bt_get_def)
  qed (simp add: bt_get_def)
qed

lemma vaguer_actual:
  "vaguer a a' \<Longrightarrow> satisfies d a \<Longrightarrow> satisfies d a'"
proof (induction a a' arbitrary: d rule: vaguer.induct)
  case (vague_tuple ts us)
  show ?case
  proof (cases d)
    case (TList t)
    with vague_tuple show ?thesis by (simp add: satisfies_items)
  next
    case (TSet t)
    with vague_tuple show ?thesis by (simp add: satisfies_items)
  next
    case (TTuple ds)
    with vague_tuple show ?thesis
      by (simp add: satisfies_items)
  qed (use vague_tuple.prems in \<open>simp_all add: satisfies.simps\<close>)
next
  case (vague_object fs gs)
  have keys: "bt_keys gs = bt_keys fs" using vague_object(1) by (simp add: bt_keys_def)
  have len: "length gs = length fs" using vague_object(1) by (metis length_map)
  have fields: "rel_option (\<lambda>a a'. \<forall>d. satisfies d a \<longrightarrow> satisfies d a') (bt_get fs k) (bt_get gs k)" for k
    by (rule vague_fields) (use vague_object in auto)
  show ?case
  proof (cases d)
    case (TMap t)
    with vague_object len show ?thesis by (simp add: satisfies_items)
  next
    case (TObject ds)
    have "case bt_get gs k of Some a \<Rightarrow> satisfies t a | None \<Rightarrow> t = TAny"
      if "case bt_get fs k of Some a \<Rightarrow> satisfies t a | None \<Rightarrow> t = TAny" for k t
      using that fields [of k] by (cases "bt_get fs k"; cases "bt_get gs k") auto
    with vague_object.prems show ?thesis
      by (auto simp: TObject satisfies.simps [of "TObject _"] list_all_iff keys)
  qed (use vague_object.prems in \<open>simp_all add: satisfies.simps\<close>)
qed (auto simp: satisfies.simps split: vtype.splits)

lemma vaguer_declared:
  "vaguer d d' \<Longrightarrow> satisfies d a \<Longrightarrow> satisfies d' a"
proof (induction d d' arbitrary: a rule: vaguer.induct)
  case (vague_list t u)
  then show ?case
    by (cases a) (auto simp: satisfies.simps [of "TList u"] satisfies.simps [of "TList t"] list_all_iff)
next
  case (vague_set t u)
  then show ?case
    by (cases a) (auto simp: satisfies.simps [of "TSet u"] satisfies.simps [of "TSet t"] list_all_iff)
next
  case (vague_map t u)
  then show ?case
    by (cases a) (auto simp: satisfies.simps [of "TMap u"] satisfies.simps [of "TMap t"] list_all_iff)
next
  case (vague_tuple ts us)
  show ?case
  proof (cases a)
    case (TTuple ds)
    with vague_tuple show ?thesis
      by (simp add: satisfies_items)
  qed (use vague_tuple.prems in \<open>simp_all add: satisfies.simps\<close>)
next
  case (vague_object fs gs)
  have len: "length gs = length fs" using vague_object(1) by (metis length_map)
  have none: "bt_get gs k = None \<longleftrightarrow> bt_get fs k = None" for k
    using vague_object(1) by (metis bt_get_def map_of_eq_None_iff set_map)
  have key: "fst (gs ! i) = fst (fs ! i)" if "i < length fs" for i
    using vague_object(1) that len by (metis nth_map)
  show ?case
  proof (cases a)
    case (TObject as)
    have "case bt_get as (fst (gs ! i)) of Some a \<Rightarrow> satisfies (snd (gs ! i)) a
        | None \<Rightarrow> snd (gs ! i) = TAny"
      if i: "i < length fs" and
        "case bt_get as (fst (fs ! i)) of Some a \<Rightarrow> satisfies (snd (fs ! i)) a
        | None \<Rightarrow> snd (fs ! i) = TAny" for i
      using that vague_object(2) key [OF i]
      by (auto simp: vaguer_simps split: option.splits)
    with vague_object.prems show ?thesis
      by (auto simp: TObject satisfies.simps [of "TObject _"] none list_all_length len case_prod_unfold)
  qed (use vague_object.prems in \<open>simp_all add: satisfies.simps\<close>)
qed auto

text \<open>
  Less information never creates a diagnostic: when a value's shape satisfies a declared type,
  it still does after any parts of the declared type or of the shape are replaced by \<open>any\<close>, at
  any depth.
\<close>

theorem satisfies_vaguer:
  assumes "satisfies d a" "vaguer d d'" "vaguer a a'"
  shows "satisfies d' a'"
  using assms vaguer_actual vaguer_declared by blast

lemma satisfies_vaguer_witness:
  "satisfies (TObject [(''x'', TList TAny)]) (TObject [(''x'', TTuple [TPrim PBool])])"
  by (rule satisfies_vaguer [of "TObject [(''x'', TList (TPrim PBool))]"
        "TObject [(''x'', TTuple [TPrim PBool])]"])
    (auto intro!: vague_object vague_list vague_any vague_refl
      simp: satisfies.simps bt_get_def primitives_compatible_def)

section \<open>The message\<close>

lemma join_with_Nil: "list_all (\<lambda>s. s \<noteq> []) xs \<Longrightarrow> join_with sep xs = [] \<longleftrightarrow> xs = []"
  by (cases xs rule: remdups_adj.cases) auto

lemma field_list_nonempty: "list_all (\<lambda>s. s \<noteq> []) (field_list w ks)"
  by (simp add: field_list_def)

lemma field_list_Nil: "field_list w ks = [] \<longleftrightarrow> ks = []"
  by (simp add: field_list_def)

lemma wrong_fields_nonempty: "list_all (\<lambda>s. s \<noteq> []) (wrong_fields decl act)"
  by (auto simp: wrong_fields_def list_all_iff backquote_def split: option.splits if_splits)

text \<open>
  A mismatch is always explained, and only a mismatch is: the message is empty exactly when
  the shape satisfies the declared type. In particular a failing object always lists an unknown,
  a missing or a wrongly typed field.
\<close>

theorem explained_iff_mismatch: "explain_mismatch d a = [] \<longleftrightarrow> satisfies d a"
proof (cases "\<not> satisfies d a \<and> (\<exists>fs gs. d = TObject fs \<and> a = TObject gs)")
  case False
  then show ?thesis
    by (cases d; cases a) (auto simp: explain_mismatch_def)
next
  case True
  then obtain decl act where da: "d = TObject decl" "a = TObject act" "\<not> satisfies d a" by blast
  let ?extras = "filter (\<lambda>k. bt_get decl k = None) (bt_keys act)"
  let ?missing = "map fst (filter (\<lambda>(k, t). bt_get act k = None \<and> t \<noteq> TAny) decl)"
  let ?parts = "field_list ''unknown'' ?extras @ field_list ''missing'' ?missing @ wrong_fields decl act"
  have "?extras \<noteq> [] \<or> ?missing \<noteq> [] \<or> wrong_fields decl act \<noteq> []"
    using da(3) unfolding da(1,2)
    by (fastforce simp: satisfies.simps [of "TObject _"] list_all_iff filter_empty_conv
        wrong_fields_def split: option.splits)
  then have "join_with ''; '' ?parts \<noteq> []"
    using field_list_nonempty wrong_fields_nonempty
    by (subst join_with_Nil) (auto simp: field_list_Nil)
  then show ?thesis
    using da by (simp add: explain_mismatch_def Let_def)
qed

section \<open>Traversals through counted resources\<close>

lemma drill_skip: "get_attrs idx = [] \<Longrightarrow> 0 < n \<Longrightarrow> drill n t (idx @ ops) = drill n t ops"
  by (induction idx rule: get_attrs.induct) (auto split: trav_op.split)

lemma get_attrs_append: "get_attrs (xs @ ys) = get_attrs xs @ get_attrs ys"
  by (induction xs rule: get_attrs.induct) auto

text \<open>
  Selecting an instance of a counted resource does not change the type found: with any index
  or splat operators \<open>idx\<close> between the resource's name and the attribute, as in
  \<open>aws_instance.web[0].id\<close>, the traversal has the schema's type of that attribute, drilled by the
  operators after it.
\<close>

theorem instance_access_type:
  assumes "is_resource_type base" and "get_attrs idx = []"
  shows "traversal_attr_type (EVariable base) (GetAttr gp name # idx @ GetAttr gq attr # rest) schema
       = map_option (\<lambda>t. drill 0 t rest) (resource_attr schema base attr)"
proof -
  have "base \<notin> {''var'', ''local'', ''module'', ''each'', ''data''}"
    using assms(1) by (auto simp: is_resource_type_def)
  then have "header_type schema base (get_attrs (GetAttr gp name # idx @ GetAttr gq attr # rest))
      = map_option (\<lambda>t. Inr (t, 2)) (resource_attr schema base attr)"
    using assms by (cases "resource_attr schema base attr")
      (auto simp: header_type_def nth_opt_def get_attrs_append)
  then show ?thesis
    using assms(2)
    by (cases "resource_attr schema base attr") (auto simp: traversal_attr_type_def drill_skip)
qed

lemma instance_access_type_witness:
  "traversal_attr_type (EVariable ''aws_eip'')
     [GetAttr None ''a'', Index (ENumber ''0''), GetAttr None ''tags'', GetAttr None ''Name'']
     (no_schema_lookup\<lparr>resource_attr := \<lambda>_ _. Some (TMap (TPrim PString))\<rparr>) = Some (TPrim PString)"
  using instance_access_type [of "''aws_eip''" "[Index (ENumber ''0'')]" None "''a''" None "''tags''"
      "[GetAttr None ''Name'']" "no_schema_lookup\<lparr>resource_attr := \<lambda>_ _. Some (TMap (TPrim PString))\<rparr>"]
  by (simp add: is_resource_type_def drill_attr_def)

section \<open>Laws of merging observations\<close>

text \<open>
  Merging two observed types terminates: the fuel of \<open>merge_types\<close> is always enough, so it
  satisfies the recursion of the code, including the call whose accumulator is itself a merge.
\<close>

theorem merge_types_unfold: "merge_types a b = merge_body merge_types a b"
  by (rule merge_types_body)

fun tuple_free :: "vtype \<Rightarrow> bool" where
  "tuple_free (TList t) = tuple_free t"
| "tuple_free (TSet t) = tuple_free t"
| "tuple_free (TMap t) = tuple_free t"
| "tuple_free (TTuple _) = False"
| "tuple_free (TObject fs) = list_all tuple_free (bt_values fs)"
| "tuple_free _ = True"

lemma bt_union_keys_commute: "bt_union_keys xs ys = bt_union_keys ys xs"
  using bt_union_keys_ok [of xs ys] bt_union_keys_ok [of ys xs]
  by (intro strict_sorted_equal) auto

lemma merge_fuel_commute:
  "tuple_free a \<Longrightarrow> tuple_free b \<Longrightarrow> merge_fuel n a b = merge_fuel n b a"
proof (induction n arbitrary: a b)
  case (Suc n)
  have obj: "merge_body (merge_fuel n) (TObject xs) (TObject ys)
      = merge_body (merge_fuel n) (TObject ys) (TObject xs)"
    if "a = TObject xs" "b = TObject ys" for xs ys
  proof -
    have "tuple_free t" if "bt_get xs k = Some t \<or> bt_get ys k = Some t" for k t
      using that Suc.prems \<open>a = _\<close> \<open>b = _\<close> by (auto simp: list_all_iff dest: bt_get_values)
    then have "merge_fuel n x y = merge_fuel n y x"
      if "bt_get xs k = Some x" "bt_get ys k = Some y" for k x y
      using Suc.IH [of x y] that by blast
    then show ?thesis
      using bt_union_keys_commute [of xs ys]
      by (auto simp: merge_body_def split: option.splits)
  qed
  show ?case
    unfolding merge_fuel.simps(2)
  proof (cases "\<exists>xs ys. a = TObject xs \<and> b = TObject ys")
    case True
    with obj show "merge_body (merge_fuel n) a b = merge_body (merge_fuel n) b a" by blast
  next
    case False
    then show "merge_body (merge_fuel n) a b = merge_body (merge_fuel n) b a"
      using Suc by (cases a; cases b) (auto simp: merge_body_def)
  qed
qed auto

text \<open>
  The order in which two observations are merged does not matter, as long as no tuple is
  involved. (With tuples of different lengths it does: see \<open>merge_order_matters\<close>.)
\<close>

theorem merge_types_commute:
  assumes "tuple_free a" and "tuple_free b"
  shows "merge_types a b = merge_types b a"
  using assms unfolding merge_types_def by (simp add: merge_fuel_commute max.commute)

lemma merge_types_commute_witness:
  "merge_types (TObject [(''a'', TPrim PBool)]) (TObject [(''b'', TList TAny)])
   = merge_types (TObject [(''b'', TList TAny)]) (TObject [(''a'', TPrim PBool)])"
  by (rule merge_types_commute) simp_all

text \<open>
  Merging tuples of different lengths depends on the order, and its result can reject one of
  the observations it was merged from: a conflict is recorded as \<open>any\<close>, which the next merge
  takes for "unknown" and replaces.
\<close>

theorem merge_order_matters:
  "merge_types (TTuple [TPrim PString]) (TTuple [TPrim PNumber, TPrim PBool]) = TList (TPrim PBool)
   \<and> merge_types (TTuple [TPrim PNumber, TPrim PBool]) (TTuple [TPrim PString]) = TList (TPrim PString)
   \<and> \<not> satisfies (TList (TPrim PBool)) (TTuple [TPrim PNumber, TPrim PBool])"
  by (simp_all add: merge_types_body [of "TTuple _"] merge_types_body [of "TPrim _"]
      merge_types_body [of TAny] merge_body_def satisfies.simps primitives_compatible_def)

end
