(* ===== verification/Types.thy ===== *)
theory Types
  imports VariableType "HOL-Library.AList" "HOL-Library.Multiset"
begin

text \<open>
  \<^verbatim>\<open>crates/tfls-core/src/types.rs\<close> and the test-file predicates of
  \<^verbatim>\<open>crates/tfls-core/src/uri.rs\<close>: provider and resource addresses, symbol locations, the
  per-module symbol table and the serialised form of its address-keyed maps.

  A \<open>HashMap\<close> is an association list with distinct keys; its order, which Rust leaves open, is
  arbitrary, and the theorems hold for every order.
\<close>

type_synonym ('k, 'v) hash_map = "('k \<times> 'v) list"

definition hm_ok :: "('k, 'v) hash_map \<Rightarrow> bool" where
  "hm_ok m \<longleftrightarrow> distinct (map fst m)"

definition hm_get :: "('k, 'v) hash_map \<Rightarrow> 'k \<Rightarrow> 'v option" where
  "hm_get m k = map_of m k"

definition hm_insert :: "'k \<Rightarrow> 'v \<Rightarrow> ('k, 'v) hash_map \<Rightarrow> ('k, 'v) hash_map" where
  "hm_insert k v m = AList.update k v m"

definition hm_collect :: "('k \<times> 'v) list \<Rightarrow> ('k, 'v) hash_map" where
  "hm_collect kvs = foldl (\<lambda>m (k, v). hm_insert k v m) [] kvs"

lemma hm_insert_ok: "hm_ok m \<Longrightarrow> hm_ok (hm_insert k v m)"
  by (simp add: hm_ok_def hm_insert_def distinct_update)

lemma hm_get_insert: "hm_get (hm_insert k v m) = (hm_get m)(k \<mapsto> v)"
  by (simp add: hm_get_def hm_insert_def update_conv' fun_eq_iff)

lemma hm_fold_ok: "hm_ok m \<Longrightarrow> hm_ok (foldl (\<lambda>m (k, v). hm_insert k v m) m kvs)"
  by (induction kvs arbitrary: m) (auto simp: hm_insert_ok)

lemma hm_get_fold: "hm_get (foldl (\<lambda>m (k, v). hm_insert k v m) m kvs) = hm_get m ++ map_of (rev kvs)"
proof (induction kvs arbitrary: m)
  case (Cons kv kvs)
  then show ?case
    by (cases kv) (auto simp: hm_get_insert map_add_def fun_eq_iff split: option.splits)
qed simp

lemma hm_collect_ok: "hm_ok (hm_collect kvs)"
  unfolding hm_collect_def by (rule hm_fold_ok) (simp add: hm_ok_def)

lemma hm_get_collect: "hm_get (hm_collect kvs) = map_of (rev kvs)"
  unfolding hm_collect_def hm_get_fold by (auto simp: hm_get_def map_add_def fun_eq_iff split: option.splits)

section \<open>Provider addresses\<close>

datatype core_error = InvalidProviderAddress string string  \<comment> \<open>input, reason\<close>

record provider_address =
  hostname :: string
  namespace :: string
  ptype :: string

definition canonicalise_hostname :: "string \<Rightarrow> string" where
  "canonicalise_hostname host =
     (if host = ''registry.opentofu.org'' \<or> host = ''registry.terraform.io''
      then ''registry.terraform.io'' else host)"

definition provider_new :: "string \<Rightarrow> string \<Rightarrow> string \<Rightarrow> provider_address" where
  "provider_new host ns ty =
     \<lparr>hostname = canonicalise_hostname host, namespace = ns, ptype = ty\<rparr>"

definition hashicorp :: "string \<Rightarrow> provider_address" where
  "hashicorp name = provider_new ''registry.terraform.io'' ''hashicorp'' name"

definition is_builtin :: "provider_address \<Rightarrow> bool" where
  "is_builtin a \<longleftrightarrow> hostname a = ''terraform.io'' \<and> namespace a = ''builtin''"

definition provider_parse :: "string \<Rightarrow> core_error + provider_address" where
  "provider_parse input =
     (case split_on CHR ''/'' input of
        [host, ns, ty] \<Rightarrow> Inr (provider_new host ns ty)
      | [ns, ty] \<Rightarrow> Inr (provider_new ''registry.terraform.io'' ns ty)
      | _ \<Rightarrow> Inl (InvalidProviderAddress input (''expected 'host/namespace/type' or 'namespace/type'' @ [CHR 0x27])))"

definition show_provider :: "provider_address \<Rightarrow> string" where
  "show_provider a = hostname a @ ''/'' @ namespace a @ ''/'' @ ptype a"

lemma split_on_two:
  "d \<notin> set a \<Longrightarrow> d \<notin> set b \<Longrightarrow> d \<notin> set c \<Longrightarrow> split_on d (a @ d # b @ d # c) = [a, b, c]"
  by (simp add: rust_str)

lemma canonical_no_slash: "CHR ''/'' \<notin> set h \<Longrightarrow> CHR ''/'' \<notin> set (canonicalise_hostname h)"
  by (auto simp: canonicalise_hostname_def)

lemma canonical_idem: "canonicalise_hostname (canonicalise_hostname h) = canonicalise_hostname h"
  by (auto simp: canonicalise_hostname_def)

lemma canonical_not_opentofu: "canonicalise_hostname h \<noteq> ''registry.opentofu.org''"
  by (simp add: canonicalise_hostname_def)

lemma provider_parse_show:
  assumes "CHR ''/'' \<notin> set h" "CHR ''/'' \<notin> set n" "CHR ''/'' \<notin> set t"
  shows "provider_parse (show_provider (provider_new h n t)) = Inr (provider_new h n t)"
  using split_on_two [OF canonical_no_slash [OF assms(1)] assms(2,3)]
  by (simp add: provider_parse_def show_provider_def provider_new_def canonical_idem)

lemma provider_parse_cases:
  assumes "provider_parse s = Inr a"
  shows "\<exists>h n t. a = provider_new h n t \<and> CHR ''/'' \<notin> set h \<and> CHR ''/'' \<notin> set n \<and> CHR ''/'' \<notin> set t
    \<and> s \<in> {h @ ''/'' @ n @ ''/'' @ t, n @ ''/'' @ t}"
proof -
  note ps = split_on_pieces [of _ "CHR ''/''" s] and js = join_split_on [of "CHR ''/''" s]
  consider h n t where "split_on CHR ''/'' s = [h, n, t]" "a = provider_new h n t"
    | n t where "split_on CHR ''/'' s = [n, t]" "a = provider_new ''registry.terraform.io'' n t"
    using assms by (auto simp: provider_parse_def split: list.splits)
  then show ?thesis
  proof cases
    case (1 h n t)
    with ps [of h] ps [of n] ps [of t] js show ?thesis by auto
  next
    case (2 n t)
    with ps [of n] ps [of t] js show ?thesis
      by (intro exI [of _ "''registry.terraform.io''"] exI [of _ n] exI [of _ t]) auto
  qed
qed

text \<open>
  A provider address parsed from any accepted spelling is its own canonical spelling: printing
  and parsing it again gives the same address, and the two interchangeable registry hosts are one
  (an accepted address never carries the OpenTofu host).
\<close>

theorem provider_address_canonical:
  assumes "provider_parse s = Inr a"
  shows "provider_parse (show_provider a) = Inr a \<and> hostname a \<noteq> ''registry.opentofu.org''"
proof -
  obtain h n t where "a = provider_new h n t"
    "CHR ''/'' \<notin> set h" "CHR ''/'' \<notin> set n" "CHR ''/'' \<notin> set t"
    using provider_parse_cases [OF assms] by blast
  with provider_parse_show [of h n t] canonical_not_opentofu show ?thesis
    by (simp add: provider_new_def)
qed

lemma provider_address_canonical_witness:
  "provider_parse ''registry.opentofu.org/a/b'' = provider_parse ''a/b''
   \<and> provider_parse (show_provider (provider_new ''registry.opentofu.org'' ''a'' ''b''))
     = Inr (provider_new ''registry.terraform.io'' ''a'' ''b'')"
  using provider_address_canonical [of "''registry.opentofu.org/a/b''"
      "provider_new ''registry.opentofu.org'' ''a'' ''b''"]
  by (simp add: provider_parse_def provider_new_def canonicalise_hostname_def)

section \<open>Resource addresses, locations, symbols\<close>

record resource_address =
  resource_type :: string
  rname :: string

definition show_resource :: "resource_address \<Rightarrow> string" where
  "show_resource a = resource_type a @ ''.'' @ rname a"

datatype symbol_kind = Variable | Local | Output | Resource | DataSource | Module | Provider | TerraformBlock

record lsp_position =
  pos_line :: nat
  pos_character :: nat

record lsp_range =
  range_start :: lsp_position
  range_end :: lsp_position

record symbol_location =
  loc_uri :: string
  start_line :: nat
  start_character :: nat
  end_line :: nat
  end_character :: nat

definition location_new :: "string \<Rightarrow> lsp_range \<Rightarrow> symbol_location" where
  "location_new u r = \<lparr>loc_uri = u, start_line = pos_line (range_start r), start_character = pos_character (range_start r),
     end_line = pos_line (range_end r), end_character = pos_character (range_end r)\<rparr>"

definition location_range :: "symbol_location \<Rightarrow> lsp_range" where
  "location_range l = \<lparr>range_start = \<lparr>pos_line = start_line l, pos_character = start_character l\<rparr>,
     range_end = \<lparr>pos_line = end_line l, pos_character = end_character l\<rparr>\<rparr>"

record symbol =
  sym_name :: string
  sym_kind :: symbol_kind
  sym_location :: symbol_location
  name_range :: lsp_range
  detail :: "string option"
  doc :: "string option"

record symbol_table =
  variables :: "(string, symbol) hash_map"
  locals :: "(string, symbol) hash_map"
  outputs :: "(string, symbol) hash_map"
  resources :: "(resource_address, symbol) hash_map"
  data_sources :: "(resource_address, symbol) hash_map"
  modules :: "(string, symbol) hash_map"
  providers :: "(string, symbol) hash_map"
  variable_types :: "(string, vtype) hash_map"
  module_sources :: "(string, string) hash_map"
  variable_defaults :: "(string, vtype) hash_map"
  local_shapes :: "(string, vtype) hash_map"
  for_each_shapes :: "(resource_address, vtype) hash_map"
  data_source_for_each_shapes :: "(resource_address, vtype) hash_map"
  module_for_each_shapes :: "(string, vtype) hash_map"

definition empty_table :: symbol_table where
  "empty_table = \<lparr>variables = [], locals = [], outputs = [], resources = [], data_sources = [],
     modules = [], providers = [], variable_types = [], module_sources = [], variable_defaults = [],
     local_shapes = [], for_each_shapes = [], data_source_for_each_shapes = [],
     module_for_each_shapes = []\<rparr>"

definition table_len :: "symbol_table \<Rightarrow> nat" where
  "table_len t = length (variables t) + length (locals t) + length (outputs t)
     + length (resources t) + length (data_sources t) + length (modules t) + length (providers t)"

text \<open>The visitor is a state transformer per callback.\<close>

record 's symbol_visitor =
  visit :: "symbol \<Rightarrow> 's \<Rightarrow> 's"
  visit_resource :: "resource_address \<Rightarrow> symbol \<Rightarrow> 's \<Rightarrow> 's"

definition for_each_symbol :: "'s symbol_visitor \<Rightarrow> symbol_table \<Rightarrow> 's \<Rightarrow> 's" where
  "for_each_symbol v t s0 =
     (let each = (\<lambda>m s. foldl (\<lambda>s (_, sym). visit v sym s) s m);
          each_addr = (\<lambda>m s. foldl (\<lambda>s (addr, sym). visit_resource v addr sym s) s m);
          s1 = each (variables t) s0; s2 = each (locals t) s1; s3 = each (outputs t) s2;
          s4 = each (modules t) s3; s5 = each (providers t) s4; s6 = each_addr (resources t) s5
      in each_addr (data_sources t) s6)"

text \<open>\<open>resource_address_map\<close>: maps keyed by an address are stored as a sequence of pairs.\<close>

definition serialize_address_map :: "(resource_address, 'v) hash_map \<Rightarrow> (resource_address \<times> 'v) list" where
  "serialize_address_map m = m"

definition deserialize_address_map :: "(resource_address \<times> 'v) list \<Rightarrow> (resource_address, 'v) hash_map" where
  "deserialize_address_map entries = hm_collect entries"

lemma foldl_visit: "foldl (\<lambda>s (_, sym). f sym s) s m = foldl (\<lambda>s sym. f sym s) s (map snd m)"
  by (induction m arbitrary: s) auto

definition declarations :: "symbol_table \<Rightarrow> symbol multiset" where
  "declarations t = mset (map snd (variables t)) + mset (map snd (locals t)) + mset (map snd (outputs t))
     + mset (map snd (resources t)) + mset (map snd (data_sources t)) + mset (map snd (modules t))
     + mset (map snd (providers t))"

definition collector :: "symbol list symbol_visitor" where
  "collector = \<lparr>visit = (\<lambda>sym acc. acc @ [sym]), visit_resource = (\<lambda>_ sym acc. acc @ [sym])\<rparr>"

lemma foldl_collect: "foldl (\<lambda>s (a, sym). s @ [sym]) acc m = acc @ map snd m"
  by (induction m arbitrary: acc) auto

text \<open>
  Walking the symbol table visits every declaration exactly once (as a multiset), as many
  visits as \<open>len\<close> counts.
\<close>

theorem walk_visits_each_once:
  "mset (for_each_symbol collector t []) = declarations t
   \<and> length (for_each_symbol collector t []) = table_len t"
  by (simp add: for_each_symbol_def collector_def foldl_collect declarations_def table_len_def Let_def
      del: foldl_append)

text \<open>
  Whatever order the map was iterated in when it was saved, loading it back gives a map with
  the same lookups.
\<close>

theorem address_map_roundtrip:
  assumes "hm_ok m" "mset saved = mset (serialize_address_map m)"
  shows "hm_ok (deserialize_address_map saved) \<and> hm_get (deserialize_address_map saved) = hm_get m"
proof -
  have "distinct (map fst saved)"
    using assms mset_eq_imp_distinct_iff [of "map fst saved" "map fst m"]
    by (simp add: hm_ok_def serialize_address_map_def)
  moreover have "set saved = set m"
    using assms(2) by (metis serialize_address_map_def set_mset_mset)
  ultimately have "map_of (rev saved) = map_of m"
    using assms(1) map_of_inject_set [of "rev saved" m] by (simp add: hm_ok_def rev_map [symmetric])
  then show ?thesis
    by (simp add: deserialize_address_map_def hm_collect_ok hm_get_collect fun_eq_iff hm_get_def [of m])
qed

lemma address_map_roundtrip_witness:
  "hm_get (deserialize_address_map
     [(\<lparr>resource_type = ''b'', rname = ''y''\<rparr>, 2), (\<lparr>resource_type = ''a'', rname = ''x''\<rparr>, 1::nat)])
   = hm_get [(\<lparr>resource_type = ''a'', rname = ''x''\<rparr>, 1), (\<lparr>resource_type = ''b'', rname = ''y''\<rparr>, 2)]"
  using address_map_roundtrip [of "[(\<lparr>resource_type = ''a'', rname = ''x''\<rparr>, 1::nat), (\<lparr>resource_type = ''b'', rname = ''y''\<rparr>, 2)]"
     "[(\<lparr>resource_type = ''b'', rname = ''y''\<rparr>, 2), (\<lparr>resource_type = ''a'', rname = ''x''\<rparr>, 1)]"]
  by (simp add: hm_ok_def serialize_address_map_def)

section \<open>Test files\<close>

definition is_tftest_uri :: "string \<Rightarrow> bool" where
  [rust_eval]: "is_tftest_uri s \<longleftrightarrow> ends_with s ''.tftest.hcl'' \<or> ends_with s ''.tftest.json''
     \<or> ends_with s ''.tofutest.hcl'' \<or> ends_with s ''.tofutest.json''"

definition is_tftest_json :: "string \<Rightarrow> bool" where
  [rust_eval]: "is_tftest_json s \<longleftrightarrow> ends_with s ''.tftest.json'' \<or> ends_with s ''.tofutest.json''"

end
