(* ===== verification/LockFile.thy ===== *)
theory LockFile
  imports Types
begin

text \<open>
  \<^verbatim>\<open>crates/tfls-core/src/lock_file.rs\<close>: the provider versions pinned by
  \<^verbatim>\<open>.terraform.lock.hcl\<close>, and the host-tolerant lookup. The \<^verbatim>\<open>semver\<close> parser is the parameter
  \<open>parse_ver\<close>; a parse of the file into a body (or its failure) is an argument.
\<close>

record 'v lock_entry =
  address :: provider_address
  version :: 'v
  constraints :: "string option"

type_synonym 'v lock_file = "(provider_address, 'v lock_entry) hash_map"

definition find_by_ns_name :: "'v lock_file \<Rightarrow> string \<Rightarrow> string \<Rightarrow> 'v lock_entry option" where
  "find_by_ns_name l ns name =
     map_option snd (find (\<lambda>(addr, _). namespace addr = ns \<and> ptype addr = name) l)"

definition lock_get :: "'v lock_file \<Rightarrow> provider_address \<Rightarrow> 'v lock_entry option" where
  "lock_get l addr =
     (case hm_get l addr of
        Some e \<Rightarrow> Some e
      | None \<Rightarrow> find_by_ns_name l (namespace addr) (ptype addr))"

definition lock_len :: "'v lock_file \<Rightarrow> nat" where
  "lock_len l = length l"

definition read_string_value :: "expr \<Rightarrow> string option" where
  "read_string_value e = (case e of EString _ s \<Rightarrow> Some s | _ \<Rightarrow> None)"

text \<open>The loop over a block's attributes; the state is the version and constraints so far.\<close>

fun read_entry :: "(string \<Rightarrow> 'v option) \<Rightarrow> body \<Rightarrow> 'v option \<times> string option \<Rightarrow> 'v option \<times> string option" where
  "read_entry parse_ver [] acc = acc"
| "read_entry parse_ver (Attribute (key, _) value _ _ # rest) (v, c) =
     read_entry parse_ver rest
       (if key = ''version'' then
          (case read_string_value value of
             Some s \<Rightarrow> (case parse_ver s of Some w \<Rightarrow> (Some w, c) | None \<Rightarrow> (v, c))
           | None \<Rightarrow> (v, c))
        else if key = ''constraints'' then
          (case read_string_value value of Some s \<Rightarrow> (v, Some s) | None \<Rightarrow> (v, c))
        else (v, c))"
| "read_entry parse_ver (Block _ _ _ _ # rest) acc = read_entry parse_ver rest acc"

definition lock_block :: "(string \<Rightarrow> 'v option) \<Rightarrow> body_item \<Rightarrow> (provider_address \<times> 'v lock_entry) option" where
  "lock_block parse_ver item =
     (case item of
        Block _ (ident, _) ((addr_str, _) # _) inner \<Rightarrow>
          if ident \<noteq> ''provider'' then None
          else (case provider_parse addr_str of
              Inl _ \<Rightarrow> None
            | Inr addr \<Rightarrow>
                (case read_entry parse_ver inner (None, None) of
                   (None, _) \<Rightarrow> None
                 | (Some v, c) \<Rightarrow> Some (addr, \<lparr>address = addr, version = v, constraints = c\<rparr>)))
      | _ \<Rightarrow> None)"

definition lock_parse_body :: "(string \<Rightarrow> 'v option) \<Rightarrow> body \<Rightarrow> 'v lock_file" where
  "lock_parse_body parse_ver b = foldl
     (\<lambda>entries item. case lock_block parse_ver item of
        None \<Rightarrow> entries | Some (addr, e) \<Rightarrow> hm_insert addr e entries) [] b"

definition lock_parse :: "(string \<Rightarrow> 'v option) \<Rightarrow> body option \<Rightarrow> 'v lock_file" where
  "lock_parse parse_ver parsed =
     (case parsed of None \<Rightarrow> [] | Some b \<Rightarrow> lock_parse_body parse_ver b)"

section \<open>What a lock file holds\<close>

lemma lock_parse_body_collect:
  "lock_parse_body parse_ver b = hm_collect (List.map_filter (lock_block parse_ver) b)"
proof -
  have "foldl (\<lambda>entries item. case lock_block parse_ver item of
        None \<Rightarrow> entries | Some (addr, e) \<Rightarrow> hm_insert addr e entries) m b
      = foldl (\<lambda>m (k, v). hm_insert k v m) m (List.map_filter (lock_block parse_ver) b)" for m
    by (induction b arbitrary: m) (auto simp: List.map_filter_def split: option.split)
  then show ?thesis by (simp add: lock_parse_body_def hm_collect_def)
qed

lemma lock_block_address: "lock_block parse_ver item = Some (a, e) \<Longrightarrow> address e = a"
  by (auto simp: lock_block_def split: body_item.splits list.splits if_splits sum.splits prod.splits option.splits)

text \<open>
  The lock file's exact lookup of a provider is its last valid block: the entry of the last
  \<open>provider\<close> block with that canonical address and a parsable version; every other block is
  skipped.
\<close>

theorem last_valid_block_wins:
  "hm_get (lock_parse_body parse_ver b) addr
     = map_of (rev (List.map_filter (lock_block parse_ver) b)) addr"
  unfolding lock_parse_body_collect hm_get_collect by simp

lemma map_of_map_filter: "map_of (rev (List.map_filter f b)) a = Some e \<Longrightarrow> \<exists>x \<in> set b. f x = Some (a, e)"
  using in_map_filter [of "(a, e)" f b] by (auto dest: map_of_SomeD)

lemma lock_entries: "(a, e) \<in> set (lock_parse_body parse_ver b) \<Longrightarrow> address e = a"
proof -
  assume "(a, e) \<in> set (lock_parse_body parse_ver b)"
  then have "hm_get (lock_parse_body parse_ver b) a = Some e"
    using hm_collect_ok [of "List.map_filter (lock_block parse_ver) b"]
    by (simp add: lock_parse_body_collect hm_ok_def hm_get_def)
  then have "\<exists>x \<in> set b. lock_block parse_ver x = Some (a, e)"
    unfolding lock_parse_body_collect hm_get_collect by (rule map_of_map_filter)
  then show ?thesis by (auto dest: lock_block_address)
qed

lemma find_by_ns_name_Some:
  "find_by_ns_name l ns name = Some e \<Longrightarrow>
     \<exists>a. (a, e) \<in> set l \<and> namespace a = ns \<and> ptype a = name"
  by (auto simp: find_by_ns_name_def find_Some_iff) (metis nth_mem surj_pair)

lemma find_by_ns_name_None:
  "find_by_ns_name l ns name = None \<longleftrightarrow> (\<forall>(a, e) \<in> set l. \<not> (namespace a = ns \<and> ptype a = name))"
  by (auto simp: find_by_ns_name_def find_None_iff)

text \<open>
  The lookup is exact first and host-tolerant second: it finds an entry exactly when some
  host's provider of that namespace and type is locked, the entry found has that namespace and
  type, and it is the one of the requested host whenever that one is locked.
\<close>

theorem lock_get_host_tolerant:
  assumes "l = lock_parse_body parse_ver b"
  shows "(lock_get l addr \<noteq> None \<longleftrightarrow>
            (\<exists>h. hm_get l (addr\<lparr>hostname := h\<rparr>) \<noteq> None))
    \<and> (\<forall>e. lock_get l addr = Some e \<longrightarrow>
         namespace (address e) = namespace addr \<and> ptype (address e) = ptype addr
         \<and> (hm_get l addr \<noteq> None \<longrightarrow> address e = addr))"
proof -
  have ok: "hm_ok l" unfolding assms lock_parse_body_collect by (rule hm_collect_ok)
  have mem: "hm_get l a = Some e \<longleftrightarrow> (a, e) \<in> set l" for a e
    using ok by (simp add: hm_ok_def hm_get_def)
  have addr_of: "address e = a" if "(a, e) \<in> set l" for a e
    using that lock_entries unfolding assms by blast
  have same: "a = addr\<lparr>hostname := hostname a\<rparr>"
    if "namespace a = namespace addr" "ptype a = ptype addr" for a
    using that by (cases a; cases addr) simp
  have "lock_get l addr = None \<longleftrightarrow> (\<forall>h. hm_get l (addr\<lparr>hostname := h\<rparr>) = None)"
  proof
    assume none: "lock_get l addr = None"
    have "\<not> (namespace a = namespace addr \<and> ptype a = ptype addr)" if "(a, e) \<in> set l" for a e
      using none that find_by_ns_name_None [of l "namespace addr" "ptype addr"]
      by (auto simp: lock_get_def split: option.splits)
    then have "(addr\<lparr>hostname := h\<rparr>, e) \<notin> set l" for h e by fastforce
    then show "\<forall>h. hm_get l (addr\<lparr>hostname := h\<rparr>) = None" using mem by (metis option.exhaust)
  next
    assume none: "\<forall>h. hm_get l (addr\<lparr>hostname := h\<rparr>) = None"
    have "hm_get l addr = None" using none [rule_format, of "hostname addr"] by simp
    moreover have "\<not> (namespace a = namespace addr \<and> ptype a = ptype addr)" if "(a, e) \<in> set l" for a e
      using none [rule_format, of "hostname a"] that same [of a] mem by (metis option.distinct(1))
    then have "find_by_ns_name l (namespace addr) (ptype addr) = None"
      unfolding find_by_ns_name_None by blast
    ultimately show "lock_get l addr = None" by (simp add: lock_get_def)
  qed
  moreover have "namespace (address e) = namespace addr \<and> ptype (address e) = ptype addr
         \<and> (hm_get l addr \<noteq> None \<longrightarrow> address e = addr)" if "lock_get l addr = Some e" for e
  proof (cases "hm_get l addr")
    case None
    with that find_by_ns_name_Some [of l "namespace addr" "ptype addr" e] addr_of show ?thesis
      by (auto simp: lock_get_def)
  next
    case (Some e')
    with that mem addr_of show ?thesis by (auto simp: lock_get_def)
  qed
  ultimately show ?thesis by (auto simp del: not_None_eq)
qed

definition locked_aws :: body where
  "locked_aws = [Block None (''provider'', None) [(''registry.opentofu.org/hashicorp/aws'', None)]
     [Attribute (''version'', None) (EString None ''5.50.0'') None None]]"

lemma lock_get_host_tolerant_witness:
  "lock_get (lock_parse_body Some locked_aws)
     \<lparr>hostname = ''example.com'', namespace = ''hashicorp'', ptype = ''aws''\<rparr> \<noteq> None"
  using lock_get_host_tolerant [of _ Some locked_aws
      "\<lparr>hostname = ''example.com'', namespace = ''hashicorp'', ptype = ''aws''\<rparr>", OF refl]
  by (auto simp: locked_aws_def lock_parse_body_def lock_block_def provider_parse_def provider_new_def
      canonicalise_hostname_def read_string_value_def hm_insert_def hm_get_def)

end
