(* ===== verification/StableSort.thy ===== *)
theory StableSort
  imports Prelude "HOL-Library.Multiset"
begin

text \<open>
  The standard library's \<open>sort_by\<close> (a stable sort by a comparison function) and \<open>dedup_by\<close>,
  with the contract of a comparison, discharged here for the derived \<open>Ord\<close> of the model's
  ordered types.
\<close>

fun insert_by :: "('a \<Rightarrow> 'a \<Rightarrow> ordering) \<Rightarrow> 'a \<Rightarrow> 'a list \<Rightarrow> 'a list" where
  "insert_by c x [] = [x]"
| "insert_by c x (y # ys) = (if c x y = Greater then y # insert_by c x ys else x # y # ys)"

definition sort_by :: "('a \<Rightarrow> 'a \<Rightarrow> ordering) \<Rightarrow> 'a list \<Rightarrow> 'a list" where
  "sort_by c xs = foldr (insert_by c) xs []"

text \<open>\<open>dedup_by_key\<close>: an element is dropped when its key equals that of the last one kept.\<close>

fun dedup_from :: "('a \<Rightarrow> 'k) \<Rightarrow> 'a \<Rightarrow> 'a list \<Rightarrow> 'a list" where
  "dedup_from f x [] = [x]"
| "dedup_from f x (y # ys) = (if f y = f x then dedup_from f x ys else x # dedup_from f y ys)"

definition dedup_by_key :: "('a \<Rightarrow> 'k) \<Rightarrow> 'a list \<Rightarrow> 'a list" where
  "dedup_by_key f xs = (case xs of [] \<Rightarrow> [] | x # ys \<Rightarrow> dedup_from f x ys)"

lemma insert_by_mset [simp]: "mset (insert_by c x xs) = add_mset x (mset xs)"
  by (induction xs) auto

lemma sort_by_mset [simp]: "mset (sort_by c xs) = mset xs"
  by (induction xs) (simp_all add: sort_by_def)

lemma sort_by_set [simp]: "set (sort_by c xs) = set xs"
  by (metis set_mset_mset sort_by_mset)

lemma dedup_from_keys: "f ` set (dedup_from f x ys) = f ` set (x # ys)"
  by (induction f x ys rule: dedup_from.induct) (auto simp: image_iff)

lemma dedup_from_subset: "set (dedup_from f x ys) \<subseteq> set (x # ys)"
  by (induction f x ys rule: dedup_from.induct) auto

lemma dedup_by_key_keys: "f ` set (dedup_by_key f xs) = f ` set xs"
  unfolding dedup_by_key_def using dedup_from_keys [of f] by (cases xs) simp_all

lemma dedup_by_key_subset: "set (dedup_by_key f xs) \<subseteq> set xs"
  by (cases xs) (auto simp: dedup_by_key_def dest: dedup_from_subset [THEN subsetD])

lemma dedup_from_sorted: "sorted_wrt P (x # ys) \<Longrightarrow> sorted_wrt P (dedup_from f x ys)"
proof (induction f x ys rule: dedup_from.induct)
  case (2 f x y ys)
  then show ?case
    using dedup_from_subset [of f y ys] by (auto split: if_splits)
qed simp

lemma dedup_by_key_sorted: "sorted_wrt P xs \<Longrightarrow> sorted_wrt P (dedup_by_key f xs)"
  by (cases xs) (auto simp: dedup_by_key_def intro: dedup_from_sorted)

section \<open>The contract of a comparison function\<close>

locale comparator =
  fixes c :: "'a \<Rightarrow> 'a \<Rightarrow> ordering"
  assumes swap: "c x y = Greater \<longleftrightarrow> c y x = Less"
    and trans: "c x y \<noteq> Greater \<Longrightarrow> c y z \<noteq> Greater \<Longrightarrow> c x z \<noteq> Greater"
begin

lemma total: "c x y \<noteq> Greater \<or> c y x \<noteq> Greater"
  using swap [of x y] by auto

lemma insert_by_sorted:
  "sorted_wrt (\<lambda>x y. c x y \<noteq> Greater) xs \<Longrightarrow> sorted_wrt (\<lambda>x y. c x y \<noteq> Greater) (insert_by c x xs)"
proof (induction xs)
  case (Cons y ys)
  have set: "set (insert_by c x ys) = insert x (set ys)"
    by (metis insert_by_mset set_mset_add_mset_insert set_mset_mset)
  show ?case
  proof (cases "c x y = Greater")
    case True
    with total [of x y] have "c y x \<noteq> Greater" by blast
    with True Cons set show ?thesis by auto
  next
    case False
    with Cons.prems trans [of x y] show ?thesis by auto
  qed
qed simp

lemma sort_by_sorted: "sorted_wrt (\<lambda>x y. c x y \<noteq> Greater) (sort_by c xs)"
  by (induction xs) (simp_all add: sort_by_def insert_by_sorted)

lemma reverse: "comparator (\<lambda>x y. c y x)"
  using swap trans by unfold_locales blast+

lemma on_key: "comparator (\<lambda>x y. c (f x) (f y))"
  using swap trans by unfold_locales blast+

end

interpretation derived: comparator cmp
  by unfold_locales (auto simp: cmp_def split: if_splits)

end
