(* ===== verification/GitRef.thy ===== *)
theory GitRef
  imports StableSort
begin

text \<open>
  \<^verbatim>\<open>crates/tfls-core/src/git_ref.rs\<close>: commit-SHA recognition, the namespace of a monorepo tag,
  and the newer versions of a pinned tag. The \<^verbatim>\<open>semver\<close> crate (parsing, ordering and the
  pre-release test) is the parameter \<open>semver\<close>.
\<close>

record 'v semver =
  sv_parse :: "string \<Rightarrow> 'v option"
  sv_cmp :: "'v \<Rightarrow> 'v \<Rightarrow> ordering"
  sv_pre_empty :: "'v \<Rightarrow> bool"

definition looks_like_commit_sha :: "string \<Rightarrow> bool" where
  [rust_eval]: "looks_like_commit_sha r \<longleftrightarrow>
     7 \<le> length r \<and> length r \<le> 64 \<and> list_all is_ascii_hexdigit r"

definition sha_matches :: "string \<Rightarrow> string \<Rightarrow> bool" where
  "sha_matches full0 pinned0 =
     (let full = to_ascii_lowercase full0; pinned = to_ascii_lowercase pinned0 in
      if \<not> looks_like_commit_sha pinned then False
      else if length pinned \<ge> 40 then full = pinned
      else starts_with full pinned)"

definition strip_v :: "string \<Rightarrow> string" where
  [rust_eval]: "strip_v s =
     (case s of c # t \<Rightarrow> if c = CHR ''v'' \<or> c = CHR ''V'' then t else s | [] \<Rightarrow> s)"

definition parse_version_core :: "'v semver \<Rightarrow> string \<Rightarrow> 'v option" where
  "parse_version_core S core =
     (let s = strip_v core in
      case sv_parse S s of
        Some v \<Rightarrow> Some v
      | None \<Rightarrow>
          if length (split_on CHR ''.'' s) = 2
             \<and> list_all (\<lambda>p. p \<noteq> [] \<and> list_all is_ascii_digit p) (split_on CHR ''.'' s)
          then sv_parse S (s @ ''.0'')
          else None)"

text \<open>The loop over \<open>char_indices\<close>: \<open>pre\<close> is \<open>&tag[..i]\<close> and the argument \<open>&tag[i..]\<close>.\<close>

fun namespace_from :: "'v semver \<Rightarrow> string \<Rightarrow> string \<Rightarrow> (string \<times> string) option" where
  "namespace_from S pre [] = None"
| "namespace_from S pre (c # rest) =
     (if \<not> is_continuation c \<and> parse_version_core S (c # rest) \<noteq> None
      then Some (pre, c # rest)
      else namespace_from S (pre @ [c]) rest)"

definition tag_namespace :: "'v semver \<Rightarrow> string \<Rightarrow> (string \<times> string) option" where
  "tag_namespace S tag = namespace_from S [] tag"

definition newer_candidate :: "'v semver \<Rightarrow> string \<Rightarrow> 'v \<Rightarrow> bool \<Rightarrow> string \<Rightarrow> ('v \<times> string) option" where
  "newer_candidate S cur_prefix cur_ver allow_pre tag =
     (case tag_namespace S tag of
        None \<Rightarrow> None
      | Some (p, c) \<Rightarrow>
          if p \<noteq> cur_prefix then None
          else case parse_version_core S c of
            None \<Rightarrow> None
          | Some v \<Rightarrow>
              if sv_cmp S v cur_ver \<noteq> Greater then None
              else if \<not> allow_pre \<and> \<not> sv_pre_empty S v then None
              else Some (v, tag))"

definition newer_versions :: "'v semver \<Rightarrow> string list \<Rightarrow> string \<Rightarrow> string list" where
  "newer_versions S all_tags current =
     (case tag_namespace S current of
        None \<Rightarrow> []
      | Some (cur_prefix, cur_core) \<Rightarrow>
          (case parse_version_core S cur_core of
             None \<Rightarrow> []
           | Some cur_ver \<Rightarrow>
               let allow_pre = (\<not> sv_pre_empty S cur_ver);
                   cands = List.map_filter (newer_candidate S cur_prefix cur_ver allow_pre) all_tags;
                   sorted = sort_by (\<lambda>a b. sv_cmp S (fst b) (fst a)) cands
               in map snd (dedup_by_key snd sorted)))"

section \<open>Commit SHAs\<close>

lemma hexdigit_lower: "is_ascii_hexdigit (to_ascii_lower c) = is_ascii_hexdigit c"
proof (cases "65 \<le> byte c \<and> byte c \<le> 90")
  case True
  then have "byte (to_ascii_lower c) = byte c + 32"
    by (simp add: to_ascii_lower_def byte_def)
  with True show ?thesis
    by (auto simp: is_ascii_hexdigit_def is_ascii_digit_def)
next
  case False
  then have "to_ascii_lower c = c" by (auto simp: to_ascii_lower_def)
  then show ?thesis by simp
qed

lemma sha_lower: "looks_like_commit_sha (to_ascii_lowercase r) = looks_like_commit_sha r"
  by (simp add: looks_like_commit_sha_def to_ascii_lowercase_def list_all_iff hexdigit_lower)

text \<open>
  A SHA match survives abbreviation: cutting a matching pin down to any length of at least 7
  and less than 40 digits gives a pin that still matches the same commit; and a full pin matches
  exactly one commit up to letter case.
\<close>

theorem sha_abbreviation:
  assumes "sha_matches full pinned"
  shows "(\<forall>n. 7 \<le> n \<and> n \<le> length pinned \<and> n < 40 \<longrightarrow> sha_matches full (take n pinned))
    \<and> (length pinned \<ge> 40 \<longrightarrow> to_ascii_lowercase full = to_ascii_lowercase pinned)"
proof -
  have sha: "looks_like_commit_sha pinned"
    and pre: "take (length pinned) (to_ascii_lowercase full) = to_ascii_lowercase pinned"
    using assms sha_lower [of pinned]
    by (auto simp: sha_matches_def Let_def starts_with_def to_ascii_lowercase_def split: if_splits)
  have "sha_matches full (take n pinned)" if "7 \<le> n" "n \<le> length pinned" "n < 40" for n
  proof -
    have "take n (to_ascii_lowercase full) = to_ascii_lowercase (take n pinned)"
      using pre that by (metis min.absorb1 take_map take_take to_ascii_lowercase_def)
    moreover have "looks_like_commit_sha (take n pinned)"
      using sha that by (auto simp: looks_like_commit_sha_def list_all_iff dest: in_set_takeD)
    ultimately show ?thesis
      using that sha_lower [of "take n pinned"]
      by (simp add: sha_matches_def Let_def starts_with_def) (simp add: to_ascii_lowercase_def)
  qed
  moreover have "length pinned \<ge> 40 \<longrightarrow> to_ascii_lowercase full = to_ascii_lowercase pinned"
    using assms by (auto simp: sha_matches_def Let_def to_ascii_lowercase_def split: if_splits)
  ultimately show ?thesis by blast
qed

lemma sha_abbreviation_witness: "sha_matches ''0123456789'' (take 7 ''01234567'')"
  by (rule sha_abbreviation [of "''0123456789''" "''01234567''", THEN conjunct1, rule_format])
    (simp_all add: sha_matches_def rust_eval)

section \<open>Namespaces\<close>

lemma namespace_from_Some:
  "namespace_from S pre tag = Some (p, c) \<longleftrightarrow>
     (\<exists>q. p = pre @ q \<and> tag = q @ c \<and> c \<noteq> [] \<and> \<not> is_continuation (hd c)
        \<and> parse_version_core S c \<noteq> None
        \<and> (\<forall>q' c'. tag = q' @ c' \<longrightarrow> c' \<noteq> [] \<longrightarrow> \<not> is_continuation (hd c') \<longrightarrow>
              parse_version_core S c' \<noteq> None \<longrightarrow> length q \<le> length q'))"
    (is "?L pre tag \<longleftrightarrow> ?R pre tag")
proof (induction tag arbitrary: pre)
  case Nil
  then show ?case by auto
next
  case (Cons a rest)
  show ?case
  proof (cases "\<not> is_continuation a \<and> parse_version_core S (a # rest) \<noteq> None")
    case True
    then have hit: "namespace_from S pre (a # rest) = Some (pre, a # rest)" by simp
    have "?L pre (a # rest) \<longleftrightarrow> p = pre \<and> c = a # rest"
      unfolding hit by auto
    also have "\<dots> \<longleftrightarrow> ?R pre (a # rest)"
    proof
      assume "p = pre \<and> c = a # rest"
      with True show "?R pre (a # rest)" by (intro exI [of _ "[]"]) auto
    next
      assume "?R pre (a # rest)"
      then obtain q where q: "p = pre @ q" "a # rest = q @ c"
        and least: "\<And>q' c'. a # rest = q' @ c' \<Longrightarrow> c' \<noteq> [] \<Longrightarrow> \<not> is_continuation (hd c') \<Longrightarrow>
              parse_version_core S c' \<noteq> None \<Longrightarrow> length q \<le> length q'"
        by blast
      have "q = []" using least [of "[]" "a # rest"] True by simp
      with q show "p = pre \<and> c = a # rest" by simp
    qed
    finally show ?thesis .
  next
    case False
    have miss: "namespace_from S pre (a # rest) = namespace_from S (pre @ [a]) rest"
      using False by auto
    have "(\<exists>q. p = (pre @ [a]) @ q \<and> rest = q @ c \<and> c \<noteq> [] \<and> \<not> is_continuation (hd c)
        \<and> parse_version_core S c \<noteq> None
        \<and> (\<forall>q' c'. rest = q' @ c' \<longrightarrow> c' \<noteq> [] \<longrightarrow> \<not> is_continuation (hd c') \<longrightarrow>
              parse_version_core S c' \<noteq> None \<longrightarrow> length q \<le> length q'))
      \<longleftrightarrow> (\<exists>q. p = pre @ q \<and> a # rest = q @ c \<and> c \<noteq> [] \<and> \<not> is_continuation (hd c)
        \<and> parse_version_core S c \<noteq> None
        \<and> (\<forall>q' c'. a # rest = q' @ c' \<longrightarrow> c' \<noteq> [] \<longrightarrow> \<not> is_continuation (hd c') \<longrightarrow>
              parse_version_core S c' \<noteq> None \<longrightarrow> length q \<le> length q'))" (is "?A \<longleftrightarrow> ?B")
    proof
      assume ?A
      then obtain q where q: "p = (pre @ [a]) @ q" "rest = q @ c" "c \<noteq> []" "\<not> is_continuation (hd c)"
        "parse_version_core S c \<noteq> None" and
        least: "\<And>q' c'. rest = q' @ c' \<Longrightarrow> c' \<noteq> [] \<Longrightarrow> \<not> is_continuation (hd c') \<Longrightarrow>
              parse_version_core S c' \<noteq> None \<Longrightarrow> length q \<le> length q'"
        by blast
      have "length (a # q) \<le> length q'"
        if "a # rest = q' @ c'" "c' \<noteq> []" "\<not> is_continuation (hd c')" "parse_version_core S c' \<noteq> None"
        for q' c'
        using that False least [of "tl q'" c'] by (cases q') auto
      with q show ?B by (intro exI [of _ "a # q"]) auto
    next
      assume ?B
      then obtain q where q: "p = pre @ q" "a # rest = q @ c" "c \<noteq> []" "\<not> is_continuation (hd c)"
        "parse_version_core S c \<noteq> None" and
        least: "\<And>q' c'. a # rest = q' @ c' \<Longrightarrow> c' \<noteq> [] \<Longrightarrow> \<not> is_continuation (hd c') \<Longrightarrow>
              parse_version_core S c' \<noteq> None \<Longrightarrow> length q \<le> length q'"
        by blast
      with False obtain r where r: "q = a # r" "rest = r @ c" by (cases q) auto
      have "length r \<le> length q'"
        if "rest = q' @ c'" "c' \<noteq> []" "\<not> is_continuation (hd c')" "parse_version_core S c' \<noteq> None"
        for q' c'
        using least [of "a # q'" c'] that by (simp add: r)
      with q r show ?A by (intro exI [of _ r]) auto
    qed
    then show ?thesis unfolding miss Cons.IH [of "pre @ [a]"] .
  qed
qed

lemma tag_namespace_Some:
  "tag_namespace S tag = Some (p, c) \<Longrightarrow>
     tag = p @ c \<and> (\<exists>v. parse_version_core S c = Some v)
     \<and> (\<forall>p' c'. tag = p' @ c' \<longrightarrow> c' \<noteq> [] \<longrightarrow> \<not> is_continuation (hd c') \<longrightarrow>
           parse_version_core S c' \<noteq> None \<longrightarrow> length p \<le> length p')"
  unfolding tag_namespace_def namespace_from_Some by auto

text \<open>
  The namespace of a tag is its shortest prefix whose remainder is a version: prefix and core
  make up the tag, the core parses, and no longer core (starting at a character) does.
\<close>

theorem tag_namespace_leftmost:
  assumes "tag_namespace S tag = Some (p, c)"
  shows "tag = p @ c \<and> parse_version_core S c \<noteq> None
    \<and> (\<forall>p' c'. tag = p' @ c' \<and> c' \<noteq> [] \<and> \<not> is_continuation (hd c')
         \<and> parse_version_core S c' \<noteq> None \<longrightarrow> length p \<le> length p')"
  using tag_namespace_Some [OF assms] by auto

section \<open>Newer versions\<close>

lemma newer_candidate_Some:
  "newer_candidate S p0 v0 pre tag = Some (v, t) \<longleftrightarrow>
     t = tag \<and> (\<exists>c. tag_namespace S tag = Some (p0, c) \<and> parse_version_core S c = Some v)
     \<and> sv_cmp S v v0 = Greater \<and> (pre \<or> sv_pre_empty S v)"
  by (auto simp: newer_candidate_def split: option.splits prod.splits if_splits)

text \<open>\<open>tag_version S tag = Some (p, v)\<close>: the tag's namespace and version.\<close>

definition tag_version :: "'v semver \<Rightarrow> string \<Rightarrow> (string \<times> 'v) option" where
  "tag_version S tag = (case tag_namespace S tag of
     None \<Rightarrow> None | Some (p, c) \<Rightarrow> map_option (Pair p) (parse_version_core S c))"

lemma newer_versions_alt:
  assumes "tag_version S current = Some (p, v)"
  shows "newer_versions S tags current = map snd (dedup_by_key snd
     (sort_by (\<lambda>a b. sv_cmp S (fst b) (fst a))
       (List.map_filter (newer_candidate S p v (\<not> sv_pre_empty S v)) tags)))"
  using assms by (auto simp: newer_versions_def tag_version_def Let_def split: option.splits)

text \<open>
  \<open>newer_versions\<close> is sound and complete: for a pinned tag with namespace \<open>p\<close> and version
  \<open>v\<close>, it returns exactly the repository's tags of the same namespace with a strictly higher
  version, pre-releases only when \<open>v\<close> is itself one.
\<close>

theorem newer_versions_exact:
  assumes "tag_version S current = Some (p, v)"
  shows "t \<in> set (newer_versions S tags current) \<longleftrightarrow>
    t \<in> set tags \<and> (\<exists>w. tag_version S t = Some (p, w) \<and> sv_cmp S w v = Greater
       \<and> (sv_pre_empty S v \<longrightarrow> sv_pre_empty S w))"
proof -
  have "set (newer_versions S tags current)
      = snd ` set (List.map_filter (newer_candidate S p v (\<not> sv_pre_empty S v)) tags)"
    unfolding newer_versions_alt [OF assms] by (simp add: dedup_by_key_keys)
  then have "t \<in> set (newer_versions S tags current) \<longleftrightarrow>
      t \<in> snd ` set (List.map_filter (newer_candidate S p v (\<not> sv_pre_empty S v)) tags)" by simp
  also have "\<dots> \<longleftrightarrow> t \<in> set tags \<and> (\<exists>w. newer_candidate S p v (\<not> sv_pre_empty S v) t = Some (w, t))"
  proof
    assume "t \<in> snd ` set (List.map_filter (newer_candidate S p v (\<not> sv_pre_empty S v)) tags)"
    then obtain w x where "x \<in> set tags" "newer_candidate S p v (\<not> sv_pre_empty S v) x = Some (w, t)"
      by (auto simp: in_map_filter)
    moreover from this(2) have "t = x" by (simp add: newer_candidate_Some)
    ultimately show "t \<in> set tags \<and> (\<exists>w. newer_candidate S p v (\<not> sv_pre_empty S v) t = Some (w, t))"
      by blast
  next
    assume "t \<in> set tags \<and> (\<exists>w. newer_candidate S p v (\<not> sv_pre_empty S v) t = Some (w, t))"
    then obtain w where "(w, t) \<in> set (List.map_filter (newer_candidate S p v (\<not> sv_pre_empty S v)) tags)"
      by (auto simp: in_map_filter)
    then show "t \<in> snd ` set (List.map_filter (newer_candidate S p v (\<not> sv_pre_empty S v)) tags)"
      by force
  qed
  also have "\<dots> \<longleftrightarrow> t \<in> set tags \<and> (\<exists>w. tag_version S t = Some (p, w) \<and> sv_cmp S w v = Greater
       \<and> (sv_pre_empty S v \<longrightarrow> sv_pre_empty S w))"
    by (auto simp: newer_candidate_Some tag_version_def split: option.splits)
  finally show ?thesis .
qed

text \<open>
  \<open>newer_versions\<close> lists the highest version first, when the version order is a total
  comparison.
\<close>

theorem newer_versions_descending:
  assumes "comparator (sv_cmp S)"
  shows "sorted_wrt (\<lambda>t u. \<forall>p v q w. tag_version S t = Some (p, v) \<and> tag_version S u = Some (q, w) \<longrightarrow>
    sv_cmp S v w \<noteq> Less) (newer_versions S tags current)"
proof (cases "tag_version S current")
  case None
  then show ?thesis
    by (auto simp: newer_versions_def tag_version_def split: option.splits)
next
  case (Some pv)
  obtain p v where pv: "tag_version S current = Some (p, v)" using Some by (cases pv) auto
  let ?cmp = "\<lambda>a b. sv_cmp S (fst b) (fst a)"
  let ?cands = "List.map_filter (newer_candidate S p v (\<not> sv_pre_empty S v)) tags"
  have "comparator ?cmp"
    by (rule comparator.on_key [OF comparator.reverse [OF assms]])
  then have sorted: "sorted_wrt (\<lambda>a b. ?cmp a b \<noteq> Greater) (dedup_by_key snd (sort_by ?cmp ?cands))"
    by (intro dedup_by_key_sorted comparator.sort_by_sorted)
  have "tag_version S t = Some (p, w)" if "(w, t) \<in> set (dedup_by_key snd (sort_by ?cmp ?cands))" for w t
  proof -
    have "(w, t) \<in> set ?cands" using that dedup_by_key_subset by fastforce
    then show ?thesis
      by (auto simp: in_map_filter newer_candidate_Some tag_version_def)
  qed
  note version = this
  have "sorted_wrt (\<lambda>a b. \<forall>p v q w. tag_version S (snd a) = Some (p, v)
      \<and> tag_version S (snd b) = Some (q, w) \<longrightarrow> sv_cmp S v w \<noteq> Less) (dedup_by_key snd (sort_by ?cmp ?cands))"
  proof (rule sorted_wrt_mono_rel [OF _ sorted], clarify)
    fix v1 t1 v2 t2 q1 w1 q2 w2
    assume mem: "(v1, t1) \<in> set (dedup_by_key snd (sort_by ?cmp ?cands))"
        "(v2, t2) \<in> set (dedup_by_key snd (sort_by ?cmp ?cands))"
      and le: "sv_cmp S (fst (v2, t2)) (fst (v1, t1)) \<noteq> Greater"
      and tv: "tag_version S (snd (v1, t1)) = Some (q1, w1)" "tag_version S (snd (v2, t2)) = Some (q2, w2)"
      and less: "sv_cmp S w1 w2 = Less"
    from version [OF mem(1)] version [OF mem(2)] tv have "w1 = v1" "w2 = v2" by simp_all
    with le less comparator.swap [OF assms, of v2 v1] show False by simp
  qed
  then show ?thesis
    unfolding newer_versions_alt [OF pv] by (simp add: sorted_wrt_map)
qed

text \<open>
  A concrete order to apply the theorems at: versions \<open>X.Y\<close> of one digit each, compared as pairs.
\<close>

definition toy_semver :: "(nat \<times> nat) semver" where
  "toy_semver = \<lparr>sv_parse = (\<lambda>s. case s of
       [x, d, y] \<Rightarrow> if is_ascii_digit x \<and> d = CHR ''.'' \<and> is_ascii_digit y
         then Some (byte x - 48, byte y - 48) else None
     | _ \<Rightarrow> None), sv_cmp = cmp, sv_pre_empty = (\<lambda>_. True)\<rparr>"

lemmas toy_eval = toy_semver_def tag_namespace_def parse_version_core_def strip_v_def tag_version_def
  rust_eval

lemma tag_namespace_leftmost_witness: "''vpc-v1.2'' = ''vpc-'' @ ''v1.2''"
  using tag_namespace_leftmost [of toy_semver "''vpc-v1.2''" "''vpc-''" "''v1.2''"]
  by (simp add: toy_eval)

lemma newer_versions_exact_witness:
  "''vpc-v1.3'' \<in> set (newer_versions toy_semver [''vpc-v1.3'', ''eks-v2.0'', ''vpc-v1.1''] ''vpc-v1.2'')"
  by (subst newer_versions_exact [of toy_semver "''vpc-v1.2''" "''vpc-''" "(1, 2)"])
    (simp_all add: toy_eval cmp_def)

lemma newer_versions_descending_witness:
  "sorted_wrt (\<lambda>t u. \<forall>p v q w. tag_version toy_semver t = Some (p, v)
      \<and> tag_version toy_semver u = Some (q, w) \<longrightarrow> sv_cmp toy_semver v w \<noteq> Less)
    (newer_versions toy_semver [''v1.3'', ''v2.0''] ''v1.2'')"
  by (rule newer_versions_descending) (simp add: toy_semver_def derived.comparator_axioms)

end
