(* ===== verification/JobQueue.thy ===== *)
theory JobQueue
  imports Prelude "HOL-Library.Word" "HOL-Library.Multiset"
begin

text \<open>
  \<^verbatim>\<open>crates/tfls-state/src/jobs.rs\<close>: the deduplicating priority queue of background jobs, and the
  worker loop of \<^verbatim>\<open>crates/tfls-lsp/src/indexer.rs\<close> (\<open>spawn_worker\<close>) that consumes it.

  The standard library's \<open>BinaryHeap\<close> enters through the contract \<open>max_heap\<close>, discharged here by
  a list kept in descending order. The abstract queue is one FIFO per priority; \<open>represents\<close> is
  the simulation relation. The asynchronous \<open>next\<close> is a step relation over the queue, the permit
  of tokio's \<open>Notify\<close>, the producers that have released the lock but not yet notified, and the
  worker.
\<close>

section \<open>Data\<close>

datatype job =
    ParseFile string
  | ReparseDocument string
  | FetchSchemas string
  | FetchFunctions string
  | ScanDirectory string
  | BulkWorkspaceScan string

datatype priority = Low | Normal | High | Immediate

fun rank :: "priority \<Rightarrow> nat" where
  "rank Low = 0"
| "rank Normal = 1"
| "rank High = 2"
| "rank Immediate = 3"

lemma rank_inject [simp]: "rank p = rank q \<longleftrightarrow> p = q"
  by (cases p; cases q) auto

instantiation priority :: linorder
begin

definition less_eq_priority :: "priority \<Rightarrow> priority \<Rightarrow> bool" where
  "less_eq_priority p q \<longleftrightarrow> rank p \<le> rank q"

definition less_priority :: "priority \<Rightarrow> priority \<Rightarrow> bool" where
  "less_priority p q \<longleftrightarrow> rank p < rank q"

instance
  by standard (auto simp: less_eq_priority_def less_priority_def)

end

record heap_entry =
  e_priority :: priority
  e_seq :: "64 word"
  e_job :: job

text \<open>\<open>Ord for Entry\<close>: higher priority first; lower sequence number first within a priority.\<close>

definition entry_cmp :: "heap_entry \<Rightarrow> heap_entry \<Rightarrow> ordering" where
  "entry_cmp a b =
     (case cmp (e_priority a) (e_priority b) of
        Equal \<Rightarrow> cmp (e_seq b) (e_seq a)
      | c \<Rightarrow> c)"

abbreviation before :: "heap_entry \<Rightarrow> heap_entry \<Rightarrow> bool" where
  "before a b \<equiv> entry_cmp a b = Greater"

lemma before_iff:
  "before a b \<longleftrightarrow> e_priority b < e_priority a \<or> e_priority a = e_priority b \<and> e_seq a < e_seq b"
  by (auto simp: entry_cmp_def cmp_def)

lemma before_weak: "before x y \<Longrightarrow> \<not> before z y \<Longrightarrow> \<not> before z x"
  by (auto simp: before_iff)

lemma before_asym: "before x y \<Longrightarrow> \<not> before y x"
  by (auto simp: before_iff)

section \<open>The contract of the heap\<close>

locale max_heap =
  fixes empty :: "'h"
    and push :: "'x \<Rightarrow> 'h \<Rightarrow> 'h"
    and pop :: "'h \<Rightarrow> ('x \<times> 'h) option"
    and elems :: "'h \<Rightarrow> 'x multiset"
    and invar :: "'h \<Rightarrow> bool"
    and first :: "'x \<Rightarrow> 'x \<Rightarrow> bool"
  assumes empty: "invar empty" "elems empty = {#}"
    and push: "invar h \<Longrightarrow> invar (push x h)" "invar h \<Longrightarrow> elems (push x h) = add_mset x (elems h)"
    and pop_None: "invar h \<Longrightarrow> pop h = None \<longleftrightarrow> elems h = {#}"
    and pop_Some: "invar h \<Longrightarrow> pop h = Some (x, h') \<Longrightarrow>
      invar h' \<and> elems h = add_mset x (elems h') \<and> (\<forall>y \<in># elems h'. \<not> first y x)"
begin

text \<open>Where any two elements are ordered, what is popped comes before everything left.\<close>

lemma pop_first:
  assumes "invar h" "pop h = Some (x, h')"
    and "\<And>y. y \<in># elems h' \<Longrightarrow> first x y \<or> first y x"
  shows "\<forall>y \<in># elems h'. first x y"
  using pop_Some [OF assms(1,2)] assms(3) by blast

lemma pop_size: "invar h \<Longrightarrow> pop h = Some (x, h') \<Longrightarrow> size (elems h) = Suc (size (elems h'))"
  using pop_Some by simp

end

fun heap_push :: "heap_entry \<Rightarrow> heap_entry list \<Rightarrow> heap_entry list" where
  "heap_push x [] = [x]"
| "heap_push x (y # ys) = (if before x y then x # y # ys else y # heap_push x ys)"

fun heap_pop :: "heap_entry list \<Rightarrow> (heap_entry \<times> heap_entry list) option" where
  "heap_pop [] = None"
| "heap_pop (x # xs) = Some (x, xs)"

definition heap_ok :: "heap_entry list \<Rightarrow> bool" where
  "heap_ok h \<longleftrightarrow> sorted_wrt (\<lambda>x y. \<not> before y x) h"

lemma heap_push_mset [simp]: "mset (heap_push x h) = add_mset x (mset h)"
  by (induction x h rule: heap_push.induct) auto

lemma heap_push_set [simp]: "set (heap_push x h) = insert x (set h)"
  by (induction x h rule: heap_push.induct) auto

lemma heap_push_ok: "heap_ok h \<Longrightarrow> heap_ok (heap_push x h)"
  unfolding heap_ok_def
  by (induction x h rule: heap_push.induct) (auto dest: before_asym before_weak)

interpretation heap: max_heap "[]" heap_push heap_pop mset heap_ok before
proof
  show "heap_pop h = None \<longleftrightarrow> mset h = {#}" for h by (cases h) auto
  show "heap_ok h' \<and> mset h = add_mset x (mset h') \<and> (\<forall>y \<in># mset h'. \<not> before y x)"
    if "heap_ok h" "heap_pop h = Some (x, h')" for h x h'
    using that by (cases h) (auto simp: heap_ok_def)
qed (auto simp: heap_push_ok, simp add: heap_ok_def)

section \<open>The queue and its operations\<close>

record inner =
  heap :: "heap_entry list"
  pending :: "job set"
  in_flight :: nat
  seq :: "64 word"

definition new :: inner where
  "new = \<lparr>heap = [], pending = {}, in_flight = 0, seq = 0\<rparr>"

text \<open>The result also says whether \<open>notify_one\<close> is due (\<open>should_notify\<close>).\<close>

definition enqueue :: "job \<Rightarrow> priority \<Rightarrow> inner \<Rightarrow> inner \<times> bool" where
  "enqueue j p q =
     (if j \<in> pending q then (q, False)
      else let s = seq q + 1 in
        (q\<lparr>pending := insert j (pending q), seq := s,
           heap := heap_push \<lparr>e_priority = p, e_seq = s, e_job = j\<rparr> (heap q)\<rparr>, True))"

definition try_next :: "inner \<Rightarrow> job option \<times> inner" where
  "try_next q =
     (case heap_pop (heap q) of
        None \<Rightarrow> (None, q)
      | Some (e, h) \<Rightarrow>
          (Some (e_job e),
           q\<lparr>heap := h, pending := pending q - {e_job e}, in_flight := in_flight q + 1\<rparr>))"

definition complete :: "inner \<Rightarrow> inner" where
  "complete q = q\<lparr>in_flight := in_flight q - 1\<rparr>"

definition queue_len :: "inner \<Rightarrow> nat" where
  "queue_len q = length (heap q)"

definition is_empty :: "inner \<Rightarrow> bool" where
  "is_empty q \<longleftrightarrow> queue_len q = 0"

definition is_idle :: "inner \<Rightarrow> bool" where
  "is_idle q \<longleftrightarrow> heap q = [] \<and> in_flight q = 0"

section \<open>Invariant\<close>

text \<open>
  After at most \<open>n\<close> enqueues, with \<open>n < 2 ^ 64\<close>: the sequence counter has not wrapped, the entries
  have distinct sequence numbers up to it, and \<open>pending\<close> is exactly the set of queued jobs, each
  queued once.
\<close>

definition queue_ok :: "nat \<Rightarrow> inner \<Rightarrow> bool" where
  "queue_ok n q \<longleftrightarrow>
     n < 2 ^ 64 \<and> unat (seq q) \<le> n \<and> heap_ok (heap q)
     \<and> distinct (map e_job (heap q)) \<and> pending q = e_job ` set (heap q)
     \<and> distinct (map e_seq (heap q)) \<and> (\<forall>e \<in> set (heap q). e_seq e \<le> seq q)"

lemma new_ok: "queue_ok 0 new"
  by (simp add: queue_ok_def new_def heap.empty)

lemma distinct_mset_map:
  "mset xs = add_mset x (mset ys) \<Longrightarrow> distinct (map f xs) \<longleftrightarrow> f x \<notin> f ` set ys \<and> distinct (map f ys)"
proof -
  assume "mset xs = add_mset x (mset ys)"
  then have "mset (map f xs) = mset (map f (x # ys))" by simp
  then have "distinct (map f xs) \<longleftrightarrow> distinct (map f (x # ys))" by (rule mset_eq_imp_distinct_iff)
  then show ?thesis by simp
qed

lemma seq_step:
  fixes s :: "64 word"
  assumes "unat s \<le> n" "Suc n < 2 ^ 64"
  shows "unat (s + 1) = Suc (unat s)" "s < s + 1"
proof -
  show *: "unat (s + 1) = Suc (unat s)"
    using assms by (subst unat_add_lem [THEN iffD1]) (simp_all add: unat_word_ariths)
  show "s < s + 1"
    unfolding word_less_nat_alt * by simp
qed

lemma enqueue_ok:
  assumes "queue_ok n q" "Suc n < 2 ^ 64"
  shows "queue_ok (Suc n) (fst (enqueue j p q))"
proof (cases "j \<in> pending q")
  case True
  with assms show ?thesis by (simp add: enqueue_def queue_ok_def)
next
  case False
  note step = seq_step [of "seq q" n]
  let ?e = "\<lparr>e_priority = p, e_seq = seq q + 1, e_job = j\<rparr>"
  have "\<forall>e \<in> set (heap q). e_seq e < seq q + 1"
    using assms step by (fastforce simp: queue_ok_def)
  then show ?thesis
    using False assms step
    by (auto simp: enqueue_def queue_ok_def Let_def heap_push_ok
        distinct_mset_map [OF heap_push_mset [of ?e "heap q"]])
qed

lemma try_next_ok:
  assumes "queue_ok n q"
  shows "queue_ok n (snd (try_next q))"
proof (cases "heap_pop (heap q)")
  case None
  with assms show ?thesis by (simp add: try_next_def)
next
  case (Some eh)
  obtain e h where eh: "eh = (e, h)" by (cases eh)
  have h: "heap_ok h" "mset (heap q) = add_mset e (mset h)"
    using heap.pop_Some [of "heap q" e h] assms Some by (auto simp: queue_ok_def eh)
  then have "set (heap q) = insert e (set h)"
    by (metis set_mset_add_mset_insert set_mset_mset)
  with assms h show ?thesis
    by (auto simp: try_next_def Some eh queue_ok_def distinct_mset_map [OF h(2)])
qed

lemma complete_ok: "queue_ok n q \<Longrightarrow> queue_ok n (complete q)"
  by (simp add: queue_ok_def complete_def)

section \<open>The abstract queue: one FIFO per priority\<close>

type_synonym fifos = "priority \<Rightarrow> job list"

definition spec_enqueue :: "job \<Rightarrow> priority \<Rightarrow> fifos \<Rightarrow> fifos" where
  "spec_enqueue j p q = (if \<exists>p'. j \<in> set (q p') then q else q(p := q p @ [j]))"

definition spec_next :: "fifos \<Rightarrow> job option \<times> fifos" where
  "spec_next q =
     (case filter (\<lambda>p. q p \<noteq> []) [Immediate, High, Normal, Low] of
        [] \<Rightarrow> (None, q)
      | p # _ \<Rightarrow> (Some (hd (q p)), q(p := tl (q p))))"

text \<open>
  \<open>l p\<close> lists the entries of priority \<open>p\<close> oldest first; the abstract FIFO holds their jobs.
\<close>

definition represents :: "inner \<Rightarrow> (priority \<Rightarrow> heap_entry list) \<Rightarrow> bool" where
  "represents q l \<longleftrightarrow>
     (\<forall>p. mset (l p) = filter_mset (\<lambda>e. e_priority e = p) (mset (heap q))
        \<and> sorted_wrt (\<lambda>a b. e_seq a < e_seq b) (l p))"

definition simulates :: "inner \<Rightarrow> fifos \<Rightarrow> bool" where
  "simulates q f \<longleftrightarrow> (\<exists>l. represents q l \<and> f = (\<lambda>p. map e_job (l p)))"

lemma represents_set: "represents q l \<Longrightarrow> set (l p) = {e \<in> set (heap q). e_priority e = p}"
  unfolding represents_def by (metis set_mset_filter set_mset_mset)

lemma enqueue_simulates:
  assumes "queue_ok n q" "Suc n < 2 ^ 64" "simulates q f"
  shows "simulates (fst (enqueue j p q)) (spec_enqueue j p f)"
proof -
  obtain l where l: "represents q l" "f = (\<lambda>p. map e_job (l p))"
    using assms(3) by (auto simp: simulates_def)
  have pend: "j \<in> pending q \<longleftrightarrow> (\<exists>p'. j \<in> set (f p'))"
    using assms(1) represents_set [OF l(1)] by (auto simp: l(2) queue_ok_def)
  show ?thesis
  proof (cases "j \<in> pending q")
    case True
    with pend assms(3) show ?thesis by (auto simp: enqueue_def spec_enqueue_def)
  next
    case False
    let ?e = "\<lparr>e_priority = p, e_seq = seq q + 1, e_job = j\<rparr>"
    let ?l = "l(p := l p @ [?e])"
    have "\<forall>e \<in> set (l p). e_seq e < seq q + 1"
      using assms(1) seq_step [of "seq q" n] assms(2) represents_set [OF l(1)]
      by (fastforce simp: queue_ok_def)
    then have "represents (fst (enqueue j p q)) ?l"
      using l(1) False by (auto simp: represents_def enqueue_def Let_def sorted_wrt_append)
    moreover have "spec_enqueue j p f = (\<lambda>p. map e_job (?l p))"
      using pend False by (auto simp: spec_enqueue_def l(2))
    ultimately show ?thesis by (auto simp: simulates_def)
  qed
qed

lemma represents_empty: "represents q l \<Longrightarrow> l p = [] \<longleftrightarrow> (\<forall>e \<in> set (heap q). e_priority e \<noteq> p)"
  using represents_set [of q l p] by (metis (mono_tags, lifting) empty_Collect_eq set_empty)

lemma spec_next_max:
  assumes "f p \<noteq> []" "\<And>p'. p < p' \<Longrightarrow> f p' = []"
  shows "spec_next f = (Some (hd (f p)), f(p := tl (f p)))"
  using assms by (cases p) (auto simp: spec_next_def less_priority_def)

lemma try_next_simulates:
  assumes "queue_ok n q" "simulates q f"
  shows "fst (try_next q) = fst (spec_next f) \<and> simulates (snd (try_next q)) (snd (spec_next f))"
proof -
  obtain l where l: "represents q l" "f = (\<lambda>p. map e_job (l p))"
    using assms(2) by (auto simp: simulates_def)
  have ok: "heap_ok (heap q)" using assms(1) by (simp add: queue_ok_def)
  show ?thesis
  proof (cases "heap_pop (heap q)")
    case None
    then have "heap q = []" using heap.pop_None [OF ok] by simp
    then have "f p = []" for p using represents_empty [OF l(1)] by (simp add: l(2))
    with None assms(2) show ?thesis by (simp add: try_next_def spec_next_def)
  next
    case (Some eh)
    obtain e h where eh: "eh = (e, h)" by (cases eh)
    let ?p = "e_priority e"
    have pop: "heap_ok h" "mset (heap q) = add_mset e (mset h)" "\<forall>y \<in> set h. \<not> before y e"
      using heap.pop_Some [of "heap q" e h] ok Some by (auto simp: eh)
    have seqs: "e_seq y \<noteq> e_seq e" if "y \<in> set h" for y
      using assms(1) distinct_mset_map [OF pop(2), of e_seq] that
      unfolding queue_ok_def by (metis imageI)
    have set: "set (heap q) = insert e (set h)"
      using pop(2) by (metis set_mset_add_mset_insert set_mset_mset)
    have e: "e \<in> set (l ?p)" using represents_set [OF l(1)] set by simp
    have min: "e_seq e < e_seq y" if "y \<in> set (l ?p)" "y \<noteq> e" for y
      using that represents_set [OF l(1), of ?p] set pop(3) seqs
      by (auto simp: before_iff) (metis not_less_iff_gr_or_eq)
    obtain x es where x: "l ?p = x # es" using e by (cases "l ?p") auto
    have "x = e"
    proof (rule ccontr)
      assume "x \<noteq> e"
      then have "e_seq x < e_seq e"
        using e l(1) x unfolding represents_def by (metis set_ConsD sorted_wrt.simps(2))
      with min [of x] \<open>x \<noteq> e\<close> x show False by simp
    qed
    then have es: "l ?p = e # es" by (simp add: x)
    let ?l = "l(?p := es)"
    have "mset es = filter_mset (\<lambda>x. e_priority x = ?p) (mset h)"
    proof -
      have "mset (l ?p) = filter_mset (\<lambda>x. e_priority x = ?p) (mset (heap q))"
        using l(1) by (simp add: represents_def)
      then show ?thesis by (simp add: es pop(2))
    qed
    moreover have "mset (l p) = filter_mset (\<lambda>x. e_priority x = p) (mset h)" if "p \<noteq> ?p" for p
      using l(1) pop(2) that unfolding represents_def by simp
    moreover have "sorted_wrt (\<lambda>a b. e_seq a < e_seq b) (?l p)" for p
      using l(1) es unfolding represents_def by (cases "p = ?p") (auto dest!: spec [of _ ?p])
    ultimately have "represents (snd (try_next q)) ?l"
      by (simp add: represents_def try_next_def Some eh)
    moreover have "f p' = []" if "?p < p'" for p'
      using represents_empty [OF l(1)] pop(3) that set by (auto simp: l(2) before_iff)
    then have "spec_next f = (Some (e_job e), \<lambda>p. map e_job (?l p))"
      using spec_next_max [of f ?p] es by (auto simp: l(2))
    ultimately show ?thesis
      by (auto simp: simulates_def try_next_def Some eh)
  qed
qed

section \<open>Runs of operations\<close>

datatype queue_op = Enqueue job priority | TryNext | Complete

fun exec :: "queue_op list \<Rightarrow> inner \<Rightarrow> job list \<times> inner" where
  "exec [] q = ([], q)"
| "exec (Enqueue j p # ops) q = exec ops (fst (enqueue j p q))"
| "exec (TryNext # ops) q =
     (case try_next q of (r, q') \<Rightarrow>
        (case exec ops q' of (js, q'') \<Rightarrow> ((case r of Some j \<Rightarrow> j # js | None \<Rightarrow> js), q'')))"
| "exec (Complete # ops) q = exec ops (complete q)"

fun spec_exec :: "queue_op list \<Rightarrow> fifos \<Rightarrow> job list \<times> fifos" where
  "spec_exec [] f = ([], f)"
| "spec_exec (Enqueue j p # ops) f = spec_exec ops (spec_enqueue j p f)"
| "spec_exec (TryNext # ops) f =
     (case spec_next f of (r, f') \<Rightarrow>
        (case spec_exec ops f' of (js, f'') \<Rightarrow> ((case r of Some j \<Rightarrow> j # js | None \<Rightarrow> js), f'')))"
| "spec_exec (Complete # ops) f = spec_exec ops f"

lemma complete_simulates: "simulates q f \<Longrightarrow> simulates (complete q) f"
  by (simp add: simulates_def represents_def complete_def)

lemma exec_simulates:
  assumes "queue_ok n q" "n + length ops < 2 ^ 64" "simulates q f"
  shows "fst (exec ops q) = fst (spec_exec ops f)
    \<and> simulates (snd (exec ops q)) (snd (spec_exec ops f))
    \<and> (\<exists>m. queue_ok m (snd (exec ops q)))"
  using assms
proof (induction ops arbitrary: n q f)
  case (Cons op ops)
  show ?case
  proof (cases op)
    case (Enqueue j p)
    from Cons.prems have small: "Suc n < 2 ^ 64" by simp
    from Cons.IH [OF enqueue_ok [OF Cons.prems(1) small] _ enqueue_simulates [OF Cons.prems(1) small Cons.prems(3)]]
      Cons.prems(2)
    show ?thesis by (simp add: Enqueue)
  next
    case TryNext
    obtain r q' r' f' where eq: "try_next q = (r, q')" "spec_next f = (r', f')"
      by (metis surj_pair)
    have "r' = r" "simulates q' f'" "queue_ok n q'"
      using try_next_simulates [OF Cons.prems(1,3)] try_next_ok [OF Cons.prems(1)] by (simp_all add: eq)
    with Cons.IH [of n q' f'] Cons.prems(2) show ?thesis
      by (auto simp: TryNext eq case_prod_beta split: option.split)
  next
    case Complete
    from Cons.IH [OF complete_ok [OF Cons.prems(1)] _ complete_simulates [OF Cons.prems(3)]]
      Cons.prems(2)
    show ?thesis by (simp add: Complete)
  qed
qed auto

lemma new_simulates: "simulates new (\<lambda>_. [])"
  by (auto simp: simulates_def represents_def new_def intro!: exI [of _ "\<lambda>_. []"])

text \<open>
  C2. The queue is one FIFO per priority without duplicates: any run of fewer than \<open>2 ^ 64\<close>
  operations hands out the same jobs, in the same order, as the abstract queue that appends a job
  to its priority's FIFO unless it is already queued, and takes the oldest job of the highest
  non-empty priority.
\<close>

theorem queue_refines_fifos:
  assumes "length ops < 2 ^ 64"
  shows "fst (exec ops new) = fst (spec_exec ops (\<lambda>_. []))"
  using exec_simulates [OF new_ok _ new_simulates, of ops] assms by simp

lemma queue_refines_fifos_witness:
  "fst (exec [Enqueue (ParseFile ''a'') Low, Enqueue (ParseFile ''b'') High,
      Enqueue (ParseFile ''c'') High, Enqueue (ParseFile ''b'') Low, TryNext, TryNext, TryNext, TryNext] new)
   = [ParseFile ''b'', ParseFile ''c'', ParseFile ''a'']"
  using queue_refines_fifos [of "[Enqueue (ParseFile ''a'') Low, Enqueue (ParseFile ''b'') High,
      Enqueue (ParseFile ''c'') High, Enqueue (ParseFile ''b'') Low, TryNext, TryNext, TryNext, TryNext]"]
  by (simp add: spec_enqueue_def spec_next_def)

text \<open>
  The deduplication set is exactly the set of queued jobs, each of them queued once, after any
  run of fewer than \<open>2 ^ 64\<close> operations: a job that has been handed out can be enqueued again.
\<close>

theorem pending_is_queued:
  assumes "length ops < 2 ^ 64" "exec ops new = (js, q)"
  shows "pending q = e_job ` set (heap q) \<and> distinct (map e_job (heap q))
    \<and> queue_len q = card (pending q)"
proof -
  have "\<exists>m. queue_ok m q"
    using exec_simulates [OF new_ok _ new_simulates, of ops] assms by auto
  then show ?thesis
    using distinct_card [of "map e_job (heap q)"] by (auto simp: queue_ok_def queue_len_def)
qed

lemma pending_is_queued_witness:
  "pending (snd (exec [Enqueue (ParseFile ''a'') Low, TryNext, Enqueue (ParseFile ''a'') High] new))
   = {ParseFile ''a''}"
  using pending_is_queued [of "[Enqueue (ParseFile ''a'') Low, TryNext, Enqueue (ParseFile ''a'') High]"
      "fst (exec [Enqueue (ParseFile ''a'') Low, TryNext, Enqueue (ParseFile ''a'') High] new)"
      "snd (exec [Enqueue (ParseFile ''a'') Low, TryNext, Enqueue (ParseFile ''a'') High] new)"]
  by (simp add: enqueue_def new_def Let_def try_next_def)

section \<open>The worker and its wake-ups\<close>

text \<open>
  The worker is in \<open>next\<close> about to call \<open>try_next\<close> (\<open>Polling\<close>), in \<open>next\<close> after an empty
  \<open>try_next\<close> (\<open>Waiting\<close> for a notification), or processing a job (\<open>Working\<close>). \<open>permit\<close> is the
  one stored permit of tokio's \<open>Notify\<close>; \<open>owed\<close> counts producers between the release of the lock
  and their \<open>notify_one\<close>.
\<close>

datatype worker = Polling | Waiting | Working job

record system =
  queue :: inner
  permit :: bool
  owed :: nat
  worker_state :: worker

definition initial :: system where
  "initial = \<lparr>queue = new, permit = False, owed = 0, worker_state = Polling\<rparr>"

inductive step :: "system \<Rightarrow> system \<Rightarrow> bool" where
  produce: "enqueue j p (queue s) = (q, due) \<Longrightarrow>
    step s (s\<lparr>queue := q, owed := owed s + (if due then 1 else 0)\<rparr>)"
| notify: "owed s > 0 \<Longrightarrow> step s (s\<lparr>owed := owed s - 1, permit := True\<rparr>)"
| take_job: "worker_state s = Polling \<Longrightarrow> try_next (queue s) = (Some j, q) \<Longrightarrow>
    step s (s\<lparr>queue := q, worker_state := Working j\<rparr>)"
| take_none: "worker_state s = Polling \<Longrightarrow> try_next (queue s) = (None, q) \<Longrightarrow>
    step s (s\<lparr>queue := q, worker_state := Waiting\<rparr>)"
| wake: "worker_state s = Waiting \<Longrightarrow> permit s \<Longrightarrow>
    step s (s\<lparr>permit := False, worker_state := Polling\<rparr>)"
| finish: "worker_state s = Working j \<Longrightarrow>
    step s (s\<lparr>queue := complete (queue s), worker_state := Polling\<rparr>)"

definition system_ok :: "system \<Rightarrow> bool" where
  "system_ok s \<longleftrightarrow>
     (worker_state s = Waiting \<longrightarrow> heap (queue s) = [] \<or> permit s \<or> owed s > 0)
     \<and> in_flight (queue s) = (case worker_state s of Working _ \<Rightarrow> 1 | _ \<Rightarrow> 0)"

lemma enqueue_frame: "in_flight (fst (enqueue j p q)) = in_flight q"
  by (simp add: enqueue_def Let_def)

lemma enqueue_notifies: "heap (fst (enqueue j p q)) \<noteq> heap q \<Longrightarrow> snd (enqueue j p q)"
  by (simp add: enqueue_def Let_def split: if_splits)

lemma step_ok: "step s s' \<Longrightarrow> system_ok s \<Longrightarrow> system_ok s'"
proof (induction rule: step.induct)
  case (produce j p s q due)
  then have "in_flight q = in_flight (queue s)" "heap q = heap (queue s) \<or> due"
    using enqueue_frame [of j p "queue s"] enqueue_notifies [of j p "queue s"] by auto
  then show ?case using produce.prems by (auto simp: system_ok_def)
next
  case (take_none s q)
  then show ?case
    by (auto simp: system_ok_def try_next_def split: option.splits) (cases "heap (queue s)"; simp)
qed (auto simp: system_ok_def try_next_def complete_def split: option.splits)

lemma initial_ok: "system_ok initial"
  by (simp add: system_ok_def initial_def new_def)

lemma reachable_ok: "step\<^sup>*\<^sup>* initial s \<Longrightarrow> system_ok s"
  by (induction rule: rtranclp_induct) (auto simp: initial_ok step_ok)

text \<open>
  C6. No wake-up is lost: in every reachable state, if a job is queued while the worker waits, then
  the worker can be woken, either at once (a permit is stored) or after a producer that has
  already queued its job calls \<open>notify_one\<close>; once awake it finds the job.
\<close>

theorem no_lost_wakeup:
  assumes "step\<^sup>*\<^sup>* initial s" "worker_state s = Waiting" "\<not> is_empty (queue s)"
  shows "\<exists>s1 s2 j. step\<^sup>*\<^sup>* s s1 \<and> worker_state s1 = Polling \<and> step s1 s2
    \<and> worker_state s2 = Working j \<and> queue s1 = queue s"
proof -
  obtain j q where tn: "try_next (queue s) = (Some j, q)"
    using assms(3) by (cases "heap (queue s)") (auto simp: try_next_def is_empty_def queue_len_def)
  have take: "step u (u\<lparr>queue := q, worker_state := Working j\<rparr>)"
    if "worker_state u = Polling" "queue u = queue s" for u
    using that tn by (intro take_job) auto
  have "permit s \<or> owed s > 0"
    using reachable_ok [OF assms(1)] assms(2,3)
    by (auto simp: system_ok_def is_empty_def queue_len_def)
  then obtain u where u: "step\<^sup>*\<^sup>* s u" "worker_state u = Waiting" "permit u" "queue u = queue s"
  proof
    assume "permit s"
    with assms(2) that [of s] show ?thesis by simp
  next
    assume "owed s > 0"
    from notify [OF this] assms(2) that show ?thesis
      by (metis r_into_rtranclp select_convs(1,2,4) surjective update_convs(2,3))
  qed
  then have "step\<^sup>*\<^sup>* s (u\<lparr>permit := False, worker_state := Polling\<rparr>)"
    using wake [of u] by (meson rtranclp.rtrancl_into_rtrancl)
  moreover note take [of "u\<lparr>permit := False, worker_state := Polling\<rparr>"]
  ultimately show ?thesis
    using u(4) by (intro exI [of _ "u\<lparr>permit := False, worker_state := Polling\<rparr>"]
        exI [of _ "u\<lparr>permit := False, worker_state := Polling, queue := q, worker_state := Working j\<rparr>"]
        exI [of _ j]) simp
qed

text \<open>
  \<open>is_idle\<close> tells the truth: in every reachable state it holds exactly when no job is queued
  and none is being processed (whereas \<open>is_empty\<close> holds while the last job still runs).
\<close>

theorem idle_means_done:
  assumes "step\<^sup>*\<^sup>* initial s"
  shows "is_idle (queue s) \<longleftrightarrow> is_empty (queue s) \<and> (\<forall>j. worker_state s \<noteq> Working j)"
  using reachable_ok [OF assms]
  by (auto simp: system_ok_def is_idle_def is_empty_def queue_len_def split: worker.splits)

lemma no_lost_wakeup_witness:
  "\<exists>s. step\<^sup>*\<^sup>* initial s \<and> worker_state s = Waiting \<and> \<not> is_empty (queue s)
     \<and> (\<exists>s1 s2 j. step\<^sup>*\<^sup>* s s1 \<and> worker_state s1 = Polling \<and> step s1 s2
          \<and> worker_state s2 = Working j \<and> queue s1 = queue s)"
proof -
  let ?s1 = "initial\<lparr>worker_state := Waiting\<rparr>"
  let ?q = "fst (enqueue (ParseFile ''a'') Low new)"
  let ?s2 = "?s1\<lparr>queue := ?q, owed := 1\<rparr>"
  have "step initial ?s1"
    using take_none [of initial new] by (simp add: initial_def try_next_def new_def)
  moreover have "step ?s1 ?s2"
    using produce [of "ParseFile ''a''" Low ?s1 ?q True]
    by (simp add: initial_def enqueue_def new_def Let_def)
  ultimately have reach: "step\<^sup>*\<^sup>* initial ?s2" by (meson converse_rtranclp_into_rtranclp r_into_rtranclp)
  have waiting: "worker_state ?s2 = Waiting" "\<not> is_empty (queue ?s2)"
    by (simp_all add: is_empty_def queue_len_def enqueue_def new_def Let_def)
  from no_lost_wakeup [OF reach waiting] reach waiting show ?thesis by blast
qed

lemma idle_means_done_witness: "is_idle (queue initial)"
  using idle_means_done [of initial] by (simp add: is_empty_def queue_len_def initial_def new_def)

end
