(* ===== verification/Rope.thy ===== *)
theory Rope
  imports Prelude
begin

text \<open>
  Text as the \<^verbatim>\<open>ropey\<close> buffer of a document: a list of Unicode scalar values, with the lengths
  of their UTF-8 and UTF-16 encodings. The functions are those of the crate that the program
  calls; \<open>None\<close> is its panic on an offset that is out of range or inside a character.
\<close>

type_synonym uchar = nat
type_synonym rope = "uchar list"

definition utf8_len :: "uchar \<Rightarrow> nat" where
  [rust_eval]: "utf8_len c = (if c < 0x80 then 1 else if c < 0x800 then 2 else if c < 0x10000 then 3 else 4)"

definition utf16_len :: "uchar \<Rightarrow> nat" where
  [rust_eval]: "utf16_len c = (if c < 0x10000 then 1 else 2)"

definition len_bytes :: "rope \<Rightarrow> nat" where
  "len_bytes r = sum_list (map utf8_len r)"

definition len_utf16 :: "rope \<Rightarrow> nat" where
  "len_utf16 r = sum_list (map utf16_len r)"

text \<open>The UTF-8 bytes of a text: \<open>rope.to_string()\<close>.\<close>

definition utf8_char :: "uchar \<Rightarrow> string" where
  "utf8_char c =
     (if c < 0x80 then [char_of c]
      else if c < 0x800 then [char_of (0xC0 + c div 64), char_of (0x80 + c mod 64)]
      else if c < 0x10000 then
        [char_of (0xE0 + c div 4096), char_of (0x80 + c div 64 mod 64), char_of (0x80 + c mod 64)]
      else [char_of (0xF0 + c div 262144), char_of (0x80 + c div 4096 mod 64),
            char_of (0x80 + c div 64 mod 64), char_of (0x80 + c mod 64)])"

definition to_utf8 :: "rope \<Rightarrow> string" where
  "to_utf8 r = concat (map utf8_char r)"

text \<open>\<open>str::from_utf8\<close>: decoding, with overlong forms and surrogates rejected.\<close>

definition two_byte :: "char \<Rightarrow> char \<Rightarrow> uchar option" where
  [rust_eval]: "two_byte a b =
     (let y = (byte a - 0xC0) * 64 + (byte b - 0x80) in
      if 0xC0 \<le> byte a \<and> byte a < 0xE0 \<and> is_continuation b \<and> 0x80 \<le> y then Some y else None)"

definition three_byte :: "char \<Rightarrow> char \<Rightarrow> char \<Rightarrow> uchar option" where
  [rust_eval]: "three_byte a b c =
     (let y = (byte a - 0xE0) * 4096 + (byte b - 0x80) * 64 + (byte c - 0x80) in
      if 0xE0 \<le> byte a \<and> byte a < 0xF0 \<and> is_continuation b \<and> is_continuation c
         \<and> 0x800 \<le> y \<and> \<not> (0xD800 \<le> y \<and> y < 0xE000) then Some y else None)"

definition four_byte :: "char \<Rightarrow> char \<Rightarrow> char \<Rightarrow> char \<Rightarrow> uchar option" where
  [rust_eval]: "four_byte a b c d =
     (let y = (byte a - 0xF0) * 262144 + (byte b - 0x80) * 4096 + (byte c - 0x80) * 64 + (byte d - 0x80) in
      if 0xF0 \<le> byte a \<and> is_continuation b \<and> is_continuation c \<and> is_continuation d
         \<and> 0x10000 \<le> y \<and> y < 0x110000 then Some y else None)"

definition decode_char :: "string \<Rightarrow> (uchar \<times> nat) option" where
  [rust_eval]: "decode_char s =
     (case s of [] \<Rightarrow> None
      | a # s1 \<Rightarrow> if byte a < 0x80 then Some (byte a, 1) else
     (case s1 of [] \<Rightarrow> None
      | b # s2 \<Rightarrow> (case two_byte a b of Some y \<Rightarrow> Some (y, 2) | None \<Rightarrow>
     (case s2 of [] \<Rightarrow> None
      | c # s3 \<Rightarrow> (case three_byte a b c of Some y \<Rightarrow> Some (y, 3) | None \<Rightarrow>
     (case s3 of [] \<Rightarrow> None
      | d # _ \<Rightarrow> (case four_byte a b c d of Some y \<Rightarrow> Some (y, 4) | None \<Rightarrow> None)))))))"

lemma decode_pos: "decode_char s = Some (y, n) \<Longrightarrow> 0 < n \<and> n \<le> length s"
  by (auto simp: decode_char_def split: list.splits if_splits option.splits)

function from_utf8 :: "string \<Rightarrow> rope option" where
  "from_utf8 s =
     (if s = [] then Some []
      else (case decode_char s of
          None \<Rightarrow> None
        | Some (y, n) \<Rightarrow> map_option (Cons y) (from_utf8 (drop n s))))"
  by pat_completeness auto
termination
  by (relation "measure length") (auto dest: decode_pos)

declare from_utf8.simps [simp del]

fun drop_bytes :: "nat \<Rightarrow> rope \<Rightarrow> rope may_panic" where
  "drop_bytes n r = (if n = 0 then Some r else
     (case r of [] \<Rightarrow> None
      | c # cs \<Rightarrow> if utf8_len c \<le> n then drop_bytes (n - utf8_len c) cs else None))"

fun take_bytes :: "nat \<Rightarrow> rope \<Rightarrow> rope may_panic" where
  "take_bytes n r = (if n = 0 then Some [] else
     (case r of [] \<Rightarrow> None
      | c # cs \<Rightarrow> if utf8_len c \<le> n then map_option (Cons c) (take_bytes (n - utf8_len c) cs) else None))"

declare drop_bytes.simps [simp del] take_bytes.simps [simp del]

definition byte_slice :: "rope \<Rightarrow> nat \<Rightarrow> nat \<Rightarrow> rope may_panic" where
  "byte_slice r a b = (if a \<le> b then do { s \<leftarrow> drop_bytes a r; take_bytes (b - a) s } else None)"

text \<open>\<open>char_to_byte\<close>, \<open>byte_to_char\<close> and \<open>utf16_cu_to_char\<close>: the last two round down.\<close>

definition char_to_byte :: "rope \<Rightarrow> nat \<Rightarrow> nat" where
  "char_to_byte r n = len_bytes (take n r)"

fun byte_to_char :: "rope \<Rightarrow> nat \<Rightarrow> nat" where
  "byte_to_char [] b = 0"
| "byte_to_char (c # cs) b = (if utf8_len c \<le> b then Suc (byte_to_char cs (b - utf8_len c)) else 0)"

fun utf16_cu_to_char :: "rope \<Rightarrow> nat \<Rightarrow> nat" where
  "utf16_cu_to_char [] u = 0"
| "utf16_cu_to_char (c # cs) u =
     (if utf16_len c \<le> u then Suc (utf16_cu_to_char cs (u - utf16_len c)) else 0)"

section \<open>Facts\<close>

lemma utf8_len_pos [simp]: "0 < utf8_len c"
  by (simp add: utf8_len_def)

lemma utf16_len_pos [simp]: "0 < utf16_len c"
  by (simp add: utf16_len_def)

lemma utf16_le_utf8: "utf16_len c \<le> utf8_len c"
  by (simp add: utf16_len_def utf8_len_def)

lemma len_bytes_simps [simp]:
  "len_bytes [] = 0" "len_bytes (c # cs) = utf8_len c + len_bytes cs"
  "len_bytes (p @ s) = len_bytes p + len_bytes s"
  by (simp_all add: len_bytes_def)

lemma len_utf16_simps [simp]:
  "len_utf16 [] = 0" "len_utf16 (c # cs) = utf16_len c + len_utf16 cs"
  "len_utf16 (p @ s) = len_utf16 p + len_utf16 s"
  by (simp_all add: len_utf16_def)

lemma len_bytes_0 [simp]: "len_bytes r = 0 \<longleftrightarrow> r = []"
  by (cases r) auto

lemma utf8_char_length: "length (utf8_char c) = utf8_len c"
  by (simp add: utf8_char_def utf8_len_def)

lemma to_utf8_length: "length (to_utf8 r) = len_bytes r"
  by (induction r) (auto simp: to_utf8_def utf8_char_length)

lemma len_utf16_le: "len_utf16 r \<le> len_bytes r"
proof (induction r)
  case (Cons c r)
  then show ?case using utf16_le_utf8 [of c] by simp
qed simp

lemma length_le_bytes: "length r \<le> len_bytes r"
proof (induction r)
  case (Cons c r)
  then show ?case using utf8_len_pos [of c] by (simp del: utf8_len_pos)
qed simp

lemma drop_bytes_append [simp]: "drop_bytes (len_bytes p) (p @ s) = Some s"
proof (induction p)
  case Nil
  then show ?case by (simp add: drop_bytes.simps)
next
  case (Cons c p)
  then show ?case by (subst drop_bytes.simps) simp
qed

lemma take_bytes_append [simp]: "take_bytes (len_bytes p) (p @ s) = Some p"
proof (induction p)
  case Nil
  then show ?case by (simp add: take_bytes.simps)
next
  case (Cons c p)
  then show ?case by (subst take_bytes.simps) simp
qed

lemma drop_bytes_Some: "drop_bytes n r = Some s \<Longrightarrow> \<exists>p. r = p @ s \<and> len_bytes p = n"
proof (induction n r rule: drop_bytes.induct)
  case (1 n r)
  show ?case
  proof (cases "n = 0 \<or> r = []")
    case True
    with "1.prems" show ?thesis by (subst (asm) drop_bytes.simps) (auto split: if_splits)
  next
    case False
    then obtain c cs where r: "r = c # cs" "n \<noteq> 0" by (cases r) auto
    with "1.prems" have "utf8_len c \<le> n" "drop_bytes (n - utf8_len c) cs = Some s"
      by (subst (asm) drop_bytes.simps, simp split: if_splits)+
    with "1.IH" [OF r(2,1)] obtain p where "cs = p @ s" "len_bytes p = n - utf8_len c" by blast
    with \<open>utf8_len c \<le> n\<close> show ?thesis by (intro exI [of _ "c # p"]) (simp add: r)
  qed
qed

lemma byte_slice_append [simp]:
  "byte_slice (p @ q @ s) (len_bytes p) (len_bytes p + len_bytes q) = Some q"
  by (simp add: byte_slice_def)

lemma byte_to_char_append [simp]: "byte_to_char (p @ s) (len_bytes p) = length p"
  by (induction p) (cases s; auto)+

lemma cu_to_char_append: "utf16_cu_to_char (p @ s) (len_utf16 p) = length p"
  by (induction p) (cases s; auto)+

lemma cu_to_char_le: "utf16_cu_to_char r u \<le> length r"
  by (induction r u rule: utf16_cu_to_char.induct) auto

lemma cu_to_char_prefix:
  "len_utf16 (take (utf16_cu_to_char r u) r) \<le> u"
  by (induction r u rule: utf16_cu_to_char.induct) (auto simp: le_diff_conv2)

text \<open>Decoding a concatenation, and around an ASCII byte.\<close>

lemma from_utf8_Nil [simp]: "from_utf8 [] = Some []"
  by (simp add: from_utf8.simps)

lemma from_utf8_step: "decode_char s = Some (y, n) \<Longrightarrow> from_utf8 s = map_option (Cons y) (from_utf8 (drop n s))"
  by (subst from_utf8.simps) (auto simp: decode_char_def)

lemma decode_append: "decode_char s = Some (y, n) \<Longrightarrow> decode_char (s @ t) = Some (y, n)"
  by (auto simp: decode_char_def split: list.splits if_splits option.splits)

lemma multi_byte_tail:
  "byte b < 0x80 \<Longrightarrow> two_byte a b = None"
  "byte b < 0x80 \<Longrightarrow> three_byte a b c = None" "byte b < 0x80 \<Longrightarrow> three_byte a c b = None"
  "byte b < 0x80 \<Longrightarrow> four_byte a b c d = None" "byte b < 0x80 \<Longrightarrow> four_byte a c b d = None"
  "byte b < 0x80 \<Longrightarrow> four_byte a c d b = None"
  by (auto simp: two_byte_def three_byte_def four_byte_def is_continuation_def Let_def)

lemma decode_stop:
  assumes "decode_char (p @ b # s) = Some (y, n)" "byte b < 0x80" "p \<noteq> []"
  shows "decode_char p = Some (y, n)"
proof -
  consider a where "p = [a]" | a c where "p = [a, c]" | a c d where "p = [a, c, d]"
    | a c d e q where "p = a # c # d # e # q"
    using assms(3) by (metis list.exhaust)
  then show ?thesis
  proof cases
    case (1 a)
    with assms show ?thesis
      by (auto simp: decode_char_def multi_byte_tail split: if_splits option.splits list.splits)
  next
    case (2 a c)
    with assms show ?thesis
      by (auto simp: decode_char_def multi_byte_tail split: if_splits option.splits list.splits)
  next
    case (3 a c d)
    with assms show ?thesis
      by (auto simp: decode_char_def multi_byte_tail split: if_splits option.splits list.splits)
  next
    case (4 a c d e q)
    then have "decode_char (p @ b # s) = decode_char p" by (simp add: decode_char_def split: option.split)
    with assms show ?thesis by simp
  qed
qed

lemma from_utf8_append: "from_utf8 p = Some r \<Longrightarrow> from_utf8 (p @ q) = map_option ((@) r) (from_utf8 q)"
proof (induction p arbitrary: r rule: from_utf8.induct)
  case (1 p)
  show ?case
  proof (cases "p = []")
    case True
    with "1.prems" show ?thesis by (cases "from_utf8 q") auto
  next
    case False
    with "1.prems" obtain y n t where d: "decode_char p = Some (y, n)" "from_utf8 (drop n p) = Some t" "r = y # t"
      by (subst (asm) from_utf8.simps) (auto split: option.splits)
    have "from_utf8 (p @ q) = map_option (Cons y) (from_utf8 (drop n (p @ q)))"
      by (rule from_utf8_step [OF decode_append [OF d(1)]])
    also have "drop n (p @ q) = drop n p @ q" using decode_pos [OF d(1)] by simp
    also have "from_utf8 (drop n p @ q) = map_option ((@) t) (from_utf8 q)"
      by (rule "1.IH" [OF False d(1)]) (use d(2) in auto)
    finally show ?thesis by (cases "from_utf8 q") (simp_all add: d(3))
  qed
qed

lemma from_utf8_ascii: "byte b < 0x80 \<Longrightarrow> from_utf8 (b # s) = map_option (Cons (byte b)) (from_utf8 s)"
  using from_utf8_step [of "b # s" "byte b" 1] by (simp add: decode_char_def)

lemma from_utf8_split:
  "byte b < 0x80 \<Longrightarrow> from_utf8 (p @ b # s) = Some r \<Longrightarrow>
     \<exists>r1 r2. from_utf8 p = Some r1 \<and> from_utf8 s = Some r2"
proof (induction p arbitrary: r rule: from_utf8.induct)
  case (1 p)
  show ?case
  proof (cases "p = []")
    case True
    with "1.prems" show ?thesis by (auto simp: from_utf8_ascii)
  next
    case False
    obtain y n where d: "decode_char (p @ b # s) = Some (y, n)"
      using "1.prems"(2) by (subst (asm) from_utf8.simps) (auto split: option.splits)
    note dp = decode_stop [OF d "1.prems"(1) False]
    have "from_utf8 (p @ b # s) = map_option (Cons y) (from_utf8 (drop n p @ b # s))"
      using from_utf8_step [OF d] decode_pos [OF dp] by simp
    then obtain t where "from_utf8 (drop n p @ b # s) = Some t"
      using "1.prems"(2) by (cases "from_utf8 (drop n p @ b # s)") auto
    from "1.IH" [OF False dp refl "1.prems"(1) this]
    show ?thesis using from_utf8_step [OF dp] by auto
  qed
qed

end
