(* ===== verification/Position.thy ===== *)
theory Position
  imports Rope
begin

text \<open>
  \<^verbatim>\<open>crates/tfls-parser/src/position.rs\<close>: LSP positions (line, UTF-16 column) against byte offsets,
  with lines broken at newlines only. Positions are \<open>u32\<close> in the protocol, so the casts of the
  code are written as \<open>mod 2 ^ 32\<close>.
\<close>

type_synonym lsp_pos = "nat \<times> nat"  \<comment> \<open>line, character\<close>

datatype parse_error =
    LineOutOfBounds nat nat  \<comment> \<open>line, total lines\<close>
  | ByteOffsetOutOfBounds nat nat  \<comment> \<open>offset, length\<close>

fun line_starts_from :: "nat \<Rightarrow> rope \<Rightarrow> nat list" where
  "line_starts_from byte_pos [] = []"
| "line_starts_from byte_pos (c # cs) =
     (let p = byte_pos + utf8_len c in
      if c = 10 then p # line_starts_from p cs else line_starts_from p cs)"

definition line_start_bytes :: "rope \<Rightarrow> nat list" where
  "line_start_bytes rope = 0 # line_starts_from 0 rope"

definition line_byte_range :: "nat list \<Rightarrow> nat \<Rightarrow> nat \<Rightarrow> nat \<times> nat" where
  "line_byte_range starts i total_bytes =
     (starts ! i, if i + 1 < length starts then starts ! (i + 1) else total_bytes)"

text \<open>The number of characters before the line's terminator.\<close>

definition visible_chars :: "rope \<Rightarrow> nat" where
  "visible_chars line =
     (let n = length line in
      if n > 0 \<and> line ! (n - 1) = 10
      then (if n - 1 > 0 \<and> line ! (n - 2) = 13 then n - 2 else n - 1)
      else n)"

definition lsp_position_to_byte_offset :: "rope \<Rightarrow> lsp_pos \<Rightarrow> (parse_error + nat) may_panic" where
  "lsp_position_to_byte_offset rope pos =
     (let (line_idx, ch) = pos; starts = line_start_bytes rope; total_lines = length starts in
      if line_idx \<ge> total_lines then Some (Inl (LineOutOfBounds line_idx total_lines))
      else do {
        let (s, e) = line_byte_range starts line_idx (len_bytes rope);
        line \<leftarrow> byte_slice rope s e;
        let visible_cu = len_utf16 (take (visible_chars line) line);
        let cu = min ch visible_cu;
        Some (Inr (s + char_to_byte line (utf16_cu_to_char line cu)))
      })"

text \<open>\<open>slice::binary_search\<close>: \<open>Inr i\<close> is \<open>Ok(i)\<close>, \<open>Inl i\<close> the insertion point.\<close>

definition binary_search :: "nat list \<Rightarrow> nat \<Rightarrow> nat + nat" where
  "binary_search xs x =
     (let i = length (takeWhile (\<lambda>y. y < x) xs) in
      if i < length xs \<and> xs ! i = x then Inr i else Inl i)"

definition byte_offset_to_lsp_position :: "rope \<Rightarrow> nat \<Rightarrow> (parse_error + lsp_pos) may_panic" where
  "byte_offset_to_lsp_position rope offset =
     (if offset > len_bytes rope then Some (Inl (ByteOffsetOutOfBounds offset (len_bytes rope)))
      else do {
        let starts = line_start_bytes rope;
        let line_idx = (case binary_search starts offset of Inr i \<Rightarrow> i | Inl i \<Rightarrow> i - 1);
        let line_start = starts ! line_idx;
        prefix \<leftarrow> byte_slice rope line_start offset;
        Some (Inr (line_idx mod 2 ^ 32, len_utf16 prefix mod 2 ^ 32))
      })"

definition hcl_span_to_lsp_range :: "rope \<Rightarrow> span \<Rightarrow> (parse_error + lsp_pos \<times> lsp_pos) may_panic" where
  "hcl_span_to_lsp_range rope sp = do {
     s \<leftarrow> byte_offset_to_lsp_position rope (fst sp);
     (case s of Inl e \<Rightarrow> Some (Inl e)
      | Inr a \<Rightarrow> do {
          t \<leftarrow> byte_offset_to_lsp_position rope (snd sp);
          Some (case t of Inl e \<Rightarrow> Inl e | Inr b \<Rightarrow> Inr (a, b)) })
   }"

section \<open>The lines of a text\<close>

text \<open>Each line keeps its newline; there is always a last one, possibly empty.\<close>

fun lines_of :: "rope \<Rightarrow> rope list" where
  "lines_of [] = [[]]"
| "lines_of (c # cs) =
     (if c = 10 then [c] # lines_of cs
      else (case lines_of cs of [] \<Rightarrow> [[c]] | l # ls \<Rightarrow> (c # l) # ls))"

fun offsets :: "nat \<Rightarrow> rope list \<Rightarrow> nat list" where
  "offsets p [] = []"
| "offsets p (l # ls) = p # offsets (p + len_bytes l) ls"

lemma lines_not_Nil [simp]: "lines_of r \<noteq> []"
  by (induction r) (auto split: list.splits)

lemma concat_lines [simp]: "concat (lines_of r) = r"
  by (induction r) (auto split: list.splits)

lemma line_starts_offsets: "line_starts_from p r = tl (offsets p (lines_of r))"
proof (induction r arbitrary: p)
  case (Cons c r)
  obtain l ls where l: "lines_of r = l # ls" by (cases "lines_of r") auto
  with Cons [of "p + utf8_len c"] show ?case
    by (auto simp: Let_def add.assoc)
qed simp

lemma line_start_bytes_eq: "line_start_bytes r = offsets 0 (lines_of r)"
  using line_starts_offsets [of 0 r] by (cases "lines_of r") (simp_all add: line_start_bytes_def)

lemma offsets_length [simp]: "length (offsets p ls) = length ls"
  by (induction p ls rule: offsets.induct) auto

lemma offsets_nth: "i < length ls \<Longrightarrow> offsets p ls ! i = p + len_bytes (concat (take i ls))"
proof (induction p ls arbitrary: i rule: offsets.induct)
  case (2 p l ls)
  then show ?case by (cases i) auto
qed simp

lemma lines_append:
  "lines_of (p @ s) = butlast (lines_of p) @ (last (lines_of p) @ hd (lines_of s)) # tl (lines_of s)"
proof (induction p)
  case Nil
  then show ?case by (cases "lines_of s") auto
next
  case (Cons c p)
  obtain l ls where l: "lines_of p = l # ls" by (cases "lines_of p") auto
  then show ?case using Cons by (cases ls) auto
qed

lemma last_line_no_newline: "10 \<notin> set (last (lines_of p))"
  by (induction p) (auto split: list.splits if_splits)

text \<open>A line other than the last is its visible part and a newline.\<close>

lemma line_newline:
  "i + 1 < length (lines_of r) \<Longrightarrow> \<exists>l. lines_of r ! i = l @ [10] \<and> 10 \<notin> set l"
proof (induction r arbitrary: i)
  case (Cons c r)
  obtain l ls where l: "lines_of r = l # ls" by (cases "lines_of r") auto
  show ?case
  proof (cases "c = 10")
    case True
    with Cons show ?thesis by (cases i) auto
  next
    case False
    show ?thesis
    proof (cases i)
      case 0
      with Cons.prems False l have "0 + 1 < length (lines_of r)" by simp
      from Cons.IH [OF this] obtain l' where "l = l' @ [10]" "10 \<notin> set l'" using l by auto
      with False l 0 show ?thesis by (intro exI [of _ "c # l'"]) auto
    next
      case (Suc j)
      with Cons.prems Cons.IH [of i] False l show ?thesis by auto
    qed
  qed
qed simp

lemma nonempty_lines: "i + 1 < length (lines_of r) \<Longrightarrow> 0 < len_bytes (lines_of r ! i)"
  using line_newline [of i r] by fastforce

text \<open>The line containing an offset is the last one starting at or before it.\<close>

lemma offsets_append: "offsets p (ls @ ms) = offsets p ls @ offsets (p + len_bytes (concat ls)) ms"
  by (induction p ls rule: offsets.induct) (auto simp: add.assoc)

lemma offsets_less:
  "\<forall>l \<in> set ls. 0 < len_bytes l \<Longrightarrow> x \<in> set (offsets p ls) \<Longrightarrow> x < p + len_bytes (concat ls)"
proof (induction p ls arbitrary: x rule: offsets.induct)
  case (2 p l ls)
  then have "p < p + len_bytes l + len_bytes (concat ls)" by simp
  moreover have "x < p + len_bytes l + len_bytes (concat ls)" if "x \<in> set (offsets (p + len_bytes l) ls)"
    using 2 that by simp
  ultimately show ?case using 2 by (auto simp: add.assoc)
qed simp

lemma butlast_lines_pos: "l \<in> set (butlast (lines_of p)) \<Longrightarrow> 0 < len_bytes l"
proof -
  assume "l \<in> set (butlast (lines_of p))"
  then obtain i where "i < length (butlast (lines_of p))" "l = butlast (lines_of p) ! i"
    by (metis in_set_conv_nth)
  then show ?thesis using nonempty_lines [of i p] by (simp add: nth_butlast)
qed

lemma butlast_last_bytes:
  "len_bytes (concat (butlast (lines_of p))) + len_bytes (last (lines_of p)) = len_bytes p"
proof -
  have "len_bytes p = len_bytes (concat (butlast (lines_of p) @ [last (lines_of p)]))" by simp
  then show ?thesis by (simp only: concat_append len_bytes_simps) simp
qed

lemma find_line:
  fixes p s
  defines "starts \<equiv> line_start_bytes (p @ s)"
  defines "n \<equiv> length (lines_of p) - 1"
  shows "(case binary_search starts (len_bytes p) of Inr i \<Rightarrow> i | Inl i \<Rightarrow> i - 1) = n
    \<and> starts ! n = len_bytes (concat (butlast (lines_of p)))"
proof -
  let ?B = "butlast (lines_of p)" and ?q = "last (lines_of p)"
  let ?h = "hd (lines_of s)" and ?T = "tl (lines_of s)"
  let ?b = "len_bytes (concat ?B)"
  have n: "n = length ?B" by (simp add: n_def)
  have starts: "starts = offsets 0 ?B @ ?b # offsets (?b + len_bytes (?q @ ?h)) ?T"
    unfolding starts_def line_start_bytes_eq lines_append by (simp add: offsets_append)
  have o: "len_bytes p = ?b + len_bytes ?q" using butlast_last_bytes [of p] by simp
  have early: "x < ?b" if "x \<in> set (offsets 0 ?B)" for x
    using offsets_less [of ?B x 0] butlast_lines_pos that by auto
  have late: "\<not> x < len_bytes p" if "offsets (?b + len_bytes (?q @ ?h)) ?T = x # xs" for x xs
  proof -
    from that have "x = ?b + len_bytes (?q @ ?h)" by (cases ?T) auto
    then show ?thesis by (simp add: o)
  qed
  have late_eq: "x \<noteq> len_bytes p" if "offsets (?b + len_bytes (?q @ ?h)) ?T = x # xs" for x xs
  proof -
    from that have "x = ?b + len_bytes (?q @ ?h)" "?T \<noteq> []" by (cases ?T; auto)+
    moreover from this(2) have "?h \<noteq> []"
      using nonempty_lines [of 0 s] by (cases "lines_of s"; cases "tl (lines_of s)") auto
    ultimately show ?thesis by (simp add: o)
  qed
  have idx: "starts ! n = ?b" by (simp add: starts n nth_append)
  have "takeWhile (\<lambda>y. y < len_bytes p) (offsets (?b + len_bytes (?q @ ?h)) ?T) = []"
    using late by (cases "offsets (?b + len_bytes (?q @ ?h)) ?T") auto
  moreover have "takeWhile (\<lambda>y. y < len_bytes p) (offsets 0 ?B @ zs)
      = offsets 0 ?B @ takeWhile (\<lambda>y. y < len_bytes p) zs" for zs
    using early o by (intro takeWhile_append2) fastforce
  ultimately have tw: "takeWhile (\<lambda>y. y < len_bytes p) starts
      = offsets 0 ?B @ (if ?q = [] then [] else [?b])"
    by (simp add: starts o)
  show ?thesis
  proof (cases "?q = []")
    case True
    then have "length (takeWhile (\<lambda>y. y < len_bytes p) starts) = n" by (simp add: tw n)
    moreover have "n < length starts" by (simp add: starts n)
    moreover have "starts ! n = len_bytes p" using idx o True by simp
    ultimately have "binary_search starts (len_bytes p) = Inr n"
      by (simp add: binary_search_def Let_def)
    with idx show ?thesis by simp
  next
    case False
    have tw': "length (takeWhile (\<lambda>y. y < len_bytes p) starts) = Suc n"
      using False by (simp add: tw n)
    have "Suc n < length starts \<longrightarrow> starts ! Suc n \<noteq> len_bytes p"
    proof (cases "offsets (?b + len_bytes (?q @ ?h)) ?T")
      case Nil
      then show ?thesis by (simp add: starts n)
    next
      case (Cons x xs)
      have "starts = (offsets 0 ?B @ [?b]) @ x # xs" unfolding starts Cons by simp
      moreover have "length (offsets 0 ?B @ [?b]) = Suc n" by (simp add: n)
      ultimately have "starts ! Suc n = x" by (metis nth_append_length)
      with late_eq [OF Cons] show ?thesis by simp
    qed
    with tw' have "binary_search starts (len_bytes p) = Inl (Suc n)"
      by (simp add: binary_search_def Let_def)
    with idx show ?thesis by simp
  qed
qed

text \<open>What the two conversions compute, in terms of lines.\<close>

lemma offset_to_position:
  "byte_offset_to_lsp_position (p @ s) (len_bytes p)
    = Some (Inr ((length (lines_of p) - 1) mod 2 ^ 32, len_utf16 (last (lines_of p)) mod 2 ^ 32))"
proof -
  let ?B = "butlast (lines_of p)" and ?q = "last (lines_of p)"
  have "concat ?B @ ?q = p"
    by (metis append_butlast_last_id concat.simps concat_append concat_lines lines_not_Nil append_Nil2)
  then have "byte_slice (p @ s) (len_bytes (concat ?B)) (len_bytes p) = Some ?q"
    using byte_slice_append [of "concat ?B" ?q s] butlast_last_bytes [of p] by (metis append_assoc)
  with find_line [of p s] show ?thesis
    by (simp add: byte_offset_to_lsp_position_def Let_def)
qed

lemma position_to_offset:
  assumes "i < length (lines_of r)"
  shows "lsp_position_to_byte_offset r (i, ch) = Some (Inr (len_bytes (concat (take i (lines_of r)))
    + char_to_byte (lines_of r ! i) (utf16_cu_to_char (lines_of r ! i)
        (min ch (len_utf16 (take (visible_chars (lines_of r ! i)) (lines_of r ! i)))))))"
proof -
  let ?ls = "lines_of r"
  let ?s = "len_bytes (concat (take i ?ls))" and ?l = "?ls ! i"
  have range: "line_byte_range (line_start_bytes r) i (len_bytes r) = (?s, ?s + len_bytes ?l)"
  proof (cases "i + 1 < length ?ls")
    case True
    then show ?thesis
      using assms by (simp add: line_byte_range_def line_start_bytes_eq offsets_nth take_Suc_conv_app_nth)
  next
    case False
    with assms have "?ls = take i ?ls @ [?l]"
      by (metis Suc_eq_plus1 Suc_lessI take_Suc_conv_app_nth take_all_iff not_less order_refl)
    then have "len_bytes r = len_bytes (concat (take i ?ls @ [?l]))" by (metis concat_lines)
    with False assms show ?thesis by (simp add: line_byte_range_def line_start_bytes_eq offsets_nth)
  qed
  have "r = concat (take i ?ls @ ?l # drop (Suc i) ?ls)"
    using id_take_nth_drop [OF assms] by simp
  then have "byte_slice r ?s (?s + len_bytes ?l) = Some ?l"
    using byte_slice_append [of "concat (take i ?ls)" ?l "concat (drop (Suc i) ?ls)"] by simp
  with range assms show ?thesis
    by (simp add: lsp_position_to_byte_offset_def line_start_bytes_eq Let_def)
qed

section \<open>Correctness of the conversions\<close>

lemma visible_chars_le: "visible_chars l \<le> length l"
  by (simp add: visible_chars_def Let_def)

lemma length_lines: "length (lines_of p) = Suc (count_list p 10)"
proof (induction p)
  case (Cons c p)
  then show ?case by (cases "lines_of p") auto
qed simp

lemma newlines_before: "i < length (lines_of r) \<Longrightarrow> count_list (concat (take i (lines_of r))) 10 = i"
proof (induction i)
  case (Suc i)
  then obtain l where l: "lines_of r ! i = l @ [10]" "10 \<notin> set l" using line_newline [of i r] by auto
  with Suc show ?case
    by (simp add: take_Suc_conv_app_nth)
qed simp

lemma visible_no_newline:
  assumes "i < length (lines_of r)" "n \<le> visible_chars (lines_of r ! i)"
  shows "10 \<notin> set (take n (lines_of r ! i))"
proof (cases "i + 1 < length (lines_of r)")
  case True
  with line_newline obtain l where l: "lines_of r ! i = l @ [10]" "10 \<notin> set l" by blast
  then have "visible_chars (lines_of r ! i) \<le> length l" by (auto simp: visible_chars_def Let_def)
  with l assms(2) show ?thesis by (auto dest: in_set_takeD)
next
  case False
  with assms(1) have "i = length (lines_of r) - 1" by simp
  then have "lines_of r ! i = last (lines_of r)" by (simp add: last_conv_nth)
  then show ?thesis using last_line_no_newline [of r] in_set_takeD [of 10 n] by metis
qed

lemma cu_to_char_mono: "u \<le> v \<Longrightarrow> utf16_cu_to_char l u \<le> utf16_cu_to_char l v"
proof (induction l u arbitrary: v rule: utf16_cu_to_char.induct)
  case (2 c cs u)
  then show ?case by (auto intro: diff_le_mono)
qed simp

lemma cu_to_char_take: "utf16_cu_to_char l (len_utf16 (take n l)) = min n (length l)"
  using cu_to_char_append [of "take n l" "drop n l"] by (simp add: min.commute)

text \<open>
  Every position a client may send is handled: the conversion never panics, it is an error
  exactly when the line does not exist, and otherwise gives an offset inside the text, at a
  character boundary, on the requested line (past-the-end columns are clamped).
\<close>

theorem position_always_maps:
  "(i \<ge> length (lines_of r) \<and>
      lsp_position_to_byte_offset r (i, ch) = Some (Inl (LineOutOfBounds i (length (lines_of r)))))
   \<or> (\<exists>p s. r = p @ s \<and> length (lines_of p) = Suc i
        \<and> lsp_position_to_byte_offset r (i, ch) = Some (Inr (len_bytes p)))"
proof (cases "i < length (lines_of r)")
  case False
  then show ?thesis
    by (simp add: lsp_position_to_byte_offset_def line_start_bytes_eq)
next
  case True
  let ?l = "lines_of r ! i" and ?B = "concat (take i (lines_of r))"
  define n where "n = utf16_cu_to_char ?l (min ch (len_utf16 (take (visible_chars ?l) ?l)))"
  have "n \<le> utf16_cu_to_char ?l (len_utf16 (take (visible_chars ?l) ?l))"
    unfolding n_def by (intro cu_to_char_mono) simp
  then have n: "n \<le> visible_chars ?l" by (simp add: cu_to_char_take)
  have r: "r = (?B @ take n ?l) @ (drop n ?l @ concat (drop (Suc i) (lines_of r)))"
    using id_take_nth_drop [OF True] by (metis append.assoc append_take_drop_id concat.simps(2) concat_append concat_lines)
  have "lsp_position_to_byte_offset r (i, ch) = Some (Inr (len_bytes (?B @ take n ?l)))"
    using position_to_offset [OF True] by (simp add: n_def char_to_byte_def)
  moreover have "length (lines_of (?B @ take n ?l)) = Suc i"
    using visible_no_newline [OF True n] newlines_before [OF True]
    by (simp add: length_lines)
  ultimately show ?thesis using r by blast
qed

lemma visible_after:
  assumes "10 \<notin> set q" "\<not> (q \<noteq> [] \<and> last q = 13 \<and> h \<noteq> [] \<and> hd h = 10)" "10 \<notin> set (butlast h)"
  shows "length q \<le> visible_chars (q @ h)"
proof (cases h rule: rev_cases)
  case Nil
  with assms(1) show ?thesis
    by (cases q rule: rev_cases) (auto simp: visible_chars_def nth_append)
next
  case (snoc h' c)
  show ?thesis
  proof (cases h')
    case Nil
    with snoc assms show ?thesis
      by (cases q rule: rev_cases) (auto simp: visible_chars_def nth_append Let_def)
  next
    case (Cons d ds)
    with snoc show ?thesis by (auto simp: visible_chars_def Let_def)
  qed
qed

lemma first_line_newline: "10 \<notin> set (butlast (hd (lines_of s)))"
proof -
  have "10 \<notin> set (butlast (lines_of s ! 0))"
  proof (cases "1 < length (lines_of s)")
    case True
    with line_newline [of 0 s] show ?thesis by auto
  next
    case False
    then have "lines_of s ! 0 = last (lines_of s)"
      by (cases "lines_of s") auto
    with last_line_no_newline [of s] show ?thesis by (metis in_set_butlastD)
  qed
  then show ?thesis by (simp add: hd_conv_nth)
qed

lemma offset_position_inverse:
  assumes "len_bytes (p @ s) < 2 ^ 32"
    and "\<not> (p \<noteq> [] \<and> last p = 13 \<and> s \<noteq> [] \<and> hd s = 10)"
    and "byte_offset_to_lsp_position (p @ s) (len_bytes p) = Some (Inr pos)"
  shows "lsp_position_to_byte_offset (p @ s) pos = Some (Inr (len_bytes p))"
proof -
  let ?B = "butlast (lines_of p)" and ?q = "last (lines_of p)" and ?h = "hd (lines_of s)"
  have p: "concat ?B @ ?q = p"
    by (metis append_butlast_last_id concat.simps concat_append concat_lines lines_not_Nil append_Nil2)
  have lines: "lines_of (p @ s) = ?B @ (?q @ ?h) # tl (lines_of s)" by (rule lines_append)
  have "length (lines_of r) \<le> Suc (length r)" for r
    by (induction r) (auto split: list.splits)
  from this [of p] have "length (lines_of p) - 1 < 2 ^ 32"
    using assms(1) length_le_bytes [of p] by simp
  moreover have "len_utf16 ?q < 2 ^ 32"
    using assms(1) len_utf16_le [of ?q] butlast_last_bytes [of p] by simp
  ultimately have pos: "pos = (length ?B, len_utf16 ?q)"
    using assms(3) offset_to_position [of p s] by simp
  have "length ?q \<le> visible_chars (?q @ ?h)"
  proof (rule visible_after [OF last_line_no_newline _ first_line_newline])
    have "last ?q = last p" if "?q \<noteq> []" using p that by (metis last_appendR)
    moreover have "hd ?h = hd s" if "?h \<noteq> []"
      using that by (metis concat_lines concat.simps(2) hd_append2 list.collapse lines_not_Nil)
    moreover have "p \<noteq> []" if "?q \<noteq> []" using p that by auto
    moreover have "s \<noteq> []" if "?h \<noteq> []" using that by (cases s) auto
    ultimately show "\<not> (?q \<noteq> [] \<and> last ?q = 13 \<and> ?h \<noteq> [] \<and> hd ?h = 10)"
      using assms(2) by auto
  qed
  then have "len_utf16 ?q \<le> len_utf16 (take (visible_chars (?q @ ?h)) (?q @ ?h))"
    by simp
  then have "utf16_cu_to_char (?q @ ?h) (min (len_utf16 ?q)
      (len_utf16 (take (visible_chars (?q @ ?h)) (?q @ ?h)))) = length ?q"
    by (simp add: min_def cu_to_char_append)
  then have "lsp_position_to_byte_offset (p @ s) (length ?B, len_utf16 ?q)
      = Some (Inr (len_bytes (concat ?B) + len_bytes ?q))"
    using position_to_offset [of "length ?B" "p @ s" "len_utf16 ?q"]
    by (simp add: lines nth_append char_to_byte_def)
  then show ?thesis by (simp add: pos butlast_last_bytes)
qed

text \<open>
  C32. The two conversions are inverse: from a byte offset at a character boundary to an LSP
  position and back gives the same offset, on every text shorter than 4 GiB and whatever other
  line-break characters it contains, unless the offset lies between a carriage return and its
  newline.
\<close>

theorem position_roundtrip:
  assumes "len_bytes (p @ s) < 2 ^ 32"
    and "\<not> (p \<noteq> [] \<and> last p = 13 \<and> s \<noteq> [] \<and> hd s = 10)"
    and "byte_offset_to_lsp_position (p @ s) (len_bytes p) = Some (Inr pos)"
  shows "lsp_position_to_byte_offset (p @ s) pos = Some (Inr (len_bytes p))"
  by (rule offset_position_inverse [OF assms])

text \<open>The text \<open>x U+2028 U+1F600 CR LF y\<close>, at the offset of its CR.\<close>

lemma position_roundtrip_witness:
  "lsp_position_to_byte_offset [120, 0x2028, 0x1F600, 13, 10, 121] (0, 4) = Some (Inr 8)"
proof -
  have "byte_offset_to_lsp_position ([120, 0x2028, 0x1F600] @ [13, 10, 121]) (len_bytes [120, 0x2028, 0x1F600])
      = Some (Inr (0, 4))"
    by (simp add: rust_eval byte_offset_to_lsp_position_def line_start_bytes_def Let_def
        binary_search_def byte_slice_def drop_bytes.simps take_bytes.simps)
  from position_roundtrip [OF _ _ this] show ?thesis
    by (simp add: rust_eval)
qed

end
