(* ===== verification/Safe.thy ===== *)
theory Safe
  imports Rope
begin

text \<open>
  \<^verbatim>\<open>crates/tfls-parser/src/safe.rs\<close>: the guard in front of the third-party HCL parser. The parser
  is the parameter \<open>parser\<close>; it may return a body or a syntax error, unwind with a panic, or
  overflow the stack, which nothing can catch.
\<close>

datatype ('e, 'b) outcome =
    Returned "'e + 'b"
  | Unwound "string option"  \<comment> \<open>the panic's message, when its payload is a string\<close>
  | StackOverflow

record parse_panic =
  message :: string
  excerpt :: rope
  source_bytes :: nat

datatype 'e body_parse_error = Syntax 'e | Panicked parse_panic

definition max_nesting_depth :: nat where
  [rust_eval]: "max_nesting_depth = 500"

definition opens :: "char \<Rightarrow> bool" where
  [rust_eval]: "opens b \<longleftrightarrow> b = CHR ''('' \<or> b = CHR ''['' \<or> b = CHR 0x7B"

definition closes :: "char \<Rightarrow> bool" where
  [rust_eval]: "closes b \<longleftrightarrow> b = CHR '')'' \<or> b = CHR '']'' \<or> b = CHR 0x7D"

fun nesting_scan :: "nat \<Rightarrow> string \<Rightarrow> nat option" where
  "nesting_scan depth [] = None"
| "nesting_scan depth (b # bs) =
     (if opens b then
        (if depth + 1 > max_nesting_depth then Some (depth + 1) else nesting_scan (depth + 1) bs)
      else if closes b then nesting_scan (depth - 1) bs
      else nesting_scan depth bs)"

definition excessive_nesting_depth :: "rope \<Rightarrow> nat option" where
  "excessive_nesting_depth source = nesting_scan 0 (to_utf8 source)"

definition escape_newline :: "uchar \<Rightarrow> rope" where
  [rust_eval]: "escape_newline c = (if c = 10 then [92, 110] else if c = 13 then [92, 114] else [c])"

definition source_excerpt :: "rope \<Rightarrow> rope" where
  "source_excerpt source =
     (let out = concat (map escape_newline (take 256 source)) in
      if len_bytes source > len_bytes out then out @ [0x2026] else out)"

definition panic_payload_message :: "string option \<Rightarrow> string" where
  "panic_payload_message payload =
     (case payload of Some s \<Rightarrow> s | None \<Rightarrow> ''<non-string panic payload>'')"

text \<open>\<open>None\<close> is the death of the process.\<close>

definition catch :: "rope \<Rightarrow> ('e, 'b) outcome \<Rightarrow> (parse_panic + ('e + 'b)) option" where
  "catch source out =
     (case out of
        Returned r \<Rightarrow> Some (Inr r)
      | Unwound payload \<Rightarrow> Some (Inl \<lparr>message = panic_payload_message payload,
          excerpt = source_excerpt source, source_bytes = len_bytes source\<rparr>)
      | StackOverflow \<Rightarrow> None)"

definition refusal :: "nat \<Rightarrow> string" where
  "refusal depth = ''input nesting depth '' @ show_nat depth @ '' exceeds the safe limit of ''
     @ show_nat max_nesting_depth
     @ ''; refused before parsing to avoid a recursive-descent stack overflow''"

definition parse_body :: "(rope \<Rightarrow> ('e, 'b) outcome) \<Rightarrow> rope \<Rightarrow> ('e body_parse_error + 'b) option" where
  "parse_body parser source =
     (case excessive_nesting_depth source of
        Some depth \<Rightarrow> Some (Inl (Panicked \<lparr>message = refusal depth,
          excerpt = source_excerpt source, source_bytes = len_bytes source\<rparr>))
      | None \<Rightarrow>
          (case catch source (parser source) of
             None \<Rightarrow> None
           | Some (Inl p) \<Rightarrow> Some (Inl (Panicked p))
           | Some (Inr (Inl e)) \<Rightarrow> Some (Inl (Syntax e))
           | Some (Inr (Inr b)) \<Rightarrow> Some (Inr b)))"

section \<open>The nesting bound\<close>

text \<open>How many more brackets a piece of text opens than it closes.\<close>

definition net :: "string \<Rightarrow> int" where
  "net s = int (length (filter opens s)) - int (length (filter closes s))"

lemma net_simps [simp]:
  "net [] = 0"
  "net (b # s) = (if opens b then 1 else if closes b then -1 else 0) + net s"
  by (auto simp: net_def opens_def closes_def)

lemma nesting_scan_None:
  "d \<le> max_nesting_depth \<Longrightarrow> nesting_scan d s = None \<longleftrightarrow>
     (\<forall>p t. s = p @ t \<longrightarrow> int d + net p \<le> int max_nesting_depth)
     \<and> (\<forall>a p t. s = a @ p @ t \<longrightarrow> net p \<le> int max_nesting_depth)"
proof (induction d s rule: nesting_scan.induct)
  case (1 d)
  then show ?case by simp
next
  case (2 d b bs)
  let ?M = "int max_nesting_depth"
  let ?u = "if opens b then 1 else if closes b then -1 else 0 :: int"
  have prefixes: "(\<forall>p t. b # bs = p @ t \<longrightarrow> k + net p \<le> ?M)
      \<longleftrightarrow> k \<le> ?M \<and> (\<forall>p t. bs = p @ t \<longrightarrow> k + ?u + net p \<le> ?M)" for k
    unfolding all_prefixes_Cons [of b bs "\<lambda>p. k + net p \<le> ?M"] by (simp add: algebra_simps)
  define A where "A k \<longleftrightarrow> (\<forall>p t. bs = p @ t \<longrightarrow> k + net p \<le> ?M)" for k :: int
  define B where "B \<longleftrightarrow> (\<forall>a p t. bs = a @ p @ t \<longrightarrow> net p \<le> ?M)"
  have mono: "A k" if "A k'" "k \<le> k'" for k k'
    using that unfolding A_def by fastforce
  have "A 0" if B using that unfolding A_def B_def by (metis add_0 append_Nil)
  note B0 = mono [OF this]
  have A_le: "k \<le> ?M" if "A k" for k using that unfolding A_def by (force dest: spec [of _ "[]"])
  have rhs: "(\<forall>p t. b # bs = p @ t \<longrightarrow> int d + net p \<le> ?M)
      \<and> (\<forall>a p t. b # bs = a @ p @ t \<longrightarrow> net p \<le> ?M) \<longleftrightarrow> A (int d + ?u) \<and> A ?u \<and> B"
  proof -
    have "(\<forall>p t. b # bs = p @ t \<longrightarrow> int d + net p \<le> ?M) \<longleftrightarrow> A (int d + ?u)"
      using prefixes [of "int d"] "2.prems" unfolding A_def by simp
    moreover have "(\<forall>p t. b # bs = p @ t \<longrightarrow> net p \<le> ?M) \<longleftrightarrow> A ?u"
      using prefixes [of 0] unfolding A_def by simp
    ultimately show ?thesis
      unfolding all_infixes_Cons [of b bs "\<lambda>p. net p \<le> ?M"] B_def by blast
  qed
  note IH = "2.IH" [folded A_def B_def]
  consider "opens b" "d = max_nesting_depth" | "opens b" "d < max_nesting_depth"
    | "\<not> opens b" "closes b" | "\<not> opens b" "\<not> closes b"
    using "2.prems" by fastforce
  then show ?case
    unfolding rhs
  proof cases
    case 1
    then show "nesting_scan d (b # bs) = None \<longleftrightarrow> A (int d + ?u) \<and> A ?u \<and> B"
      using A_le [of "int d + 1"] by auto
  next
    case 2
    then show "nesting_scan d (b # bs) = None \<longleftrightarrow> A (int d + ?u) \<and> A ?u \<and> B"
      using IH(1) mono [of "int d + 1" 1] by (auto simp: add.commute)
  next
    case 3
    then show "nesting_scan d (b # bs) = None \<longleftrightarrow> A (int d + ?u) \<and> A ?u \<and> B"
      using IH(2) "2.prems" B0 mono [of "int d - 1" "-1"] by (cases "d = 0") (auto simp: of_nat_diff)
  next
    case 4
    then show "nesting_scan d (b # bs) = None \<longleftrightarrow> A (int d + ?u) \<and> A ?u \<and> B"
      using IH(3) "2.prems" B0 by auto
  qed
qed

lemma nesting_scan_Some: "nesting_scan d s = Some n \<Longrightarrow> d \<le> max_nesting_depth \<Longrightarrow> n = max_nesting_depth + 1"
  by (induction d s rule: nesting_scan.induct) (auto split: if_splits)

lemma nesting_guard_iff:
  "excessive_nesting_depth source = None \<longleftrightarrow>
     (\<forall>a p t. to_utf8 source = a @ p @ t \<longrightarrow> net p \<le> int max_nesting_depth)"
proof -
  let ?A = "\<forall>p t. to_utf8 source = p @ t \<longrightarrow> net p \<le> int max_nesting_depth"
  let ?B = "\<forall>a p t. to_utf8 source = a @ p @ t \<longrightarrow> net p \<le> int max_nesting_depth"
  have "?B \<longrightarrow> ?A" by (metis append_Nil)
  moreover have "excessive_nesting_depth source = None \<longleftrightarrow> ?A \<and> ?B"
    unfolding excessive_nesting_depth_def using nesting_scan_None [of 0 "to_utf8 source"] by simp
  ultimately show ?thesis by blast
qed

text \<open>
  The pre-scan decides the nesting exactly: an input is let through to the parser if and only
  if no stretch of it opens more than 500 brackets more than it closes.
\<close>

theorem nesting_guard_exact:
  "excessive_nesting_depth source = None \<longleftrightarrow>
     (\<nexists>a p t. to_utf8 source = a @ p @ t \<and> net p > int max_nesting_depth)"
  unfolding nesting_guard_iff by (auto simp: not_less)

text \<open>
  Parsing untrusted text cannot take the server down: if the parser overflows the stack only on
  inputs with a stretch of more than 500 unclosed brackets, then \<open>parse_body\<close> returns on every
  input, with the body exactly when the guard lets the input through and the parser returns it.
\<close>

theorem parse_body_total:
  assumes "\<And>src. parser src = StackOverflow \<Longrightarrow>
    \<exists>a p t. to_utf8 src = a @ p @ t \<and> net p > int max_nesting_depth"
  shows "\<exists>r. parse_body parser source = Some r
    \<and> (\<forall>b. r = Inr b \<longleftrightarrow> excessive_nesting_depth source = None \<and> parser source = Returned (Inr b))"
proof (cases "excessive_nesting_depth source")
  case (Some d)
  then show ?thesis by (simp add: parse_body_def)
next
  case None
  then have "parser source \<noteq> StackOverflow"
    using assms [of source] unfolding nesting_guard_iff by fastforce
  with None show ?thesis
    by (cases "parser source") (auto simp: parse_body_def catch_def split: sum.split)
qed

lemma parse_body_total_witness:
  "\<exists>r. parse_body (\<lambda>src. if excessive_nesting_depth src = None then Returned (Inr src) else StackOverflow)
     [123] = Some (r :: unit body_parse_error + rope)"
  using parse_body_total [of "\<lambda>src. if excessive_nesting_depth src = None then Returned (Inr src) else StackOverflow" "[123]"]
  by (fastforce simp: nesting_guard_iff not_le split: if_splits)

text \<open>
  The excerpt in a report is bounded: at most 512 characters of escaped text, without raw line
  breaks, and the ellipsis is only added to an excerpt that leaves something out.
\<close>

theorem excerpt_bounded:
  "length (source_excerpt source) \<le> 513
   \<and> 10 \<notin> set (source_excerpt source) \<and> 13 \<notin> set (source_excerpt source)
   \<and> (length source \<le> 256 \<longrightarrow> source_excerpt source = concat (map escape_newline source))"
proof -
  have len: "length (concat (map escape_newline r)) \<le> 2 * length r" for r
    by (induction r) (auto simp: escape_newline_def)
  have bytes: "len_bytes r \<le> len_bytes (concat (map escape_newline r))" for r
    by (induction r) (auto simp: escape_newline_def utf8_len_def)
  have chars: "10 \<notin> set (concat (map escape_newline r))" "13 \<notin> set (concat (map escape_newline r))" for r
    by (auto simp: escape_newline_def split: if_splits)
  from len [of "take 256 source"] have "length (concat (map escape_newline (take 256 source))) \<le> 512"
    by simp
  with chars [of "take 256 source"] bytes [of source] show ?thesis
    by (auto simp: source_excerpt_def Let_def simp del: length_concat)
qed

text \<open>
  The ellipsis can be missing from a truncated excerpt: an input of 300 newlines is cut to 256
  of them, but their escapes are longer than the input, so nothing marks the cut.
\<close>

theorem excerpt_cut_unmarked:
  "source_excerpt (replicate 300 10) = concat (replicate 256 [92, 110])"
proof -
  have 1: "concat (map escape_newline (take 256 (replicate 300 10))) = concat (replicate 256 [92, 110])"
    by (simp add: escape_newline_def)
  have "len_bytes (concat (replicate n [92, 110])) = 2 * n" for n
    by (induction n) (simp_all add: utf8_len_def)
  moreover have "len_bytes (replicate n 10) = n" for n
    by (induction n) (simp_all add: utf8_len_def)
  ultimately show ?thesis
    unfolding source_excerpt_def 1 by simp
qed

end
