(* ===== verification/Parse.thy ===== *)
theory Parse
  imports Safe Types
begin

text \<open>
  \<^verbatim>\<open>crates/tfls-parser/src/parse.rs\<close>: the choice of a parser by file name, and the recovery that
  blanks the lines of syntax errors until the rest parses. A syntax error \<open>'e\<close> of the third-party
  parser is known by its message and offset (\<open>hcl_errors\<close>); the JSON front end is the parameter
  \<open>parse_json\<close>.
\<close>

record 'e hcl_errors =
  err_message :: "'e \<Rightarrow> string"
  err_offset :: "'e \<Rightarrow> nat"

datatype 'e file_error =
    FSyntax string 'e
  | FPanicked string rope nat
  | FJson string

record ('e, 'b) parsed_file =
  body :: "'b option"
  errors :: "'e file_error list"

definition has_errors :: "('e, 'b) parsed_file \<Rightarrow> bool" where
  "has_errors p \<longleftrightarrow> errors p \<noteq> []"

type_synonym ('e, 'b) hcl_parser = "rope \<Rightarrow> ('e, 'b) outcome"

definition parse_source :: "'e hcl_errors \<Rightarrow> ('e, 'b) hcl_parser \<Rightarrow> rope \<Rightarrow> ('e, 'b) parsed_file option" where
  "parse_source E parser source = do {
     r \<leftarrow> parse_body parser source;
     Some (case r of
         Inr b \<Rightarrow> \<lparr>body = Some b, errors = []\<rparr>
       | Inl (Syntax e) \<Rightarrow> \<lparr>body = None, errors = [FSyntax (err_message E e) e]\<rparr>
       | Inl (Panicked p) \<Rightarrow> \<lparr>body = None, errors = [FPanicked (message p) (excerpt p) (source_bytes p)]\<rparr>)
   }"

definition is_json_uri :: "string \<Rightarrow> bool" where
  [rust_eval]: "is_json_uri u \<longleftrightarrow> ends_with u ''.tf.json'' \<or> is_tftest_json u"

definition parse_source_for_uri ::
  "'e hcl_errors \<Rightarrow> ('e, 'b) hcl_parser \<Rightarrow> (rope \<Rightarrow> ('e, 'b) parsed_file) \<Rightarrow> rope \<Rightarrow> string
    \<Rightarrow> ('e, 'b) parsed_file option" where
  "parse_source_for_uri E parser parse_json source u =
     (if is_json_uri u then Some (parse_json source) else parse_source E parser source)"

definition max_recovery_passes :: nat where
  [rust_eval]: "max_recovery_passes = 64"

text \<open>The byte range of the line at an offset, without its \<open>\n\<close> and a preceding \<open>\r\<close>.\<close>

definition line_bounds :: "string \<Rightarrow> nat \<Rightarrow> nat \<times> nat" where
  [rust_eval]: "line_bounds buf offset0 =
     (let offset = min offset0 (length buf);
          s = offset - length (takeWhile (\<lambda>b. b \<noteq> CHR 0x0A) (rev (take offset buf)));
          e = offset + length (takeWhile (\<lambda>b. b \<noteq> CHR 0x0A) (drop offset buf))
      in (s, if e > s \<and> buf ! (e - 1) = CHR 0x0D then e - 1 else e))"

definition blank :: "string \<Rightarrow> nat \<Rightarrow> nat \<Rightarrow> string" where
  [rust_eval]: "blank buf s e = take s buf @ replicate (e - s) (CHR '' '') @ drop e buf"

text \<open>One pass per step; \<open>None\<close> outside is the death of the process.\<close>

fun recover :: "'e hcl_errors \<Rightarrow> ('e, 'b) hcl_parser \<Rightarrow> nat \<Rightarrow> nat set \<Rightarrow> string \<Rightarrow> 'b option option" where
  "recover E parser 0 blanked buf = Some None"
| "recover E parser (Suc n) blanked buf =
     (case from_utf8 buf of
        None \<Rightarrow> Some None
      | Some text \<Rightarrow>
          (case parse_body parser text of
             None \<Rightarrow> None
           | Some (Inr b) \<Rightarrow> Some (Some b)
           | Some (Inl (Panicked _)) \<Rightarrow> Some None
           | Some (Inl (Syntax e)) \<Rightarrow>
               (let (l, r) = line_bounds buf (min (err_offset E e) (length buf)) in
                if l \<in> blanked then Some None
                else recover E parser n (insert l blanked) (blank buf l r))))"

definition recover_body :: "'e hcl_errors \<Rightarrow> ('e, 'b) hcl_parser \<Rightarrow> rope \<Rightarrow> 'b option option" where
  "recover_body E parser source = recover E parser max_recovery_passes {} (to_utf8 source)"

definition is_panicked :: "'e file_error \<Rightarrow> bool" where
  [rust_eval]: "is_panicked e = (case e of FPanicked _ _ _ \<Rightarrow> True | _ \<Rightarrow> False)"

definition parse_source_recovering ::
  "'e hcl_errors \<Rightarrow> ('e, 'b) hcl_parser \<Rightarrow> rope \<Rightarrow> ('e, 'b) parsed_file option" where
  "parse_source_recovering E parser source = do {
     strict \<leftarrow> parse_source E parser source;
     (if body strict \<noteq> None \<or> errors strict = [] then Some strict
      else if list_ex is_panicked (errors strict) then Some strict
      else do {
        r \<leftarrow> recover_body E parser source;
        Some (case r of
            Some b \<Rightarrow> \<lparr>body = Some b, errors = errors strict\<rparr>
          | None \<Rightarrow> strict)
      })
   }"

definition parse_source_recovering_for_uri ::
  "'e hcl_errors \<Rightarrow> ('e, 'b) hcl_parser \<Rightarrow> (rope \<Rightarrow> ('e, 'b) parsed_file) \<Rightarrow> rope \<Rightarrow> string
    \<Rightarrow> ('e, 'b) parsed_file option" where
  "parse_source_recovering_for_uri E parser parse_json source u =
     (if is_json_uri u then Some (parse_json source) else parse_source_recovering E parser source)"

section \<open>Blanking keeps offsets\<close>

text \<open>\<open>blanked_of buf src\<close>: \<open>buf\<close> is \<open>src\<close> with some bytes other than newlines replaced by spaces.\<close>

definition blanked_of :: "string \<Rightarrow> string \<Rightarrow> bool" where
  "blanked_of buf src \<longleftrightarrow> list_all2 (\<lambda>b s. b = s \<or> b = CHR '' '' \<and> s \<noteq> CHR 0x0A) buf src"

lemma blanked_refl [simp]: "blanked_of s s"
  by (simp add: blanked_of_def list_all2_refl)

lemma takeWhile_nth: "i < length (takeWhile P xs) \<Longrightarrow> P (xs ! i)"
  by (metis nth_mem set_takeWhileD takeWhile_nth)

lemma line_decomp:
  assumes "line_bounds buf off = (l, r)"
  shows "\<exists>p q s. buf = p @ q @ s \<and> length p = l \<and> r = length p + length q
    \<and> CHR 0x0A \<notin> set q \<and> (p = [] \<or> last p = CHR 0x0A) \<and> (s = [] \<or> byte (hd s) < 0x80)"
proof -
  let ?nl = "\<lambda>b. b \<noteq> CHR 0x0A"
  define o' where "o' = min off (length buf)"
  define u where "u = rev (takeWhile ?nl (rev (take o' buf)))"
  define p where "p = rev (dropWhile ?nl (rev (take o' buf)))"
  define v where "v = takeWhile ?nl (drop o' buf)"
  define w where "w = dropWhile ?nl (drop o' buf)"
  have pu: "take o' buf = p @ u"
    unfolding p_def u_def by (metis rev_append rev_rev_ident takeWhile_dropWhile_id)
  have vw: "drop o' buf = v @ w" by (simp add: v_def w_def)
  have buf: "buf = p @ u @ v @ w" using pu vw by (metis append.assoc append_take_drop_id)
  have o': "o' = length p + length u"
    using arg_cong [OF pu, of length] by (simp add: o'_def)
  have no: "CHR 0x0A \<notin> set u" "CHR 0x0A \<notin> set v"
    unfolding u_def v_def by (auto dest: set_takeWhileD)
  have p_last: "p = [] \<or> last p = CHR 0x0A"
    unfolding p_def using hd_dropWhile [of ?nl "rev (take o' buf)"] by (auto simp: last_rev)
  have w_hd: "w = [] \<or> hd w = CHR 0x0A"
    unfolding w_def using hd_dropWhile [of ?nl "drop o' buf"] by auto
  have us: "length (takeWhile ?nl (rev (take o' buf))) = length u" by (simp add: u_def)
  have vs: "length (takeWhile ?nl (drop o' buf)) = length v" by (simp add: v_def)
  have "(l, r) = (o' - length u, if o' + length v > o' - length u \<and> buf ! (o' + length v - 1) = CHR 0x0D
      then o' + length v - 1 else o' + length v)"
    using assms [symmetric] unfolding line_bounds_def Let_def o'_def [symmetric] us vs by simp
  then have l: "l = length p" and r: "r = (if length p + length (u @ v) > length p
      \<and> buf ! (length p + length (u @ v) - 1) = CHR 0x0D
      then length p + length (u @ v) - 1 else length p + length (u @ v))"
    unfolding o' by (simp_all add: add.assoc)
  show ?thesis
  proof (cases "length p + length (u @ v) > length p \<and> buf ! (length p + length (u @ v) - 1) = CHR 0x0D")
    case False
    with buf l r no p_last w_hd show ?thesis
      by (intro exI [of _ p] exI [of _ "u @ v"] exI [of _ w]) (auto simp: byte_def)
  next
    case True
    then have ne: "u @ v \<noteq> []" by auto
    then obtain q c where q: "u @ v = q @ [c]" by (metis append_butlast_last_id)
    have "buf = p @ q @ c # w" using buf q by (metis append.assoc append_Cons append_Nil)
    moreover from this have "c = CHR 0x0D" using True q by (simp add: nth_append)
    moreover have "CHR 0x0A \<notin> set q" using no q by (metis Un_iff set_append)
    ultimately show ?thesis
      using l r True q p_last by (intro exI [of _ p] exI [of _ q] exI [of _ "c # w"]) (auto simp: byte_def)
  qed
qed

lemma blank_append: "blank (p @ q @ s) (length p) (length p + length q) = p @ replicate (length q) (CHR '' '') @ s"
  by (simp add: blank_def)

lemma blanked_blank:
  assumes "blanked_of buf src" "line_bounds buf off = (l, r)"
  shows "blanked_of (blank buf l r) src"
proof -
  obtain p q s where d: "buf = p @ q @ s" "length p = l" "r = length p + length q" "CHR 0x0A \<notin> set q"
    using line_decomp [OF assms(2)] by blast
  let ?R = "\<lambda>b s. b = s \<or> b = CHR '' '' \<and> s \<noteq> CHR 0x0A"
  obtain p' q' s' where src: "src = p' @ q' @ s'" "list_all2 ?R p p'" "list_all2 ?R q q'" "list_all2 ?R s s'"
    using assms(1) unfolding blanked_of_def d(1) by (auto simp: list_all2_append1)
  have "list_all2 ?R (replicate (length q) (CHR '' '')) q'"
    using src(3) d(4) by (auto simp: list_all2_conv_all_nth) (metis nth_mem)+
  then have "list_all2 ?R (p @ replicate (length q) (CHR '' '') @ s) src"
    unfolding src(1) using src(2,4) by (intro list_all2_appendI)
  then show ?thesis
    unfolding blanked_of_def using d blank_append [of p q s] by simp
qed

lemma from_utf8_spaces: "from_utf8 (replicate n (CHR '' '') @ s) = map_option ((@) (replicate n 32)) (from_utf8 s)"
proof (induction n)
  case 0
  then show ?case by (cases "from_utf8 s") auto
next
  case (Suc n)
  then show ?case by (cases "from_utf8 s") (auto simp: from_utf8_ascii byte_def)
qed

lemma from_utf8_hd: "s \<noteq> [] \<Longrightarrow> byte (hd s) < 0x80 \<Longrightarrow> from_utf8 (p @ s) = Some r \<Longrightarrow>
     \<exists>r1 r2. from_utf8 p = Some r1 \<and> from_utf8 s = Some r2"
  using from_utf8_split [of "hd s" p "tl s"] by (cases s) (auto simp: from_utf8_ascii)

text \<open>A blanked line is still valid UTF-8.\<close>

lemma blank_utf8:
  assumes "from_utf8 buf = Some t" "line_bounds buf off = (l, r)"
  shows "from_utf8 (blank buf l r) \<noteq> None"
proof -
  obtain p q s where d: "buf = p @ q @ s" "length p = l" "r = length p + length q"
    "p = [] \<or> last p = CHR 0x0A" "s = [] \<or> byte (hd s) < 0x80"
    using line_decomp [OF assms(2)] by blast
  have "\<exists>r1 r2. from_utf8 p = Some r1 \<and> from_utf8 (q @ s) = Some r2"
  proof (cases "p = []")
    case True
    with assms(1) d(1) show ?thesis by auto
  next
    case False
    then have p: "p = butlast p @ [CHR 0x0A]" using d(4) by (metis append_butlast_last_id)
    then have buf: "buf = butlast p @ CHR 0x0A # (q @ s)" using d(1) by (metis append.assoc append_Cons append_Nil)
    from from_utf8_split [of "CHR 0x0A" "butlast p" "q @ s" t] assms(1) buf
    obtain r1 r2 where r: "from_utf8 (butlast p) = Some r1" "from_utf8 (q @ s) = Some r2"
      by (auto simp: byte_def)
    have "from_utf8 (butlast p @ [CHR 0x0A]) = Some (r1 @ [10])"
      using from_utf8_append [OF r(1)] by (simp add: from_utf8_ascii byte_def)
    then have "from_utf8 p = Some (r1 @ [10])" using p by simp
    with r show ?thesis by blast
  qed
  then obtain r1 r2 where r: "from_utf8 p = Some r1" "from_utf8 (q @ s) = Some r2" by blast
  have "\<exists>r3. from_utf8 s = Some r3"
    using d(5) r(2) from_utf8_hd [of s q r2] by (cases "s = []") auto
  then show ?thesis
    using from_utf8_append [OF r(1), of "replicate (length q) (CHR '' '') @ s"] d(2,3)
    unfolding d(1) by (auto simp: blank_append from_utf8_spaces)
qed

section \<open>What recovery hands to the parser\<close>

lemma to_utf8_ascii_char: "c < 0x80 \<Longrightarrow> byte (char_of c) = c"
  by (simp add: byte_def)

lemma recover_sound:
  "blanked_of buf src \<Longrightarrow> recover E parser n bl buf = Some (Some b) \<Longrightarrow>
     \<exists>buf' text. blanked_of buf' src \<and> from_utf8 buf' = Some text \<and> parse_body parser text = Some (Inr b)"
proof (induction n arbitrary: bl buf)
  case (Suc n)
  obtain t where t: "from_utf8 buf = Some t"
    using Suc.prems(2) by (cases "from_utf8 buf") auto
  obtain res where res: "parse_body parser t = Some res"
    using Suc.prems(2) t by (cases "parse_body parser t") auto
  show ?case
  proof (cases res)
    case (Inr b')
    with Suc.prems t res show ?thesis by auto
  next
    case (Inl err)
    show ?thesis
    proof (cases err)
      case (Panicked p)
      with Suc.prems(2) t res Inl show ?thesis by simp
    next
      case (Syntax e)
      obtain l r where lr: "line_bounds buf (min (err_offset E e) (length buf)) = (l, r)" by fastforce
      have "recover E parser n (insert l bl) (blank buf l r) = Some (Some b)"
        using Suc.prems(2) t res Inl Syntax lr by (auto split: if_splits)
      from Suc.IH [OF blanked_blank [OF Suc.prems(1) lr] this] show ?thesis .
    qed
  qed
qed simp

text \<open>
  C37. Recovery keeps every source position: a recovered body was parsed from a text of the same
  length as the source, equal to it byte for byte except for bytes overwritten by spaces, none of
  them a newline.
\<close>

theorem recovery_keeps_positions:
  assumes "recover_body E parser source = Some (Some b)"
  shows "\<exists>buf text. from_utf8 buf = Some text \<and> parse_body parser text = Some (Inr b)
    \<and> length buf = length (to_utf8 source)
    \<and> (\<forall>i < length buf. buf ! i = to_utf8 source ! i \<or> buf ! i = CHR '' '' \<and> to_utf8 source ! i \<noteq> CHR 0x0A)"
proof -
  obtain buf t where "blanked_of buf (to_utf8 source)" "from_utf8 buf = Some t"
    "parse_body parser t = Some (Inr b)"
    using recover_sound [OF blanked_refl assms [unfolded recover_body_def]] by blast
  then show ?thesis
    unfolding blanked_of_def list_all2_conv_all_nth by blast
qed

lemma recover_total:
  assumes "\<And>src. parse_body parser src \<noteq> None"
  shows "recover E parser n bl buf \<noteq> None"
proof (induction n arbitrary: bl buf)
  case (Suc n)
  show ?case
  proof (cases "from_utf8 buf")
    case (Some t)
    obtain res where "parse_body parser t = Some res" using assms by auto
    with Some Suc.IH show ?thesis
      by (auto simp: Let_def split: sum.split body_parse_error.split prod.split)
  qed simp
qed simp

lemma parse_source_recovering_total:
  assumes "\<And>src. parse_body parser src \<noteq> None"
  shows "parse_source_recovering E parser source \<noteq> None"
proof -
  obtain strict where "parse_source E parser source = Some strict"
    using assms [of source] by (auto simp: parse_source_def)
  moreover have "recover_body E parser source \<noteq> None"
    unfolding recover_body_def by (rule recover_total [OF assms])
  ultimately show ?thesis
    by (auto simp: parse_source_recovering_def split: option.split)
qed

text \<open>
  Recovery never loses an error and never invents a clean parse: whenever the strict parser
  survives every input, parsing with recovery returns, it reports exactly the strict errors, and
  its body is the strict one whenever there is one.
\<close>

theorem recovering_keeps_errors:
  assumes "\<And>src. parse_body parser src \<noteq> None"
  shows "\<exists>strict p. parse_source E parser source = Some strict
    \<and> parse_source_recovering E parser source = Some p
    \<and> errors p = errors strict \<and> (body strict \<noteq> None \<longrightarrow> p = strict)"
proof -
  obtain strict where strict: "parse_source E parser source = Some strict"
    using assms [of source] by (auto simp: parse_source_def)
  have "recover_body E parser source \<noteq> None"
    unfolding recover_body_def by (rule recover_total [OF assms])
  with strict show ?thesis
    by (auto simp: parse_source_recovering_def split: option.split)
qed

text \<open>A parser that rejects \<open>!\<close>, at its offset, to apply the theorems at.\<close>

definition bang_parser :: "(nat, rope) hcl_parser" where
  "bang_parser src = (if 33 \<in> set src then Returned (Inl (length (takeWhile (\<lambda>c. c \<noteq> 33) src)))
     else Returned (Inr src))"

definition bang_errors :: "nat hcl_errors" where
  "bang_errors = \<lparr>err_message = (\<lambda>_. ''unexpected !''), err_offset = (\<lambda>n. n)\<rparr>"

lemma bang_survives: "parse_body bang_parser src \<noteq> None"
  by (auto simp: parse_body_def catch_def bang_parser_def split: option.split)

lemma recover_numeral:
  "recover E parser (numeral k) bl buf =
     (case from_utf8 buf of
        None \<Rightarrow> Some None
      | Some t \<Rightarrow>
          (case parse_body parser t of
             None \<Rightarrow> None
           | Some (Inr b) \<Rightarrow> Some (Some b)
           | Some (Inl (Panicked _)) \<Rightarrow> Some None
           | Some (Inl (Syntax e)) \<Rightarrow>
               (let (l, r) = line_bounds buf (min (err_offset E e) (length buf)) in
                if l \<in> bl then Some None
                else recover E parser (pred_numeral k) (insert l bl) (blank buf l r))))"
  by (simp add: numeral_eq_Suc)

lemma bang_recovers: "recover_body bang_errors bang_parser [97, 10, 33] = Some (Some [97, 10, 32])"
proof -
  have bytes: "to_utf8 [97, 10, 33] = ''a'' @ [CHR 0x0A] @ ''!''" "to_utf8 [97, 10, 32] = ''a'' @ [CHR 0x0A] @ '' ''"
    by (simp_all add: to_utf8_def utf8_char_def char_of_def bit_Suc_0_iff)
  have decode: "from_utf8 (''a'' @ [CHR 0x0A] @ ''!'') = Some [97, 10, 33]"
    "from_utf8 (''a'' @ [CHR 0x0A] @ '' '') = Some [97, 10, 32]"
    by (simp_all add: from_utf8_ascii byte_def)
  have bad: "parse_body bang_parser [97, 10, 33] = Some (Inl (Syntax 2))"
    by (simp add: parse_body_def excessive_nesting_depth_def bytes opens_def closes_def catch_def bang_parser_def)
  have good: "parse_body bang_parser [97, 10, 32] = Some (Inr [97, 10, 32])"
    by (simp add: parse_body_def excessive_nesting_depth_def bytes opens_def closes_def catch_def bang_parser_def)
  have bounds: "line_bounds (''a'' @ [CHR 0x0A] @ ''!'') (Suc (Suc 0)) = (2, 3)" "blank (''a'' @ [CHR 0x0A] @ ''!'') 2 3 = ''a'' @ [CHR 0x0A] @ '' ''"
    by (simp_all add: line_bounds_def blank_def Let_def numeral_eq_Suc)
  show ?thesis
    unfolding recover_body_def max_recovery_passes_def bytes recover_numeral decode option.case bad good
      sum.case body_parse_error.case
    by (simp add: bang_errors_def bounds [simplified] recover_numeral decode [simplified] good)
qed

lemma recovery_keeps_positions_witness:
  "\<exists>buf t. from_utf8 buf = Some t \<and> parse_body bang_parser t = Some (Inr [97, 10, 32]) \<and> length buf = 3"
proof -
  have "length (to_utf8 [97, 10, 33]) = 3" by (simp add: to_utf8_length utf8_len_def)
  with recovery_keeps_positions [OF bang_recovers] show ?thesis by metis
qed

lemma recovering_keeps_errors_witness:
  "\<exists>strict p. parse_source bang_errors bang_parser [33] = Some strict
    \<and> parse_source_recovering bang_errors bang_parser [33] = Some p \<and> errors p = errors strict"
  using recovering_keeps_errors [OF bang_survives, of bang_errors "[33]"] by blast

end
