(* ===== verification/References.thy ===== *)
theory References
  imports Types Position
begin

text \<open>
  \<^verbatim>\<open>crates/tfls-parser/src/references.rs\<close> and \<^verbatim>\<open>crates/tfls-diag/src/expr_walk.rs\<close>: the two
  walks over the expressions of a parsed body. The first collects the references
  (\<^verbatim>\<open>var.x\<close>, \<^verbatim>\<open>aws_instance.web\<close>, ...) with their ranges, the second calls a visitor on every
  expression; the diagnostic rules are built on it.

  Converting a span to a range panics on an offset inside a character, so each traversal the
  reference walk meets contributes a value of type \<open>reference option may_panic\<close>, and
  \<open>extract_references\<close> panics when one of them does.
\<close>

section \<open>References\<close>

datatype reference_kind =
    RefVariable string
  | RefLocal string
  | RefModule string
  | RefResource string string    \<comment> \<open>resource type, name\<close>
  | RefDataSource string string

record reference =
  ref_kind :: reference_kind
  ref_location :: symbol_location

definition lsp_range_of :: "lsp_pos \<times> lsp_pos \<Rightarrow> lsp_range" where
  "lsp_range_of ab =
     \<lparr>range_start = \<lparr>pos_line = fst (fst ab), pos_character = snd (fst ab)\<rparr>,
      range_end = \<lparr>pos_line = fst (snd ab), pos_character = snd (snd ab)\<rparr>\<rparr>"

text \<open>\<open>hcl_span_to_lsp_range(rope, span).ok()\<close>, and the same after \<open>span()?\<close>.\<close>

definition span_range :: "rope \<Rightarrow> span \<Rightarrow> lsp_range option may_panic" where
  "span_range rope sp =
     (case hcl_span_to_lsp_range rope sp of
        None \<Rightarrow> None | Some (Inl _) \<Rightarrow> Some None | Some (Inr ab) \<Rightarrow> Some (Some (lsp_range_of ab)))"

definition opt_span_range :: "rope \<Rightarrow> span option \<Rightarrow> lsp_range option may_panic" where
  "opt_span_range rope sp = (case sp of None \<Rightarrow> Some None | Some s \<Rightarrow> span_range rope s)"

definition is_builtin_prefix :: "string \<Rightarrow> bool" where
  "is_builtin_prefix s \<longleftrightarrow> s \<in> {''var'', ''local'', ''module'', ''data'', ''path'', ''terraform'',
     ''each'', ''count'', ''self''}"

definition looks_like_resource :: "string \<Rightarrow> bool" where
  "looks_like_resource s \<longleftrightarrow> CHR ''_'' \<in> set s"

text \<open>The \<open>.a.b\<close> prefix of the operators, up to the first index or splat.\<close>

fun segments_of :: "trav_op list \<Rightarrow> string list" where
  "segments_of (GetAttr _ i # ops) = i # segments_of ops"
| "segments_of _ = []"

definition reference_kind_of :: "string \<Rightarrow> string list \<Rightarrow> reference_kind option" where
  "reference_kind_of base segments =
     (case segments of
        [] \<Rightarrow> None
      | name # rest \<Rightarrow>
          if base = ''var'' then Some (RefVariable name)
          else if base = ''local'' then Some (RefLocal name)
          else if base = ''module'' then Some (RefModule name)
          else if base = ''data'' \<and> rest \<noteq> [] then Some (RefDataSource name (hd rest))
          else if \<not> is_builtin_prefix base \<and> looks_like_resource base then Some (RefResource base name)
          else None)"

definition classify_traversal ::
    "string \<Rightarrow> rope \<Rightarrow> span option \<Rightarrow> expr \<Rightarrow> trav_op list \<Rightarrow> reference option may_panic" where
  "classify_traversal uri rope sp root ops =
     (case root of
        EVariable base \<Rightarrow>
          do {
            range \<leftarrow> opt_span_range rope sp;
            Some (case range of
                None \<Rightarrow> None
              | Some r \<Rightarrow> map_option (\<lambda>k. \<lparr>ref_kind = k, ref_location = location_new uri r\<rparr>)
                  (reference_kind_of base (segments_of ops)))
          }
      | _ \<Rightarrow> Some None)"

fun visit_expression :: "string \<Rightarrow> rope \<Rightarrow> expr \<Rightarrow> reference option may_panic list"
  and visit_template_element :: "string \<Rightarrow> rope \<Rightarrow> element \<Rightarrow> reference option may_panic list" where
  "visit_expression uri rope (ETraversal sp root ops) =
     classify_traversal uri rope sp root ops # visit_expression uri rope root
     @ concat (map (\<lambda>op. case op of Index e \<Rightarrow> visit_expression uri rope e | _ \<Rightarrow> []) ops)"
| "visit_expression uri rope (EArray items) = concat (map (visit_expression uri rope) items)"
| "visit_expression uri rope (EObject _ fs) =
     concat (map (\<lambda>(k, v). (case k of KExpr ke \<Rightarrow> visit_expression uri rope ke | KIdent _ \<Rightarrow> [])
                   @ visit_expression uri rope v) fs)"
| "visit_expression uri rope (EParenthesis e) = visit_expression uri rope e"
| "visit_expression uri rope (EFuncCall _ _ _ args) = concat (map (visit_expression uri rope) args)"
| "visit_expression uri rope (EConditional c t f) =
     visit_expression uri rope c @ visit_expression uri rope t @ visit_expression uri rope f"
| "visit_expression uri rope (EUnaryOp _ e) = visit_expression uri rope e"
| "visit_expression uri rope (EBinaryOp _ l _ r) =
     visit_expression uri rope l @ visit_expression uri rope r"
| "visit_expression uri rope (EFor _ _ coll key val cond) =
     visit_expression uri rope coll
     @ (case key of Some k \<Rightarrow> visit_expression uri rope k | None \<Rightarrow> [])
     @ visit_expression uri rope val
     @ (case cond of Some c \<Rightarrow> visit_expression uri rope c | None \<Rightarrow> [])"
| "visit_expression uri rope (EStringTemplate _ els) =
     concat (map (visit_template_element uri rope) els)"
| "visit_expression uri rope (EHeredocTemplate els) =
     concat (map (visit_template_element uri rope) els)"
| "visit_expression uri rope _ = []"
| "visit_template_element uri rope (Literal _) = []"
| "visit_template_element uri rope (Interpolation e) = visit_expression uri rope e"
| "visit_template_element uri rope (DirIf c t e) =
     visit_expression uri rope c @ concat (map (visit_template_element uri rope) t)
     @ (case e of Some t' \<Rightarrow> concat (map (visit_template_element uri rope) t') | None \<Rightarrow> [])"
| "visit_template_element uri rope (DirFor c t) =
     visit_expression uri rope c @ concat (map (visit_template_element uri rope) t)"

fun visit_body_refs :: "string \<Rightarrow> rope \<Rightarrow> body \<Rightarrow> reference option may_panic list"
  and visit_item_refs :: "string \<Rightarrow> rope \<Rightarrow> body_item \<Rightarrow> reference option may_panic list" where
  "visit_body_refs uri rope b = concat (map (visit_item_refs uri rope) b)"
| "visit_item_refs uri rope (Attribute _ e _ _) = visit_expression uri rope e"
| "visit_item_refs uri rope (Block _ _ _ inner) = visit_body_refs uri rope inner"

definition extract_references :: "body \<Rightarrow> string \<Rightarrow> rope \<Rightarrow> reference list may_panic" where
  "extract_references b uri rope =
     map_option (List.map_filter id) (those (visit_body_refs uri rope b))"

section \<open>The visitor walk\<close>

text \<open>The expressions in the order the visitor is called on them.\<close>

fun visit_expr :: "expr \<Rightarrow> expr list"
  and visit_elem :: "element \<Rightarrow> expr list" where
  "visit_expr (EArray items) = EArray items # concat (map visit_expr items)"
| "visit_expr (EObject sp fs) = EObject sp fs #
     concat (map (\<lambda>(k, v). (case k of KExpr ke \<Rightarrow> visit_expr ke | KIdent _ \<Rightarrow> []) @ visit_expr v) fs)"
| "visit_expr (EStringTemplate sp els) = EStringTemplate sp els # concat (map visit_elem els)"
| "visit_expr (EHeredocTemplate els) = EHeredocTemplate els # concat (map visit_elem els)"
| "visit_expr (EParenthesis e) = EParenthesis e # visit_expr e"
| "visit_expr (EConditional c t f) =
     EConditional c t f # visit_expr c @ visit_expr t @ visit_expr f"
| "visit_expr (EFuncCall sp ns name args) = EFuncCall sp ns name args # concat (map visit_expr args)"
| "visit_expr (ETraversal sp root ops) = ETraversal sp root ops # visit_expr root
     @ concat (map (\<lambda>op. case op of Index e \<Rightarrow> visit_expr e | _ \<Rightarrow> []) ops)"
| "visit_expr (EUnaryOp op e) = EUnaryOp op e # visit_expr e"
| "visit_expr (EBinaryOp sp l op r) = EBinaryOp sp l op r # visit_expr l @ visit_expr r"
| "visit_expr (EFor k v coll key val cond) = EFor k v coll key val cond # visit_expr coll
     @ (case key of Some e \<Rightarrow> visit_expr e | None \<Rightarrow> []) @ visit_expr val
     @ (case cond of Some e \<Rightarrow> visit_expr e | None \<Rightarrow> [])"
| "visit_expr e = [e]"
| "visit_elem (Literal _) = []"
| "visit_elem (Interpolation e) = visit_expr e"
| "visit_elem (DirIf c t e) = visit_expr c @ concat (map visit_elem t)
     @ (case e of Some t' \<Rightarrow> concat (map visit_elem t') | None \<Rightarrow> [])"
| "visit_elem (DirFor c t) = visit_expr c @ concat (map visit_elem t)"

fun visit_item :: "body_item \<Rightarrow> expr list" where
  "visit_item (Attribute _ e _ _) = visit_expr e"
| "visit_item (Block _ _ _ inner) = concat (map visit_item inner)"

definition visit_body :: "body \<Rightarrow> expr list" where
  "visit_body b = concat (map visit_item b)"

text \<open>The visitor closure is a state transformer.\<close>

definition for_each_expression :: "body \<Rightarrow> (expr \<Rightarrow> 's \<Rightarrow> 's) \<Rightarrow> 's \<Rightarrow> 's" where
  "for_each_expression b visitor s = fold visitor (visit_body b) s"

definition for_each_expression_in :: "expr \<Rightarrow> (expr \<Rightarrow> 's \<Rightarrow> 's) \<Rightarrow> 's \<Rightarrow> 's" where
  "for_each_expression_in e visitor s = fold visitor (visit_expr e) s"


section \<open>Both walks miss nothing\<close>

fun traversal_reference :: "string \<Rightarrow> rope \<Rightarrow> expr \<Rightarrow> reference option may_panic list" where
  "traversal_reference uri rope (ETraversal sp root ops) = [classify_traversal uri rope sp root ops]"
| "traversal_reference uri rope _ = []"

lemma concat_map_concat: "concat (map f (concat (map g xs))) = concat (map (\<lambda>x. concat (map f (g x))) xs)"
  by (induction xs) auto

lemma concat_map_cong: "(\<And>x. x \<in> set xs \<Longrightarrow> f x = g x) \<Longrightarrow> concat (map f xs) = concat (map g xs)"
  by (metis map_cong)

lemma visit_expression_eq:
  "visit_expression uri rope e = concat (map (traversal_reference uri rope) (visit_expr e))"
  "visit_template_element uri rope el = concat (map (traversal_reference uri rope) (visit_elem el))"
proof (induction uri rope e and uri rope el rule: visit_expression_visit_template_element.induct)
  case (1 uri rope sp root ops)
  then show ?case
    by (auto simp: concat_map_concat split: trav_op.split intro!: concat_map_cong)
next
  case (3 uri rope sp fs)
  then show ?case
    by (fastforce simp: concat_map_concat split: obj_key.split intro!: concat_map_cong)
next
  case (15 uri rope c t e)
  then show ?case
    by (auto simp: concat_map_concat split: option.split
        intro!: concat_map_cong arg_cong2 [where f = append])
qed (auto simp: concat_map_concat split: option.split intro!: concat_map_cong)

lemma visit_body_refs_eq:
  "visit_body_refs uri rope b = concat (map (traversal_reference uri rope) (visit_body b))"
  "visit_item_refs uri rope i = concat (map (traversal_reference uri rope) (visit_item i))"
proof (induction uri rope b and uri rope i rule: visit_body_refs_visit_item_refs.induct)
  case (1 uri rope b)
  then show ?case by (auto simp: visit_body_def concat_map_concat intro!: concat_map_cong)
qed (auto simp: visit_expression_eq visit_body_def)

text \<open>
  The immediate parts of an expression, read off the constructors: what the walks are measured
  against. A template contributes the expressions of its elements.
\<close>

inductive in_element :: "expr \<Rightarrow> element \<Rightarrow> bool" where
  "in_element e (Interpolation e)"
| "in_element c (DirIf c t f)"
| "el \<in> set t \<Longrightarrow> in_element e el \<Longrightarrow> in_element e (DirIf c t f)"
| "el \<in> set t \<Longrightarrow> in_element e el \<Longrightarrow> in_element e (DirIf c s (Some t))"
| "in_element c (DirFor c t)"
| "el \<in> set t \<Longrightarrow> in_element e el \<Longrightarrow> in_element e (DirFor c t)"

inductive part_of :: "expr \<Rightarrow> expr \<Rightarrow> bool" where
  "e \<in> set items \<Longrightarrow> part_of e (EArray items)"
| "(k, e) \<in> set fs \<Longrightarrow> part_of e (EObject sp fs)"
| "(KExpr e, v) \<in> set fs \<Longrightarrow> part_of e (EObject sp fs)"
| "el \<in> set els \<Longrightarrow> in_element e el \<Longrightarrow> part_of e (EStringTemplate sp els)"
| "el \<in> set els \<Longrightarrow> in_element e el \<Longrightarrow> part_of e (EHeredocTemplate els)"
| "part_of e (EParenthesis e)"
| "e \<in> {c, t, f} \<Longrightarrow> part_of e (EConditional c t f)"
| "e \<in> set args \<Longrightarrow> part_of e (EFuncCall sp ns name args)"
| "part_of root (ETraversal sp root ops)"
| "Index e \<in> set ops \<Longrightarrow> part_of e (ETraversal sp root ops)"
| "part_of e (EUnaryOp op e)"
| "e \<in> {l, r} \<Longrightarrow> part_of e (EBinaryOp sp l op r)"
| "e \<in> {coll, val} \<union> set_option key \<union> set_option cond \<Longrightarrow> part_of e (EFor kv v coll key val cond)"

inductive_simps in_element_simps [simp]:
  "in_element e (Literal s)" "in_element e (Interpolation e')" "in_element e (DirIf c t f)"
  "in_element e (DirFor c t)"

inductive_simps part_of_simps [simp]:
  "part_of e ENull" "part_of e (EBool b)" "part_of e (ENumber n)" "part_of e (EString sp s)"
  "part_of e (EArray items)" "part_of e (EObject sp fs)" "part_of e (EStringTemplate sp els)"
  "part_of e (EHeredocTemplate els)" "part_of e (EParenthesis e')" "part_of e (EVariable x)"
  "part_of e (EConditional c t f)" "part_of e (EFuncCall sp ns name args)"
  "part_of e (ETraversal sp root ops)" "part_of e (EUnaryOp op e')" "part_of e (EBinaryOp sp l op r)"
  "part_of e (EFor kv v coll key val cond)"

inductive in_item :: "expr \<Rightarrow> body_item \<Rightarrow> bool" where
  "in_item e (Attribute k e sv sa)"
| "i \<in> set inner \<Longrightarrow> in_item e i \<Longrightarrow> in_item e (Block sp ident labels inner)"

inductive_simps in_item_simps [simp]:
  "in_item e (Attribute k v sv sa)" "in_item e (Block sp ident labels inner)"

lemma visit_elem_step:
  "e' \<in> set (visit_elem el) \<longleftrightarrow> (\<exists>c. in_element c el \<and> e' \<in> set (visit_expr c))"
proof (induction "size el" arbitrary: el rule: less_induct)
  case less
  show ?case
  proof (cases el)
    case (DirIf c t f)
    have t: "el' \<in> set t \<Longrightarrow> e' \<in> set (visit_elem el') \<longleftrightarrow> (\<exists>c. in_element c el' \<and> e' \<in> set (visit_expr c))" for el'
      using less [of el'] DirIf size_list_estimation' [of el' t "size el'" size] by simp
    have f: "el' \<in> set f' \<Longrightarrow> f = Some f' \<Longrightarrow> e' \<in> set (visit_elem el') \<longleftrightarrow> (\<exists>c. in_element c el' \<and> e' \<in> set (visit_expr c))" for el' f'
      using less [of el'] DirIf size_list_estimation' [of el' f' "size el'" size] by simp
    show ?thesis
      unfolding DirIf by (cases f) (use t f in auto)
  next
    case (DirFor c t)
    have t: "el' \<in> set t \<Longrightarrow> e' \<in> set (visit_elem el') \<longleftrightarrow> (\<exists>c. in_element c el' \<and> e' \<in> set (visit_expr c))" for el'
      using less [of el'] DirFor size_list_estimation' [of el' t "size el'" size] by simp
    show ?thesis
      unfolding DirFor by (use t in auto)
  qed auto
qed

lemma visit_expr_step:
  "e' \<in> set (visit_expr e) \<longleftrightarrow> e' = e \<or> (\<exists>c. part_of c e \<and> e' \<in> set (visit_expr c))"
proof (cases e)
  case (EObject sp fs)
  then show ?thesis
    by (auto split: obj_key.splits)
next
  case (ETraversal sp root ops)
  then show ?thesis
    by (auto split: trav_op.splits)
qed (auto simp: visit_elem_step split: option.split)

lemma size_in_list: "x \<in> set xs \<Longrightarrow> f x \<le> size_list f xs"
  by (rule size_list_estimation' [OF _ le_refl])

lemma in_element_size: "in_element e el \<Longrightarrow> size e < size el"
  by (induction rule: in_element.induct) (auto dest!: size_in_list [where f = size])

lemma part_of_size: "part_of c e \<Longrightarrow> size c < size e"
proof (induction rule: part_of.induct)
  case (2 k e fs sp)
  from size_in_list [OF this, where f = "size_prod size size"] show ?case by simp
next
  case (3 e v fs sp)
  from size_in_list [OF this, where f = "size_prod size size"] show ?case by simp
next
  case (4 el els e sp)
  then show ?case using in_element_size [of e el] size_in_list [of el els size] by simp
next
  case (5 el els e)
  then show ?case using in_element_size [of e el] size_in_list [of el els size] by simp
next
  case (10 e ops sp root)
  from size_in_list [OF this, where f = size] show ?case by simp
next
  case (13 e coll val key cond kv v)
  then show ?case by (cases key; cases cond) auto
qed (auto dest!: size_in_list [where f = size])

lemma visit_expr_self: "e \<in> set (visit_expr e)"
  by (subst visit_expr_step) simp

lemma visit_expr_complete: "part_of\<^sup>*\<^sup>* e' e \<Longrightarrow> e' \<in> set (visit_expr e)"
proof (induction rule: rtranclp_induct)
  case base
  show ?case by (rule visit_expr_self)
next
  case (step e1 e2)
  then show ?case by (subst visit_expr_step) blast
qed

lemma visit_expr_sound: "e' \<in> set (visit_expr e) \<Longrightarrow> part_of\<^sup>*\<^sup>* e' e"
proof (induction "size e" arbitrary: e rule: less_induct)
  case less
  from less.prems consider "e' = e" | c where "part_of c e" "e' \<in> set (visit_expr c)"
    by (subst (asm) visit_expr_step) blast
  then show ?case
  proof cases
    case 2
    then show ?thesis using less.hyps [of c] part_of_size [of c e] by (meson rtranclp.rtrancl_into_rtrancl)
  qed simp
qed

lemma visit_expr_reach: "e' \<in> set (visit_expr e) \<longleftrightarrow> part_of\<^sup>*\<^sup>* e' e"
  using visit_expr_sound visit_expr_complete by blast

lemma visit_item_reach: "e' \<in> set (visit_item i) \<longleftrightarrow> (\<exists>e. in_item e i \<and> part_of\<^sup>*\<^sup>* e' e)"
  by (induction i rule: visit_item.induct) (auto simp: visit_expr_reach)

lemma for_each_expression_set:
  "for_each_expression b (\<lambda>e S. insert e S) {} = set (visit_body b)"
proof -
  have "fold insert es S = set es \<union> S" for es :: "expr list" and S
    by (induction es arbitrary: S) auto
  then show ?thesis by (simp add: for_each_expression_def)
qed

lemma those_Some: "those xs = Some ys \<longleftrightarrow> xs = map Some ys"
  by (induction xs arbitrary: ys) (auto split: option.splits)

lemma traversal_reference_Some:
  "Some (Some rf) \<in> set (traversal_reference uri rope e) \<longleftrightarrow>
     (\<exists>sp base ops r. e = ETraversal (Some sp) (EVariable base) ops
        \<and> reference_kind_of base (segments_of ops) = Some (ref_kind rf)
        \<and> span_range rope sp = Some (Some r) \<and> ref_location rf = location_new uri r)"
  by (cases e; cases rf)
    (auto simp: classify_traversal_def opt_span_range_def map_option_case split: expr.splits option.splits Option.bind_splits)

lemma visit_body_reach: "e \<in> set (visit_body b) \<longleftrightarrow> (\<exists>i e0. i \<in> set b \<and> in_item e0 i \<and> part_of\<^sup>*\<^sup>* e e0)"
  by (auto simp: visit_body_def visit_item_reach)

text \<open>
  The visitor reaches exactly the expressions of the body: each attribute value, at any block
  depth, and each part of a reached expression, template directives included.
\<close>

theorem visitor_misses_nothing:
  "e \<in> for_each_expression b insert {}
     \<longleftrightarrow> (\<exists>i e0. i \<in> set b \<and> in_item e0 i \<and> part_of\<^sup>*\<^sup>* e e0)"
  using for_each_expression_set [of b] by (simp add: visit_body_reach)

lemma extract_references_iff:
  assumes "extract_references b uri rope = Some rs"
  shows "rf \<in> set rs \<longleftrightarrow>
    (\<exists>i e0 sp base ops r. i \<in> set b \<and> in_item e0 i
       \<and> part_of\<^sup>*\<^sup>* (ETraversal (Some sp) (EVariable base) ops) e0
       \<and> reference_kind_of base (segments_of ops) = Some (ref_kind rf)
       \<and> span_range rope sp = Some (Some r) \<and> ref_location rf = location_new uri r)"
proof -
  obtain xs where xs: "visit_body_refs uri rope b = map Some xs" "rs = List.map_filter id xs"
    using assms by (auto simp: extract_references_def those_Some)
  have "rf \<in> set rs \<longleftrightarrow> Some (Some rf) \<in> set (visit_body_refs uri rope b)"
    using xs by (auto simp: in_map_filter simp del: visit_body_refs.simps)
  also have "\<dots> \<longleftrightarrow> (\<exists>e. e \<in> set (visit_body b) \<and> Some (Some rf) \<in> set (traversal_reference uri rope e))"
    by (auto simp: visit_body_refs_eq simp del: visit_body_refs.simps)
  finally show ?thesis
    unfolding traversal_reference_Some visit_body_reach by blast
qed

text \<open>
  C20. When extraction returns, a reference is in its result exactly when some traversal in the body
  denotes it: the head and the attribute path name it by Terraform's conventions, and its location is
  the document with the traversal's own range. Nothing nested in a template, an object key, an index
  or a block is missed.
\<close>

theorem references_exact:
  assumes "extract_references b uri rope = Some rs"
  shows "rf \<in> set rs \<longleftrightarrow>
    (\<exists>i e0 sp base ops r. i \<in> set b \<and> in_item e0 i
       \<and> part_of\<^sup>*\<^sup>* (ETraversal (Some sp) (EVariable base) ops) e0
       \<and> reference_kind_of base (segments_of ops) = Some (ref_kind rf)
       \<and> span_range rope sp = Some (Some r) \<and> ref_location rf = location_new uri r)"
  by (rule extract_references_iff [OF assms])

definition sample_body :: body where
  "sample_body = [Block None (''locals'', None) [] [Attribute (''x'', None)
     (EObject None [(KExpr (ETraversal (Some (0, 2)) (EVariable ''var'') [GetAttr None ''a'']), ENull)]) None None]]"

lemmas span_eval = opt_span_range_def span_range_def hcl_span_to_lsp_range_def
  byte_offset_to_lsp_position_def line_start_bytes_def binary_search_def byte_slice_def
  drop_bytes.simps take_bytes.simps len_bytes_def len_utf16_def utf8_len_def utf16_len_def
  location_new_def lsp_range_of_def

lemma sample_refs:
  "extract_references sample_body ''u'' [97, 98, 99] = Some [\<lparr>ref_kind = RefVariable ''a'',
     ref_location = \<lparr>loc_uri = ''u'', start_line = 0, start_character = 0, end_line = 0, end_character = 2\<rparr>\<rparr>]"
  by (simp add: sample_body_def extract_references_def classify_traversal_def span_eval
      reference_kind_of_def List.map_filter_def Let_def)

lemma references_exact_witness:
  "\<exists>i e0 sp base ops. i \<in> set sample_body \<and> in_item e0 i
     \<and> part_of\<^sup>*\<^sup>* (ETraversal (Some sp) (EVariable base) ops) e0
     \<and> reference_kind_of base (segments_of ops) = Some (RefVariable ''a'')"
proof -
  from references_exact [OF sample_refs, of "\<lparr>ref_kind = RefVariable ''a'',
     ref_location = \<lparr>loc_uri = ''u'', start_line = 0, start_character = 0, end_line = 0, end_character = 2\<rparr>\<rparr>"]
  show ?thesis by simp blast
qed

end
