(* ===== verification/Symbols.thy ===== *)
theory Symbols
  imports References
begin

text \<open>
  \<^verbatim>\<open>crates/tfls-parser/src/traversal.rs\<close>: the symbol table of a parsed body. Every arm of the
  match on the block's keyword is a case of \<open>extract_block\<close>; the closures that insert into the table
  are its continuation.
\<close>

fun find_attr_expr :: "body \<Rightarrow> string \<Rightarrow> expr option" where
  "find_attr_expr [] key = None"
| "find_attr_expr (Attribute (k, _) e _ _ # rest) key = (if k = key then Some e else find_attr_expr rest key)"
| "find_attr_expr (Block _ _ _ _ # rest) key = find_attr_expr rest key"

fun string_attribute :: "body \<Rightarrow> string \<Rightarrow> string option" where
  "string_attribute [] key = None"
| "string_attribute (Attribute (k, _) e _ _ # rest) key =
     (if k \<noteq> key then string_attribute rest key
      else case e of EString _ s \<Rightarrow> Some s | _ \<Rightarrow> string_attribute rest key)"
| "string_attribute (Block _ _ _ _ # rest) key = string_attribute rest key"

definition label_range :: "rope \<Rightarrow> ident \<Rightarrow> lsp_range option may_panic" where
  "label_range rope l = opt_span_range rope (snd l)"

definition build_symbol ::
    "string \<Rightarrow> symbol_kind \<Rightarrow> span option \<Rightarrow> string \<Rightarrow> rope \<Rightarrow> lsp_range \<Rightarrow> string option \<Rightarrow> string option
      \<Rightarrow> symbol option may_panic" where
  "build_symbol name kind sp uri rope nr det dc = do {
     range \<leftarrow> opt_span_range rope sp;
     Some (map_option (\<lambda>r. \<lparr>sym_name = name, sym_kind = kind, sym_location = location_new uri r,
       name_range = nr, detail = det, doc = dc\<rparr>) range)
   }"

text \<open>What \<open>insert_labeled\<close> passes to its closure, if it calls it.\<close>

definition labeled_symbol ::
    "span option \<Rightarrow> ident list \<Rightarrow> body \<Rightarrow> string \<Rightarrow> rope \<Rightarrow> symbol_kind \<Rightarrow> (symbol \<times> string) option may_panic" where
  "labeled_symbol sp labels inner uri rope kind =
     (case labels of
        [] \<Rightarrow> Some None
      | l # _ \<Rightarrow> do {
          nr \<leftarrow> label_range rope l;
          (case nr of
             None \<Rightarrow> Some None
           | Some r \<Rightarrow> do {
               sym \<leftarrow> build_symbol (fst l) kind sp uri rope r None (string_attribute inner ''description'');
               Some (map_option (\<lambda>s. (s, fst l)) sym) }) })"

definition two_labeled_symbol ::
    "span option \<Rightarrow> ident list \<Rightarrow> string \<Rightarrow> rope \<Rightarrow> symbol_kind \<Rightarrow> (symbol \<times> resource_address) option may_panic" where
  "two_labeled_symbol sp labels uri rope kind =
     (case labels of
        t # n # _ \<Rightarrow> do {
          nr \<leftarrow> label_range rope t;
          (case nr of
             None \<Rightarrow> Some None
           | Some r \<Rightarrow> do {
               sym \<leftarrow> build_symbol (fst n) kind sp uri rope r (Some (fst t @ ''.'' @ fst n)) None;
               Some (map_option (\<lambda>s. (s, \<lparr>resource_type = fst t, rname = fst n\<rparr>)) sym) }) }
      | _ \<Rightarrow> Some None)"

definition insert_opt :: "'k \<Rightarrow> 'v option \<Rightarrow> ('k, 'v) hash_map \<Rightarrow> ('k, 'v) hash_map" where
  "insert_opt k v m = (case v of None \<Rightarrow> m | Some x \<Rightarrow> hm_insert k x m)"

text \<open>\<open>find_attr_expr(..).map(parse_value_shape).filter(not Any)\<close>.\<close>

definition concrete_shape :: "expr \<Rightarrow> vtype option" where
  "concrete_shape e = (if parse_value_shape e = TAny then None else Some (parse_value_shape e))"

definition attr_shape :: "body \<Rightarrow> string \<Rightarrow> vtype option" where
  "attr_shape inner key = (case find_attr_expr inner key of None \<Rightarrow> None | Some e \<Rightarrow> concrete_shape e)"

definition extract_local :: "string \<Rightarrow> rope \<Rightarrow> symbol_table \<Rightarrow> body_item \<Rightarrow> symbol_table may_panic" where
  "extract_local uri rope table item =
     (case item of
        Attribute (name, key_span) value _ attr_span \<Rightarrow> do {
          loc \<leftarrow> opt_span_range rope attr_span;
          (case loc of
             None \<Rightarrow> Some table
           | Some lr \<Rightarrow> do {
               nr \<leftarrow> opt_span_range rope key_span;
               Some (case nr of
                   None \<Rightarrow> table
                 | Some r \<Rightarrow> table\<lparr>
                     local_shapes := insert_opt name (concrete_shape value) (local_shapes table),
                     locals := hm_insert name \<lparr>sym_name = name, sym_kind = Local,
                       sym_location = location_new uri lr, name_range = r, detail = None, doc = None\<rparr>
                       (locals table)\<rparr>) }) }
      | Block _ _ _ _ \<Rightarrow> Some table)"

definition extract_locals :: "body \<Rightarrow> string \<Rightarrow> rope \<Rightarrow> symbol_table \<Rightarrow> symbol_table may_panic" where
  "extract_locals inner uri rope table = fold_may (extract_local uri rope) table inner"

definition with_symbol :: "('a option) may_panic \<Rightarrow> ('a \<Rightarrow> 't \<Rightarrow> 't) \<Rightarrow> 't \<Rightarrow> 't may_panic" where
  "with_symbol found ins table = map_option (\<lambda>f. case f of None \<Rightarrow> table | Some x \<Rightarrow> ins x table) found"

definition extract_terraform :: "span option \<Rightarrow> span option \<Rightarrow> string \<Rightarrow> rope \<Rightarrow> symbol_table \<Rightarrow> symbol_table may_panic" where
  "extract_terraform sp kw_span uri rope table = do {
     nr \<leftarrow> opt_span_range rope kw_span;
     (case nr of
        None \<Rightarrow> Some table
      | Some r \<Rightarrow> with_symbol (build_symbol ''terraform'' TerraformBlock sp uri rope r None None)
          (\<lambda>sym t. if hm_get (providers t) ''_terraform'' = None
             then t\<lparr>providers := hm_insert ''_terraform'' sym (providers t)\<rparr> else t) table)
   }"

definition extract_block :: "string \<Rightarrow> rope \<Rightarrow> symbol_table \<Rightarrow> body_item \<Rightarrow> symbol_table may_panic" where
  "extract_block uri rope table item =
     (case item of
        Attribute _ _ _ _ \<Rightarrow> Some table
      | Block sp (kw, kw_span) labels inner \<Rightarrow>
          if kw = ''variable'' then
            with_symbol (labeled_symbol sp labels inner uri rope Variable) (\<lambda>(sym, name) t.
              t\<lparr>variable_types := insert_opt name (map_option parse_type_expr (find_attr_expr inner ''type'')) (variable_types t),
                variable_defaults := insert_opt name (attr_shape inner ''default'') (variable_defaults t),
                variables := hm_insert name sym (variables t)\<rparr>) table
          else if kw = ''output'' then
            with_symbol (labeled_symbol sp labels inner uri rope Output) (\<lambda>(sym, name) t.
              t\<lparr>outputs := hm_insert name sym (outputs t)\<rparr>) table
          else if kw = ''module'' then
            with_symbol (labeled_symbol sp labels inner uri rope Module) (\<lambda>(sym, name) t.
              t\<lparr>module_sources := insert_opt name (string_attribute inner ''source'') (module_sources t),
                module_for_each_shapes := insert_opt name (attr_shape inner ''for_each'') (module_for_each_shapes t),
                modules := hm_insert name sym (modules t)\<rparr>) table
          else if kw = ''provider'' then
            with_symbol (labeled_symbol sp labels inner uri rope Provider) (\<lambda>(sym, name) t.
              t\<lparr>providers := hm_insert name sym (providers t)\<rparr>) table
          else if kw = ''resource'' then
            with_symbol (two_labeled_symbol sp labels uri rope Resource) (\<lambda>(sym, addr) t.
              t\<lparr>for_each_shapes := insert_opt addr (attr_shape inner ''for_each'') (for_each_shapes t),
                resources := hm_insert addr sym (resources t)\<rparr>) table
          else if kw = ''data'' then
            with_symbol (two_labeled_symbol sp labels uri rope DataSource) (\<lambda>(sym, addr) t.
              t\<lparr>data_source_for_each_shapes := insert_opt addr (attr_shape inner ''for_each'') (data_source_for_each_shapes t),
                data_sources := hm_insert addr sym (data_sources t)\<rparr>) table
          else if kw = ''locals'' then extract_locals inner uri rope table
          else if kw = ''terraform'' then extract_terraform sp kw_span uri rope table
          else Some table)"

definition extract_symbols :: "body \<Rightarrow> string \<Rightarrow> rope \<Rightarrow> symbol_table may_panic" where
  "extract_symbols b uri rope = fold_may (extract_block uri rope) empty_table b"

definition extract_test_block :: "string \<Rightarrow> rope \<Rightarrow> symbol list \<Rightarrow> body_item \<Rightarrow> symbol list may_panic" where
  "extract_test_block uri rope runs item =
     (case item of
        Block sp (kw, _) (l # _) _ \<Rightarrow>
          if kw \<noteq> ''run'' then Some runs
          else do {
            nr \<leftarrow> label_range rope l;
            (case nr of
               None \<Rightarrow> Some runs
             | Some r \<Rightarrow> with_symbol (build_symbol (fst l) Module sp uri rope r None None)
                 (\<lambda>sym rs. rs @ [sym]) runs) }
      | _ \<Rightarrow> Some runs)"

definition extract_test_symbols :: "body \<Rightarrow> string \<Rightarrow> rope \<Rightarrow> symbol list may_panic" where
  "extract_test_symbols b uri rope = fold_may (extract_test_block uri rope) [] b"

section \<open>The invariant of a table\<close>

definition keyed :: "string \<Rightarrow> symbol_kind set \<Rightarrow> ('k \<Rightarrow> string) \<Rightarrow> ('k, symbol) hash_map \<Rightarrow> bool" where
  "keyed uri kinds key_name m \<longleftrightarrow> hm_ok m \<and> (\<forall>(k, s) \<in> set m. loc_uri (sym_location s) = uri \<and> sym_kind s \<in> kinds
     \<and> (sym_name s = key_name k \<or> sym_kind s = TerraformBlock))"

definition within :: "('k, 'v) hash_map \<Rightarrow> ('k, 'w) hash_map \<Rightarrow> ('v \<Rightarrow> bool) \<Rightarrow> bool" where
  "within m decls P \<longleftrightarrow> hm_ok m \<and> fst ` set m \<subseteq> fst ` set decls \<and> (\<forall>(k, v) \<in> set m. P v)"

definition table_ok :: "string \<Rightarrow> symbol_table \<Rightarrow> bool" where
  "table_ok uri t \<longleftrightarrow>
     keyed uri {Variable} id (variables t) \<and> keyed uri {Local} id (locals t) \<and> keyed uri {Output} id (outputs t)
   \<and> keyed uri {Resource} rname (resources t) \<and> keyed uri {DataSource} rname (data_sources t)
   \<and> keyed uri {Module} id (modules t) \<and> keyed uri {Provider, TerraformBlock} id (providers t)
   \<and> within (variable_types t) (variables t) type_ok
   \<and> within (variable_defaults t) (variables t) (\<lambda>s. type_ok s \<and> s \<noteq> TAny)
   \<and> within (local_shapes t) (locals t) (\<lambda>s. type_ok s \<and> s \<noteq> TAny)
   \<and> within (module_sources t) (modules t) (\<lambda>_. True)
   \<and> within (module_for_each_shapes t) (modules t) (\<lambda>s. type_ok s \<and> s \<noteq> TAny)
   \<and> within (for_each_shapes t) (resources t) (\<lambda>s. type_ok s \<and> s \<noteq> TAny)
   \<and> within (data_source_for_each_shapes t) (data_sources t) (\<lambda>s. type_ok s \<and> s \<noteq> TAny)"

lemma set_hm_insert: "set (hm_insert k v m) \<subseteq> insert (k, v) (set m)" "fst ` set (hm_insert k v m) = insert k (fst ` set m)"
  by (induction m) (auto simp: hm_insert_def)

lemma keyed_empty [simp]: "keyed u K f []"
  by (simp add: keyed_def hm_ok_def)

lemma within_empty [simp]: "within [] d P"
  by (simp add: within_def hm_ok_def)

lemma empty_table_ok: "table_ok uri empty_table"
  by (simp add: table_ok_def empty_table_def)

lemma keyed_insert:
  "keyed uri K f m \<Longrightarrow> loc_uri (sym_location s) = uri \<Longrightarrow> sym_kind s \<in> K
     \<Longrightarrow> sym_name s = f k \<or> sym_kind s = TerraformBlock \<Longrightarrow> keyed uri K f (hm_insert k s m)"
  using set_hm_insert(1) [of k s m] by (auto simp: keyed_def hm_insert_ok)

lemma within_insert:
  "within m d P \<Longrightarrow> pred_option P v \<Longrightarrow> within (insert_opt k v m) (hm_insert k s d) P"
  using set_hm_insert(1) [of k "the v" m]
  by (auto simp: within_def insert_opt_def hm_insert_ok set_hm_insert(2) split: option.splits)

lemma no_schema_lookup_ok: "schema_ok no_schema_lookup"
  by (simp add: schema_ok_def no_schema_lookup_def)

lemma concrete_shape_ok: "pred_option (\<lambda>t. type_ok t \<and> t \<noteq> TAny) (concrete_shape e)"
  by (simp add: concrete_shape_def parse_value_shape_def no_schema_lookup_ok parse_value_shape_with_schema_ok)

lemma attr_shape_ok: "pred_option (\<lambda>t. type_ok t \<and> t \<noteq> TAny) (attr_shape inner key)"
  by (simp add: attr_shape_def concrete_shape_ok split: option.splits)

lemma build_symbol_Some:
  "build_symbol name kind sp uri rope nr det dc = Some (Some s) \<Longrightarrow>
     loc_uri (sym_location s) = uri \<and> sym_kind s = kind \<and> sym_name s = name \<and> name_range s = nr"
  by (auto simp: build_symbol_def bind_eq_Some_conv location_new_def)

lemma labeled_symbol_Some:
  "labeled_symbol sp labels inner uri rope kind = Some (Some (s, name)) \<Longrightarrow>
     loc_uri (sym_location s) = uri \<and> sym_kind s = kind \<and> sym_name s = name"
  by (auto simp: labeled_symbol_def bind_eq_Some_conv dest: build_symbol_Some split: list.splits option.splits)

lemma two_labeled_symbol_Some:
  assumes "two_labeled_symbol sp labels uri rope kind = Some (Some (s, addr))"
  shows "loc_uri (sym_location s) = uri \<and> sym_kind s = kind \<and> sym_name s = rname addr"
proof -
  obtain n r det where "build_symbol n kind sp uri rope r det None = Some (Some s)" "rname addr = n"
    using assms by (auto simp: two_labeled_symbol_def bind_eq_Some_conv split: list.splits option.splits)
  with build_symbol_Some show ?thesis by metis
qed

lemma with_symbol_Some:
  "with_symbol found ins t = Some t' \<Longrightarrow> found = Some None \<and> t' = t \<or> (\<exists>x. found = Some (Some x) \<and> t' = ins x t)"
  by (auto simp: with_symbol_def split: option.splits)


lemma extract_local_ok:
  assumes "table_ok uri t" "extract_local uri rope t item = Some t'"
  shows "table_ok uri t'"
proof (cases item)
  case (Attribute key e sv sa)
  obtain name ks where key: "key = (name, ks)" by (cases key)
  from assms(2) consider "t' = t" | lr r where "t' = t\<lparr>local_shapes := insert_opt name (concrete_shape e) (local_shapes t),
      locals := hm_insert name \<lparr>sym_name = name, sym_kind = Local, sym_location = location_new uri lr,
        name_range = r, detail = None, doc = None\<rparr> (locals t)\<rparr>"
    by (auto simp: extract_local_def Attribute key bind_eq_Some_conv split: option.splits)
  then show ?thesis
  proof cases
    case 2
    then show ?thesis
      using assms(1)
      by (simp add: table_ok_def location_new_def keyed_insert within_insert concrete_shape_ok)
  qed (use assms(1) in simp)
qed (use assms in \<open>simp add: extract_local_def\<close>)

lemma declared_type_ok: "pred_option type_ok (map_option parse_type_expr te)"
  by (cases te) (auto simp: parse_type_expr_ok)

lemma insert_variable_ok:
  "table_ok uri t \<Longrightarrow> loc_uri (sym_location s) = uri \<and> sym_kind s = Variable \<and> sym_name s = name \<Longrightarrow>
   table_ok uri (t\<lparr>variable_types := insert_opt name (map_option parse_type_expr (find_attr_expr inner ''type'')) (variable_types t),
      variable_defaults := insert_opt name (attr_shape inner ''default'') (variable_defaults t),
      variables := hm_insert name s (variables t)\<rparr>)"
  unfolding table_ok_def by (simp add: keyed_insert within_insert attr_shape_ok declared_type_ok option.pred_True)

lemma insert_output_ok:
  "table_ok uri t \<Longrightarrow> loc_uri (sym_location s) = uri \<and> sym_kind s = Output \<and> sym_name s = name \<Longrightarrow>
   table_ok uri (t\<lparr>outputs := hm_insert name s (outputs t)\<rparr>)"
  unfolding table_ok_def by (simp add: keyed_insert within_insert attr_shape_ok declared_type_ok option.pred_True)

lemma insert_module_ok:
  "table_ok uri t \<Longrightarrow> loc_uri (sym_location s) = uri \<and> sym_kind s = Module \<and> sym_name s = name \<Longrightarrow>
   table_ok uri (t\<lparr>module_sources := insert_opt name (string_attribute inner ''source'') (module_sources t),
      module_for_each_shapes := insert_opt name (attr_shape inner ''for_each'') (module_for_each_shapes t),
      modules := hm_insert name s (modules t)\<rparr>)"
  unfolding table_ok_def by (simp add: keyed_insert within_insert attr_shape_ok declared_type_ok option.pred_True)

lemma insert_provider_ok:
  "table_ok uri t \<Longrightarrow> loc_uri (sym_location s) = uri \<and> sym_kind s = Provider \<and> sym_name s = name \<Longrightarrow>
   table_ok uri (t\<lparr>providers := hm_insert name s (providers t)\<rparr>)"
  unfolding table_ok_def by (simp add: keyed_insert within_insert attr_shape_ok declared_type_ok option.pred_True)

lemma insert_resource_ok:
  "table_ok uri t \<Longrightarrow> loc_uri (sym_location s) = uri \<and> sym_kind s = Resource \<and> sym_name s = rname addr \<Longrightarrow>
   table_ok uri (t\<lparr>for_each_shapes := insert_opt addr (attr_shape inner ''for_each'') (for_each_shapes t),
      resources := hm_insert addr s (resources t)\<rparr>)"
  unfolding table_ok_def by (simp add: keyed_insert within_insert attr_shape_ok declared_type_ok option.pred_True)

lemma insert_data_ok:
  "table_ok uri t \<Longrightarrow> loc_uri (sym_location s) = uri \<and> sym_kind s = DataSource \<and> sym_name s = rname addr \<Longrightarrow>
   table_ok uri (t\<lparr>data_source_for_each_shapes := insert_opt addr (attr_shape inner ''for_each'') (data_source_for_each_shapes t),
      data_sources := hm_insert addr s (data_sources t)\<rparr>)"
  unfolding table_ok_def by (simp add: keyed_insert within_insert attr_shape_ok declared_type_ok option.pred_True)

lemma extract_terraform_ok:
  assumes "table_ok uri t" "extract_terraform sp ks uri rope t = Some t'"
  shows "table_ok uri t'"
proof -
  obtain nr where nr: "opt_span_range rope ks = Some nr"
    using assms(2) by (cases "opt_span_range rope ks") (simp_all add: extract_terraform_def)
  show ?thesis
  proof (cases nr)
    case (Some r)
    note step = assms(2) [unfolded extract_terraform_def nr Some bind.bind_lunit option.case]
    from with_symbol_Some [OF step] show ?thesis
    proof (elim disjE exE conjE)
      fix s
      assume "build_symbol ''terraform'' TerraformBlock sp uri rope r None None = Some (Some s)"
        and t': "t' = (if hm_get (providers t) ''_terraform'' = None
          then t\<lparr>providers := hm_insert ''_terraform'' s (providers t)\<rparr> else t)"
      from build_symbol_Some [OF this(1)] assms(1) show ?thesis
        by (simp add: t' table_ok_def keyed_insert)
    qed (use assms(1) in simp)
  qed (use assms nr in \<open>simp add: extract_terraform_def\<close>)
qed

lemma extract_block_ok:
  assumes "table_ok uri t" "extract_block uri rope t item = Some t'"
  shows "table_ok uri t'"
proof (cases item)
  case (Block sp ident labels inner)
  obtain kw ks where ident: "ident = (kw, ks)" by (cases ident)
  note b = assms(2) [unfolded extract_block_def Block ident body_item.case prod.case]
  have found: "table_ok uri t'"
    if "with_symbol found (\<lambda>(s, n) t. ins s n t) t = Some t'"
      "\<And>s n. found = Some (Some (s, n)) \<Longrightarrow> table_ok uri (ins s n t)" for found ins
    using with_symbol_Some [OF that(1)] that(2) assms(1) by (auto split: prod.splits)
  consider "kw = ''variable''" | "kw = ''output''" | "kw = ''module''" | "kw = ''provider''"
    | "kw = ''resource''" | "kw = ''data''" | "kw = ''locals''" | "kw = ''terraform''"
    | "kw \<noteq> ''variable''" "kw \<noteq> ''output''" "kw \<noteq> ''module''" "kw \<noteq> ''provider''" "kw \<noteq> ''resource''" "kw \<noteq> ''data''" "kw \<noteq> ''locals''" "kw \<noteq> ''terraform''"
    by argo
  then show ?thesis
  proof cases
    case 1
    with b have "with_symbol (labeled_symbol sp labels inner uri rope Variable) (\<lambda>(s, name) t.
      t\<lparr>variable_types := insert_opt name (map_option parse_type_expr (find_attr_expr inner ''type'')) (variable_types t),
      variable_defaults := insert_opt name (attr_shape inner ''default'') (variable_defaults t),
      variables := hm_insert name s (variables t)\<rparr>) t = Some t'" by simp
    note step = this
    show ?thesis
      by (rule found [OF step]) (rule insert_variable_ok [OF assms(1) labeled_symbol_Some])
  next
    case 2
    with b have "with_symbol (labeled_symbol sp labels inner uri rope Output) (\<lambda>(s, name) t.
      t\<lparr>outputs := hm_insert name s (outputs t)\<rparr>) t = Some t'" by simp
    note step = this
    show ?thesis
      by (rule found [OF step]) (rule insert_output_ok [OF assms(1) labeled_symbol_Some])
  next
    case 3
    with b have "with_symbol (labeled_symbol sp labels inner uri rope Module) (\<lambda>(s, name) t.
      t\<lparr>module_sources := insert_opt name (string_attribute inner ''source'') (module_sources t),
      module_for_each_shapes := insert_opt name (attr_shape inner ''for_each'') (module_for_each_shapes t),
      modules := hm_insert name s (modules t)\<rparr>) t = Some t'" by simp
    note step = this
    show ?thesis
      by (rule found [OF step]) (rule insert_module_ok [OF assms(1) labeled_symbol_Some])
  next
    case 4
    with b have "with_symbol (labeled_symbol sp labels inner uri rope Provider) (\<lambda>(s, name) t.
      t\<lparr>providers := hm_insert name s (providers t)\<rparr>) t = Some t'" by simp
    note step = this
    show ?thesis
      by (rule found [OF step]) (rule insert_provider_ok [OF assms(1) labeled_symbol_Some])
  next
    case 5
    with b have "with_symbol (two_labeled_symbol sp labels uri rope Resource) (\<lambda>(s, addr) t.
      t\<lparr>for_each_shapes := insert_opt addr (attr_shape inner ''for_each'') (for_each_shapes t),
      resources := hm_insert addr s (resources t)\<rparr>) t = Some t'" by simp
    note step = this
    show ?thesis
      by (rule found [OF step]) (rule insert_resource_ok [OF assms(1) two_labeled_symbol_Some])
  next
    case 6
    with b have "with_symbol (two_labeled_symbol sp labels uri rope DataSource) (\<lambda>(s, addr) t.
      t\<lparr>data_source_for_each_shapes := insert_opt addr (attr_shape inner ''for_each'') (data_source_for_each_shapes t),
      data_sources := hm_insert addr s (data_sources t)\<rparr>) t = Some t'" by simp
    note step = this
    show ?thesis
      by (rule found [OF step]) (rule insert_data_ok [OF assms(1) two_labeled_symbol_Some])
  next
    case 7
    with b have "fold_may (extract_local uri rope) t inner = Some t'"
      by (simp add: extract_locals_def)
    then show ?thesis
      by (rule fold_may_invariant [where P = "table_ok uri"]) (use assms(1) extract_local_ok in blast)+
  next
    case 8
    with b have "extract_terraform sp ks uri rope t = Some t'" by simp
    with assms(1) show ?thesis by (rule extract_terraform_ok)
  next
    case 9
    with b assms(1) show ?thesis by simp
  qed
qed (use assms in \<open>simp add: extract_block_def\<close>)

lemma extract_symbols_ok:
  assumes "extract_symbols b uri rope = Some t"
  shows "table_ok uri t"
  using assms unfolding extract_symbols_def
  by (rule fold_may_invariant [where P = "table_ok uri"]) (use empty_table_ok extract_block_ok in blast)+


text \<open>
  C40. The symbol table extracted from a document is well formed: every symbol carries the document's own
  URI, sits in the map of its kind under its own name, and every type, source and shape recorded on
  the side belongs to a declaration of the same table and is itself well formed.
\<close>

theorem extract_symbols_well_formed:
  assumes "extract_symbols b uri rope = Some t"
  shows "table_ok uri t"
  by (rule extract_symbols_ok [OF assms])

definition variable_decl :: "string \<Rightarrow> rope \<Rightarrow> body_item \<Rightarrow> (string \<times> symbol) option" where
  "variable_decl uri rope item =
     (case item of
        Block sp (kw, _) labels inner \<Rightarrow>
          if kw = ''variable'' then
            (case labeled_symbol sp labels inner uri rope Variable of
               Some (Some (s, n)) \<Rightarrow> Some (n, s) | _ \<Rightarrow> None)
          else None
      | Attribute _ _ _ _ \<Rightarrow> None)"

lemma extract_local_variables: "extract_local uri rope t item = Some t' \<Longrightarrow> variables t' = variables t"
  by (auto simp: extract_local_def bind_eq_Some_conv split: body_item.splits option.splits prod.splits)

lemma with_symbol_keeps:
  "with_symbol found ins t = Some t' \<Longrightarrow> (\<And>x. variables (ins x t) = variables t) \<Longrightarrow> variables t' = variables t"
  by (auto dest!: with_symbol_Some)

lemma extract_terraform_variables: "extract_terraform sp ks uri rope t = Some t' \<Longrightarrow> variables t' = variables t"
  by (auto simp: extract_terraform_def bind_eq_Some_conv split: option.splits elim!: with_symbol_keeps)

lemma extract_block_variables:
  assumes "extract_block uri rope t item = Some t'"
  shows "variables t' = (case variable_decl uri rope item of None \<Rightarrow> variables t | Some (n, s) \<Rightarrow> hm_insert n s (variables t))"
proof (cases item)
  case (Block sp ident labels inner)
  obtain kw ks where ident: "ident = (kw, ks)" by (cases ident)
  note b = assms [unfolded extract_block_def Block ident body_item.case prod.case]
  have locals: "variables t' = variables t" if "extract_locals inner uri rope t = Some t'"
    using fold_may_invariant [OF that [unfolded extract_locals_def], where P = "\<lambda>s. variables s = variables t"]
      extract_local_variables by simp
  note keeps = with_symbol_keeps [where t = t and t' = t'] locals extract_terraform_variables [where t' = t']
  show ?thesis
  proof (cases "kw = ''variable''")
    case True
    from with_symbol_Some [OF b [unfolded if_P [OF True]]] show ?thesis
      by (auto simp: Block ident variable_decl_def True)
  next
    case False
    from b [unfolded if_not_P [OF False]] have "variables t' = variables t"
      by (auto split: if_split_asm elim!: keeps)
    with False show ?thesis by (simp add: Block ident variable_decl_def)
  qed
qed (use assms in \<open>simp add: extract_block_def variable_decl_def\<close>)

text \<open>
  The variables of a document are the readable \<open>variable\<close> blocks at the top level, the last
  declaration of a name winning; no block of another kind hides or drops one.
\<close>

theorem variables_last_declaration:
  assumes "extract_symbols b uri rope = Some t"
  shows "hm_get (variables t) = map_of (rev (List.map_filter (variable_decl uri rope) b))"
proof -
  have "hm_get (variables t') = hm_get (variables t) ++ map_of (rev (List.map_filter (variable_decl uri rope) b))"
    if "fold_may (extract_block uri rope) t b = Some t'" for t t'
    using that
  proof (induction b arbitrary: t)
    case (Cons i b)
    then obtain t1 where "extract_block uri rope t i = Some t1" "fold_may (extract_block uri rope) t1 b = Some t'"
      by (auto simp: bind_eq_Some_conv)
    with Cons.IH [of t1] extract_block_variables [of uri rope t i t1] show ?case
      by (auto simp: List.map_filter_def hm_get_insert map_add_def fun_eq_iff split: option.splits)
  qed (simp add: List.map_filter_def)
  moreover have "hm_get (variables empty_table) = Map.empty"
    by (simp add: empty_table_def hm_get_def fun_eq_iff)
  ultimately show ?thesis
    using assms by (metis extract_symbols_def empty_map_add)
qed

definition sample_module :: body where
  "sample_module =
     [Block (Some (0, 1)) (''variable'', Some (0, 1)) [(''a'', Some (1, 2))] [],
      Block (Some (0, 1)) (''output'', Some (0, 1)) [(''a'', Some (1, 2))] [],
      Block (Some (2, 3)) (''variable'', Some (0, 1)) [(''a'', Some (0, 1))] []]"

lemma sample_module_symbols:
  "\<exists>t. extract_symbols sample_module ''u'' [97, 98, 99] = Some t"
  by (simp add: sample_module_def extract_symbols_def extract_block_def labeled_symbol_def label_range_def
      build_symbol_def span_eval with_symbol_def Let_def)

lemma extract_symbols_well_formed_witness:
  "table_ok ''u'' (the (extract_symbols sample_module ''u'' [97, 98, 99]))"
proof -
  obtain t where t: "extract_symbols sample_module ''u'' [97, 98, 99] = Some t"
    using sample_module_symbols by blast
  from extract_symbols_well_formed [OF t] show ?thesis by (simp add: t)
qed

lemma variables_last_declaration_witness:
  "map_option (start_character \<circ> sym_location)
     (hm_get (variables (the (extract_symbols sample_module ''u'' [97, 98, 99]))) ''a'') = Some 2"
proof -
  obtain t where t: "extract_symbols sample_module ''u'' [97, 98, 99] = Some t"
    using sample_module_symbols by blast
  from variables_last_declaration [OF t]
  have "map_option (start_character \<circ> sym_location) (hm_get (variables t) ''a'') = Some 2"
    by (simp add: sample_module_def variable_decl_def labeled_symbol_def label_range_def
      build_symbol_def span_eval Let_def List.map_filter_def)
  then show ?thesis by (simp only: t option.sel)
qed

end
