(* ===== verification/Fallback.thy ===== *)
theory Fallback
  imports Symbols
begin

text \<open>
  \<^verbatim>\<open>crates/tfls-parser/src/fallback_symbols.rs\<close> and
  \<^verbatim>\<open>crates/tfls-parser/src/fallback_references.rs\<close>: the scanners that read declarations and
  references off the bytes of a file that does not parse. Each outer loop is a step function
  (one iteration: the next state and index) and a loop that ends because every step advances.
  A slice or a span conversion off a character boundary panics; \<open>fallback_never_panics\<close> shows that
  none does.
\<close>

section \<open>Reading bytes\<close>

definition byte_at :: "string \<Rightarrow> nat \<Rightarrow> char option" where
  [rust_eval]: "byte_at s i = (if i < length s then Some (s ! i) else None)"

text \<open>\<open>while i < bytes.len() && P(bytes[i]) { i += 1 }\<close>.\<close>

definition skip_while :: "(char \<Rightarrow> bool) \<Rightarrow> string \<Rightarrow> nat \<Rightarrow> nat" where
  [rust_eval]: "skip_while P s i = i + length (takeWhile P (drop i s))"

definition is_ident_start :: "char \<Rightarrow> bool" where
  [rust_eval]: "is_ident_start c \<longleftrightarrow> is_ascii_alphabetic c \<or> c = CHR ''_''"

definition is_ident_continue :: "char \<Rightarrow> bool" where
  [rust_eval]: "is_ident_continue c \<longleftrightarrow> is_ascii_alphanumeric c \<or> c = CHR ''_'' \<or> c = CHR ''-''"

definition is_keyword_byte :: "char \<Rightarrow> bool" where
  [rust_eval]: "is_keyword_byte c \<longleftrightarrow> is_ascii_alphanumeric c \<or> c = CHR ''_''"

definition is_blank :: "char \<Rightarrow> bool" where
  [rust_eval]: "is_blank c \<longleftrightarrow> c = CHR '' '' \<or> c = CHR 0x09"

text \<open>From inside a quoted label to its closing quote; a backslash skips the byte after it.\<close>

function closing_quote :: "string \<Rightarrow> nat \<Rightarrow> nat option" where
  "closing_quote s i =
     (if i \<ge> length s then None
      else if s ! i = CHR 0x5C \<and> i + 1 < length s then closing_quote s (i + 2)
      else if s ! i = CHR 0x22 then Some i
      else closing_quote s (i + 1))"
  by pat_completeness auto
termination by (relation "measure (\<lambda>(s, i). length s - i)") auto

declare closing_quote.simps [simp del]

definition read_first_label :: "string \<Rightarrow> nat \<Rightarrow> (string \<times> span) option may_panic" where
  "read_first_label s from =
     (let i = skip_while is_blank s from in
      if byte_at s i \<noteq> Some (CHR 0x22) then Some None
      else (case closing_quote s (i + 1) of
          None \<Rightarrow> Some None
        | Some e \<Rightarrow> do { name \<leftarrow> str_slice s (i + 1) e; Some (Some (name, (i + 1, e))) }))"

definition skip_first_label :: "string \<Rightarrow> nat \<Rightarrow> nat" where
  "skip_first_label s from =
     (let i = skip_while is_blank s from in
      if byte_at s i \<noteq> Some (CHR 0x22) then from
      else (case closing_quote s (i + 1) of None \<Rightarrow> from | Some e \<Rightarrow> e + 1))"

section \<open>Declarations\<close>

definition byte_to_lsp :: "rope \<Rightarrow> nat \<Rightarrow> lsp_position may_panic" where
  "byte_to_lsp rope b = do {
     p \<leftarrow> byte_offset_to_lsp_position rope (min b (len_bytes rope));
     Some (case p of Inl _ \<Rightarrow> \<lparr>pos_line = 0, pos_character = 0\<rparr>
       | Inr (l, c) \<Rightarrow> \<lparr>pos_line = l, pos_character = c\<rparr>)
   }"

definition span_to_range :: "rope \<Rightarrow> span \<Rightarrow> lsp_range may_panic" where
  "span_to_range rope sp = do {
     a \<leftarrow> byte_to_lsp rope (fst sp);
     b \<leftarrow> byte_to_lsp rope (snd sp);
     Some \<lparr>range_start = a, range_end = b\<rparr>
   }"

definition fallback_symbol :: "symbol_kind \<Rightarrow> string \<Rightarrow> string \<Rightarrow> rope \<Rightarrow> span \<Rightarrow> symbol may_panic" where
  "fallback_symbol kind name uri rope sp = do {
     r \<leftarrow> span_to_range rope sp;
     Some \<lparr>sym_name = name, sym_kind = kind, sym_location = location_new uri r, name_range = r,
       detail = None, doc = None\<rparr>
   }"

record scan =
  sc_depth :: int
  in_string :: bool
  in_line_comment :: bool
  in_block_comment :: bool

record locals_scan = scan +
  at_key :: bool

text \<open>One iteration of the loop of \<open>scan_locals_body\<close>, at a byte inside the file.\<close>

definition locals_step ::
    "string \<Rightarrow> string \<Rightarrow> rope \<Rightarrow> locals_scan \<times> symbol_table \<Rightarrow> nat
      \<Rightarrow> ((locals_scan \<times> symbol_table) \<times> nat) may_panic" where
  "locals_step src uri rope = (\<lambda>(st, table) i.
     let b = src ! i; next = byte_at src (i + 1) in
     if in_block_comment st then
       (if b = CHR ''*'' \<and> next = Some (CHR ''/'')
        then Some ((st\<lparr>in_block_comment := False\<rparr>, table), i + 2) else Some ((st, table), i + 1))
     else if in_line_comment st then
       Some ((if b = CHR 0x0A then st\<lparr>in_line_comment := False, at_key := True\<rparr> else st, table), i + 1)
     else if in_string st then
       (if b = CHR 0x5C \<and> next \<noteq> None then Some ((st, table), i + 2)
        else Some ((if b = CHR 0x22 then st\<lparr>in_string := False\<rparr> else st, table), i + 1))
     else if b \<in> {CHR 0x7B, CHR ''['', CHR ''(''} then
       Some ((st\<lparr>sc_depth := sc_depth st + 1, at_key := False\<rparr>, table), i + 1)
     else if b \<in> {CHR 0x7D, CHR '']'', CHR '')''} then
       Some ((st\<lparr>sc_depth := sc_depth st - 1\<rparr>, table), i + 1)
     else if b = CHR 0x22 then Some ((st\<lparr>in_string := True\<rparr>, table), i + 1)
     else if b = CHR ''#'' then Some ((st\<lparr>in_line_comment := True\<rparr>, table), i + 1)
     else if b = CHR ''/'' \<and> next = Some (CHR ''*'') then
       Some ((st\<lparr>in_block_comment := True\<rparr>, table), i + 2)
     else if b = CHR ''/'' \<and> next = Some (CHR ''/'') then
       Some ((st\<lparr>in_line_comment := True\<rparr>, table), i + 2)
     else if (b = CHR 0x0A \<or> b = CHR '','') \<and> sc_depth st = 1 then
       Some ((st\<lparr>at_key := True\<rparr>, table), i + 1)
     else if sc_depth st = 1 \<and> at_key st \<and> is_ident_start b then do {
       let e = skip_while is_ident_continue src i;
       name \<leftarrow> str_slice src i e;
       let j = skip_while is_blank src e;
       (if byte_at src j = Some (CHR ''='') then do {
          s \<leftarrow> fallback_symbol Local name uri rope (i, e);
          Some ((st\<lparr>at_key := False\<rparr>, table\<lparr>locals := hm_insert name s (locals table)\<rparr>), j) }
        else Some ((st\<lparr>at_key := False\<rparr>, table), j)) }
     else if b \<in> {CHR '' '', CHR 0x09, CHR 0x0D} then Some ((st, table), i + 1)
     else Some ((st\<lparr>at_key := False\<rparr>, table), i + 1))"


text \<open>
  The loops: a state and an index, run while the index is inside the file and \<open>go\<close> holds of the
  state. \<open>None\<close> is a panic, or a loop that never ends.
\<close>

partial_function (option) scan_loop ::
    "('s \<Rightarrow> bool) \<Rightarrow> ('s \<Rightarrow> nat \<Rightarrow> ('s \<times> nat) option) \<Rightarrow> nat \<Rightarrow> 's \<Rightarrow> nat \<Rightarrow> 's option" where
  "scan_loop go step n s i =
     (if n \<le> i \<or> \<not> go s then Some s
      else Option.bind (step s i) (\<lambda>sj. scan_loop go step n (fst sj) (snd sj)))"

declare scan_loop.simps [code]

definition scan_locals_body :: "string \<Rightarrow> nat \<Rightarrow> string \<Rightarrow> rope \<Rightarrow> symbol_table \<Rightarrow> symbol_table may_panic" where
  "scan_locals_body src from uri rope table =
     map_option snd (scan_loop (\<lambda>(st, _). sc_depth st > 0) (locals_step src uri rope) (length src)
       (\<lparr>sc_depth = 1, in_string = False, in_line_comment = False, in_block_comment = False, at_key = True\<rparr>, table)
       from)"

text \<open>What the match on the keyword just read, ending at \<open>i\<close>, does to the table.\<close>

definition fallback_labeled ::
    "string \<Rightarrow> nat \<Rightarrow> string \<Rightarrow> rope \<Rightarrow> symbol_kind \<Rightarrow> (string \<Rightarrow> symbol \<Rightarrow> symbol_table \<Rightarrow> symbol_table)
      \<Rightarrow> symbol_table \<Rightarrow> symbol_table may_panic" where
  "fallback_labeled src i uri rope kind ins table = do {
     l \<leftarrow> read_first_label src i;
     (case l of
        None \<Rightarrow> Some table
      | Some (name, sp) \<Rightarrow> do { s \<leftarrow> fallback_symbol kind name uri rope sp; Some (ins name s table) })
   }"

definition fallback_two_labeled ::
    "string \<Rightarrow> nat \<Rightarrow> string \<Rightarrow> rope \<Rightarrow> symbol_kind \<Rightarrow> (resource_address \<Rightarrow> symbol \<Rightarrow> symbol_table \<Rightarrow> symbol_table)
      \<Rightarrow> symbol_table \<Rightarrow> symbol_table may_panic" where
  "fallback_two_labeled src i uri rope kind ins table = do {
     l \<leftarrow> read_first_label src i;
     (case l of
        None \<Rightarrow> Some table
      | Some (type_name, _) \<Rightarrow> do {
          m \<leftarrow> read_first_label src (skip_first_label src i);
          (case m of
             None \<Rightarrow> Some table
           | Some (name, sp) \<Rightarrow> do {
               s \<leftarrow> fallback_symbol kind name uri rope sp;
               Some (ins \<lparr>resource_type = type_name, rname = name\<rparr> s table) }) })
   }"

definition declare_keyword ::
    "string \<Rightarrow> string \<Rightarrow> nat \<Rightarrow> string \<Rightarrow> rope \<Rightarrow> symbol_table \<Rightarrow> symbol_table may_panic" where
  "declare_keyword src kw i uri rope table =
     (if kw = ''variable'' then
        fallback_labeled src i uri rope Variable (\<lambda>n s t. t\<lparr>variables := hm_insert n s (variables t)\<rparr>) table
      else if kw = ''output'' then
        fallback_labeled src i uri rope Output (\<lambda>n s t. t\<lparr>outputs := hm_insert n s (outputs t)\<rparr>) table
      else if kw = ''module'' then
        fallback_labeled src i uri rope Module (\<lambda>n s t. t\<lparr>modules := hm_insert n s (modules t)\<rparr>) table
      else if kw = ''provider'' then
        fallback_labeled src i uri rope Provider (\<lambda>n s t. t\<lparr>providers := hm_insert n s (providers t)\<rparr>) table
      else if kw = ''data'' then
        fallback_two_labeled src i uri rope DataSource (\<lambda>a s t. t\<lparr>data_sources := hm_insert a s (data_sources t)\<rparr>) table
      else if kw = ''resource'' then
        fallback_two_labeled src i uri rope Resource (\<lambda>a s t. t\<lparr>resources := hm_insert a s (resources t)\<rparr>) table
      else if kw = ''locals'' then
        (let j = skip_while (\<lambda>c. c \<noteq> CHR 0x7B) src i in
         if j < length src then scan_locals_body src (j + 1) uri rope table else Some table)
      else Some table)"

definition symbols_step ::
    "string \<Rightarrow> string \<Rightarrow> rope \<Rightarrow> scan \<times> symbol_table \<Rightarrow> nat \<Rightarrow> ((scan \<times> symbol_table) \<times> nat) may_panic" where
  "symbols_step src uri rope = (\<lambda>(st, table) i.
     let b = src ! i; next = byte_at src (i + 1) in
     if in_line_comment st then
       Some ((if b = CHR 0x0A then st\<lparr>in_line_comment := False\<rparr> else st, table), i + 1)
     else if in_block_comment st then
       (if b = CHR ''*'' \<and> next = Some (CHR ''/'')
        then Some ((st\<lparr>in_block_comment := False\<rparr>, table), i + 2) else Some ((st, table), i + 1))
     else if in_string st then
       (if b = CHR 0x5C \<and> next \<noteq> None then Some ((st, table), i + 2)
        else Some ((if b = CHR 0x22 then st\<lparr>in_string := False\<rparr> else st, table), i + 1))
     else if b = CHR 0x22 then Some ((st\<lparr>in_string := True\<rparr>, table), i + 1)
     else if b = CHR ''#'' then Some ((st\<lparr>in_line_comment := True\<rparr>, table), i + 1)
     else if b = CHR ''/'' \<and> next = Some (CHR ''/'') then
       Some ((st\<lparr>in_line_comment := True\<rparr>, table), i + 2)
     else if b = CHR ''/'' \<and> next = Some (CHR ''*'') then
       Some ((st\<lparr>in_block_comment := True\<rparr>, table), i + 2)
     else if b = CHR 0x7B then Some ((st\<lparr>sc_depth := sc_depth st + 1\<rparr>, table), i + 1)
     else if b = CHR 0x7D then Some ((st\<lparr>sc_depth := max (sc_depth st - 1) 0\<rparr>, table), i + 1)
     else if sc_depth st = 0 \<and> is_ident_start b then do {
       let e = skip_while is_keyword_byte src i;
       keyword \<leftarrow> str_slice src i e;
       table' \<leftarrow> declare_keyword src keyword e uri rope table;
       Some ((st, table'), e) }
     else Some ((st, table), i + 1))"

definition extract_symbols_fallback :: "string \<Rightarrow> string \<Rightarrow> rope \<Rightarrow> symbol_table may_panic" where
  "extract_symbols_fallback src uri rope =
     map_option snd (scan_loop (\<lambda>_. True) (symbols_step src uri rope) (length src)
       (\<lparr>sc_depth = 0, in_string = False, in_line_comment = False, in_block_comment = False\<rparr>, empty_table) 0)"

section \<open>References\<close>

definition is_resource_type_heuristic :: "string \<Rightarrow> bool" where
  [rust_eval]: "is_resource_type_heuristic s \<longleftrightarrow>
     CHR ''_'' \<in> set s \<and> (case s of c # _ \<Rightarrow> is_ident_start c | [] \<Rightarrow> False)"

definition range_from_bytes :: "rope \<Rightarrow> nat \<Rightarrow> nat \<Rightarrow> lsp_range option may_panic" where
  "range_from_bytes rope a b = span_range rope (a, b)"

text \<open>\<open>seg(idx)\<close>: the text of a segment, if there is one.\<close>

definition seg_text :: "string \<Rightarrow> span list \<Rightarrow> nat \<Rightarrow> string option may_panic" where
  "seg_text src segs k =
     (if k < length segs then map_option Some (str_slice src (fst (segs ! k)) (snd (segs ! k))) else Some None)"

definition fallback_classify :: "string \<Rightarrow> span list \<Rightarrow> string \<Rightarrow> reference_kind option may_panic" where
  "fallback_classify first segs src =
     (if first = ''var'' then map_option (map_option RefVariable) (seg_text src segs 0)
      else if first = ''local'' then map_option (map_option RefLocal) (seg_text src segs 0)
      else if first = ''module'' then map_option (map_option RefModule) (seg_text src segs 0)
      else if first = ''data'' then do {
        ty \<leftarrow> seg_text src segs 0;
        (case ty of
           None \<Rightarrow> Some None
         | Some t \<Rightarrow> map_option (map_option (RefDataSource t)) (seg_text src segs 1)) }
      else if first \<in> {''path'', ''terraform'', ''each'', ''count'', ''self''} then Some None
      else if is_resource_type_heuristic first then
        map_option (map_option (RefResource first)) (seg_text src segs 0)
      else Some None)"

text \<open>
  The \<open>.a.b\<close> segments from index \<open>i\<close> on, and the index the scan goes on from: after a dot that no
  identifier follows, that is past the dot.
\<close>

function read_segments :: "string \<Rightarrow> nat \<Rightarrow> span list \<times> nat" where
  "read_segments s i =
     (if byte_at s i \<noteq> Some (CHR ''.'') then ([], i)
      else (let e = skip_while is_ident_continue s (i + 1) in
        if e = i + 1 then ([], e)
        else (case read_segments s e of (segs, j) \<Rightarrow> ((i + 1, e) # segs, j))))"
  by pat_completeness auto
termination
  by (relation "measure (\<lambda>(s, i). length s - i)") (auto simp: byte_at_def skip_while_def split: if_splits)

declare read_segments.simps [simp del]

record ref_scan =
  rs_string :: bool
  rs_line :: bool
  rs_block :: bool
  interp_depth :: nat
  nested_string :: bool

definition references_step ::
    "string \<Rightarrow> string \<Rightarrow> rope \<Rightarrow> ref_scan \<times> reference list \<Rightarrow> nat
      \<Rightarrow> ((ref_scan \<times> reference list) \<times> nat) may_panic" where
  "references_step src uri rope = (\<lambda>(st, acc) i.
     let b = src ! i; next = byte_at src (i + 1) in
     if rs_line st then
       Some ((if b = CHR 0x0A then st\<lparr>rs_line := False\<rparr> else st, acc), i + 1)
     else if rs_block st then
       (if b = CHR ''*'' \<and> next = Some (CHR ''/'')
        then Some ((st\<lparr>rs_block := False\<rparr>, acc), i + 2) else Some ((st, acc), i + 1))
     else if rs_string st \<and> interp_depth st = 0 then
       (if b = CHR 0x5C \<and> next \<noteq> None then Some ((st, acc), i + 2)
        else if b = CHR 0x22 then Some ((st\<lparr>rs_string := False\<rparr>, acc), i + 1)
        else if b = CHR ''$'' \<and> next = Some (CHR 0x7B) then Some ((st\<lparr>interp_depth := 1\<rparr>, acc), i + 2)
        else Some ((st, acc), i + 1))
     else if interp_depth st > 0 \<and> nested_string st then
       (if b = CHR 0x5C \<and> next \<noteq> None then Some ((st, acc), i + 2)
        else Some ((if b = CHR 0x22 then st\<lparr>nested_string := False\<rparr> else st, acc), i + 1))
     else if interp_depth st > 0 \<and> b = CHR 0x22 then Some ((st\<lparr>nested_string := True\<rparr>, acc), i + 1)
     else if interp_depth st > 0 \<and> b = CHR 0x7B then
       Some ((st\<lparr>interp_depth := interp_depth st + 1\<rparr>, acc), i + 1)
     else if interp_depth st > 0 \<and> b = CHR 0x7D then
       Some ((st\<lparr>interp_depth := interp_depth st - 1\<rparr>, acc), i + 1)
     else if b = CHR 0x22 \<and> \<not> rs_string st then Some ((st\<lparr>rs_string := True\<rparr>, acc), i + 1)
     else if b = CHR ''#'' then Some ((st\<lparr>rs_line := True\<rparr>, acc), i + 1)
     else if b = CHR ''/'' \<and> next = Some (CHR ''/'') then Some ((st\<lparr>rs_line := True\<rparr>, acc), i + 2)
     else if b = CHR ''/'' \<and> next = Some (CHR ''*'') then Some ((st\<lparr>rs_block := True\<rparr>, acc), i + 2)
     else if is_ident_start b then do {
       let e = skip_while is_ident_continue src i;
       first \<leftarrow> str_slice src i e;
       let (segs, j) = read_segments src e;
       kind \<leftarrow> fallback_classify first segs src;
       acc' \<leftarrow> (case kind of
           None \<Rightarrow> Some acc
         | Some k \<Rightarrow> do {
             r \<leftarrow> range_from_bytes rope i (if segs = [] then i else snd (last segs));
             Some (case r of None \<Rightarrow> acc
               | Some rg \<Rightarrow> acc @ [\<lparr>ref_kind = k, ref_location = location_new uri rg\<rparr>]) });
       Some ((st, acc'), j) }
     else Some ((st, acc), i + 1))"

definition extract_references_fallback :: "string \<Rightarrow> string \<Rightarrow> rope \<Rightarrow> reference list may_panic" where
  "extract_references_fallback src uri rope =
     map_option snd (scan_loop (\<lambda>_. True) (references_step src uri rope) (length src)
       (\<lparr>rs_string = False, rs_line = False, rs_block = False, interp_depth = 0, nested_string = False\<rparr>, []) 0)"


section \<open>No scan panics\<close>

lemma scan_loop_total:
  assumes "\<And>s i. i < n \<Longrightarrow> go s \<Longrightarrow> P s \<Longrightarrow> \<exists>s' j. step s i = Some (s', j) \<and> i < j \<and> P s'" "P s"
  shows "\<exists>s'. scan_loop go step n s i = Some s' \<and> P s'"
  using assms(2)
proof (induction "n - i" arbitrary: s i rule: less_induct)
  case less
  show ?case
  proof (cases "n \<le> i \<or> \<not> go s")
    case False
    then obtain s' j where "step s i = Some (s', j)" "i < j" "P s'"
      using assms(1) [of i s] less.prems by auto
    then show ?thesis using less.hyps [of j s'] False by (subst scan_loop.simps) auto
  qed (use less.prems in \<open>subst scan_loop.simps, auto\<close>)
qed

definition advances :: "nat \<Rightarrow> ('s \<Rightarrow> bool) \<Rightarrow> ('s \<times> nat) option \<Rightarrow> bool" where
  "advances i P r \<longleftrightarrow> (\<exists>s j. r = Some (s, j) \<and> i < j \<and> P s)"

lemma advances_Some [simp]: "advances i P (Some (s, j)) \<longleftrightarrow> i < j \<and> P s"
  by (simp add: advances_def)

lemma scan_loop_advances:
  assumes "\<And>s i. i < n \<Longrightarrow> P s \<Longrightarrow> advances i P (step s i)" "P s"
  shows "\<exists>s'. scan_loop go step n s i = Some s' \<and> P s'"
  by (rule scan_loop_total) (use assms in \<open>auto simp: advances_def\<close>)

text \<open>An offset both conversions accept.\<close>

definition good_offset :: "string \<Rightarrow> rope \<Rightarrow> nat \<Rightarrow> bool" where
  "good_offset src rope i \<longleftrightarrow> i \<le> length src \<and> is_char_boundary src i
     \<and> (\<exists>pos. byte_offset_to_lsp_position rope i = Some (Inr pos))"

lemma multi_byte_range:
  "two_byte a b = Some y \<Longrightarrow> 0x80 \<le> y \<and> y < 0x800"
  "three_byte a b c = Some y \<Longrightarrow> 0x800 \<le> y \<and> y < 0x10000"
  "four_byte a b c d = Some y \<Longrightarrow> 0x10000 \<le> y"
  by (auto simp: two_byte_def three_byte_def four_byte_def Let_def is_continuation_def split: if_splits)

lemma decode_len: "decode_char s = Some (y, n) \<Longrightarrow> utf8_len y = n"
  by (auto simp: decode_char_def utf8_len_def split: list.splits if_splits option.splits
      dest!: multi_byte_range)

lemma from_utf8_length: "from_utf8 s = Some r \<Longrightarrow> len_bytes r = length s"
proof (induction s arbitrary: r rule: from_utf8.induct)
  case (1 s)
  show ?case
  proof (cases "s = []")
    case False
    then obtain y n t where d: "decode_char s = Some (y, n)" "from_utf8 (drop n s) = Some t" "r = y # t"
      using "1.prems" by (subst (asm) from_utf8.simps) (auto split: option.splits)
    from "1.IH" [OF False d(1) refl d(2)] decode_len [OF d(1)] decode_pos [OF d(1)] d(3) show ?thesis by simp
  qed (use "1.prems" in simp)
qed

lemma from_utf8_lead: "from_utf8 (c # s) = Some r \<Longrightarrow> \<not> is_continuation c"
  by (subst (asm) from_utf8.simps)
    (auto simp: decode_char_def is_continuation_def two_byte_def three_byte_def four_byte_def Let_def
      split: if_splits option.splits list.splits)

lemma ascii_good:
  assumes "from_utf8 src = Some rope" "i < length src" "byte (src ! i) < 128"
  shows "good_offset src rope i" "good_offset src rope (i + 1)"
proof -
  define b p s where "b = src ! i" and "p = take i src" and "s = drop (Suc i) src"
  have src: "src = p @ b # s" and p: "length p = i"
    using assms(2) by (simp_all add: b_def p_def s_def id_take_nth_drop)
  have b: "byte b < 128" using assms(3) by (simp add: b_def)
  have decoded: "from_utf8 (p @ b # s) = Some rope" using assms(1) unfolding src .
  obtain r1 r2 where r: "from_utf8 p = Some r1" "from_utf8 s = Some r2"
    using from_utf8_split [of b p s rope] b decoded by auto
  have rope: "rope = r1 @ byte b # r2"
    using decoded from_utf8_append [OF r(1), of "b # s"] from_utf8_ascii [of b s] b r(2) by simp
  have i: "len_bytes r1 = i" "len_bytes (r1 @ [byte b]) = i + 1"
    using from_utf8_length [OF r(1)] p b by (simp_all add: utf8_len_def)
  show "good_offset src rope i"
    using offset_to_position [of r1 "byte b # r2"] assms(2,3)
    by (auto simp: good_offset_def i rope is_char_boundary_def is_continuation_def)
  have "is_char_boundary src (i + 1)"
  proof (cases s)
    case Nil
    then show ?thesis by (simp add: is_char_boundary_def src p)
  next
    case (Cons c t)
    with from_utf8_lead [of c t r2] r(2) show ?thesis
      by (simp add: is_char_boundary_def src p nth_append)
  qed
  moreover have "\<exists>pos. byte_offset_to_lsp_position rope (i + 1) = Some (Inr pos)"
    using offset_to_position [of "r1 @ [byte b]" r2] unfolding i(2) by (simp add: rope)
  ultimately show "good_offset src rope (i + 1)"
    using assms(2) by (simp add: good_offset_def)
qed

lemma good_slice:
  "good_offset src rope i \<Longrightarrow> good_offset src rope j \<Longrightarrow> i \<le> j \<Longrightarrow>
     str_slice src i j = Some (take (j - i) (drop i src))"
  by (simp add: good_offset_def str_slice_def)

lemma skip_while_stops: "skip_while P s i \<le> length s \<or> length s \<le> i"
  by (simp add: skip_while_def) (metis length_drop length_takeWhile_le le_diff_conv2 add.commute nat_le_linear)

lemma skip_while_ge: "i \<le> skip_while P s i"
  by (simp add: skip_while_def)

lemma skip_while_good:
  assumes "from_utf8 src = Some rope" "i < length src" "P (src ! i)" "\<And>c. P c \<Longrightarrow> byte c < 128"
  shows "i < skip_while P src i" "good_offset src rope (skip_while P src i)"
proof -
  let ?w = "takeWhile P (drop i src)"
  have "?w \<noteq> []" using assms(2,3) by (simp add: takeWhile_eq_Nil_iff hd_drop_conv_nth)
  then show lt: "i < skip_while P src i" by (simp add: skip_while_def)
  let ?k = "length ?w - 1"
  have "?k < length ?w" using \<open>?w \<noteq> []\<close> by simp
  then have k: "P (?w ! ?k)" "?w ! ?k = src ! (i + ?k)" "i + ?k < length src"
    using takeWhile_nth [of ?k P "drop i src"] set_takeWhileD [OF nth_mem [of ?k ?w]]
      length_takeWhile_le [of P "drop i src"] assms(2)
    by auto
  then have "byte (src ! (i + ?k)) < 128" using assms(4) by metis
  from ascii_good(2) [OF assms(1) k(3) this]
  have "good_offset src rope (i + ?k + 1)" .
  moreover have "i + ?k + 1 = skip_while P src i"
    using \<open>?k < length ?w\<close> by (simp add: skip_while_def)
  ultimately show "good_offset src rope (skip_while P src i)" by simp
qed

lemma ascii_classes:
  "is_ident_continue c \<Longrightarrow> byte c < 128" "is_keyword_byte c \<Longrightarrow> byte c < 128"
  "is_ident_start c \<Longrightarrow> is_ident_continue c" "is_ident_start c \<Longrightarrow> is_keyword_byte c"
  by (auto simp: rust_eval)

lemma closing_quote_Some: "closing_quote s i = Some e \<Longrightarrow> i \<le> e \<and> e < length s \<and> s ! e = CHR 0x22"
proof (induction s i rule: closing_quote.induct)
  case (1 s i)
  from "1.prems" show ?case
    by (subst (asm) closing_quote.simps) (use "1.IH" in \<open>fastforce split: if_splits\<close>)
qed

lemma read_first_label_total:
  assumes "from_utf8 src = Some rope"
  obtains "read_first_label src i = Some None"
  | name a b where "read_first_label src i = Some (Some (name, (a, b)))" "good_offset src rope a" "good_offset src rope b"
proof (cases "byte_at src (skip_while is_blank src i) = Some (CHR 0x22)")
  case True
  let ?i = "skip_while is_blank src i"
  have i: "?i < length src" "src ! ?i = CHR 0x22"
    using True by (auto simp: byte_at_def split: if_splits)
  note a = ascii_good(2) [OF assms i(1)]
  show ?thesis
  proof (cases "closing_quote src (?i + 1)")
    case None
    with True that(1) show ?thesis by (simp add: read_first_label_def)
  next
    case (Some e)
    note e = closing_quote_Some [OF Some]
    note b = ascii_good(1) [OF assms, of e]
    have q: "byte (CHR 0x22) < 128" by (simp add: byte_def)
    with a b e i have "good_offset src rope (?i + 1)" "good_offset src rope e" by auto
    with that(2) [of _ "?i + 1" e] good_slice [of src rope "?i + 1" e] e True Some show ?thesis
      by (simp add: read_first_label_def Let_def)
  qed
qed (use that(1) in \<open>simp add: read_first_label_def\<close>)

lemma byte_to_lsp_total: "good_offset src rope i \<Longrightarrow> byte_to_lsp rope i \<noteq> None"
  by (auto simp: good_offset_def byte_to_lsp_def min_def byte_offset_to_lsp_position_def split: if_splits prod.splits)

lemma fallback_symbol_total:
  assumes "good_offset src rope a" "good_offset src rope b"
  obtains s where "fallback_symbol kind name uri rope (a, b) = Some s" "loc_uri (sym_location s) = uri"
    "sym_kind s = kind" "sym_name s = name"
proof -
  obtain x y where "byte_to_lsp rope a = Some x" "byte_to_lsp rope b = Some y"
    using byte_to_lsp_total assms by blast
  with that show ?thesis by (auto simp: fallback_symbol_def span_to_range_def location_new_def)
qed


lemma advances_if [simp]:
  "advances i P (if c then x else y) \<longleftrightarrow> (c \<longrightarrow> advances i P x) \<and> (\<not> c \<longrightarrow> advances i P y)"
  by simp

lemma locals_step_total:
  assumes src: "from_utf8 src = Some rope" and i: "i < length src" and t: "table_ok uri (snd s)"
  shows "advances i (\<lambda>s. table_ok uri (snd s)) (locals_step src uri rope s i)"
proof -
  obtain st table where s: "s = (st, table)" by (cases s)
  have ident: "advances i (\<lambda>s. table_ok uri (snd s)) (do {
       let e = skip_while is_ident_continue src i;
       name \<leftarrow> str_slice src i e;
       let j = skip_while is_blank src e;
       (if byte_at src j = Some (CHR ''='') then do {
          s \<leftarrow> fallback_symbol Local name uri rope (i, e);
          Some ((st\<lparr>at_key := False\<rparr>, table\<lparr>locals := hm_insert name s (locals table)\<rparr>), j) }
        else Some ((st\<lparr>at_key := False\<rparr>, table), j)) })"
    if start: "is_ident_start (src ! i)"
  proof -
    let ?e = "skip_while is_ident_continue src i"
    note e = skip_while_good [where P = is_ident_continue, OF src i ascii_classes(3) [OF start] ascii_classes(1)]
    have g: "good_offset src rope i"
      by (rule ascii_good(1) [OF src i]) (rule ascii_classes(1) [OF ascii_classes(3) [OF start]])
    obtain name where name: "str_slice src i ?e = Some name"
      using good_slice [OF g e(2)] e(1) by auto
    obtain x where x: "fallback_symbol Local name uri rope (i, ?e) = Some x" "loc_uri (sym_location x) = uri"
      "sym_kind x = Local" "sym_name x = name"
      using fallback_symbol_total [OF g e(2)] by blast
    have "table_ok uri (table\<lparr>locals := hm_insert name x (locals table)\<rparr>)"
      using t x by (simp add: s table_ok_def keyed_insert within_def set_hm_insert(2) subset_insertI2)
    with e(1) skip_while_ge [of ?e is_blank src] t show ?thesis
      by (simp add: name x(1) s Let_def)
  qed
  show ?thesis
    unfolding locals_step_def s prod.case Let_def
    using t ident [unfolded Let_def] by (simp add: s)
qed


lemma scan_locals_body_total:
  assumes "from_utf8 src = Some rope" "table_ok uri table"
  shows "\<exists>t. scan_locals_body src from uri rope table = Some t \<and> table_ok uri t"
proof -
  have "\<exists>s. scan_loop (\<lambda>(st, _). sc_depth st > 0) (locals_step src uri rope) (length src)
       (\<lparr>sc_depth = 1, in_string = False, in_line_comment = False, in_block_comment = False, at_key = True\<rparr>, table)
       from = Some s \<and> table_ok uri (snd s)"
    by (rule scan_loop_advances) (use locals_step_total [OF assms(1)] assms(2) in simp_all)
  then obtain s where "scan_loop (\<lambda>(st, _). sc_depth st > 0) (locals_step src uri rope) (length src)
       (\<lparr>sc_depth = 1, in_string = False, in_line_comment = False, in_block_comment = False, at_key = True\<rparr>, table)
       from = Some s" "table_ok uri (snd s)" by blast
  then show ?thesis by (simp add: scan_locals_body_def)
qed

lemma fallback_labeled_total:
  assumes "from_utf8 src = Some rope" "table_ok uri table"
    "\<And>n s. loc_uri (sym_location s) = uri \<Longrightarrow> sym_kind s = kind \<Longrightarrow> sym_name s = n \<Longrightarrow> table_ok uri (ins n s table)"
  shows "\<exists>t. fallback_labeled src i uri rope kind ins table = Some t \<and> table_ok uri t"
proof (rule read_first_label_total [OF assms(1), of i])
  fix name a b
  assume "read_first_label src i = Some (Some (name, (a, b)))" "good_offset src rope a" "good_offset src rope b"
  with fallback_symbol_total [of src rope a b kind name uri] assms(3) show ?thesis
    by (fastforce simp: fallback_labeled_def)
qed (use assms(2) in \<open>simp add: fallback_labeled_def\<close>)

lemma fallback_two_labeled_total:
  assumes "from_utf8 src = Some rope" "table_ok uri table"
    "\<And>a s. loc_uri (sym_location s) = uri \<Longrightarrow> sym_kind s = kind \<Longrightarrow> sym_name s = rname a \<Longrightarrow> table_ok uri (ins a s table)"
  shows "\<exists>t. fallback_two_labeled src i uri rope kind ins table = Some t \<and> table_ok uri t"
proof (rule read_first_label_total [OF assms(1), of i])
  fix type_name a b
  assume first: "read_first_label src i = Some (Some (type_name, (a, b)))"
  show ?thesis
  proof (rule read_first_label_total [OF assms(1), of "skip_first_label src i"])
    fix name a' b'
    assume second: "read_first_label src (skip_first_label src i) = Some (Some (name, (a', b')))"
      and g: "good_offset src rope a'" "good_offset src rope b'"
    obtain s where s: "fallback_symbol kind name uri rope (a', b') = Some s" "loc_uri (sym_location s) = uri"
      "sym_kind s = kind" "sym_name s = name"
      by (rule fallback_symbol_total [OF g])
    have "table_ok uri (ins \<lparr>resource_type = type_name, rname = name\<rparr> s table)"
      by (rule assms(3)) (use s in simp_all)
    with s first second show ?thesis by (simp add: fallback_two_labeled_def)
  qed (use first assms(2) in \<open>simp add: fallback_two_labeled_def\<close>)
qed (use assms(2) in \<open>simp add: fallback_two_labeled_def\<close>)

lemma within_more:
  "within m d P \<Longrightarrow> within m (hm_insert k s d) P"
  by (auto simp: within_def set_hm_insert(2))

lemma declare_keyword_total:
  assumes "from_utf8 src = Some rope" "table_ok uri table"
  shows "\<exists>t. declare_keyword src kw i uri rope table = Some t \<and> table_ok uri t"
proof -
  have variables: "\<exists>t. fallback_labeled src i uri rope Variable (\<lambda>n s t. t\<lparr>variables := hm_insert n s (variables t)\<rparr>) table = Some t
      \<and> table_ok uri t"
    by (rule fallback_labeled_total [OF assms]) (use assms(2) in \<open>simp add: table_ok_def keyed_insert within_more\<close>)
  have outputs: "\<exists>t. fallback_labeled src i uri rope Output (\<lambda>n s t. t\<lparr>outputs := hm_insert n s (outputs t)\<rparr>) table = Some t
      \<and> table_ok uri t"
    by (rule fallback_labeled_total [OF assms]) (use assms(2) in \<open>simp add: table_ok_def keyed_insert within_more\<close>)
  have modules: "\<exists>t. fallback_labeled src i uri rope Module (\<lambda>n s t. t\<lparr>modules := hm_insert n s (modules t)\<rparr>) table = Some t
      \<and> table_ok uri t"
    by (rule fallback_labeled_total [OF assms]) (use assms(2) in \<open>simp add: table_ok_def keyed_insert within_more\<close>)
  have providers: "\<exists>t. fallback_labeled src i uri rope Provider (\<lambda>n s t. t\<lparr>providers := hm_insert n s (providers t)\<rparr>) table = Some t
      \<and> table_ok uri t"
    by (rule fallback_labeled_total [OF assms]) (use assms(2) in \<open>simp add: table_ok_def keyed_insert within_more\<close>)
  have data_sources: "\<exists>t. fallback_two_labeled src i uri rope DataSource (\<lambda>a s t. t\<lparr>data_sources := hm_insert a s (data_sources t)\<rparr>) table = Some t
      \<and> table_ok uri t"
    by (rule fallback_two_labeled_total [OF assms]) (use assms(2) in \<open>simp add: table_ok_def keyed_insert within_more\<close>)
  have resources: "\<exists>t. fallback_two_labeled src i uri rope Resource (\<lambda>a s t. t\<lparr>resources := hm_insert a s (resources t)\<rparr>) table = Some t
      \<and> table_ok uri t"
    by (rule fallback_two_labeled_total [OF assms]) (use assms(2) in \<open>simp add: table_ok_def keyed_insert within_more\<close>)
  show ?thesis
    using variables outputs modules providers data_sources resources assms(2)
      scan_locals_body_total [OF assms, of "skip_while (\<lambda>c. c \<noteq> CHR 0x7B) src i + 1"]
    by (simp add: declare_keyword_def Let_def)
qed

lemma symbols_step_total:
  assumes src: "from_utf8 src = Some rope" and i: "i < length src" and t: "table_ok uri (snd s)"
  shows "advances i (\<lambda>s. table_ok uri (snd s)) (symbols_step src uri rope s i)"
proof -
  obtain st table where s: "s = (st, table)" by (cases s)
  have ident: "advances i (\<lambda>s. table_ok uri (snd s)) (do {
       let e = skip_while is_keyword_byte src i;
       keyword \<leftarrow> str_slice src i e;
       table' \<leftarrow> declare_keyword src keyword e uri rope table;
       Some ((st, table'), e) })"
    if start: "is_ident_start (src ! i)"
  proof -
    let ?e = "skip_while is_keyword_byte src i"
    note e = skip_while_good [where P = is_keyword_byte, OF src i ascii_classes(4) [OF start] ascii_classes(2)]
    have g: "good_offset src rope i"
      by (rule ascii_good(1) [OF src i]) (rule ascii_classes(2) [OF ascii_classes(4) [OF start]])
    obtain kw where kw: "str_slice src i ?e = Some kw"
      using good_slice [OF g e(2)] e(1) by auto
    obtain t' where "declare_keyword src kw ?e uri rope table = Some t'" "table_ok uri t'"
      using declare_keyword_total [OF src, of uri table kw ?e] t s by auto
    with e(1) show ?thesis by (simp add: kw Let_def)
  qed
  show ?thesis
    unfolding symbols_step_def s prod.case Let_def
    using t ident [unfolded Let_def] by (simp add: s)
qed


section \<open>What the reference scan finds\<close>

definition slice_text :: "string \<Rightarrow> span \<Rightarrow> string" where
  "slice_text src sp = take (snd sp - fst sp) (drop (fst sp) src)"

definition segments_end :: "nat \<Rightarrow> span list \<Rightarrow> nat" where
  "segments_end i segs = (if segs = [] then i else snd (last segs))"

lemma take_drop_join: "i \<le> j \<Longrightarrow> j \<le> k \<Longrightarrow> take (j - i) (drop i s) @ take (k - j) (drop j s) = take (k - i) (drop i s)"
proof -
  assume "i \<le> j" "j \<le> k"
  then have "k - i = (j - i) + (k - j)" "j - i + i = j" by simp_all
  then show ?thesis by (simp only: take_add drop_drop)
qed

lemma skip_while_gt: "i < skip_while P s i \<Longrightarrow> i < length s \<and> P (s ! i)"
proof (cases "drop i s")
  case (Cons c t)
  assume "i < skip_while P s i"
  with Cons have "P c" by (simp add: skip_while_def split: if_splits)
  moreover have "s ! i = c" "i < length s"
    using Cons nth_via_drop [OF Cons] by (auto intro: ccontr)
  ultimately show ?thesis by simp
qed (simp add: skip_while_def)

definition segments_ok :: "string \<Rightarrow> rope \<Rightarrow> nat \<Rightarrow> span list \<Rightarrow> bool" where
  "segments_ok src rope i segs \<longleftrightarrow> i \<le> segments_end i segs
     \<and> (\<forall>(a, b) \<in> set segs. good_offset src rope a \<and> good_offset src rope b \<and> a \<le> b)
     \<and> take (segments_end i segs - i) (drop i src) = concat (map (\<lambda>sp. ''.'' @ slice_text src sp) segs)"

lemma read_segments_ok:
  assumes "from_utf8 src = Some rope" "read_segments src i = (segs, j)"
  shows "i \<le> j \<and> segments_ok src rope i segs"
  using assms
proof (induction src i arbitrary: segs j rule: read_segments.induct)
  case (1 s i)
  let ?e = "skip_while is_ident_continue s (i + 1)"
  show ?case
  proof (cases "byte_at s i = Some (CHR ''.'') \<and> ?e \<noteq> i + 1")
    case False
    with "1.prems"(2) show ?thesis
      by (subst (asm) read_segments.simps) (auto simp: segments_ok_def segments_end_def Let_def split: if_splits)
  next
    case True
    then have dot: "i < length s" "s ! i = CHR ''.''" by (auto simp: byte_at_def split: if_splits)
    obtain segs' where rec: "read_segments s ?e = (segs', j)" and segs: "segs = (i + 1, ?e) # segs'"
      using "1.prems"(2) True by (subst (asm) read_segments.simps) (auto simp: Let_def split: prod.splits)
    have "byte_at s i = Some (CHR ''.'') \<Longrightarrow> ?e \<noteq> i + 1 \<Longrightarrow> ?e \<le> j \<and> segments_ok s rope ?e segs'"
      using "1.IH" [OF _ refl _ "1.prems"(1) rec] by blast
    with True have IH: "?e \<le> j" "segments_ok s rope ?e segs'" by auto
    have gt: "i + 1 < ?e" using True skip_while_ge [of "i + 1" is_ident_continue s] by linarith
    have start: "i + 1 < length s" "is_ident_continue (s ! (i + 1))"
      using skip_while_gt [OF gt] by simp_all
    have dot_ascii: "byte (s ! i) < 128" by (simp add: dot byte_def)
    have g: "good_offset s rope (i + 1)" "good_offset s rope ?e"
      using ascii_good(2) [OF "1.prems"(1) dot(1) dot_ascii]
        skip_while_good(2) [where P = is_ident_continue, OF "1.prems"(1) start ascii_classes(1)] by auto
    have E: "segments_end i segs = segments_end ?e segs'"
      by (simp add: segs segments_end_def)
    have le: "?e \<le> segments_end ?e segs'" using IH(2) by (simp add: segments_ok_def)
    have "take (segments_end i segs - i) (drop i s)
        = take (?e - i) (drop i s) @ take (segments_end ?e segs' - ?e) (drop ?e s)"
      using take_drop_join [of i ?e "segments_end ?e segs'" s] gt le E by simp
    also have "take (?e - i) (drop i s) = ''.'' @ slice_text s (i + 1, ?e)"
    proof -
      have "drop i s = CHR ''.'' # drop (i + 1) s" using dot Cons_nth_drop_Suc [of i s] by simp
      moreover have "?e - i = Suc (?e - (i + 1))" using gt by simp
      ultimately show ?thesis by (simp add: slice_text_def)
    qed
    finally show ?thesis
      using IH gt le g E by (simp add: segments_ok_def segs)
  qed
qed


lemma seg_text_ok:
  assumes "segments_ok src rope i segs"
  shows "seg_text src segs k = Some (if k < length segs then Some (slice_text src (segs ! k)) else None)"
proof (cases "k < length segs")
  case True
  then have "segs ! k \<in> set segs" by simp
  with assms have "good_offset src rope (fst (segs ! k)) \<and> good_offset src rope (snd (segs ! k)) \<and> fst (segs ! k) \<le> snd (segs ! k)"
    by (auto simp: segments_ok_def)
  with True good_slice [of src rope "fst (segs ! k)" "snd (segs ! k)"] show ?thesis
    by (simp add: seg_text_def slice_text_def)
qed (simp add: seg_text_def)

lemma fallback_classify_eq:
  assumes "segments_ok src rope i segs" "first = c # cs" "is_ident_start c"
  shows "fallback_classify first segs src = Some (reference_kind_of first (map (slice_text src) segs))"
proof -
  have heuristic: "is_resource_type_heuristic first \<longleftrightarrow> looks_like_resource first"
    using assms(2,3) by (simp add: is_resource_type_heuristic_def looks_like_resource_def)
  note seg = seg_text_ok [OF assms(1)]
  show ?thesis
  proof (cases segs)
    case Nil
    then show ?thesis
      by (simp add: fallback_classify_def seg_text_def reference_kind_of_def)
  next
    case (Cons x xs)
    have s0: "seg_text src segs 0 = Some (Some (slice_text src x))"
      using seg [of 0] by (simp add: Cons)
    consider "first = ''var''" | "first = ''local''" | "first = ''module''" | "first = ''data''"
      | "first \<in> {''path'', ''terraform'', ''each'', ''count'', ''self''}"
      | "\<not> is_builtin_prefix first"
      unfolding is_builtin_prefix_def insert_iff empty_iff by argo
    then show ?thesis
    proof cases
      case 4
      then show ?thesis
        using s0 seg [of 1]
        by (cases xs) (simp_all add: fallback_classify_def reference_kind_of_def Cons is_builtin_prefix_def)
    next
      case 5
      then have "is_builtin_prefix first" by (auto simp: is_builtin_prefix_def)
      with 5 show ?thesis by (auto simp: fallback_classify_def reference_kind_of_def Cons)
    next
      case 6
      then have "first \<notin> {''path'', ''terraform'', ''each'', ''count'', ''self'', ''var'', ''local'', ''module'', ''data''}"
        by (auto simp: is_builtin_prefix_def)
      with 6 show ?thesis by (simp add: fallback_classify_def reference_kind_of_def s0 [unfolded Cons] Cons heuristic)
    qed (simp_all add: fallback_classify_def reference_kind_of_def s0 [unfolded Cons] Cons)
  qed
qed

text \<open>A reference is spelled out in the source at its location.\<close>

definition spelled_at :: "string \<Rightarrow> string \<Rightarrow> rope \<Rightarrow> reference \<Rightarrow> bool" where
  "spelled_at src uri rope r \<longleftrightarrow>
     (\<exists>a b base segs rg. str_slice src a b = Some (base @ concat (map (\<lambda>s. ''.'' @ s) segs))
        \<and> reference_kind_of base segs = Some (ref_kind r)
        \<and> span_range rope (a, b) = Some (Some rg) \<and> ref_location r = location_new uri rg)"

lemma good_span_range:
  "good_offset src rope a \<Longrightarrow> good_offset src rope b \<Longrightarrow> \<exists>rg. span_range rope (a, b) = Some (Some rg)"
  by (auto simp: good_offset_def span_range_def hcl_span_to_lsp_range_def)

lemma references_step_total:
  assumes src: "from_utf8 src = Some rope" and i: "i < length src" and t: "\<forall>r \<in> set (snd s). spelled_at src uri rope r"
  shows "advances i (\<lambda>s. \<forall>r \<in> set (snd s). spelled_at src uri rope r) (references_step src uri rope s i)"
proof -
  let ?P = "\<lambda>s. \<forall>r \<in> set (snd s). spelled_at src uri rope r"
  obtain st acc where s: "s = (st, acc)" by (cases s)
  have ident: "advances i ?P (do {
       let e = skip_while is_ident_continue src i;
       first \<leftarrow> str_slice src i e;
       let (segs, j) = read_segments src e;
       kind \<leftarrow> fallback_classify first segs src;
       acc' \<leftarrow> (case kind of
           None \<Rightarrow> Some acc
         | Some k \<Rightarrow> do {
             r \<leftarrow> range_from_bytes rope i (if segs = [] then i else snd (last segs));
             Some (case r of None \<Rightarrow> acc
               | Some rg \<Rightarrow> acc @ [\<lparr>ref_kind = k, ref_location = location_new uri rg\<rparr>]) });
       Some ((st, acc'), j) })"
    if start: "is_ident_start (src ! i)"
  proof -
    let ?e = "skip_while is_ident_continue src i"
    note e = skip_while_good [where P = is_ident_continue, OF src i ascii_classes(3) [OF start] ascii_classes(1)]
    have g: "good_offset src rope i"
      by (rule ascii_good(1) [OF src i]) (rule ascii_classes(1) [OF ascii_classes(3) [OF start]])
    let ?first = "take (?e - i) (drop i src)"
    have first: "str_slice src i ?e = Some ?first"
      using good_slice [OF g e(2)] e(1) by simp
    obtain segs j where segs: "read_segments src ?e = (segs, j)" by (cases "read_segments src ?e")
    note ok = read_segments_ok [OF src segs]
    have "?first = src ! i # take (?e - i - 1) (drop (i + 1) src)"
      using e(1) i by (cases "?e - i") (simp_all add: Cons_nth_drop_Suc [symmetric])
    note kind = fallback_classify_eq [OF conjunct2 [OF ok] this start]
    show ?thesis
    proof (cases "reference_kind_of ?first (map (slice_text src) segs)")
      case None
      with kind first segs ok e(1) t show ?thesis by (simp add: s)
    next
      case (Some k)
      then have ne: "segs \<noteq> []" by (auto simp: reference_kind_of_def)
      let ?E = "snd (last segs)"
      have last: "last segs \<in> set segs" using ne by simp
      with ok have gE: "good_offset src rope ?E" by (auto simp: segments_ok_def)
      have le: "?e \<le> ?E" using ok ne by (simp add: segments_ok_def segments_end_def)
      obtain rg where rg: "span_range rope (i, ?E) = Some (Some rg)"
        using good_span_range [OF g gE] by blast
      have "str_slice src i ?E = Some (take (?E - i) (drop i src))"
        using good_slice [OF g gE] e(1) le by simp
      also have "take (?E - i) (drop i src) = ?first @ take (?E - ?e) (drop ?e src)"
        using take_drop_join [of i ?e ?E src] e(1) le by simp
      also have "take (?E - ?e) (drop ?e src) = concat (map (\<lambda>s. ''.'' @ s) (map (slice_text src) segs))"
        using ok ne by (simp add: segments_ok_def segments_end_def comp_def)
      finally have "spelled_at src uri rope \<lparr>ref_kind = k, ref_location = location_new uri rg\<rparr>"
        using Some rg unfolding spelled_at_def by fastforce
      with kind first segs ok e(1) t Some rg ne show ?thesis by (simp add: s range_from_bytes_def)
    qed
  qed
  show ?thesis
    unfolding references_step_def s prod.case Let_def
    using t ident [unfolded Let_def] by (simp add: s)
qed

lemma extract_symbols_fallback_ok:
  assumes "from_utf8 src = Some rope"
  shows "\<exists>t. extract_symbols_fallback src uri rope = Some t \<and> table_ok uri t"
proof -
  have "\<exists>s. scan_loop (\<lambda>_. True) (symbols_step src uri rope) (length src)
       (\<lparr>sc_depth = 0, in_string = False, in_line_comment = False, in_block_comment = False\<rparr>, empty_table) 0 = Some s
       \<and> table_ok uri (snd s)"
    by (rule scan_loop_advances) (use symbols_step_total [OF assms] empty_table_ok in simp_all)
  then show ?thesis by (auto simp: extract_symbols_fallback_def)
qed

text \<open>
  The fallback scanners return on every text: no slice or span conversion they make is off a
  character boundary, and every iteration advances. The table they build is well formed.
\<close>

theorem fallback_symbols_total:
  assumes "from_utf8 src = Some rope"
  shows "\<exists>t. extract_symbols_fallback src uri rope = Some t \<and> table_ok uri t"
  by (rule extract_symbols_fallback_ok [OF assms])

lemma extract_references_fallback_ok:
  assumes "from_utf8 src = Some rope"
  shows "\<exists>refs. extract_references_fallback src uri rope = Some refs \<and> (\<forall>r \<in> set refs. spelled_at src uri rope r)"
proof -
  have "\<exists>s. scan_loop (\<lambda>_. True) (references_step src uri rope) (length src)
       (\<lparr>rs_string = False, rs_line = False, rs_block = False, interp_depth = 0, nested_string = False\<rparr>, []) 0 = Some s
       \<and> (\<forall>r \<in> set (snd s). spelled_at src uri rope r)"
    by (rule scan_loop_advances [where P = "\<lambda>s. \<forall>r \<in> set (snd s). spelled_at src uri rope r"])
      (use references_step_total [OF assms] in simp_all)
  then show ?thesis by (auto simp: extract_references_fallback_def)
qed

text \<open>
  C19. Every reference the text scan reports is spelled out in the file: the bytes at its location are an
  identifier and its dotted segments, and the parsed walk would classify them as the same reference.
\<close>

theorem fallback_references_sound:
  assumes "from_utf8 src = Some rope"
  shows "\<exists>refs. extract_references_fallback src uri rope = Some refs \<and> (\<forall>r \<in> set refs. spelled_at src uri rope r)"
  by (rule extract_references_fallback_ok [OF assms])

lemma fallback_symbols_total_witness:
  "\<exists>t. extract_symbols_fallback ''variable {'' ''u'' [118, 97, 114, 105, 97, 98, 108, 101, 32, 123] = Some t"
proof -
  have "from_utf8 ''variable {'' = Some [118, 97, 114, 105, 97, 98, 108, 101, 32, 123]"
    by (simp add: from_utf8_ascii byte_def)
  from fallback_symbols_total [OF this, of "''u''"] show ?thesis by blast
qed

lemma fallback_references_sound_witness:
  "\<exists>refs. extract_references_fallback ''{ var.a'' ''u'' [123, 32, 118, 97, 114, 46, 97] = Some refs"
proof -
  have "from_utf8 ''{ var.a'' = Some [123, 32, 118, 97, 114, 46, 97]"
    by (simp add: from_utf8_ascii byte_def)
  from fallback_references_sound [OF this, of "''u''"] show ?thesis by blast
qed

end
