(* ===== verification/Aligned.thy ===== *)
theory Aligned
  imports Fallback
begin

text \<open>
  The two assumptions under which analysing a document cannot panic: the text is made of Unicode
  scalar values (which Rust's \<open>str\<close> guarantees) and the spans of the parsed body lie on character
  boundaries of the text (which the parser documents: its spans are offsets of tokens).
\<close>

section \<open>UTF-8 both ways\<close>

definition scalar :: "uchar \<Rightarrow> bool" where
  "scalar c \<longleftrightarrow> c < 0xD800 \<or> 0xE000 \<le> c \<and> c < 0x110000"

lemma byte_char_of: "n < 256 \<Longrightarrow> byte (char_of n) = n"
  by (simp add: byte_def)

lemma base64: "c div 64 * 64 + c mod 64 = (c::nat)"
  by (rule div_mult_mod_eq)

lemma multi_byte_encode:
  "0x80 \<le> c \<Longrightarrow> c < 0x800 \<Longrightarrow> two_byte (char_of (0xC0 + c div 64)) (char_of (0x80 + c mod 64)) = Some c"
  "scalar c \<Longrightarrow> 0x800 \<le> c \<Longrightarrow> c < 0x10000 \<Longrightarrow> three_byte (char_of (0xE0 + c div 4096))
     (char_of (0x80 + c div 64 mod 64)) (char_of (0x80 + c mod 64)) = Some c"
  "0x10000 \<le> c \<Longrightarrow> c < 0x110000 \<Longrightarrow> four_byte (char_of (0xF0 + c div 262144))
     (char_of (0x80 + c div 4096 mod 64)) (char_of (0x80 + c div 64 mod 64)) (char_of (0x80 + c mod 64)) = Some c"
proof -
  assume c: "0x80 \<le> c" "c < 0x800"
  then have "c div 64 < 32" by simp
  with c show "two_byte (char_of (0xC0 + c div 64)) (char_of (0x80 + c mod 64)) = Some c"
    by (simp add: two_byte_def byte_char_of is_continuation_def)
next
  assume c: "scalar c" "0x800 \<le> c" "c < 0x10000"
  then have "c div 4096 < 16" by simp
  moreover have "c div 4096 * 4096 + c div 64 mod 64 * 64 + c mod 64 = c"

  proof -
    have "c div 4096 * 64 + c div 64 mod 64 = c div 64"
      using base64 [of "c div 64"] by (simp add: div_mult2_eq [symmetric])
    with base64 [of c] show ?thesis by linarith
  qed
  ultimately show "three_byte (char_of (0xE0 + c div 4096))
     (char_of (0x80 + c div 64 mod 64)) (char_of (0x80 + c mod 64)) = Some c"
    using c by (simp add: three_byte_def byte_char_of is_continuation_def scalar_def Let_def) linarith
next
  assume c: "0x10000 \<le> c" "c < 0x110000"
  then have "c div 262144 < 5" by simp
  moreover have "c div 262144 * 262144 + c div 4096 mod 64 * 4096 + c div 64 mod 64 * 64 + c mod 64 = c"
  proof -
    have "c div 4096 * 64 + c div 64 mod 64 = c div 64" "c div 262144 * 64 + c div 4096 mod 64 = c div 4096"
      using base64 [of "c div 64"] base64 [of "c div 4096"] by (simp_all add: div_mult2_eq [symmetric])
    with base64 [of c] show ?thesis by linarith
  qed
  ultimately show "four_byte (char_of (0xF0 + c div 262144))
     (char_of (0x80 + c div 4096 mod 64)) (char_of (0x80 + c div 64 mod 64)) (char_of (0x80 + c mod 64)) = Some c"
    using c by (simp add: four_byte_def byte_char_of is_continuation_def)
qed

lemma multi_byte_shorter:
  fixes c :: nat
  shows "0x800 \<le> c \<Longrightarrow> c < 0x10000 \<Longrightarrow> two_byte (char_of (0xE0 + c div 4096)) b = None"
  "0x10000 \<le> c \<Longrightarrow> c < 0x110000 \<Longrightarrow> two_byte (char_of (0xF0 + c div 262144)) b = None"
  "0x10000 \<le> c \<Longrightarrow> c < 0x110000 \<Longrightarrow> three_byte (char_of (0xF0 + c div 262144)) b d = None"
proof -
  assume c: "0x800 \<le> c" "c < 0x10000"
  then have "c div 4096 < 16" by simp
  then show "two_byte (char_of (0xE0 + c div 4096)) b = None"
    by (simp add: two_byte_def byte_char_of Let_def)
next
  assume c: "0x10000 \<le> c" "c < 0x110000"
  then have "c div 262144 < 5" by simp
  then show "two_byte (char_of (0xF0 + c div 262144)) b = None" "three_byte (char_of (0xF0 + c div 262144)) b d = None"
    by (simp_all add: two_byte_def three_byte_def byte_char_of Let_def)
qed

lemma decode_utf8_char: "scalar c \<Longrightarrow> decode_char (utf8_char c @ s) = Some (c, utf8_len c)"
proof -
  assume c: "scalar c"
  then have le: "c < 0x110000" by (auto simp: scalar_def)
  consider "c < 0x80" | "0x80 \<le> c" "c < 0x800" | "0x800 \<le> c" "c < 0x10000" | "0x10000 \<le> c" by linarith
  then show ?thesis
  proof cases
    case 1
    then show ?thesis by (simp add: utf8_char_def decode_char_def utf8_len_def byte_char_of)
  next
    case 2
    then have "c div 64 < 32" by simp
    with 2 multi_byte_encode(1) [OF 2] show ?thesis
      by (simp add: utf8_char_def decode_char_def utf8_len_def byte_char_of)
  next
    case 3
    then have "c div 4096 < 16" by simp
    with 3 multi_byte_encode(2) [OF c 3] multi_byte_shorter(1) [OF 3] show ?thesis
      by (simp add: utf8_char_def decode_char_def utf8_len_def byte_char_of)
  next
    case 4
    have "c div 262144 < 5" using le by simp
    with 4 le multi_byte_encode(3) [OF 4 le] multi_byte_shorter(2,3) [OF 4 le] show ?thesis
      by (simp add: utf8_char_def decode_char_def utf8_len_def byte_char_of)
  qed
qed

lemma from_to_utf8: "list_all scalar r \<Longrightarrow> from_utf8 (to_utf8 r) = Some r"
proof (induction r)
  case (Cons c r)
  have "from_utf8 (utf8_char c @ to_utf8 r) = map_option (Cons c) (from_utf8 (drop (utf8_len c) (utf8_char c @ to_utf8 r)))"
    by (rule from_utf8_step) (use Cons.prems in \<open>simp add: decode_utf8_char\<close>)
  with Cons show ?case by (simp add: to_utf8_def utf8_char_length)
qed (simp add: to_utf8_def)

section \<open>Spans on boundaries\<close>

definition boundary :: "rope \<Rightarrow> nat \<Rightarrow> bool" where
  "boundary rope n \<longleftrightarrow> n > len_bytes rope \<or> (\<exists>p s. rope = p @ s \<and> n = len_bytes p)"

definition aligned :: "rope \<Rightarrow> span option \<Rightarrow> bool" where
  "aligned rope sp \<longleftrightarrow> (\<forall>a b. sp = Some (a, b) \<longrightarrow> boundary rope a \<and> boundary rope b)"

definition traversal_span :: "expr \<Rightarrow> span option" where
  "traversal_span e = (case e of ETraversal sp _ _ \<Rightarrow> sp | _ \<Rightarrow> None)"

fun item_aligned :: "rope \<Rightarrow> body_item \<Rightarrow> bool" where
  "item_aligned rope (Attribute (_, ks) e vs sp) \<longleftrightarrow> aligned rope ks \<and> aligned rope vs \<and> aligned rope sp
     \<and> list_all (\<lambda>e'. aligned rope (traversal_span e')) (visit_expr e)"
| "item_aligned rope (Block sp (_, ks) labels inner) \<longleftrightarrow> aligned rope sp \<and> aligned rope ks
     \<and> list_all (\<lambda>(_, ls). aligned rope ls) labels \<and> list_all (item_aligned rope) inner"

lemma boundary_position: "boundary rope n \<Longrightarrow> \<exists>r. byte_offset_to_lsp_position rope n = Some r"
proof -
  assume "boundary rope n"
  then consider "n > len_bytes rope" | p s where "rope = p @ s" "n = len_bytes p"
    by (auto simp: boundary_def)
  then show ?thesis
  proof cases
    case 1
    then show ?thesis by (simp add: byte_offset_to_lsp_position_def)
  qed (use offset_to_position in blast)
qed

lemma opt_span_range_total [simp]: "aligned rope sp \<Longrightarrow> opt_span_range rope sp = None \<longleftrightarrow> False"
proof (cases sp)
  case (Some ab)
  assume "aligned rope sp"
  with Some obtain r t where "byte_offset_to_lsp_position rope (fst ab) = Some r"
    "byte_offset_to_lsp_position rope (snd ab) = Some t"
    using boundary_position by (cases ab) (fastforce simp: aligned_def)
  with Some show ?thesis
    by (auto simp: opt_span_range_def span_range_def hcl_span_to_lsp_range_def split: sum.splits option.splits)
qed (simp add: opt_span_range_def)

lemma classify_total: "aligned rope sp \<Longrightarrow> classify_traversal uri rope sp root ops \<noteq> None"
  using opt_span_range_total [of rope sp] by (auto simp: classify_traversal_def split: expr.split Option.bind_splits)

lemma those_total: "None \<notin> set xs \<Longrightarrow> \<exists>ys. those xs = Some ys"
proof (induction xs)
  case (Cons a xs)
  then obtain x ys where "a = Some x" "those xs = Some ys" by (cases a) auto
  then show ?case by simp
qed simp

lemma item_aligned_visit:
  "item_aligned rope i \<Longrightarrow> e \<in> set (visit_item i) \<Longrightarrow> aligned rope (traversal_span e)"
  by (induction i rule: visit_item.induct) (auto simp: list_all_iff)

lemma extract_references_total:
  assumes "list_all (item_aligned rope) b"
  shows "extract_references b uri rope \<noteq> None"
proof -
  have "None \<notin> set (traversal_reference uri rope e)" if "e \<in> set (visit_body b)" for e
  proof -
    from that have "aligned rope (traversal_span e)"
      using assms item_aligned_visit by (fastforce simp: visit_body_def list_all_iff)
    then show ?thesis
      by (cases e) (simp_all add: traversal_span_def classify_total [symmetric])
  qed
  then have "None \<notin> set (visit_body_refs uri rope b)"
    by (auto simp: visit_body_refs_eq simp del: visit_body_refs.simps)
  from those_total [OF this] show ?thesis by (auto simp: extract_references_def simp del: visit_body_refs.simps)
qed

lemma with_symbol_total: "found \<noteq> None \<Longrightarrow> with_symbol found ins t \<noteq> None"
  by (simp add: with_symbol_def)

lemma build_symbol_total [simp]: "aligned rope sp \<Longrightarrow> build_symbol n k sp uri rope nr det dc = None \<longleftrightarrow> False"
  by (simp add: build_symbol_def split: Option.bind_splits)

lemma labeled_symbol_total:
  "aligned rope sp \<Longrightarrow> list_all (\<lambda>(_, ls). aligned rope ls) labels \<Longrightarrow>
     labeled_symbol sp labels inner uri rope k \<noteq> None"
  by (auto simp: labeled_symbol_def label_range_def split: list.splits option.splits Option.bind_splits)

lemma two_labeled_symbol_total:
  "aligned rope sp \<Longrightarrow> list_all (\<lambda>(_, ls). aligned rope ls) labels \<Longrightarrow>
     two_labeled_symbol sp labels uri rope k \<noteq> None"
  by (auto simp: two_labeled_symbol_def label_range_def split: list.splits option.splits Option.bind_splits)

lemma extract_local_total: "item_aligned rope i \<Longrightarrow> extract_local uri rope t i \<noteq> None"
  by (cases i) (auto simp: extract_local_def split: prod.splits option.splits Option.bind_splits)

lemma extract_terraform_total:
  assumes "aligned rope sp" "aligned rope ks"
  shows "extract_terraform sp ks uri rope t \<noteq> None"
proof -
  obtain nr where "opt_span_range rope ks = Some nr"
    using opt_span_range_total [OF assms(2)] by blast
  moreover have "with_symbol (build_symbol n k sp uri rope r det dc) ins t \<noteq> None" for n k r det dc ins
    using assms(1) by (intro with_symbol_total) simp
  ultimately show ?thesis
    by (auto simp: extract_terraform_def simp del: not_None_eq split: option.split)
qed

lemma extract_block_total:
  assumes "item_aligned rope i"
  shows "extract_block uri rope t i \<noteq> None"
proof (cases i)
  case (Block sp ident labels inner)
  obtain kw ks where ident: "ident = (kw, ks)" by (cases ident)
  note a = assms [unfolded Block ident item_aligned.simps]
  have "extract_locals inner uri rope t \<noteq> None"
    unfolding extract_locals_def
    by (rule fold_may_total, rule extract_local_total) (use a in \<open>auto simp: list_all_iff\<close>)
  moreover have "with_symbol (labeled_symbol sp labels inner uri rope k) ins t \<noteq> None" for k ins
    using a by (intro with_symbol_total labeled_symbol_total) auto
  moreover have "with_symbol (two_labeled_symbol sp labels uri rope k) ins t \<noteq> None" for k ins
    using a by (intro with_symbol_total two_labeled_symbol_total) auto
  moreover have "extract_terraform sp ks uri rope t \<noteq> None"
    using a by (intro extract_terraform_total) auto
  ultimately show ?thesis
    unfolding extract_block_def Block ident body_item.case prod.case
    by (simp del: not_None_eq)
qed (simp add: extract_block_def)

lemma extract_symbols_total: "list_all (item_aligned rope) b \<Longrightarrow> extract_symbols b uri rope \<noteq> None"
  unfolding extract_symbols_def
  by (rule fold_may_total, rule extract_block_total) (auto simp: list_all_iff)

lemma extract_test_symbols_total:
  "list_all (item_aligned rope) b \<Longrightarrow> extract_test_symbols b uri rope \<noteq> None"
  unfolding extract_test_symbols_def
proof (rule fold_may_total)
  fix runs i
  assume b: "list_all (item_aligned rope) b" "i \<in> set b"
  show "extract_test_block uri rope runs i \<noteq> None"
  proof (cases i)
    case (Block sp ident labels inner)
    with b have a: "aligned rope sp" "list_all (\<lambda>(_, ls). aligned rope ls) labels"
      by (cases ident; fastforce simp: list_all_iff)+
    have "with_symbol (build_symbol n k sp uri rope r det dc) ins runs \<noteq> None" for n k r det dc ins
      using a(1) by (intro with_symbol_total) simp
    with a show ?thesis
      by (cases ident; cases labels)
        (auto simp: extract_test_block_def Block label_range_def simp del: not_None_eq
          split: option.split Option.bind_splits)
  qed (simp add: extract_test_block_def)
qed

end
