(* ===== verification/Document.thy ===== *)
theory Document
  imports Aligned Parse
begin

text \<open>
  \<^verbatim>\<open>crates/tfls-state/src/document.rs\<close>, \<^verbatim>\<open>crates/tfls-state/src/lookup.rs\<close> and
  \<^verbatim>\<open>crates/tfls-engine/src/format_scan.rs\<close>: the state of an open document (text, version, parse
  result, symbols, references, format cache), the edits of the protocol, re-analysis, the lookup of
  the reference under the cursor and the cached formatter. The HCL and JSON parsers and the
  formatter are third-party crates; they are the parameter \<open>front_end\<close>.
\<close>

section \<open>State\<close>

datatype format_style = Minimal | Opinionated

definition style_marker :: "format_style \<Rightarrow> nat" where
  "style_marker s = (case s of Minimal \<Rightarrow> 0 | Opinionated \<Rightarrow> 1)"

record 'e front_end =
  fe_errors :: "'e hcl_errors"
  fe_hcl :: "('e, body) hcl_parser"
  fe_json :: "rope \<Rightarrow> ('e, body) parsed_file"
  fe_format :: "rope \<Rightarrow> format_style \<Rightarrow> rope option"  \<comment> \<open>\<open>format_source(..).ok()\<close>\<close>

record text_edit =
  edit_range :: lsp_range
  new_text :: rope

record format_cache_entry =
  fc_version :: int
  fc_marker :: nat
  fc_edit :: "text_edit option"

record 'e document =
  d_uri :: string
  d_rope :: rope
  d_version :: int
  d_parsed :: "('e, body) parsed_file"
  d_symbols :: symbol_table
  d_references :: "reference list"
  d_test_runs :: "symbol list"
  d_format_cache :: "format_cache_entry option"

record change =
  ch_range :: "lsp_range option"
  ch_text :: rope

datatype state_error = DocumentNotFound string | EditApplication string parse_error

section \<open>Analysis\<close>

definition compute_analysis ::
    "('e, body) parsed_file \<Rightarrow> string \<Rightarrow> rope \<Rightarrow> (symbol_table \<times> reference list \<times> symbol list) may_panic" where
  "compute_analysis p u rope =
     (let is_test = is_tftest_uri u; src = to_utf8 rope in
      case (if has_errors p then None else body p) of
        Some b \<Rightarrow> do {
          symbols \<leftarrow> (if is_test then Some empty_table else extract_symbols b u rope);
          refs \<leftarrow> extract_references b u rope;
          runs \<leftarrow> (if is_test then extract_test_symbols b u rope else Some []);
          Some (symbols, refs, runs) }
      | None \<Rightarrow> do {
          symbols \<leftarrow> (if is_test then Some empty_table else extract_symbols_fallback src u rope);
          refs \<leftarrow> extract_references_fallback src u rope;
          Some (symbols, refs, []) })"

definition parse_document :: "'e front_end \<Rightarrow> rope \<Rightarrow> string \<Rightarrow> ('e, body) parsed_file may_panic" where
  "parse_document F rope u = parse_source_recovering_for_uri (fe_errors F) (fe_hcl F) (fe_json F) rope u"

definition document_new :: "'e front_end \<Rightarrow> string \<Rightarrow> rope \<Rightarrow> int \<Rightarrow> 'e document may_panic" where
  "document_new F u rope v = do {
     p \<leftarrow> parse_document F rope u;
     (symbols, refs, runs) \<leftarrow> compute_analysis p u rope;
     Some \<lparr>d_uri = u, d_rope = rope, d_version = v, d_parsed = p, d_symbols = symbols,
       d_references = refs, d_test_runs = runs, d_format_cache = None\<rparr>
   }"

definition hydrated_from_cache ::
    "string \<Rightarrow> rope \<Rightarrow> symbol_table \<Rightarrow> reference list \<Rightarrow> 'e document" where
  "hydrated_from_cache u rope symbols refs =
     \<lparr>d_uri = u, d_rope = rope, d_version = 0, d_parsed = \<lparr>body = None, errors = []\<rparr>,
      d_symbols = symbols, d_references = refs, d_test_runs = [], d_format_cache = None\<rparr>"

definition reparse :: "'e front_end \<Rightarrow> 'e document \<Rightarrow> 'e document may_panic" where
  "reparse F d = do {
     p \<leftarrow> parse_document F (d_rope d) (d_uri d);
     (if body p = None then Some (d\<lparr>d_parsed := p\<rparr>)
      else do {
        (symbols, refs, runs) \<leftarrow> compute_analysis p (d_uri d) (d_rope d);
        Some (d\<lparr>d_parsed := p, d_symbols := symbols, d_references := refs, d_test_runs := runs\<rparr>) })
   }"

section \<open>Edits\<close>

definition to_pos :: "lsp_position \<Rightarrow> lsp_pos" where
  "to_pos p = (pos_line p, pos_character p)"

text \<open>\<open>rope.remove(a..b)\<close> on characters panics on a range out of order or out of bounds.\<close>

definition rope_replace :: "rope \<Rightarrow> nat \<Rightarrow> nat \<Rightarrow> rope \<Rightarrow> rope may_panic" where
  "rope_replace r a b t = (if a \<le> b \<and> b \<le> length r then Some (take a r @ t @ drop b r) else None)"

text \<open>The document after the edit, and the result the method returns.\<close>

definition apply_change :: "'e document \<Rightarrow> change \<Rightarrow> ('e document \<times> (state_error + unit)) may_panic" where
  "apply_change d c =
     (case ch_range c of
        None \<Rightarrow> Some (d\<lparr>d_rope := ch_text c, d_format_cache := None\<rparr>, Inr ())
      | Some r \<Rightarrow> do {
          s \<leftarrow> lsp_position_to_byte_offset (d_rope d) (to_pos (range_start r));
          (case s of
             Inl e \<Rightarrow> Some (d, Inl (EditApplication (d_uri d) e))
           | Inr a \<Rightarrow> do {
               t \<leftarrow> lsp_position_to_byte_offset (d_rope d) (to_pos (range_end r));
               (case t of
                  Inl e \<Rightarrow> Some (d, Inl (EditApplication (d_uri d) e))
                | Inr b \<Rightarrow> do {
                    rope \<leftarrow> rope_replace (d_rope d) (byte_to_char (d_rope d) a) (byte_to_char (d_rope d) b) (ch_text c);
                    Some (d\<lparr>d_rope := rope, d_format_cache := None\<rparr>, Inr ()) }) }) })"

fun apply_changes :: "'e document \<Rightarrow> change list \<Rightarrow> ('e document \<times> (state_error + unit)) may_panic" where
  "apply_changes d [] = Some (d, Inr ())"
| "apply_changes d (c # cs) = do {
     (d', r) \<leftarrow> apply_change d c;
     (case r of Inl e \<Rightarrow> Some (d', Inl e) | Inr _ \<Rightarrow> apply_changes d' cs)
   }"

definition apply_versioned_changes ::
    "'e document \<Rightarrow> int \<Rightarrow> change list \<Rightarrow> ('e document \<times> (state_error + int option)) may_panic" where
  "apply_versioned_changes d v cs =
     (if v \<le> d_version d then Some (d, Inr None)
      else do {
        (d', r) \<leftarrow> apply_changes d cs;
        Some (case r of
            Inl e \<Rightarrow> (d', Inl e)
          | Inr _ \<Rightarrow> (d'\<lparr>d_version := v\<rparr>, Inr (Some v)))
      })"

section \<open>The reference under the cursor\<close>

definition pos_le :: "lsp_position \<Rightarrow> lsp_position \<Rightarrow> bool" where
  "pos_le a b \<longleftrightarrow> to_pos a \<le> to_pos b"

definition range_contains :: "lsp_range \<Rightarrow> lsp_position \<Rightarrow> bool" where
  "range_contains r p \<longleftrightarrow> pos_le (range_start r) p \<and> pos_le p (range_end r)"

text \<open>On \<open>u64\<close>: both coordinates are \<open>u32\<close>, so the shift loses nothing and \<open>|\<close> adds.\<close>

definition range_length :: "lsp_range \<Rightarrow> nat" where
  "range_length r =
     (pos_line (range_end r) * 2 ^ 32 + pos_character (range_end r))
       - (pos_line (range_start r) * 2 ^ 32 + pos_character (range_start r))"

text \<open>\<open>Iterator::min_by_key\<close>: the first of the elements with the least key.\<close>

fun min_by_key :: "('a \<Rightarrow> nat) \<Rightarrow> 'a list \<Rightarrow> 'a option" where
  "min_by_key f [] = None"
| "min_by_key f (x # xs) =
     (case min_by_key f xs of None \<Rightarrow> Some x | Some y \<Rightarrow> if f y < f x then Some y else Some x)"

definition reference_at_position :: "'e document \<Rightarrow> lsp_position \<Rightarrow> reference option" where
  "reference_at_position d p =
     min_by_key (\<lambda>r. range_length (location_range (ref_location r)))
       (filter (\<lambda>r. range_contains (location_range (ref_location r)) p) (d_references d))"

section \<open>The cached formatter\<close>

definition whole_document_range :: "rope \<Rightarrow> lsp_range may_panic" where
  "whole_document_range rope = do {
     e \<leftarrow> byte_offset_to_lsp_position rope (len_bytes rope);
     Some \<lparr>range_start = \<lparr>pos_line = 0, pos_character = 0\<rparr>,
       range_end = (case e of Inr (l, c) \<Rightarrow> \<lparr>pos_line = l, pos_character = c\<rparr>
         | Inl _ \<Rightarrow> \<lparr>pos_line = (length (lines_of rope) - 1) mod 2 ^ 32, pos_character = 0\<rparr>)\<rparr>
   }"

definition scan_format :: "'e front_end \<Rightarrow> rope \<Rightarrow> format_style \<Rightarrow> text_edit option may_panic" where
  "scan_format F rope style =
     (case fe_format F rope style of
        None \<Rightarrow> Some None
      | Some formatted \<Rightarrow>
          if formatted = rope then Some None
          else do {
            r \<leftarrow> whole_document_range rope;
            Some (Some \<lparr>edit_range = r, new_text = formatted\<rparr>) })"

text \<open>The document with its cache updated, and the edit.\<close>

definition scan_format_cached ::
    "'e front_end \<Rightarrow> 'e document \<Rightarrow> format_style \<Rightarrow> ('e document \<times> text_edit option) may_panic" where
  "scan_format_cached F d style =
     (let fresh = (do {
        edit \<leftarrow> scan_format F (d_rope d) style;
        Some (d\<lparr>d_format_cache := Some \<lparr>fc_version = d_version d, fc_marker = style_marker style, fc_edit = edit\<rparr>\<rparr>, edit) }) in
      case d_format_cache d of
        Some entry \<Rightarrow>
          if fc_version entry = d_version d \<and> fc_marker entry = style_marker style
          then Some (d, fc_edit entry) else fresh
      | None \<Rightarrow> fresh)"


section \<open>Edits in any order\<close>

definition full_sync :: "change list \<Rightarrow> bool" where
  "full_sync cs \<longleftrightarrow> cs \<noteq> [] \<and> list_all (\<lambda>c. ch_range c = None) cs"

definition deliver :: "'e document \<Rightarrow> (int \<times> change list) list \<Rightarrow> 'e document may_panic" where
  "deliver = fold_may (\<lambda>d (v, cs). map_option fst (apply_versioned_changes d v cs))"

lemma apply_changes_full:
  "full_sync cs \<Longrightarrow> apply_changes d cs = Some (d\<lparr>d_rope := ch_text (last cs), d_format_cache := None\<rparr>, Inr ())"
proof (induction cs arbitrary: d)
  case (Cons c cs)
  then show ?case by (cases cs) (auto simp: full_sync_def apply_change_def)
qed (simp add: full_sync_def)

lemma deliver_step:
  assumes "full_sync cs"
  shows "map_option fst (apply_versioned_changes d v cs) =
    Some (if v \<le> d_version d then d
          else d\<lparr>d_rope := ch_text (last cs), d_format_cache := None, d_version := v\<rparr>)"
  by (simp add: apply_versioned_changes_def apply_changes_full [OF assms])

lemma deliver_state:
  assumes "\<forall>(v, cs) \<in> set batches. full_sync cs"
  shows "\<exists>d'. deliver d batches = Some d' \<and> d_uri d' = d_uri d \<and> d_version d \<le> d_version d'
    \<and> (\<forall>(v, cs) \<in> set batches. v \<le> d_version d')
    \<and> (d' = d \<or> (\<exists>cs. (d_version d', cs) \<in> set batches \<and> d_rope d' = ch_text (last cs)))"
  using assms
proof (induction batches arbitrary: d)
  case (Cons b bs)
  obtain v cs where b: "b = (v, cs)" by (cases b)
  let ?d1 = "if v \<le> d_version d then d
          else d\<lparr>d_rope := ch_text (last cs), d_format_cache := None, d_version := v\<rparr>"
  have step: "deliver d (b # bs) = deliver ?d1 bs"
  proof -
    have fs: "full_sync cs" using Cons.prems by (simp add: b)
    show ?thesis unfolding b deliver_def fold_may.simps prod.case deliver_step [OF fs] by simp
  qed
  obtain d' where d': "deliver ?d1 bs = Some d'" "d_uri d' = d_uri ?d1" "d_version ?d1 \<le> d_version d'"
    "\<forall>(v, cs) \<in> set bs. v \<le> d_version d'"
    "d' = ?d1 \<or> (\<exists>cs. (d_version d', cs) \<in> set bs \<and> d_rope d' = ch_text (last cs))"
    using Cons.IH [of ?d1] Cons.prems by auto
  have "d_version d \<le> d_version d'" "v \<le> d_version d'" "d_uri d' = d_uri d"
    using d'(2,3) by (auto split: if_splits)
  moreover have "d' = d \<or> (\<exists>cs. (d_version d', cs) \<in> set (b # bs) \<and> d_rope d' = ch_text (last cs))"
    using d'(5) by (auto simp: b split: if_splits)
  ultimately show ?case using step d'(1,4) by (simp add: b)
qed (simp add: deliver_def)

text \<open>
  C7. Whatever order full-text batches of distinct versions are delivered in, the document ends with the
  text of the newest one and its version: late and duplicate deliveries never overwrite newer text.
\<close>

theorem deliveries_converge:
  assumes "\<forall>(v, cs) \<in> set batches. full_sync cs" "distinct (map fst batches)"
    "(v, cs) \<in> set batches" "\<forall>(w, _) \<in> set batches. w \<le> v" "d_version d < v"
  shows "\<exists>d'. deliver d batches = Some d' \<and> d_version d' = v \<and> d_rope d' = ch_text (last cs)"
proof -
  obtain d' where d': "deliver d batches = Some d'" "\<forall>(v, cs) \<in> set batches. v \<le> d_version d'"
    "d' = d \<or> (\<exists>cs. (d_version d', cs) \<in> set batches \<and> d_rope d' = ch_text (last cs))"
    using deliver_state [OF assms(1), of d] by blast
  have "v \<le> d_version d'" using d'(2) assms(3) by fastforce
  with assms(5) have "d' \<noteq> d" by auto
  then obtain cs' where cs': "(d_version d', cs') \<in> set batches" "d_rope d' = ch_text (last cs')"
    using d'(3) by blast
  have "d_version d' = v" using cs'(1) assms(4) \<open>v \<le> d_version d'\<close> by fastforce
  with cs' assms(2,3) have "cs' = cs" by (metis eq_key_imp_eq_value)
  with d'(1) cs'(2) \<open>d_version d' = v\<close> show ?thesis by blast
qed

definition sample_document :: "nat document" where
  "sample_document = hydrated_from_cache ''u'' [97, 10] empty_table []"

lemma deliveries_converge_witness:
  "\<exists>d'. deliver sample_document [(3, [\<lparr>ch_range = None, ch_text = [98]\<rparr>]), (2, [\<lparr>ch_range = None, ch_text = [99]\<rparr>])]
     = Some d' \<and> d_rope d' = [98]"
proof -
  have "\<exists>d'. deliver sample_document [(3, [\<lparr>ch_range = None, ch_text = [98]\<rparr>]), (2, [\<lparr>ch_range = None, ch_text = [99]\<rparr>])]
     = Some d' \<and> d_version d' = 3 \<and> d_rope d' = ch_text (last [\<lparr>ch_range = None, ch_text = [98]\<rparr>])"
    by (rule deliveries_converge) (simp_all add: full_sync_def sample_document_def hydrated_from_cache_def)
  then show ?thesis by auto
qed

text \<open>
  The edit an editor sends to replace a piece of the text: its offsets, as this server would report
  them.
\<close>

definition edit_range_of :: "rope \<Rightarrow> nat \<Rightarrow> nat \<Rightarrow> lsp_range option" where
  "edit_range_of rope a b =
     (case (byte_offset_to_lsp_position rope a, byte_offset_to_lsp_position rope b) of
        (Some (Inr x), Some (Inr y)) \<Rightarrow> Some (lsp_range_of (x, y))
      | _ \<Rightarrow> None)"

definition splits_crlf :: "rope \<Rightarrow> rope \<Rightarrow> bool" where
  "splits_crlf p s \<longleftrightarrow> p \<noteq> [] \<and> last p = 13 \<and> s \<noteq> [] \<and> hd s = 10"

lemma ranged_edit:
  assumes "d_rope d = p @ m @ s" "len_bytes (d_rope d) < 2 ^ 32"
    "edit_range_of (d_rope d) (len_bytes p) (len_bytes (p @ m)) = Some r"
    "\<not> splits_crlf p (m @ s)" "\<not> splits_crlf (p @ m) s"
  shows "apply_change d \<lparr>ch_range = Some r, ch_text = t\<rparr>
    = Some (d\<lparr>d_rope := p @ t @ s, d_format_cache := None\<rparr>, Inr ())"
proof -
  obtain x y where xy: "byte_offset_to_lsp_position (p @ m @ s) (len_bytes p) = Some (Inr x)"
    "byte_offset_to_lsp_position ((p @ m) @ s) (len_bytes (p @ m)) = Some (Inr y)"
    "r = lsp_range_of (x, y)"
    using assms(3) by (auto simp: edit_range_of_def assms(1) split: option.splits sum.splits)
  have len: "len_bytes (p @ m @ s) < 2 ^ 32" "len_bytes ((p @ m) @ s) < 2 ^ 32"
    using assms(1,2) by simp_all
  have "lsp_position_to_byte_offset (p @ m @ s) x = Some (Inr (len_bytes p))"
    by (rule offset_position_inverse [OF len(1) _ xy(1)]) (use assms(4) in \<open>simp add: splits_crlf_def\<close>)
  moreover have "lsp_position_to_byte_offset ((p @ m) @ s) y = Some (Inr (len_bytes (p @ m)))"
    by (rule offset_position_inverse [OF len(2) _ xy(2)]) (use assms(5) in \<open>simp add: splits_crlf_def\<close>)
  moreover have "byte_to_char (p @ m @ s) (len_bytes p) = length p"
    "byte_to_char ((p @ m) @ s) (len_bytes (p @ m)) = length (p @ m)"
    by (rule byte_to_char_append)+
  ultimately show ?thesis
    by (cases x; cases y)
      (simp add: apply_change_def assms(1) xy(3) lsp_range_of_def to_pos_def rope_replace_def)
qed

text \<open>
  A ranged edit replaces exactly the piece it names: on a text under 4 GiB, an edit whose range was
  computed from the offsets of a piece \<open>m\<close> puts the new text in its place, keeps what is before and
  after it, keeps the version, and drops the cached format.
\<close>

theorem ranged_edit_replaces:
  assumes "d_rope d = p @ m @ s" "len_bytes (d_rope d) < 2 ^ 32"
    "edit_range_of (d_rope d) (len_bytes p) (len_bytes (p @ m)) = Some r"
    "\<not> splits_crlf p (m @ s)" "\<not> splits_crlf (p @ m) s"
  shows "apply_change d \<lparr>ch_range = Some r, ch_text = t\<rparr>
    = Some (d\<lparr>d_rope := p @ t @ s, d_format_cache := None\<rparr>, Inr ())"
  using assms by (rule ranged_edit)

lemma ranged_edit_replaces_witness:
  "\<exists>d'. apply_change sample_document \<lparr>ch_range = Some \<lparr>range_start = \<lparr>pos_line = 0, pos_character = 1\<rparr>,
       range_end = \<lparr>pos_line = 1, pos_character = 0\<rparr>\<rparr>, ch_text = [120, 121]\<rparr> = Some (d', Inr ())
     \<and> d_rope d' = [97, 120, 121]"
proof -
  let ?r = "\<lparr>range_start = \<lparr>pos_line = 0, pos_character = 1\<rparr>, range_end = \<lparr>pos_line = 1, pos_character = 0\<rparr>\<rparr>"
  have "d_rope sample_document = [97] @ [10] @ []"
    by (simp add: sample_document_def hydrated_from_cache_def)
  moreover have "edit_range_of ([97] @ [10] @ []) (len_bytes [97]) (len_bytes ([97] @ [10])) = Some ?r"
    by (simp add: edit_range_of_def span_eval Let_def)
  ultimately have "apply_change sample_document \<lparr>ch_range = Some ?r, ch_text = [120, 121]\<rparr>
    = Some (sample_document\<lparr>d_rope := [97] @ [120, 121] @ [], d_format_cache := None\<rparr>, Inr ())"
    using ranged_edit_replaces [of sample_document "[97]" "[10]" "[]" ?r "[120, 121]"]
    by (simp add: splits_crlf_def utf8_len_def)
  then show ?thesis by simp
qed


section \<open>The invariant of a document\<close>

definition document_ok :: "'e document \<Rightarrow> bool" where
  "document_ok d \<longleftrightarrow> table_ok (d_uri d) (d_symbols d)
     \<and> list_all (\<lambda>r. loc_uri (ref_location r) = d_uri d) (d_references d)
     \<and> list_all (\<lambda>s. loc_uri (sym_location s) = d_uri d) (d_test_runs d)
     \<and> (is_tftest_uri (d_uri d) \<longrightarrow> d_symbols d = empty_table)
     \<and> (\<not> is_tftest_uri (d_uri d) \<longrightarrow> d_test_runs d = [])
     \<and> list_all scalar (d_rope d)"

definition cache_ok :: "'e front_end \<Rightarrow> 'e document \<Rightarrow> bool" where
  "cache_ok F d \<longleftrightarrow>
     (case d_format_cache d of
        None \<Rightarrow> True
      | Some e \<Rightarrow> fc_version e \<le> d_version d
          \<and> (fc_version e = d_version d \<longrightarrow>
               (\<forall>style. fc_marker e = style_marker style \<longrightarrow> scan_format F (d_rope d) style = Some (fc_edit e))))"

lemma loc_uri_new [simp]: "loc_uri (location_new u r) = u"
  by (simp add: location_new_def)

lemma extract_references_uri:
  "extract_references b u rope = Some rs \<Longrightarrow> r \<in> set rs \<Longrightarrow> loc_uri (ref_location r) = u"
  using extract_references_iff [of b u rope rs r] by auto

lemma fallback_references_uri:
  assumes "list_all scalar rope" "extract_references_fallback (to_utf8 rope) u rope = Some rs" "r \<in> set rs"
  shows "loc_uri (ref_location r) = u"
  using extract_references_fallback_ok [OF from_to_utf8 [OF assms(1)], of u] assms(2,3)
  by (auto simp: spelled_at_def)

lemma extract_test_symbols_uri:
  assumes "extract_test_symbols b u rope = Some runs"
  shows "list_all (\<lambda>s. loc_uri (sym_location s) = u) runs"
  using assms unfolding extract_test_symbols_def
proof (rule fold_may_invariant)
  fix runs i runs'
  assume "list_all (\<lambda>s. loc_uri (sym_location s) = u) runs" "extract_test_block u rope runs i = Some runs'"
  then show "list_all (\<lambda>s. loc_uri (sym_location s) = u) runs'"
    by (auto simp: extract_test_block_def bind_eq_Some_conv dest!: with_symbol_Some build_symbol_Some
        split: body_item.splits prod.splits list.splits if_splits option.splits)
qed simp

lemma compute_analysis_ok:
  assumes "compute_analysis p u rope = Some (symbols, refs, runs)" "list_all scalar rope"
  shows "table_ok u symbols \<and> list_all (\<lambda>r. loc_uri (ref_location r) = u) refs
    \<and> list_all (\<lambda>s. loc_uri (sym_location s) = u) runs
    \<and> (is_tftest_uri u \<longrightarrow> symbols = empty_table) \<and> (\<not> is_tftest_uri u \<longrightarrow> runs = [])"
proof (cases "if has_errors p then None else body p")
  case None
  with assms(1) have an: "(if is_tftest_uri u then Some empty_table else extract_symbols_fallback (to_utf8 rope) u rope) = Some symbols"
    "extract_references_fallback (to_utf8 rope) u rope = Some refs" "runs = []"
    by (simp_all add: compute_analysis_def bind_eq_Some_conv Let_def del: if_split)
  have "list_all (\<lambda>r. loc_uri (ref_location r) = u) refs"
    using fallback_references_uri [OF assms(2) an(2)] by (simp add: list_all_iff)
  moreover have "table_ok u symbols"
    using an(1) extract_symbols_fallback_ok [OF from_to_utf8 [OF assms(2)], of u]
    by (auto simp: empty_table_ok split: if_splits)
  ultimately show ?thesis using an(1,3) by (auto split: if_splits)
next
  case (Some b)
  with assms(1) have an: "(if is_tftest_uri u then Some empty_table else extract_symbols b u rope) = Some symbols"
    "extract_references b u rope = Some refs"
    "(if is_tftest_uri u then extract_test_symbols b u rope else Some []) = Some runs"
    by (simp_all add: compute_analysis_def bind_eq_Some_conv Let_def del: if_split)
  have "list_all (\<lambda>r. loc_uri (ref_location r) = u) refs"
    using extract_references_uri [OF an(2)] by (simp add: list_all_iff)
  moreover have "table_ok u symbols"
    using an(1) extract_symbols_ok [of b u rope symbols] by (auto simp: empty_table_ok split: if_splits)
  moreover have "list_all (\<lambda>s. loc_uri (sym_location s) = u) runs"
    using an(3) extract_test_symbols_uri [of b u rope runs] by (auto split: if_splits)
  ultimately show ?thesis using an(1,3) by (auto split: if_splits)
qed

lemma document_new_ok:
  assumes "document_new F u rope v = Some d" "list_all scalar rope"
  shows "document_ok d \<and> cache_ok F d"
proof -
  obtain p symbols refs runs where an: "compute_analysis p u rope = Some (symbols, refs, runs)"
    and d: "d = \<lparr>d_uri = u, d_rope = rope, d_version = v, d_parsed = p, d_symbols = symbols,
       d_references = refs, d_test_runs = runs, d_format_cache = None\<rparr>"
    using assms(1) by (auto simp: document_new_def bind_eq_Some_conv)
  show ?thesis
    using compute_analysis_ok [OF an assms(2)] assms(2) by (simp add: d document_ok_def cache_ok_def)
qed

lemma reparse_cases:
  assumes "reparse F d = Some d'"
  obtains p where "parse_document F (d_rope d) (d_uri d) = Some p" "body p = None" "d' = d\<lparr>d_parsed := p\<rparr>"
  | p symbols refs runs where "parse_document F (d_rope d) (d_uri d) = Some p" "body p \<noteq> None"
      "compute_analysis p (d_uri d) (d_rope d) = Some (symbols, refs, runs)"
      "d' = d\<lparr>d_parsed := p, d_symbols := symbols, d_references := refs, d_test_runs := runs\<rparr>"
proof -
  obtain p where p: "parse_document F (d_rope d) (d_uri d) = Some p"
    using assms by (auto simp: reparse_def bind_eq_Some_conv)
  show thesis
  proof (cases "body p = None")
    case True
    with assms p that(1) show ?thesis by (simp add: reparse_def)
  next
    case False
    then obtain symbols refs runs where an: "compute_analysis p (d_uri d) (d_rope d) = Some (symbols, refs, runs)"
      using assms p by (auto simp: reparse_def bind_eq_Some_conv)
    with assms p False have "d' = d\<lparr>d_parsed := p, d_symbols := symbols, d_references := refs, d_test_runs := runs\<rparr>"
      by (simp add: reparse_def)
    with that(2) p False an show ?thesis by blast
  qed
qed

lemma reparse_ok:
  assumes "reparse F d = Some d'" "document_ok d"
  shows "document_ok d' \<and> (cache_ok F d \<longrightarrow> cache_ok F d')"
  using assms(1)
proof (cases rule: reparse_cases)
  case 1
  show ?thesis using assms(2) unfolding 1(3) document_ok_def cache_ok_def by (simp cong: option.case_cong)
next
  case (2 p symbols refs runs)
  have "list_all scalar (d_rope d)" using assms(2) by (simp add: document_ok_def)
  from compute_analysis_ok [OF 2(3) this] assms(2) show ?thesis
    unfolding 2(4) document_ok_def cache_ok_def by (simp cong: option.case_cong)
qed

text \<open>An edit changes nothing but the text and the format cache.\<close>

lemma replaced_piece:
  assumes "rope_replace r a b t = Some r'"
  shows "\<exists>p m s. r = p @ m @ s \<and> r' = p @ t @ s"
proof -
  have ab: "a \<le> b" "r' = take a r @ t @ drop b r"
    using assms by (auto simp: rope_replace_def split: if_splits)
  have "r = take a r @ take (b - a) (drop a r) @ drop b r"
    using ab(1) by (metis append_take_drop_id drop_drop le_add_diff_inverse2)
  with ab(2) show ?thesis by blast
qed

lemma apply_change_cases:
  assumes "apply_change d c = Some (d', r)"
  shows "d' = d \<or> (\<exists>rope p m s. d' = d\<lparr>d_rope := rope, d_format_cache := None\<rparr>
    \<and> d_rope d = p @ m @ s \<and> rope = p @ ch_text c @ s)"
proof (cases "ch_range c")
  case None
  with assms have "d' = d\<lparr>d_rope := ch_text c, d_format_cache := None\<rparr>" by (simp add: apply_change_def)
  then show ?thesis by (intro disjI2 exI [of _ "ch_text c"] exI [of _ "[]"] exI [of _ "d_rope d"]) simp
next
  case (Some g)
  consider "d' = d" | a b rope where "rope_replace (d_rope d) a b (ch_text c) = Some rope"
      "d' = d\<lparr>d_rope := rope, d_format_cache := None\<rparr>"
  proof -
    obtain x where x: "lsp_position_to_byte_offset (d_rope d) (to_pos (range_start g)) = Some x"
      using assms Some by (auto simp: apply_change_def bind_eq_Some_conv)
    show thesis
    proof (cases x)
      case (Inl e)
      with assms Some x that(1) show ?thesis by (simp add: apply_change_def)
    next
      case (Inr a)
      then obtain y where y: "lsp_position_to_byte_offset (d_rope d) (to_pos (range_end g)) = Some y"
        using assms Some x by (auto simp: apply_change_def bind_eq_Some_conv)
      show ?thesis
      proof (cases y)
        case (Inl e)
        with assms Some x Inr y that(1) show ?thesis by (simp add: apply_change_def)
      next
        case b: (Inr b)
        with assms Some x Inr y that(2) show ?thesis by (auto simp: apply_change_def bind_eq_Some_conv)
      qed
    qed
  qed
  then show ?thesis
  proof cases
    case (2 a b rope)
    from replaced_piece [OF 2(1)] 2(2) show ?thesis by blast
  qed simp
qed

lemma apply_change_ok:
  assumes "apply_change d c = Some (d', r)" "document_ok d" "list_all scalar (ch_text c)"
  shows "document_ok d' \<and> (cache_ok F d \<longrightarrow> cache_ok F d') \<and> d_version d' = d_version d"
  using apply_change_cases [OF assms(1)]
proof (elim disjE exE conjE)
  fix rope p m s
  assume d': "d' = d\<lparr>d_rope := rope, d_format_cache := None\<rparr>"
    and rope: "d_rope d = p @ m @ s" "rope = p @ ch_text c @ s"
  have "list_all scalar rope"
    using assms(2,3) by (simp add: document_ok_def rope)
  with assms(2) show ?thesis by (simp add: d' document_ok_def cache_ok_def)
qed (use assms in simp)

lemma apply_changes_ok:
  assumes "apply_changes d cs = Some (d', r)" "document_ok d"
    "list_all (\<lambda>c. list_all scalar (ch_text c)) cs"
  shows "document_ok d' \<and> (cache_ok F d \<longrightarrow> cache_ok F d') \<and> d_version d' = d_version d"
  using assms
proof (induction cs arbitrary: d)
  case (Cons c cs)
  obtain d1 r1 where step: "apply_change d c = Some (d1, r1)"
    using Cons.prems(1) by (auto simp: bind_eq_Some_conv)
  have ok: "document_ok d1 \<and> (cache_ok F d \<longrightarrow> cache_ok F d1) \<and> d_version d1 = d_version d"
    using apply_change_ok [OF step Cons.prems(2)] Cons.prems(3) by simp
  with Cons.prems(1) step Cons.IH [of d1] Cons.prems(3) show ?case
    by (auto split: sum.splits)
qed simp

lemma apply_versioned_ok:
  assumes "apply_versioned_changes d v cs = Some (d', r)" "document_ok d"
    "list_all (\<lambda>c. list_all scalar (ch_text c)) cs"
  shows "document_ok d' \<and> (cache_ok F d \<longrightarrow> cache_ok F d')"
proof (cases "v \<le> d_version d")
  case False
  then obtain d1 r1 where step: "apply_changes d cs = Some (d1, r1)"
    using assms(1) by (auto simp: apply_versioned_changes_def bind_eq_Some_conv)
  note ok = apply_changes_ok [OF step assms(2,3), of F]
  from assms(1) False step have "d' = d1 \<or> d' = d1\<lparr>d_version := v\<rparr>"
    by (auto simp: apply_versioned_changes_def split: sum.splits)
  then show ?thesis
  proof
    assume d': "d' = d1\<lparr>d_version := v\<rparr>"
    have "d_version d1 < v" using ok False by simp
    with ok show ?thesis unfolding d' document_ok_def cache_ok_def by (auto split: option.splits)
  qed (use ok in simp)
qed (use assms in \<open>simp add: apply_versioned_changes_def\<close>)

lemma style_marker_inj: "style_marker a = style_marker b \<longleftrightarrow> a = b"
  by (cases a; cases b) (simp_all add: style_marker_def)

lemma scan_format_cached_fresh:
  assumes "scan_format_cached F d style = Some (d', edit)" "cache_ok F d"
  shows "scan_format F (d_rope d) style = Some edit \<and> cache_ok F d' \<and> (document_ok d \<longrightarrow> document_ok d')"
proof -
  have fresh: ?thesis
    if "(do { edit \<leftarrow> scan_format F (d_rope d) style;
        Some (d\<lparr>d_format_cache := Some \<lparr>fc_version = d_version d, fc_marker = style_marker style, fc_edit = edit\<rparr>\<rparr>, edit) })
      = Some (d', edit)"
    using that by (auto simp: bind_eq_Some_conv cache_ok_def document_ok_def style_marker_inj)
  show ?thesis
  proof (cases "d_format_cache d")
    case None
    with assms(1) show ?thesis by (intro fresh) (simp add: scan_format_cached_def)
  next
    case (Some e)
    show ?thesis
    proof (cases "fc_version e = d_version d \<and> fc_marker e = style_marker style")
      case True
      with Some assms show ?thesis by (simp add: scan_format_cached_def cache_ok_def)
    next
      case False
      with Some assms(1) show ?thesis by (intro fresh) (simp add: scan_format_cached_def)
    qed
  qed
qed


text \<open>
  The documents a server holds: opened or hydrated from the index cache, then edited in batches (a
  failed batch leaves the document it has reached), re-analysed, and formatted.
\<close>

inductive held_document :: "'e front_end \<Rightarrow> 'e document \<Rightarrow> bool" for F where
  opened: "list_all scalar rope \<Longrightarrow> document_new F u rope v = Some d \<Longrightarrow> held_document F d"
| hydrated: "d = hydrated_from_cache u rope symbols refs \<Longrightarrow> document_ok d \<Longrightarrow> held_document F d"
| edited: "held_document F d \<Longrightarrow> list_all (\<lambda>c. list_all scalar (ch_text c)) cs \<Longrightarrow>
    apply_versioned_changes d v cs = Some (d', r) \<Longrightarrow> held_document F d'"
| reparsed: "held_document F d \<Longrightarrow> reparse F d = Some d' \<Longrightarrow> held_document F d'"
| formatted: "held_document F d \<Longrightarrow> scan_format_cached F d style = Some (d', edit) \<Longrightarrow> held_document F d'"

lemma held_document_ok: "held_document F d \<Longrightarrow> document_ok d \<and> cache_ok F d"
proof (induction rule: held_document.induct)
  case (opened rope u v d)
  then show ?case using document_new_ok by blast
next
  case (hydrated d u rope symbols refs)
  then show ?case by (simp add: cache_ok_def hydrated_from_cache_def)
next
  case (edited d cs v d' r)
  then show ?case using apply_versioned_ok by blast
next
  case (reparsed d d')
  then show ?case using reparse_ok by blast
next
  case (formatted d style d' edit)
  then show ?case using scan_format_cached_fresh by blast
qed

text \<open>
  C33. Whatever happened to a document, its symbols, references and test runs all carry its own URI, its
  symbol table is well formed, a test file never exports a module symbol, and a cached edit whose version and style
  are current is what formatting the text of the document gives now.
\<close>

theorem document_invariant:
  assumes "held_document F d"
  shows "document_ok d \<and> cache_ok F d"
  using held_document_ok [OF assms] .

text \<open>
  The format cache is transparent: on any document a server can hold, after any edits, re-analyses
  and style changes, the cached formatter returns exactly what formatting the current text returns.
\<close>

theorem cached_format_exact:
  assumes "held_document F d" "scan_format_cached F d style = Some (d', edit)"
  shows "scan_format F (d_rope d) style = Some edit"
  using scan_format_cached_fresh [OF assms(2)] held_document_ok [OF assms(1)] by blast

section \<open>Opening a document returns\<close>

definition survives :: "'e front_end \<Rightarrow> bool" where
  "survives F \<longleftrightarrow> (\<forall>src. parse_body (fe_hcl F) src \<noteq> None)"

text \<open>
  The spans of a body parsed without error are character boundaries of its text (the parser's
  contract). Bodies that carry errors are not walked.
\<close>

definition spans_aligned :: "'e front_end \<Rightarrow> bool" where
  "spans_aligned F \<longleftrightarrow>
     (\<forall>rope u p b. parse_document F rope u = Some p \<and> \<not> has_errors p \<and> body p = Some b
        \<longrightarrow> list_all (item_aligned rope) b)"

lemma compute_analysis_total:
  assumes "list_all scalar rope" "\<And>b. \<not> has_errors p \<Longrightarrow> body p = Some b \<Longrightarrow> list_all (item_aligned rope) b"
  shows "compute_analysis p u rope \<noteq> None"
proof (cases "if has_errors p then None else body p")
  case None
  then show ?thesis
    using extract_symbols_fallback_ok [OF from_to_utf8 [OF assms(1)], of u]
      extract_references_fallback_ok [OF from_to_utf8 [OF assms(1)], of u]
    by (auto simp: compute_analysis_def Let_def)
next
  case (Some b)
  then have b: "list_all (item_aligned rope) b" using assms(2) by (auto split: if_splits)
  obtain t refs runs where "extract_symbols b u rope = Some t" "extract_references b u rope = Some refs"
    "extract_test_symbols b u rope = Some runs"
    using extract_symbols_total [OF b] extract_references_total [OF b] extract_test_symbols_total [OF b]
    by (metis option.exhaust)
  with Some show ?thesis by (simp add: compute_analysis_def Let_def)
qed

lemma parse_document_total: "survives F \<Longrightarrow> \<exists>p. parse_document F rope u = Some p"
proof -
  assume F: "survives F"
  have "parse_source_recovering (fe_errors F) (fe_hcl F) rope \<noteq> None"
    using parse_source_recovering_total [of "fe_hcl F" "fe_errors F" rope] F by (simp add: survives_def)
  then show ?thesis by (auto simp: parse_document_def parse_source_recovering_for_uri_def)
qed

text \<open>
  Opening and re-analysing a document always return: if the parser survives its input (or the nesting
  guard refuses it) and the spans of a clean parse are aligned, no text, however broken, makes the
  analysis panic.
\<close>

theorem analysis_returns:
  assumes "survives F" "spans_aligned F" "list_all scalar rope"
  shows "(\<exists>d. document_new F u rope v = Some d) \<and> (d_rope d0 = rope \<longrightarrow> (\<exists>d. reparse F d0 = Some d))"
proof -
  have an: "compute_analysis p u rope \<noteq> None" if "parse_document F rope u = Some p" for u p
    by (rule compute_analysis_total [OF assms(3)]) (use assms(2) that in \<open>auto simp: spans_aligned_def\<close>)
  obtain p where p: "parse_document F rope u = Some p" using parse_document_total [OF assms(1)] by blast
  with an [OF p] have "\<exists>d. document_new F u rope v = Some d"
    by (auto simp: document_new_def)
  moreover have "\<exists>d. reparse F d0 = Some d" if "d_rope d0 = rope"
  proof -
    obtain p where p: "parse_document F rope (d_uri d0) = Some p" using parse_document_total [OF assms(1)] by blast
    with an [OF p] that show ?thesis by (auto simp: reparse_def)
  qed
  ultimately show ?thesis by blast
qed

lemma min_by_key_spec:
  "min_by_key f xs = Some y \<Longrightarrow> y \<in> set xs \<and> (\<forall>x \<in> set xs. f y \<le> f x)"
  "min_by_key f xs = None \<longleftrightarrow> xs = []"
proof (induction xs arbitrary: y)
  case (Cons x xs)
  { case 1
    with Cons show ?case by (cases "min_by_key f xs") (fastforce split: if_splits)+
  next
    case 2
    show ?case by (auto split: option.split)
  }
qed auto

text \<open>
  The reference found under the cursor is one of the document's references whose range contains the
  cursor, and none of those is shorter; none is found only when no range contains it.
\<close>

theorem reference_at_position_smallest:
  "(case reference_at_position d p of
      None \<Rightarrow> filter (\<lambda>r. range_contains (location_range (ref_location r)) p) (d_references d) = []
    | Some r \<Rightarrow> r \<in> set (d_references d) \<and> range_contains (location_range (ref_location r)) p
        \<and> list_all (\<lambda>r'. range_length (location_range (ref_location r)) \<le> range_length (location_range (ref_location r')))
           (filter (\<lambda>r. range_contains (location_range (ref_location r)) p) (d_references d)))"
proof (cases "reference_at_position d p")
  case None
  then show ?thesis by (simp add: reference_at_position_def min_by_key_spec(2))
next
  case (Some r)
  from min_by_key_spec(1) [OF this [unfolded reference_at_position_def]] Some show ?thesis
    by (auto simp: list_all_iff)
qed


section \<open>Concrete documents\<close>

text \<open>A front end whose parser accepts the empty body only, and whose formatter drops every space.\<close>

definition tiny_front :: "nat front_end" where
  "tiny_front = \<lparr>fe_errors = bang_errors,
     fe_hcl = (\<lambda>src. if src = [] then Returned (Inr []) else Returned (Inl 0)),
     fe_json = (\<lambda>_. \<lparr>body = None, errors = []\<rparr>),
     fe_format = (\<lambda>r _. Some (filter (\<lambda>c. c \<noteq> 32) r))\<rparr>"

lemma tiny_survives: "survives tiny_front"
  by (auto simp: survives_def tiny_front_def parse_body_def catch_def split: option.split)

lemma parse_body_Inr: "parse_body parser src = Some (Inr b) \<Longrightarrow> parser src = Returned (Inr b)"
  by (auto simp: parse_body_def catch_def split: option.splits outcome.splits sum.splits)

lemma clean_parse_body:
  assumes "parse_document F rope u = Some p" "\<not> has_errors p" "body p = Some b" "\<not> is_json_uri u"
  shows "fe_hcl F rope = Returned (Inr b)"
proof -
  from assms(1,4) have p: "parse_source_recovering (fe_errors F) (fe_hcl F) rope = Some p"
    by (simp add: parse_document_def parse_source_recovering_for_uri_def)
  then obtain strict where strict: "parse_source (fe_errors F) (fe_hcl F) rope = Some strict"
    by (auto simp: parse_source_recovering_def bind_eq_Some_conv)
  with p have "errors p = errors strict"
    by (auto simp: parse_source_recovering_def bind_eq_Some_conv split: if_splits option.splits)
  then have "errors strict = []" using assms(2) by (simp add: has_errors_def)
  with p strict have "p = strict" by (simp add: parse_source_recovering_def)
  obtain r where r: "parse_body (fe_hcl F) rope = Some r"
    using strict by (auto simp: parse_source_def bind_eq_Some_conv)
  have "r = Inr b"
  proof (cases r)
    case (Inl e)
    with r strict \<open>p = strict\<close> assms(3) show ?thesis by (cases e) (auto simp: parse_source_def)
  next
    case (Inr b')
    with r strict \<open>p = strict\<close> assms(3) show ?thesis by (auto simp: parse_source_def)
  qed
  with r have "parse_body (fe_hcl F) rope = Some (Inr b)" by simp
  then show ?thesis by (rule parse_body_Inr)
qed

lemma tiny_aligned: "spans_aligned tiny_front"
proof -
  have "b = []" if "parse_document tiny_front rope u = Some p" "\<not> has_errors p" "body p = Some b" for rope u p b
  proof (cases "is_json_uri u")
    case True
    with that show ?thesis
      by (auto simp: parse_document_def parse_source_recovering_for_uri_def tiny_front_def)
  next
    case False
    from clean_parse_body [OF that False] show ?thesis by (auto simp: tiny_front_def split: if_splits)
  qed
  then show ?thesis by (fastforce simp: spans_aligned_def)
qed

lemma sample_document_held: "held_document F sample_document"
  by (rule held_document.hydrated [of _ "''u''" "[97, 10]" empty_table "[]"])
    (simp_all add: sample_document_def hydrated_from_cache_def document_ok_def empty_table_ok scalar_def)

lemma document_invariant_witness:
  "\<exists>d. apply_versioned_changes sample_document 1 [\<lparr>ch_range = None, ch_text = [120]\<rparr>] = Some (d, Inr (Some 1)) \<and> document_ok d \<and> cache_ok tiny_front d"
proof -
  obtain d where d: "apply_versioned_changes sample_document 1 [\<lparr>ch_range = None, ch_text = [120]\<rparr>] = Some (d, Inr (Some 1))"
    by (simp add: apply_versioned_changes_def apply_change_def sample_document_def hydrated_from_cache_def)
  have "held_document tiny_front d"
    by (rule held_document.edited [OF sample_document_held _ d]) (simp add: scalar_def)
  from document_invariant [OF this] d show ?thesis by blast
qed

lemma analysis_returns_witness: "\<exists>d. document_new tiny_front ''a.tf'' [118, 32, 123] 1 = Some d"
  using analysis_returns [OF tiny_survives tiny_aligned, of "[118, 32, 123]" "''a.tf''" 1]
  by (simp add: scalar_def)

lemma cached_format_exact_witness:
  "\<exists>d e. scan_format_cached tiny_front sample_document Minimal = Some (d, e) \<and> d_format_cache d \<noteq> None
     \<and> (\<exists>d'. scan_format_cached tiny_front d Minimal = Some (d', e))
     \<and> scan_format tiny_front (d_rope d) Minimal = Some e"
proof -
  obtain d e where d: "scan_format_cached tiny_front sample_document Minimal = Some (d, e)" "d_format_cache d \<noteq> None"
      "scan_format_cached tiny_front d Minimal = Some (d, e)"
    by (simp add: scan_format_cached_def scan_format_def tiny_front_def sample_document_def hydrated_from_cache_def)
  have "held_document tiny_front d"
    by (rule held_document.formatted [OF sample_document_held d(1)])
  from cached_format_exact [OF this d(3)] d show ?thesis by blast
qed

end
