(* ===== verification/Store.thy ===== *)
theory Store
  imports Document
begin

text \<open>
  The document half of \<^verbatim>\<open>crates/tfls-state/src/store.rs\<close>: the documents, the two global
  indexes kept beside them (definitions and references by key), and the operations that change them.
  Every mutator takes \<open>index_lock\<close> for its whole run, so each is one step. The other caches of the
  store are in \<^theory_text>\<open>Workspace\<close>.
\<close>

section \<open>State\<close>

record symbol_key =
  key_kind :: symbol_kind
  key_name :: string

definition resource_key :: "symbol_kind \<Rightarrow> string \<Rightarrow> string \<Rightarrow> symbol_key" where
  "resource_key kind ty name = \<lparr>key_kind = kind, key_name = ty @ ''.'' @ name\<rparr>"

type_synonym index = "(symbol_key, symbol_location list) hash_map"

record 'e store =
  documents :: "(string, 'e document) hash_map"
  definitions_by_name :: index
  references_by_name :: index
  open_docs :: "string list"

definition store_new :: "'e store" where
  "store_new = \<lparr>documents = [], definitions_by_name = [], references_by_name = [], open_docs = []\<rparr>"

definition mark_open :: "string \<Rightarrow> 'e store \<Rightarrow> 'e store" where
  "mark_open u s = s\<lparr>open_docs := List.insert u (open_docs s)\<rparr>"

definition mark_closed :: "string \<Rightarrow> 'e store \<Rightarrow> 'e store" where
  "mark_closed u s = s\<lparr>open_docs := removeAll u (open_docs s)\<rparr>"

definition is_open :: "'e store \<Rightarrow> string \<Rightarrow> bool" where
  "is_open s u \<longleftrightarrow> u \<in> set (open_docs s)"

section \<open>The keys of a document\<close>

definition reference_key :: "reference_kind \<Rightarrow> symbol_key" where
  "reference_key k =
     (case k of
        RefVariable n \<Rightarrow> \<lparr>key_kind = Variable, key_name = n\<rparr>
      | RefLocal n \<Rightarrow> \<lparr>key_kind = Local, key_name = n\<rparr>
      | RefModule n \<Rightarrow> \<lparr>key_kind = Module, key_name = n\<rparr>
      | RefResource t n \<Rightarrow> resource_key Resource t n
      | RefDataSource t n \<Rightarrow> resource_key DataSource t n)"

definition keyed_by_name :: "symbol_kind \<Rightarrow> (string, symbol) hash_map \<Rightarrow> (symbol_key \<times> symbol_location) list" where
  "keyed_by_name kind m = map (\<lambda>(n, s). (\<lparr>key_kind = kind, key_name = n\<rparr>, sym_location s)) m"

definition keyed_by_address ::
    "symbol_kind \<Rightarrow> (resource_address, symbol) hash_map \<Rightarrow> (symbol_key \<times> symbol_location) list" where
  "keyed_by_address kind m = map (\<lambda>(a, s). (resource_key kind (resource_type a) (rname a), sym_location s)) m"

text \<open>What \<open>add_to_indexes\<close> pushes for a document, in its order.\<close>

definition document_definitions :: "'e document \<Rightarrow> (symbol_key \<times> symbol_location) list" where
  "document_definitions d =
     (let t = d_symbols d in
      keyed_by_name Variable (variables t) @ keyed_by_name Local (locals t) @ keyed_by_name Output (outputs t)
      @ keyed_by_name Module (modules t) @ keyed_by_address Resource (resources t)
      @ keyed_by_address DataSource (data_sources t))"

definition document_references :: "'e document \<Rightarrow> (symbol_key \<times> symbol_location) list" where
  "document_references d = map (\<lambda>r. (reference_key (ref_kind r), ref_location r)) (d_references d)"

record doc_keys =
  dk_definitions :: "symbol_key list"
  dk_references :: "symbol_key list"

definition collect_doc_keys :: "'e document \<Rightarrow> doc_keys" where
  "collect_doc_keys d =
     (let t = d_symbols d; names = (\<lambda>kind m. map (\<lambda>(n, _). \<lparr>key_kind = kind, key_name = n\<rparr>) m);
          addrs = (\<lambda>kind m. map (\<lambda>(a, _). resource_key kind (resource_type a) (rname a)) m) in
      \<lparr>dk_definitions = names Variable (variables t) @ names Local (locals t) @ names Output (outputs t)
         @ names Module (modules t) @ addrs Resource (resources t) @ addrs DataSource (data_sources t),
       dk_references = map (\<lambda>r. reference_key (ref_kind r)) (d_references d)\<rparr>)"

section \<open>Maintaining an index\<close>

definition locations_at :: "index \<Rightarrow> symbol_key \<Rightarrow> symbol_location list" where
  "locations_at idx k = (case hm_get idx k of None \<Rightarrow> [] | Some ls \<Rightarrow> ls)"

text \<open>\<open>entry(k).or_default().push(loc)\<close>.\<close>

definition index_push :: "symbol_key \<times> symbol_location \<Rightarrow> index \<Rightarrow> index" where
  "index_push kl idx = hm_insert (fst kl) (locations_at idx (fst kl) @ [snd kl]) idx"

definition index_add :: "(symbol_key \<times> symbol_location) list \<Rightarrow> index \<Rightarrow> index" where
  "index_add kls idx = fold index_push kls idx"

text \<open>\<open>get_mut(k)\<close> and \<open>retain(|loc| loc.uri != uri)\<close>.\<close>

definition index_drop_key :: "string \<Rightarrow> symbol_key \<Rightarrow> index \<Rightarrow> index" where
  "index_drop_key u k idx = map (\<lambda>(k', ls). (k', if k' = k then filter (\<lambda>l. loc_uri l \<noteq> u) ls else ls)) idx"

definition index_drop :: "string \<Rightarrow> symbol_key list \<Rightarrow> index \<Rightarrow> index" where
  "index_drop u ks idx = filter (\<lambda>(_, ls). ls \<noteq> []) (fold (index_drop_key u) ks idx)"

definition add_to_indexes :: "'e document \<Rightarrow> 'e store \<Rightarrow> 'e store" where
  "add_to_indexes d s = s\<lparr>definitions_by_name := index_add (document_definitions d) (definitions_by_name s),
     references_by_name := index_add (document_references d) (references_by_name s)\<rparr>"

definition remove_from_indexes :: "string \<Rightarrow> 'e store \<Rightarrow> 'e store" where
  "remove_from_indexes u s =
     (case hm_get (documents s) u of
        None \<Rightarrow> s
      | Some d \<Rightarrow>
          (let ks = collect_doc_keys d in
           s\<lparr>definitions_by_name := index_drop u (dk_definitions ks) (definitions_by_name s),
             references_by_name := index_drop u (dk_references ks) (references_by_name s)\<rparr>))"

section \<open>Operations\<close>

definition hm_remove :: "'k \<Rightarrow> ('k, 'v) hash_map \<Rightarrow> ('k, 'v) hash_map" where
  "hm_remove k m = AList.delete k m"

definition upsert_document :: "'e document \<Rightarrow> 'e store \<Rightarrow> 'e store" where
  "upsert_document d s =
     (let s' = add_to_indexes d (remove_from_indexes (d_uri d) s) in
      s'\<lparr>documents := hm_insert (d_uri d) d (documents s')\<rparr>)"

definition upsert_document_unless_open :: "'e document \<Rightarrow> 'e store \<Rightarrow> 'e store \<times> bool" where
  "upsert_document_unless_open d s = (if is_open s (d_uri d) then (s, False) else (upsert_document d s, True))"

text \<open>\<open>get_mut\<close> on a document that is present, then an update of it in place.\<close>

definition put_document :: "string \<Rightarrow> 'e document \<Rightarrow> 'e store \<Rightarrow> 'e store" where
  "put_document u d s = s\<lparr>documents := hm_insert u d (documents s)\<rparr>"

definition apply_and_reparse_document ::
    "'e front_end \<Rightarrow> string \<Rightarrow> int \<Rightarrow> change list \<Rightarrow> 'e store \<Rightarrow> ('e store \<times> (state_error + int option)) may_panic" where
  "apply_and_reparse_document F u v cs s =
     (let s1 = remove_from_indexes u s in
      case hm_get (documents s1) u of
        None \<Rightarrow> Some (s1, Inr None)
      | Some d \<Rightarrow> do {
          (d1, r) \<leftarrow> apply_versioned_changes d v cs;
          (case r of
             Inl e \<Rightarrow> Some (put_document u d1 s1, Inl e)
           | Inr applied \<Rightarrow> do {
               d2 \<leftarrow> (if applied = None then Some d1 else reparse F d1);
               Some (add_to_indexes d2 (put_document u d2 s1), Inr applied) }) })"

definition reparse_document :: "'e front_end \<Rightarrow> string \<Rightarrow> 'e store \<Rightarrow> 'e store may_panic" where
  "reparse_document F u s =
     (let s1 = remove_from_indexes u s in
      case hm_get (documents s1) u of
        None \<Rightarrow> Some s1
      | Some d \<Rightarrow> do {
          d1 \<leftarrow> reparse F d;
          Some (add_to_indexes d1 (put_document u d1 s1)) })"

definition remove_document :: "string \<Rightarrow> 'e store \<Rightarrow> 'e store \<times> 'e document option" where
  "remove_document u s =
     (let s1 = remove_from_indexes u s in
      (s1\<lparr>documents := hm_remove u (documents s1)\<rparr>, hm_get (documents s1) u))"

section \<open>An index as a multiset of entries\<close>

text \<open>The abstraction of an index: which location is filed under which key, how many times.\<close>

definition entries :: "index \<Rightarrow> (symbol_key \<times> symbol_location) multiset" where
  "entries idx = mset (concat (map (\<lambda>(k, ls). map (Pair k) ls) idx))"

definition index_wf :: "index \<Rightarrow> bool" where
  "index_wf idx \<longleftrightarrow> hm_ok idx \<and> list_all (\<lambda>(_, ls). ls \<noteq> []) idx"

lemma entries_simps [simp]:
  "entries [] = {#}" "entries ((k, ls) # idx) = image_mset (Pair k) (mset ls) + entries idx"
  by (simp_all add: entries_def)

lemma index_push_entries:
  "hm_ok idx \<Longrightarrow> entries (index_push (k, l) idx) = add_mset (k, l) (entries idx)"
  by (induction idx) (auto simp: index_push_def hm_insert_def locations_at_def hm_get_def hm_ok_def)

lemma index_push_wf: "index_wf idx \<Longrightarrow> index_wf (index_push kl idx)"
  using set_hm_insert(1) [of "fst kl" "locations_at idx (fst kl) @ [snd kl]" idx]
  by (auto simp: index_wf_def index_push_def hm_insert_ok list_all_iff)

lemma index_add_wf: "index_wf idx \<Longrightarrow> index_wf (index_add kls idx)"
  unfolding index_add_def by (induction kls arbitrary: idx) (simp_all add: index_push_wf)

lemma index_add_entries: "index_wf idx \<Longrightarrow> entries (index_add kls idx) = entries idx + mset kls"
  unfolding index_add_def
proof (induction kls arbitrary: idx)
  case (Cons kl kls)
  have "hm_ok idx" using Cons.prems by (simp add: index_wf_def)
  with Cons index_push_entries [of idx "fst kl" "snd kl"] index_push_wf [of idx kl] show ?case by simp
qed simp

lemma index_drop_key_entries:
  "entries (index_drop_key u k idx) = filter_mset (\<lambda>(k', l). k' \<noteq> k \<or> loc_uri l \<noteq> u) (entries idx)"
  by (induction idx) (auto simp: index_drop_key_def filter_mset_image_mset comp_def)

lemma index_drop_key_ok: "map fst (index_drop_key u k idx) = map fst idx"
  by (induction idx) (auto simp: index_drop_key_def)

lemma index_drop_fold:
  "map fst (fold (index_drop_key u) ks idx) = map fst idx"
  "entries (fold (index_drop_key u) ks idx) = filter_mset (\<lambda>(k', l). k' \<notin> set ks \<or> loc_uri l \<noteq> u) (entries idx)"
proof (induction ks arbitrary: idx)
  case Nil
  { case 1
    show ?case by simp
  next
    case 2
    show ?case by (simp add: case_prod_beta)
  }
next
  case (Cons k ks)
  { case 1
    show ?case using Cons by (simp add: index_drop_key_ok)
  next
    case 2
    show ?case using Cons by (auto simp: index_drop_key_entries filter_filter_mset intro!: filter_mset_cong)
  }
qed

lemma entries_nonempty: "entries (filter (\<lambda>(_, ls). ls \<noteq> []) idx) = entries idx"
  by (induction idx) auto

lemma index_drop_entries:
  "entries (index_drop u ks idx) = filter_mset (\<lambda>(k', l). k' \<notin> set ks \<or> loc_uri l \<noteq> u) (entries idx)"
  by (simp add: index_drop_def entries_nonempty index_drop_fold(2))

lemma index_drop_wf: "index_wf idx \<Longrightarrow> index_wf (index_drop u ks idx)"
proof -
  assume "index_wf idx"
  then have "distinct (map fst (fold (index_drop_key u) ks idx))"
    by (simp add: index_wf_def hm_ok_def index_drop_fold(1))
  then show ?thesis
    by (simp add: index_wf_def index_drop_def hm_ok_def distinct_map_filter list_all_iff)
qed

lemma count_image_mset_Pair: "count (image_mset (Pair k) M) (k', l) = (if k = k' then count M l else 0)"
  by (induction M) auto

lemma locations_entries:
  "hm_ok idx \<Longrightarrow> count (mset (locations_at idx k)) l = count (entries idx) (k, l)"
proof (induction idx)
  case (Cons kv idx)
  obtain k' ls where kv: "kv = (k', ls)" by (cases kv)
  have absent: "count (entries idx) (k', l) = 0" if "k' \<notin> fst ` set idx"
    using that by (force simp: entries_def count_eq_zero_iff)
  from Cons show ?case
    using absent by (auto simp: kv locations_at_def hm_get_def hm_ok_def count_image_mset_Pair)
qed (simp add: locations_at_def hm_get_def)


section \<open>The invariant of the store\<close>

definition document_entries ::
    "('e document \<Rightarrow> (symbol_key \<times> symbol_location) list) \<Rightarrow> (string, 'e document) hash_map
      \<Rightarrow> (symbol_key \<times> symbol_location) multiset" where
  "document_entries f docs = mset (concat (map (\<lambda>(_, d). f d) docs))"

definition documents_ok :: "(string, 'e document) hash_map \<Rightarrow> bool" where
  "documents_ok docs \<longleftrightarrow> hm_ok docs \<and> list_all (\<lambda>(u, d). d_uri d = u \<and> document_ok d) docs"

definition indexed :: "'e store \<Rightarrow> (string, 'e document) hash_map \<Rightarrow> bool" where
  "indexed s docs \<longleftrightarrow> index_wf (definitions_by_name s) \<and> index_wf (references_by_name s)
     \<and> entries (definitions_by_name s) = document_entries document_definitions docs
     \<and> entries (references_by_name s) = document_entries document_references docs"

definition store_ok :: "'e store \<Rightarrow> bool" where
  "store_ok s \<longleftrightarrow> documents_ok (documents s) \<and> indexed s (documents s)"

lemma document_entries_simps [simp]:
  "document_entries f [] = {#}"
  "document_entries f ((u, d) # docs) = mset (f d) + document_entries f docs"
  by (simp_all add: document_entries_def)

lemma hm_remove_simps [simp]:
  "hm_remove u [] = []"
  "hm_remove u ((u', d) # docs) = (if u' = u then hm_remove u docs else (u', d) # hm_remove u docs)"
  by (auto simp: hm_remove_def)

lemma filter_mset_all: "(\<And>x. x \<in> set xs \<Longrightarrow> P x) \<Longrightarrow> filter_mset P (mset xs) = mset xs"
  by (induction xs) auto

lemma set_hm_remove: "set (hm_remove u docs) = {x \<in> set docs. fst x \<noteq> u}"
  by (auto simp: hm_remove_def AList.delete_eq)

lemma hm_remove_absent: "u \<notin> fst ` set docs \<Longrightarrow> hm_remove u docs = docs"
  by (simp add: hm_remove_def AList.delete_id)

lemma hm_remove_hm_ok: "hm_ok m \<Longrightarrow> hm_ok (hm_remove k m)"
  by (simp add: hm_ok_def hm_remove_def distinct_delete)

lemma hm_remove_ok: "documents_ok docs \<Longrightarrow> documents_ok (hm_remove u docs)"
  by (auto simp: documents_ok_def hm_remove_hm_ok list_all_iff set_hm_remove)

lemma hm_get_None: "hm_get docs u = None \<longleftrightarrow> u \<notin> fst ` set docs"
  by (simp add: hm_get_def map_of_eq_None_iff)

lemma hm_get_in: "hm_get docs u = Some d \<Longrightarrow> (u, d) \<in> set docs"
  by (simp add: hm_get_def map_of_SomeD)

lemma document_entries_insert:
  "hm_ok docs \<Longrightarrow> document_entries f (hm_insert u d docs) = document_entries f (hm_remove u docs) + mset (f d)"
proof (induction docs)
  case (Cons ud docs)
  then show ?case
    by (cases ud) (auto simp: hm_insert_def hm_ok_def hm_remove_absent)
qed (simp add: hm_insert_def)

lemma documents_ok_insert:
  "documents_ok docs \<Longrightarrow> d_uri d = u \<Longrightarrow> document_ok d \<Longrightarrow> documents_ok (hm_insert u d docs)"
  using set_hm_insert(1) [of u d docs] by (auto simp: documents_ok_def hm_insert_ok list_all_iff)

text \<open>Every entry of a document is filed under the document's URI and one of its collected keys.\<close>

lemma keyed_locations:
  "keyed u K f m \<Longrightarrow> (k, l) \<in> set (keyed_by_name kind m') \<Longrightarrow> m' = m \<Longrightarrow> loc_uri l = u"
  by (auto simp: keyed_def keyed_by_name_def)

lemma definitions_uri:
  assumes "document_ok d" "(k, l) \<in> set (document_definitions d)"
  shows "loc_uri l = d_uri d"
  using assms
  by (auto simp: document_ok_def table_ok_def keyed_def document_definitions_def keyed_by_name_def
      keyed_by_address_def Let_def)

lemma references_uri:
  assumes "document_ok d" "(k, l) \<in> set (document_references d)"
  shows "loc_uri l = d_uri d"
  using assms by (auto simp: document_ok_def document_references_def list_all_iff)

lemma collected_keys:
  "fst ` set (document_definitions d) = set (dk_definitions (collect_doc_keys d))"
  "fst ` set (document_references d) = set (dk_references (collect_doc_keys d))"
  by (auto simp: document_definitions_def document_references_def collect_doc_keys_def keyed_by_name_def
      keyed_by_address_def Let_def image_Un image_image case_prod_beta)

lemma filter_entries:
  assumes "documents_ok docs" "\<And>u d k l. (u, d) \<in> set docs \<Longrightarrow> (k, l) \<in> set (f d) \<Longrightarrow> loc_uri l = u"
    "\<And>d. hm_get docs u = Some d \<Longrightarrow> fst ` set (f d) \<subseteq> set ks"
  shows "filter_mset (\<lambda>(k', l). k' \<notin> set ks \<or> loc_uri l \<noteq> u) (document_entries f docs) = document_entries f (hm_remove u docs)"
  using assms
proof (induction docs)
  case (Cons ud docs)
  obtain u' d where ud: "ud = (u', d)" by (cases ud)
  have ok: "documents_ok docs" using Cons.prems(1) by (simp add: documents_ok_def hm_ok_def)
  have fresh: "u' \<notin> fst ` set docs" using Cons.prems(1) by (simp add: documents_ok_def hm_ok_def ud)
  have uri: "loc_uri l = u'" if "(k, l) \<in> set (f d)" for k l
    using Cons.prems(2) [of u' d] that by (simp add: ud)
  have rest: "filter_mset (\<lambda>(k', l). k' \<notin> set ks \<or> loc_uri l \<noteq> u) (document_entries f docs) = document_entries f (hm_remove u docs)"
  proof (cases "u' = u")
    case True
    with fresh have none: "hm_get docs u = None" by (simp add: hm_get_None)
    show ?thesis by (rule Cons.IH [OF ok]) (use Cons.prems(2) none in auto)
  next
    case False
    then have "hm_get (ud # docs) u = hm_get docs u" by (simp add: hm_get_def ud)
    with Cons.prems(2,3) show ?thesis by (intro Cons.IH [OF ok]) auto
  qed
  show ?case
  proof (cases "u' = u")
    case True
    then have "fst ` set (f d) \<subseteq> set ks" using Cons.prems(3) [of d] by (simp add: hm_get_def ud)
    then have "filter_mset (\<lambda>(k', l). k' \<notin> set ks \<or> loc_uri l \<noteq> u) (mset (f d)) = {#}"
      using uri True by (force simp: filter_mset_eq_mempty_iff)
    with rest True show ?thesis by (simp add: ud)
  next
    case False
    then have "filter_mset (\<lambda>(k', l). k' \<notin> set ks \<or> loc_uri l \<noteq> u) (mset (f d)) = mset (f d)"
      using uri by (intro filter_mset_all) auto
    with rest False show ?thesis by (simp add: ud)
  qed
qed simp


text \<open>Removing a document's entries, and putting new ones in.\<close>

lemma remove_from_indexes_documents [simp]: "documents (remove_from_indexes u s) = documents s"
  by (simp add: remove_from_indexes_def Let_def split: option.split)

lemma remove_from_indexes_open [simp]: "open_docs (remove_from_indexes u s) = open_docs s"
  by (simp add: remove_from_indexes_def Let_def split: option.split)

lemma remove_from_indexes_ok:
  assumes "store_ok s"
  shows "indexed (remove_from_indexes u s) (hm_remove u (documents s))"
proof (cases "hm_get (documents s) u")
  case None
  then have "u \<notin> fst ` set (documents s)" by (simp add: hm_get_None)
  with None assms show ?thesis
    by (simp add: remove_from_indexes_def store_ok_def hm_remove_absent)
next
  case (Some d)
  have docs: "documents_ok (documents s)" using assms by (simp add: store_ok_def)
  have doc: "d_uri e = v \<and> document_ok e" if "(v, e) \<in> set (documents s)" for v e
    using docs that by (auto simp: documents_ok_def list_all_iff)
  note defs = filter_entries [OF docs, where f = document_definitions and u = u
      and ks = "dk_definitions (collect_doc_keys d)"]
  note refs = filter_entries [OF docs, where f = document_references and u = u
      and ks = "dk_references (collect_doc_keys d)"]
  have "filter_mset (\<lambda>(k', l). k' \<notin> set (dk_definitions (collect_doc_keys d)) \<or> loc_uri l \<noteq> u)
      (document_entries document_definitions (documents s)) = document_entries document_definitions (hm_remove u (documents s))"
  proof (rule defs)
    fix v e k l
    assume "(v, e) \<in> set (documents s)" "(k, l) \<in> set (document_definitions e)"
    then show "loc_uri l = v" using doc definitions_uri by metis
  qed (use Some in \<open>simp add: collected_keys(1)\<close>)
  moreover have "filter_mset (\<lambda>(k', l). k' \<notin> set (dk_references (collect_doc_keys d)) \<or> loc_uri l \<noteq> u)
      (document_entries document_references (documents s)) = document_entries document_references (hm_remove u (documents s))"
  proof (rule refs)
    fix v e k l
    assume "(v, e) \<in> set (documents s)" "(k, l) \<in> set (document_references e)"
    then show "loc_uri l = v" using doc references_uri by metis
  qed (use Some in \<open>simp add: collected_keys(2)\<close>)
  ultimately show ?thesis
    using assms by (simp add: remove_from_indexes_def Some Let_def indexed_def store_ok_def index_drop_wf index_drop_entries)
qed

lemma add_document_ok:
  assumes "indexed s (hm_remove (d_uri d) docs)" "documents_ok docs" "document_ok d" "documents t = hm_insert (d_uri d) d docs"
    "definitions_by_name t = definitions_by_name s" "references_by_name t = references_by_name s"
  shows "store_ok (add_to_indexes d t)"
proof -
  have "hm_ok docs" using assms(2) by (simp add: documents_ok_def)
  with assms documents_ok_insert [OF assms(2) refl assms(3)] show ?thesis
    by (simp add: store_ok_def indexed_def add_to_indexes_def index_add_wf index_add_entries document_entries_insert)
qed

lemma store_ok_documents: "store_ok s \<Longrightarrow> documents_ok (documents s)"
  by (simp add: store_ok_def)

lemma store_ok_document: "store_ok s \<Longrightarrow> hm_get (documents s) u = Some d \<Longrightarrow> d_uri d = u \<and> document_ok d"
  using hm_get_in by (fastforce simp: store_ok_def documents_ok_def list_all_iff)

lemma upsert_document_ok: "store_ok s \<Longrightarrow> document_ok d \<Longrightarrow> store_ok (upsert_document d s)"
proof -
  assume s: "store_ok s" and d: "document_ok d"
  let ?s1 = "remove_from_indexes (d_uri d) s"
  have "upsert_document d s = add_to_indexes d (?s1\<lparr>documents := hm_insert (d_uri d) d (documents s)\<rparr>)"
    by (simp add: upsert_document_def add_to_indexes_def Let_def)
  moreover have "store_ok (add_to_indexes d (?s1\<lparr>documents := hm_insert (d_uri d) d (documents s)\<rparr>))"
    by (rule add_document_ok [OF remove_from_indexes_ok [OF s] store_ok_documents [OF s] d]) simp_all
  ultimately show ?thesis by simp
qed

lemma put_back_ok:
  assumes "store_ok s" "d_uri d = u" "document_ok d"
  shows "store_ok (add_to_indexes d (put_document u d (remove_from_indexes u s)))"
  by (rule add_document_ok [where s = "remove_from_indexes u s" and docs = "documents s"])
    (use assms remove_from_indexes_ok [OF assms(1)] in \<open>simp_all add: put_document_def store_ok_documents\<close>)

lemma reparse_uri: "reparse F d = Some d' \<Longrightarrow> d_uri d' = d_uri d"
  by (erule reparse_cases) simp_all

lemma reparse_document_ok:
  assumes "reparse_document F u s = Some s'" "store_ok s"
  shows "store_ok s'"
proof (cases "hm_get (documents s) u")
  case None
  with assms have "s' = s" by (simp add: reparse_document_def Let_def remove_from_indexes_def)
  with assms(2) show ?thesis by simp
next
  case (Some d)
  then obtain d1 where d1: "reparse F d = Some d1"
    "s' = add_to_indexes d1 (put_document u d1 (remove_from_indexes u s))"
    using assms(1) by (auto simp: reparse_document_def Let_def bind_eq_Some_conv)
  note d = store_ok_document [OF assms(2) Some]
  have "document_ok d1" using reparse_ok [OF d1(1)] d by blast
  with d reparse_uri [OF d1(1)] put_back_ok [OF assms(2), of d1 u] show ?thesis unfolding d1(2) by simp
qed

lemma remove_document_ok: "store_ok s \<Longrightarrow> store_ok (fst (remove_document u s))"
  using remove_from_indexes_ok [of s u]
  by (simp add: remove_document_def Let_def store_ok_def indexed_def hm_remove_ok)

lemma apply_changes_uri: "apply_changes d cs = Some (d', r) \<Longrightarrow> d_uri d' = d_uri d"
proof (induction cs arbitrary: d)
  case (Cons c cs)
  obtain d1 r1 where step: "apply_change d c = Some (d1, r1)"
    using Cons.prems by (auto simp: bind_eq_Some_conv)
  have "d_uri d1 = d_uri d" using apply_change_cases [OF step] by auto
  with Cons step show ?case by (auto split: sum.splits)
qed simp

lemma apply_versioned_uri: "apply_versioned_changes d v cs = Some (d', r) \<Longrightarrow> d_uri d' = d_uri d"
proof (cases "v \<le> d_version d")
  case False
  assume h: "apply_versioned_changes d v cs = Some (d', r)"
  then obtain d1 r1 where "apply_changes d cs = Some (d1, r1)"
    using False by (auto simp: apply_versioned_changes_def bind_eq_Some_conv)
  with h False apply_changes_uri [OF this] show ?thesis
    by (cases r1) (auto simp: apply_versioned_changes_def)
qed (simp add: apply_versioned_changes_def)

lemma apply_and_reparse_ok:
  assumes "apply_and_reparse_document F u v cs s = Some (s', Inr applied)" "store_ok s"
    "list_all (\<lambda>c. list_all scalar (ch_text c)) cs"
  shows "store_ok s'"
proof (cases "hm_get (documents s) u")
  case None
  with assms have "s' = s" by (simp add: apply_and_reparse_document_def Let_def remove_from_indexes_def)
  with assms(2) show ?thesis by simp
next
  case (Some d)
  then obtain d1 r where step: "apply_versioned_changes d v cs = Some (d1, r)"
    using assms(1) by (auto simp: apply_and_reparse_document_def Let_def bind_eq_Some_conv)
  note d = store_ok_document [OF assms(2) Some]
  have "r = Inr applied"
    using assms(1) Some step
    by (cases r) (auto simp: apply_and_reparse_document_def Let_def bind_eq_Some_conv)
  then obtain d2 where d2: "(if applied = None then Some d1 else reparse F d1) = Some d2"
    "s' = add_to_indexes d2 (put_document u d2 (remove_from_indexes u s))"
    using assms(1) Some step by (auto simp: apply_and_reparse_document_def Let_def bind_eq_Some_conv)
  have "document_ok d1" "d_uri d1 = u"
    using apply_versioned_ok [OF step] apply_versioned_uri [OF step] d assms(3) by auto
  then have "document_ok d2" "d_uri d2 = u"
    using d2(1) reparse_ok [of F d1 d2] reparse_uri [of F d1 d2] by (auto split: if_splits)
  with put_back_ok [OF assms(2), of d2 u] show ?thesis unfolding d2(2) by simp
qed


lemma apply_changes_symbols:
  "apply_changes d cs = Some (d', r) \<Longrightarrow> d_symbols d' = d_symbols d \<and> d_references d' = d_references d"
proof (induction cs arbitrary: d)
  case (Cons c cs)
  obtain d1 r1 where step: "apply_change d c = Some (d1, r1)"
    using Cons.prems by (auto simp: bind_eq_Some_conv)
  have "d_symbols d1 = d_symbols d \<and> d_references d1 = d_references d" using apply_change_cases [OF step] by auto
  with Cons step show ?case by (auto split: sum.splits)
qed simp

lemma apply_versioned_symbols:
  "apply_versioned_changes d v cs = Some (d', r) \<Longrightarrow> d_symbols d' = d_symbols d \<and> d_references d' = d_references d"
proof (cases "v \<le> d_version d")
  case False
  assume h: "apply_versioned_changes d v cs = Some (d', r)"
  then obtain d1 r1 where "apply_changes d cs = Some (d1, r1)"
    using False by (auto simp: apply_versioned_changes_def bind_eq_Some_conv)
  with h False apply_changes_symbols [OF this] show ?thesis
    by (cases r1) (auto simp: apply_versioned_changes_def)
qed (simp add: apply_versioned_changes_def)

section \<open>Runs of the server\<close>

text \<open>The server advertises full-text synchronisation: a batch of edits carries no ranges.\<close>

definition full_text :: "change list \<Rightarrow> bool" where
  "full_text cs \<longleftrightarrow> list_all (\<lambda>c. ch_range c = None \<and> list_all scalar (ch_text c)) cs"

inductive store_reachable :: "'e front_end \<Rightarrow> 'e store \<Rightarrow> bool" for F where
  start: "store_reachable F store_new"
| upserted: "store_reachable F s \<Longrightarrow> held_document F d \<Longrightarrow> store_reachable F (upsert_document d s)"
| from_disk: "store_reachable F s \<Longrightarrow> held_document F d \<Longrightarrow>
    store_reachable F (fst (upsert_document_unless_open d s))"
| changed: "store_reachable F s \<Longrightarrow> full_text cs \<Longrightarrow>
    apply_and_reparse_document F u v cs s = Some (s', r) \<Longrightarrow> store_reachable F s'"
| reparsed: "store_reachable F s \<Longrightarrow> reparse_document F u s = Some s' \<Longrightarrow> store_reachable F s'"
| removed: "store_reachable F s \<Longrightarrow> store_reachable F (fst (remove_document u s))"
| client_opened: "store_reachable F s \<Longrightarrow> store_reachable F (mark_open u s)"
| client_closed: "store_reachable F s \<Longrightarrow> store_reachable F (mark_closed u s)"

lemma apply_changes_full_text: "full_text cs \<Longrightarrow> \<exists>d'. apply_changes d cs = Some (d', Inr ())"
  by (induction cs arbitrary: d) (auto simp: full_text_def apply_change_def)

lemma full_text_succeeds:
  assumes "full_text cs" "apply_and_reparse_document F u v cs s = Some (s', r)"
  shows "\<exists>applied. r = Inr applied"
proof (cases "hm_get (documents s) u")
  case (Some d)
  obtain d1 where "apply_changes d cs = Some (d1, Inr ())" using apply_changes_full_text [OF assms(1)] by blast
  then have "\<exists>d2 a. apply_versioned_changes d v cs = Some (d2, Inr a)"
    by (cases "v \<le> d_version d") (simp_all add: apply_versioned_changes_def)
  then obtain d2 a where "apply_versioned_changes d v cs = Some (d2, Inr a)" by blast
  with assms(2) Some show ?thesis
    by (auto simp: apply_and_reparse_document_def Let_def bind_eq_Some_conv)
qed (use assms in \<open>auto simp: apply_and_reparse_document_def\<close>)

lemma store_new_ok: "store_ok store_new"
  by (simp add: store_ok_def store_new_def documents_ok_def hm_ok_def indexed_def index_wf_def)

lemma store_reachable_ok: "store_reachable F s \<Longrightarrow> store_ok s"
proof (induction rule: store_reachable.induct)
  case start
  show ?case by (rule store_new_ok)
next
  case (upserted s d)
  then show ?case using upsert_document_ok held_document_ok by blast
next
  case (from_disk s d)
  then show ?case using upsert_document_ok held_document_ok by (auto simp: upsert_document_unless_open_def)
next
  case (changed s cs u v s' r)
  then obtain applied where "r = Inr applied" using full_text_succeeds by blast
  with changed show ?case
    using apply_and_reparse_ok [of F u v cs s s' applied] by (simp add: full_text_def list_all_iff)
next
  case (reparsed s u s')
  then show ?case using reparse_document_ok by blast
next
  case (removed s u)
  then show ?case using remove_document_ok by blast
qed (simp_all add: store_ok_def indexed_def mark_open_def mark_closed_def)

text \<open>What the documents of a store declare or mention under a key.\<close>

definition filed_under ::
    "('e document \<Rightarrow> (symbol_key \<times> symbol_location) list) \<Rightarrow> 'e store \<Rightarrow> symbol_key \<Rightarrow> symbol_location multiset" where
  "filed_under f s k = image_mset snd (filter_mset (\<lambda>kl. fst kl = k) (document_entries f (documents s)))"

lemma count_filed: "count (image_mset snd (filter_mset (\<lambda>kl. fst kl = k) M)) l = count M (k, l)"
  by (induction M) auto

lemma locations_filed:
  assumes "index_wf idx" "entries idx = document_entries f (documents s)"
  shows "mset (locations_at idx k) = filed_under f s k"
  using locations_entries [of idx k] assms
  by (intro multiset_eqI) (simp add: index_wf_def filed_under_def count_filed)

text \<open>
  C1. The indexes are exact in every reachable state: under each key they hold, with multiplicity, the
  locations the documents of the store declare and mention; nothing stale survives an edit, a
  replacement or a removal, and nothing is lost.
\<close>

theorem indexes_exact:
  assumes "store_reachable F s"
  shows "mset (locations_at (definitions_by_name s) k) = filed_under document_definitions s k
    \<and> mset (locations_at (references_by_name s) k) = filed_under document_references s k"
  using store_reachable_ok [OF assms] by (simp add: store_ok_def indexed_def locations_filed)

text \<open>
  C38. An edit batch that fails part way leaves its document in the store, with the symbols and references it
  had, but none of them in the two indexes, which hold exactly what the other documents put there: the early
  return on the error skips the step that puts the entries back.
\<close>

theorem failed_edit_unindexes:
  assumes "store_reachable F s" "hm_get (documents s) u = Some d"
    "apply_and_reparse_document F u v cs s = Some (s', Inl e)"
  shows "(\<exists>d'. hm_get (documents s') u = Some d' \<and> d_symbols d' = d_symbols d \<and> d_references d' = d_references d)
    \<and> entries (definitions_by_name s') = document_entries document_definitions (hm_remove u (documents s))
    \<and> entries (references_by_name s') = document_entries document_references (hm_remove u (documents s))"
proof -
  note ok = store_reachable_ok [OF assms(1)]
  obtain d1 where step: "apply_versioned_changes d v cs = Some (d1, Inl e)"
    and s': "s' = put_document u d1 (remove_from_indexes u s)"
  proof -
    obtain d1 r where step: "apply_versioned_changes d v cs = Some (d1, r)"
      using assms(2,3) by (auto simp: apply_and_reparse_document_def Let_def bind_eq_Some_conv)
    with assms(2,3) that show thesis
      by (cases r) (auto simp: apply_and_reparse_document_def Let_def bind_eq_Some_conv)
  qed
  have "d_symbols d1 = d_symbols d \<and> d_references d1 = d_references d" using apply_versioned_symbols [OF step] .
  with remove_from_indexes_ok [OF ok, of u] show ?thesis
    by (simp add: s' put_document_def indexed_def hm_get_insert)
qed

lemma disk_keeps_open: "is_open s u \<Longrightarrow>
  hm_get (documents (fst (upsert_document_unless_open d s))) u = hm_get (documents s) u \<and> is_open (fst (upsert_document_unless_open d s)) u"
  by (auto simp: upsert_document_unless_open_def upsert_document_def add_to_indexes_def Let_def hm_get_insert is_open_def)

text \<open>
  The editor's buffer is authoritative: however many files the indexer reads from disk, a document
  that is open stays as it is.
\<close>

theorem open_buffer_kept:
  assumes "is_open s u"
  shows "hm_get (documents (fold (\<lambda>d s. fst (upsert_document_unless_open d s)) disk s)) u = hm_get (documents s) u"
  using assms
proof (induction disk arbitrary: s)
  case (Cons d disk)
  from disk_keeps_open [OF Cons.prems, of d] Cons.IH [of "fst (upsert_document_unless_open d s)"]
  show ?case by simp
qed simp


section \<open>A concrete store\<close>

definition sample_symbol :: symbol where
  "sample_symbol = \<lparr>sym_name = ''a'', sym_kind = Variable,
     sym_location = \<lparr>loc_uri = ''u'', start_line = 0, start_character = 0, end_line = 0, end_character = 1\<rparr>,
     name_range = \<lparr>range_start = \<lparr>pos_line = 0, pos_character = 0\<rparr>, range_end = \<lparr>pos_line = 0, pos_character = 1\<rparr>\<rparr>,
     detail = None, doc = None\<rparr>"

definition indexed_document :: "nat document" where
  "indexed_document = hydrated_from_cache ''u'' [97] (empty_table\<lparr>variables := [(''a'', sample_symbol)]\<rparr>) []"

definition sample_store :: "nat store" where
  "sample_store = upsert_document indexed_document store_new"

lemma indexed_document_held: "held_document F indexed_document"
  by (rule held_document.hydrated [of _ "''u''" "[97]" "empty_table\<lparr>variables := [(''a'', sample_symbol)]\<rparr>" "[]"])
    (simp_all add: indexed_document_def hydrated_from_cache_def document_ok_def table_ok_def keyed_def within_def
      hm_ok_def empty_table_def sample_symbol_def scalar_def is_tftest_uri_def ends_with_def)

lemma sample_store_reachable: "store_reachable F sample_store"
  unfolding sample_store_def by (intro store_reachable.intros indexed_document_held)

lemma sample_store_document: "hm_get (documents sample_store) ''u'' = Some indexed_document"
  by (simp add: sample_store_def upsert_document_def add_to_indexes_def remove_from_indexes_def Let_def
      store_new_def hm_get_insert indexed_document_def hydrated_from_cache_def hm_get_def [of "[]"])

lemma sample_store_filed:
  "filed_under document_definitions sample_store \<lparr>key_kind = Variable, key_name = ''a''\<rparr>
     = {#sym_location sample_symbol#}"
proof -
  have "documents sample_store = [(''u'', indexed_document)]"
    by (simp add: sample_store_def upsert_document_def add_to_indexes_def remove_from_indexes_def Let_def
      store_new_def hm_insert_def indexed_document_def hydrated_from_cache_def hm_get_def)
  then show ?thesis
    by (simp add: filed_under_def document_entries_def document_definitions_def indexed_document_def
      hydrated_from_cache_def empty_table_def keyed_by_name_def keyed_by_address_def Let_def)
qed

lemma indexes_exact_witness:
  "locations_at (definitions_by_name sample_store) \<lparr>key_kind = Variable, key_name = ''a''\<rparr> = [sym_location sample_symbol]"
  using indexes_exact [OF sample_store_reachable [of tiny_front], of "\<lparr>key_kind = Variable, key_name = ''a''\<rparr>"]
    sample_store_filed by simp

text \<open>The second edit of the batch names a line the document does not have.\<close>

definition bad_batch :: "change list" where
  "bad_batch = [\<lparr>ch_range = Some \<lparr>range_start = \<lparr>pos_line = 9, pos_character = 0\<rparr>,
     range_end = \<lparr>pos_line = 9, pos_character = 0\<rparr>\<rparr>, ch_text = []\<rparr>]"

lemma failed_edit_unindexes_witness:
  "\<exists>s' e. apply_and_reparse_document tiny_front ''u'' 1 bad_batch sample_store = Some (s', Inl e)
     \<and> entries (definitions_by_name s') = {#} \<and> entries (references_by_name s') = {#}
     \<and> (\<exists>d'. hm_get (documents s') ''u'' = Some d' \<and> variables (d_symbols d') = [(''a'', sample_symbol)])"
proof -
  have "lsp_position_to_byte_offset [97] (9, 0) = Some (Inl (LineOutOfBounds 9 1))"
    by (simp add: lsp_position_to_byte_offset_def line_start_bytes_def Let_def)
  then have "\<exists>s' e. apply_and_reparse_document tiny_front ''u'' 1 bad_batch sample_store = Some (s', Inl e)"
    by (simp add: apply_and_reparse_document_def sample_store_document apply_versioned_changes_def bad_batch_def
      apply_change_def indexed_document_def hydrated_from_cache_def to_pos_def Let_def)
  then obtain s' e where s': "apply_and_reparse_document tiny_front ''u'' 1 bad_batch sample_store = Some (s', Inl e)"
    by blast
  have "hm_remove ''u'' (documents sample_store) = []"
    by (simp add: sample_store_def upsert_document_def add_to_indexes_def remove_from_indexes_def Let_def
      store_new_def hm_insert_def indexed_document_def hydrated_from_cache_def hm_get_def)
  moreover have "d_symbols indexed_document = empty_table\<lparr>variables := [(''a'', sample_symbol)]\<rparr>"
    by (simp add: indexed_document_def hydrated_from_cache_def)
  moreover note failed_edit_unindexes [OF sample_store_reachable [of tiny_front] sample_store_document s']
  ultimately have "entries (definitions_by_name s') = {#} \<and> entries (references_by_name s') = {#}"
    "\<exists>d'. hm_get (documents s') ''u'' = Some d' \<and> d_symbols d' = empty_table\<lparr>variables := [(''a'', sample_symbol)]\<rparr>"
    by auto
  then show ?thesis using s' by auto
qed

lemma open_buffer_kept_witness:
  "hm_get (documents (fold (\<lambda>d s. fst (upsert_document_unless_open d s)) [sample_document]
     (mark_open ''u'' sample_store))) ''u'' = Some indexed_document"
  using open_buffer_kept [of "mark_open ''u'' sample_store" "''u''" "[sample_document]"]
  by (simp add: is_open_def mark_open_def sample_store_document)

end
