(* ===== verification/Schema.thy ===== *)
theory Schema
  imports Types
begin

text \<open>
  \<^verbatim>\<open>crates/tfls-schema/src/types.rs\<close>, \<^verbatim>\<open>crates/tfls-schema/src/functions.rs\<close> and the reading
  of cty types in \<^verbatim>\<open>crates/tfls-state/src/store.rs\<close>: provider schemas as deserialised from JSON, the
  shape of an attribute's type, and function signatures. A \<^verbatim>\<open>sonic_rs::Value\<close> is a JSON value; its
  textual rendering belongs to that crate and is a parameter.
\<close>

datatype json =
    JNull
  | JBool bool
  | JNumber string
  | JString string
  | JArray "json list"
  | JObject "(string \<times> json) list"

definition json_str :: "json \<Rightarrow> string option" where
  "json_str v = (case v of JString s \<Rightarrow> Some s | _ \<Rightarrow> None)"

text \<open>\<open>v.get(i)\<close>: an element of an array.\<close>

definition json_at :: "json \<Rightarrow> nat \<Rightarrow> json option" where
  "json_at v i = (case v of JArray xs \<Rightarrow> if i < length xs then Some (xs ! i) else None | _ \<Rightarrow> None)"

definition json_head :: "json \<Rightarrow> string option" where
  "json_head v = (case json_at v 0 of None \<Rightarrow> None | Some h \<Rightarrow> json_str h)"

section \<open>Schemas\<close>

record attribute_schema =
  as_type :: "json option"
  as_description :: "string option"
  as_description_kind :: "string option"
  as_required :: bool
  as_optional :: bool
  as_computed :: bool
  as_sensitive :: bool
  as_deprecated :: bool
  conflicts_with :: "string list"
  required_with :: "string list"
  exactly_one_of :: "string list"
  at_least_one_of :: "string list"
  allowed_values :: "string list option"

datatype nesting_mode = NSingle | NList | NSet | NMap | NGroup

datatype block_schema =
  BlockSchema (attributes: "(string \<times> attribute_schema) list") (block_types: "(string \<times> nested_block_schema) list")
    (block_description: "string option") (block_description_kind: "string option") (block_deprecated: bool)
and nested_block_schema =
  NestedBlockSchema (nesting_mode: nesting_mode) (nested_block: block_schema) (min_items: nat) (max_items: nat)

record schema =
  schema_version :: nat
  schema_block :: block_schema

record provider_schema =
  provider_block :: schema
  resource_schemas :: "(string, schema) hash_map"
  data_source_schemas :: "(string, schema) hash_map"

record provider_schemas =
  ps_format_version :: string
  ps_provider_schemas :: "(string, provider_schema) hash_map"

datatype cty_category = Primitive | Collection

definition cty_category :: "attribute_schema \<Rightarrow> cty_category option" where
  "cty_category a =
     (case as_type a of
        None \<Rightarrow> None
      | Some t \<Rightarrow>
          (case json_str t of
             Some s \<Rightarrow> if s \<in> {''string'', ''number'', ''bool''} then Some Primitive else None
           | None \<Rightarrow>
               (case json_head t of
                  None \<Rightarrow> None
                | Some h \<Rightarrow> if h \<in> {''list'', ''set'', ''tuple'', ''map'', ''object''} then Some Collection else None)))"

definition is_block_like :: "attribute_schema \<Rightarrow> bool" where
  "is_block_like a =
     (case as_type a of
        None \<Rightarrow> False
      | Some t \<Rightarrow>
          (case json_head t of
             None \<Rightarrow> False
           | Some h \<Rightarrow>
               if h = ''object'' then True
               else if h \<in> {''set'', ''list'', ''map''} then
                 (case json_at t 1 of None \<Rightarrow> False | Some e \<Rightarrow> json_head e = Some ''object'')
               else False))"

text \<open>The first entry, in the map's order, whose value has the key.\<close>

fun find_in :: "('p \<Rightarrow> (string, schema) hash_map) \<Rightarrow> (string \<times> 'p) list \<Rightarrow> string \<Rightarrow> (string \<times> schema) option" where
  "find_in sel [] ty = None"
| "find_in sel ((provider, p) # ps) ty =
     (case hm_get (sel p) ty of Some s \<Rightarrow> Some (provider, s) | None \<Rightarrow> find_in sel ps ty)"

definition find_resource :: "provider_schemas \<Rightarrow> string \<Rightarrow> (string \<times> schema) option" where
  "find_resource s ty = find_in resource_schemas (ps_provider_schemas s) ty"

definition find_data_source :: "provider_schemas \<Rightarrow> string \<Rightarrow> (string \<times> schema) option" where
  "find_data_source s ty = find_in data_source_schemas (ps_provider_schemas s) ty"

section \<open>Types of attributes\<close>

fun schema_type_to_variable_type :: "json \<Rightarrow> vtype" where
  "schema_type_to_variable_type (JString s) =
     (if s = ''string'' then TPrim PString else if s = ''number'' then TPrim PNumber
      else if s = ''bool'' then TPrim PBool else TAny)"
| "schema_type_to_variable_type (JArray (JString h # t # _)) =
     (if h = ''list'' then TList (schema_type_to_variable_type t)
      else if h = ''set'' then TSet (schema_type_to_variable_type t)
      else if h = ''map'' then TMap (schema_type_to_variable_type t)
      else if h = ''tuple'' then
        (case t of JArray items \<Rightarrow> TTuple (map schema_type_to_variable_type items) | _ \<Rightarrow> TAny)
      else if h = ''object'' then
        (case t of
           JObject fs \<Rightarrow> TObject (bt_extend [] (map (\<lambda>(k, v). (k, schema_type_to_variable_type v)) fs))
         | _ \<Rightarrow> TAny)
      else TAny)"
| "schema_type_to_variable_type _ = TAny"

section \<open>Functions\<close>

record function_parameter =
  fp_name :: string
  fp_description :: "string option"
  fp_type :: json
  fp_nullable :: bool

record function_signature =
  fs_description :: "string option"
  fs_return_type :: json
  fs_parameters :: "function_parameter list"
  fs_variadic :: "function_parameter option"

record functions_schema =
  fs_format_version :: string
  function_signatures :: "(string, function_signature) hash_map"

definition type_label :: "(json \<Rightarrow> string) \<Rightarrow> json \<Rightarrow> string" where
  "type_label render t =
     (case t of JString s \<Rightarrow> s | JArray _ \<Rightarrow> render t | _ \<Rightarrow> ''dynamic'')"

definition signature_label :: "(json \<Rightarrow> string) \<Rightarrow> function_signature \<Rightarrow> string \<Rightarrow> string" where
  "signature_label render f name =
     (let parts = map (\<lambda>p. fp_name p @ '': '' @ type_label render (fp_type p)) (fs_parameters f);
          variadic = (case fs_variadic f of None \<Rightarrow> []
            | Some v \<Rightarrow> [fp_name v @ '': '' @ type_label render (fp_type v) @ ''...''])
      in name @ ''('' @ join_with '', '' (parts @ variadic) @ '')'')"

definition parameter_for_index :: "function_signature \<Rightarrow> nat \<Rightarrow> function_parameter option" where
  "parameter_for_index f i =
     (if i < length (fs_parameters f) then Some (fs_parameters f ! i) else fs_variadic f)"

section \<open>Facts\<close>

lemma schema_type_ok: "type_ok (schema_type_to_variable_type v)"
proof (induction v rule: schema_type_to_variable_type.induct)
  case (2 h t rest)
  have obj: "type_ok (TObject (bt_extend [] (map (\<lambda>(k, v). (k, schema_type_to_variable_type v)) fs)))"
    if "h = ''object''" "t = JObject fs" for fs
    by (rule bt_extend_type_ok) (use "2.IH" that in auto)
  consider "h \<in> {''list'', ''set'', ''map''}" | "h = ''tuple''" | "h = ''object''"
    | "h \<notin> {''list'', ''set'', ''map'', ''tuple'', ''object''}" unfolding insert_iff empty_iff by argo
  then show ?case
  proof cases
    case 1
    then show ?thesis using "2.IH"(1-3) by auto
  next
    case 2
    then show ?thesis using "2.IH"(4) by (auto simp: list_all_iff split: json.split)
  next
    case 3
    then show ?thesis using obj by (auto split: json.split)
  qed simp
qed simp_all

text \<open>A type as a provider writes it: the inverse to be read back.\<close>

fun type_to_cty :: "vtype \<Rightarrow> json" where
  "type_to_cty TAny = JString ''dynamic''"
| "type_to_cty (TPrim PString) = JString ''string''"
| "type_to_cty (TPrim PNumber) = JString ''number''"
| "type_to_cty (TPrim PBool) = JString ''bool''"
| "type_to_cty (TList t) = JArray [JString ''list'', type_to_cty t]"
| "type_to_cty (TSet t) = JArray [JString ''set'', type_to_cty t]"
| "type_to_cty (TMap t) = JArray [JString ''map'', type_to_cty t]"
| "type_to_cty (TTuple ts) = JArray [JString ''tuple'', JArray (map type_to_cty ts)]"
| "type_to_cty (TObject fs) = JArray [JString ''object'', JObject (map (\<lambda>(k, t). (k, type_to_cty t)) fs)]"


lemma cty_roundtrip: "type_ok t \<Longrightarrow> schema_type_to_variable_type (type_to_cty t) = t"
proof (induction t rule: type_to_cty.induct)
  case (8 ts)
  then show ?case by (simp add: list_all_iff map_idI)
next
  case (9 fs)
  have eq: "map (\<lambda>(k, v). (k, schema_type_to_variable_type v)) (map (\<lambda>(k, t). (k, type_to_cty t)) fs) = fs"
    using 9 by (auto simp: list_all_iff bt_values_def intro!: map_idI)
  have "bt_extend [] fs = fs"
    using bt_extend_sorted [of "[]" fs] "9.prems" by (simp add: bt_ok_keys)
  with eq show ?case by simp
qed simp_all

text \<open>
  Reading a provider's attribute types loses nothing: every well-formed type, written as the cty JSON
  a provider sends, is read back as itself, and whatever the provider sends the result is well formed.
\<close>

theorem cty_type_roundtrip:
  assumes "type_ok t"
  shows "schema_type_to_variable_type (type_to_cty t) = t \<and> type_ok (schema_type_to_variable_type v)"
  by (simp add: cty_roundtrip [OF assms] schema_type_ok)

lemma cty_type_roundtrip_witness:
  "schema_type_to_variable_type (JArray [JString ''object'', JObject [(''a'', JString ''number''),
     (''b'', JArray [JString ''list'', JString ''dynamic''])]]) = TObject [(''a'', TPrim PNumber), (''b'', TList TAny)]"
  using cty_type_roundtrip [of "TObject [(''a'', TPrim PNumber), (''b'', TList TAny)]"]
  by (simp add: bt_ok_Cons)

lemma object_head: "schema_type_to_variable_type t = TObject fs \<Longrightarrow> json_head t = Some ''object''"
  by (cases t rule: schema_type_to_variable_type.cases)
    (auto simp: json_head_def json_at_def json_str_def split: if_splits json.splits)

text \<open>
  The two readings of an attribute's type agree: it is classified as primitive exactly when it is read
  as a primitive type, everything read as a collection is classified as one, and an attribute read as
  an object, or as a list, set or map of objects, is accepted as a block.
\<close>

theorem cty_category_agrees:
  fixes a :: attribute_schema
  assumes "as_type a = Some t"
  shows "(cty_category a = Some Primitive \<longleftrightarrow> (\<exists>p. schema_type_to_variable_type t = TPrim p))
    \<and> (schema_type_to_variable_type t \<in> range TList \<union> range TSet \<union> range TMap \<union> range TTuple \<union> range TObject
         \<longrightarrow> cty_category a = Some Collection)
    \<and> ((\<exists>fs. schema_type_to_variable_type t
           \<in> {TObject fs, TList (TObject fs), TSet (TObject fs), TMap (TObject fs)}) \<longrightarrow> is_block_like a)"
proof (cases t rule: schema_type_to_variable_type.cases)
  case (2 h u rest)
  have cat: "cty_category a = (if h \<in> {''list'', ''set'', ''tuple'', ''map'', ''object''} then Some Collection else None)"
    using assms by (simp add: cty_category_def 2 json_str_def json_head_def json_at_def)
  have blk: "is_block_like a \<longleftrightarrow> h = ''object'' \<or> h \<in> {''set'', ''list'', ''map''} \<and> json_head u = Some ''object''"
    using assms by (simp add: is_block_like_def 2 json_str_def json_head_def json_at_def)
  note obj = object_head [of u]
  consider "h = ''list''" | "h = ''set''" | "h = ''map''" | "h = ''tuple''" | "h = ''object''"
    | "h \<noteq> ''list''" "h \<noteq> ''set''" "h \<noteq> ''map''" "h \<noteq> ''tuple''" "h \<noteq> ''object''" by argo
  then show ?thesis
  proof cases
    case 4
    then show ?thesis unfolding cat blk by (cases u) (auto simp: 2)
  next
    case 5
    then show ?thesis unfolding cat blk by (cases u) (auto simp: 2)
  next
    case 6
    then show ?thesis unfolding cat blk by (auto simp: 2)
  qed (use obj in \<open>unfold cat blk, auto simp: 2\<close>)
qed (use assms in \<open>auto simp: cty_category_def json_str_def json_head_def json_at_def split: json.splits if_splits\<close>)

definition sample_attribute :: attribute_schema where
  "sample_attribute = \<lparr>as_type = Some (JArray [JString ''set'', JArray [JString ''object'', JObject []]]),
     as_description = None, as_description_kind = None, as_required = False, as_optional = True,
     as_computed = False, as_sensitive = False, as_deprecated = False, conflicts_with = [], required_with = [],
     exactly_one_of = [], at_least_one_of = [], allowed_values = None\<rparr>"

lemma cty_category_agrees_witness: "cty_category sample_attribute = Some Collection \<and> is_block_like sample_attribute"
  using cty_category_agrees [of sample_attribute "JArray [JString ''set'', JArray [JString ''object'', JObject []]]"]
  by (simp add: sample_attribute_def bt_extend_def)

end
