(* ===== verification/Workspace.thy ===== *)
theory Workspace
  imports Store Schema LockFile
begin

text \<open>
  The other half of \<^verbatim>\<open>crates/tfls-state/src/store.rs\<close>: what the store keeps about directories and
  providers. The file system that \<open>lock_file_for\<close> consults is the parameter \<open>lock_fs\<close>.
\<close>

section \<open>State\<close>

datatype dir_scan_state = Scheduled | Completed

record unknown_var_bits =
  membership :: bool
  uv_value :: bool
  reason :: string

type_synonym var_bits = "(string, unknown_var_bits) hash_map"

record 'v caches =
  schemas :: "(provider_address, provider_schema) hash_map"
  function_table :: "(string, function_signature) hash_map"
  dir_scans :: "(string, dir_scan_state) hash_map"
  installed_provider_versions :: "(provider_address, string) hash_map"
  assigned_variable_types :: "(string, (string, vtype list) hash_map) hash_map"
  unknown_module_vars :: "(string, (string, var_bits) hash_map) hash_map"
  locks :: "(string, 'v lock_file) hash_map"
  locks_mtime :: "(string, nat) hash_map"

definition no_caches :: "'v caches" where
  "no_caches = \<lparr>schemas = [], function_table = [], dir_scans = [], installed_provider_versions = [],
     assigned_variable_types = [], unknown_module_vars = [], locks = [], locks_mtime = []\<rparr>"

section \<open>Directory scans\<close>

text \<open>The caches after the call, and whether the caller should enqueue a scan.\<close>

definition mark_scan_scheduled :: "string \<Rightarrow> 'v caches \<Rightarrow> 'v caches \<times> bool" where
  "mark_scan_scheduled dir c =
     (if hm_get (dir_scans c) dir \<noteq> None then (c, False)
      else (c\<lparr>dir_scans := hm_insert dir Scheduled (dir_scans c)\<rparr>, True))"

definition mark_scan_completed :: "string \<Rightarrow> 'v caches \<Rightarrow> 'v caches" where
  "mark_scan_completed dir c = c\<lparr>dir_scans := hm_insert dir Completed (dir_scans c)\<rparr>"

definition is_scan_tracked :: "'v caches \<Rightarrow> string \<Rightarrow> bool" where
  "is_scan_tracked c dir \<longleftrightarrow> hm_get (dir_scans c) dir \<noteq> None"

definition is_scan_completed :: "'v caches \<Rightarrow> string \<Rightarrow> bool" where
  "is_scan_completed c dir \<longleftrightarrow> hm_get (dir_scans c) dir = Some Completed"

section \<open>Types and unknowns that flow into modules\<close>

definition replace_assigned_variable_types ::
    "string \<Rightarrow> (string, vtype list) hash_map \<Rightarrow> 'v caches \<Rightarrow> 'v caches" where
  "replace_assigned_variable_types dir assignments c = c\<lparr>assigned_variable_types :=
     (if assignments = [] then hm_remove dir (assigned_variable_types c)
      else hm_insert dir assignments (assigned_variable_types c))\<rparr>"

definition merged_assigned_type :: "'v caches \<Rightarrow> string \<Rightarrow> string \<Rightarrow> vtype option" where
  "merged_assigned_type c dir name = do {
     entry \<leftarrow> hm_get (assigned_variable_types c) dir;
     observations \<leftarrow> hm_get entry name;
     merged \<leftarrow> merge_observations observations;
     (if merged = TAny then None else Some merged)
   }"

definition drop_caller ::
    "string \<Rightarrow> (string, var_bits) hash_map \<Rightarrow> (string, (string, var_bits) hash_map) hash_map
      \<Rightarrow> (string, (string, var_bits) hash_map) hash_map" where
  "drop_caller caller staged m =
     (let stale = (\<lambda>child. hm_get staged child = None);
          dropped = map (\<lambda>(child, v). (child, if stale child then hm_remove caller v else v)) m
      in filter (\<lambda>(child, v). \<not> (stale child \<and> v = [])) dropped)"

definition insert_caller ::
    "string \<Rightarrow> string \<times> var_bits \<Rightarrow> (string, (string, var_bits) hash_map) hash_map
      \<Rightarrow> (string, (string, var_bits) hash_map) hash_map" where
  "insert_caller caller cv m = hm_insert (fst cv)
     (hm_insert caller (snd cv) (case hm_get m (fst cv) of None \<Rightarrow> [] | Some v \<Rightarrow> v)) m"

definition replace_unknown_module_vars_from_caller ::
    "string \<Rightarrow> (string, var_bits) hash_map \<Rightarrow> 'v caches \<Rightarrow> 'v caches" where
  "replace_unknown_module_vars_from_caller caller staged c = c\<lparr>unknown_module_vars :=
     fold (insert_caller caller) staged (drop_caller caller staged (unknown_module_vars c))\<rparr>"

section \<open>Lock files\<close>

record 'v lock_fs =
  canonical :: "string \<Rightarrow> string"      \<comment> \<open>\<open>canonical_or_owned\<close>\<close>
  lock_mtime :: "string \<Rightarrow> nat option"  \<comment> \<open>modification time of the directory's lock file\<close>
  read_lock :: "string \<Rightarrow> 'v lock_file option"  \<comment> \<open>\<open>lock_file::read_for_module\<close>\<close>

definition invalidate_lock :: "'v lock_fs \<Rightarrow> string \<Rightarrow> 'v caches \<Rightarrow> 'v caches" where
  "invalidate_lock fs dir c =
     (let key = canonical fs dir in
      c\<lparr>locks := hm_remove key (locks c), locks_mtime := hm_remove key (locks_mtime c)\<rparr>)"

definition lock_file_for :: "'v lock_fs \<Rightarrow> string \<Rightarrow> 'v caches \<Rightarrow> 'v caches \<times> 'v lock_file option" where
  "lock_file_for fs dir c =
     (let key = canonical fs dir in
      case lock_mtime fs key of
        None \<Rightarrow> (c\<lparr>locks := hm_remove key (locks c), locks_mtime := hm_remove key (locks_mtime c)\<rparr>, None)
      | Some now \<Rightarrow>
          (let fresh = (case read_lock fs key of
               None \<Rightarrow> (c, None)
             | Some l \<Rightarrow> (c\<lparr>locks := hm_insert key l (locks c), locks_mtime := hm_insert key now (locks_mtime c)\<rparr>, Some l)) in
           if hm_get (locks_mtime c) key = Some now then
             (case hm_get (locks c) key of Some l \<Rightarrow> (c, Some l) | None \<Rightarrow> fresh)
           else fresh))"

section \<open>Functions and provider schemas\<close>

definition merge_functions :: "(string \<times> function_signature) list \<Rightarrow> 'v caches \<Rightarrow> 'v caches" where
  "merge_functions fs c = c\<lparr>function_table := fold (\<lambda>(n, f) m. hm_insert n f m) fs (function_table c)\<rparr>"

definition install_functions :: "functions_schema \<Rightarrow> 'v caches \<Rightarrow> 'v caches" where
  "install_functions fsch c = c\<lparr>function_table := fold (\<lambda>(n, f) m. hm_insert n f m) (function_signatures fsch) []\<rparr>"

definition install_schema :: "string \<times> provider_schema \<Rightarrow> (provider_address, provider_schema) hash_map
    \<Rightarrow> (provider_address, provider_schema) hash_map" where
  "install_schema ks m =
     (case provider_parse (fst ks) of Inr addr \<Rightarrow> hm_insert addr (snd ks) m | Inl _ \<Rightarrow> m)"

definition install_schemas :: "provider_schemas \<Rightarrow> 'v caches \<Rightarrow> 'v caches" where
  "install_schemas ps c = c\<lparr>schemas := fold install_schema (ps_provider_schemas ps) (schemas c)\<rparr>"

definition record_installed_version :: "provider_address \<Rightarrow> string \<Rightarrow> 'v caches \<Rightarrow> 'v caches" where
  "record_installed_version addr v c =
     c\<lparr>installed_provider_versions := hm_insert addr v (installed_provider_versions c)\<rparr>"

definition installed_version :: "'v caches \<Rightarrow> provider_address \<Rightarrow> string option" where
  "installed_version c addr = hm_get (installed_provider_versions c) addr"

definition has_real_provider_schemas :: "(provider_address, provider_schema) hash_map \<Rightarrow> bool" where
  "has_real_provider_schemas m \<longleftrightarrow> list_ex (\<lambda>(addr, _). \<not> is_builtin addr) m"

definition find_schema ::
    "(provider_schema \<Rightarrow> (string, schema) hash_map) \<Rightarrow> (provider_address, provider_schema) hash_map \<Rightarrow> string
      \<Rightarrow> provider_schema option" where
  "find_schema sel m ty = find (\<lambda>p. hm_get (sel p) ty \<noteq> None) (map snd m)"

definition find_resource_schema :: "(provider_address, provider_schema) hash_map \<Rightarrow> string \<Rightarrow> provider_schema option" where
  "find_resource_schema m ty = find_schema resource_schemas m ty"

definition find_data_source_schema :: "(provider_address, provider_schema) hash_map \<Rightarrow> string \<Rightarrow> provider_schema option" where
  "find_data_source_schema m ty = find_schema data_source_schemas m ty"

definition resource_schema :: "(provider_address, provider_schema) hash_map \<Rightarrow> string \<Rightarrow> schema option" where
  "resource_schema m ty = do { p \<leftarrow> find_resource_schema m ty; hm_get (resource_schemas p) ty }"

definition data_source_schema :: "(provider_address, provider_schema) hash_map \<Rightarrow> string \<Rightarrow> schema option" where
  "data_source_schema m ty = do { p \<leftarrow> find_data_source_schema m ty; hm_get (data_source_schemas p) ty }"

text \<open>\<open>out.sort(); out.dedup()\<close>.\<close>

definition sort_dedup :: "string list \<Rightarrow> string list" where
  "sort_dedup out = remdups_adj (sort out)"

definition all_resource_types :: "(provider_address, provider_schema) hash_map \<Rightarrow> string list" where
  "all_resource_types m = sort_dedup (concat (map (\<lambda>(_, p). map fst (resource_schemas p)) m))"

definition all_data_source_types :: "(provider_address, provider_schema) hash_map \<Rightarrow> string list" where
  "all_data_source_types m = sort_dedup (concat (map (\<lambda>(_, p). map fst (data_source_schemas p)) m))"

definition resources_of_type :: "'e store \<Rightarrow> string \<Rightarrow> string list" where
  "resources_of_type s ty = sort_dedup (concat (map (\<lambda>(_, d).
     map rname (filter (\<lambda>a. resource_type a = ty) (map fst (resources (d_symbols d))))) (documents s)))"

definition data_sources_of_type :: "'e store \<Rightarrow> string \<Rightarrow> string list" where
  "data_sources_of_type s ty = sort_dedup (concat (map (\<lambda>(_, d).
     map rname (filter (\<lambda>a. resource_type a = ty) (map fst (data_sources (d_symbols d))))) (documents s)))"

definition all_variable_names :: "'e store \<Rightarrow> string list" where
  "all_variable_names s = sort_dedup (concat (map (\<lambda>(_, d). map fst (variables (d_symbols d))) (documents s)))"

definition all_local_names :: "'e store \<Rightarrow> string list" where
  "all_local_names s = sort_dedup (concat (map (\<lambda>(_, d). map fst (locals (d_symbols d))) (documents s)))"

text \<open>\<open>impl SchemaLookup for StateStore\<close>: the other methods keep the trait's defaults.\<close>

definition attribute_type :: "schema option \<Rightarrow> string \<Rightarrow> vtype option" where
  "attribute_type sch attr = do {
     s \<leftarrow> sch;
     a \<leftarrow> hm_get (attributes (schema_block s)) attr;
     raw \<leftarrow> as_type a;
     Some (schema_type_to_variable_type raw)
   }"

definition store_schema_lookup :: "(provider_address, provider_schema) hash_map \<Rightarrow> schema_lookup" where
  "store_schema_lookup m = no_schema_lookup\<lparr>
     resource_attr := (\<lambda>ty attr. attribute_type (resource_schema m ty) attr),
     data_source_attr := (\<lambda>ty attr. attribute_type (data_source_schema m ty) attr)\<rparr>"


section \<open>Scans run once\<close>

datatype scan_event = Schedule string | Complete string

fun scan_run :: "scan_event list \<Rightarrow> 'v caches \<Rightarrow> 'v caches \<times> bool list" where
  "scan_run [] c = (c, [])"
| "scan_run (Schedule dir # es) c =
     (let (c1, enqueue) = mark_scan_scheduled dir c; (c2, rs) = scan_run es c1 in (c2, enqueue # rs))"
| "scan_run (Complete dir # es) c =
     (let (c2, rs) = scan_run es (mark_scan_completed dir c) in (c2, False # rs))"

text \<open>How often a directory's scan is enqueued in a run.\<close>

definition enqueued :: "string \<Rightarrow> scan_event list \<Rightarrow> bool list \<Rightarrow> nat" where
  "enqueued dir es rs = length (filter (\<lambda>(e, r). e = Schedule dir \<and> r) (zip es rs))"

definition first_event :: "string \<Rightarrow> scan_event list \<Rightarrow> scan_event option" where
  "first_event dir es = find (\<lambda>e. e = Schedule dir \<or> e = Complete dir) es"

text \<open>
  C39. A directory's scan is enqueued at most once in any run: exactly when the directory was not tracked
  and the run first schedules it rather than completing it. A completed scan never goes back to
  scheduled, and only a completion makes it completed.
\<close>

theorem scan_enqueued_once:
  "(case scan_run es c of (c', rs) \<Rightarrow>
      enqueued dir es rs = (if \<not> is_scan_tracked c dir \<and> first_event dir es = Some (Schedule dir) then 1 else 0)
    \<and> (is_scan_completed c' dir \<longleftrightarrow> is_scan_completed c dir \<or> Complete dir \<in> set es))"
proof (induction es arbitrary: c)
  case (Cons e es)
  show ?case
  proof (cases e)
    case (Schedule d)
    obtain c1 b where c1: "mark_scan_scheduled d c = (c1, b)" by (cases "mark_scan_scheduled d c")
    obtain c2 rs where c2: "scan_run es c1 = (c2, rs)" by (cases "scan_run es c1")
    have "b \<longleftrightarrow> \<not> is_scan_tracked c d" "is_scan_tracked c1 dir \<longleftrightarrow> is_scan_tracked c dir \<or> dir = d"
      "is_scan_completed c1 dir \<longleftrightarrow> is_scan_completed c dir"
      using c1 by (auto simp: mark_scan_scheduled_def is_scan_tracked_def is_scan_completed_def hm_get_insert
        split: if_splits)
    with Cons.IH [of c1] c1 c2 show ?thesis
      by (auto simp: Schedule enqueued_def first_event_def)
  next
    case (Complete d)
    let ?c1 = "mark_scan_completed d c"
    obtain c2 rs where c2: "scan_run es ?c1 = (c2, rs)" by (cases "scan_run es ?c1")
    have "is_scan_tracked ?c1 dir \<longleftrightarrow> is_scan_tracked c dir \<or> dir = d"
      "is_scan_completed ?c1 dir \<longleftrightarrow> is_scan_completed c dir \<or> dir = d"
      by (auto simp: mark_scan_completed_def is_scan_tracked_def is_scan_completed_def hm_get_insert)
    with Cons.IH [of ?c1] c2 show ?thesis
      by (auto simp: Complete enqueued_def first_event_def)
  qed
qed (simp add: enqueued_def first_event_def)

section \<open>The lock cache is transparent\<close>

text \<open>
  The states of the disk a server meets. They are honest when a lock file's modification time
  identifies its content.
\<close>

definition honest :: "'v lock_fs set \<Rightarrow> bool" where
  "honest FS \<longleftrightarrow> (\<forall>f g key t. f \<in> FS \<and> g \<in> FS \<and> lock_mtime f key = Some t \<and> lock_mtime g key = Some t
     \<longrightarrow> read_lock f key = read_lock g key)"

inductive lock_reachable :: "'v lock_fs set \<Rightarrow> 'v caches \<Rightarrow> bool" for FS where
  fresh: "lock_reachable FS no_caches"
| looked_up: "lock_reachable FS c \<Longrightarrow> fs \<in> FS \<Longrightarrow> lock_reachable FS (fst (lock_file_for fs dir c))"
| invalidated: "lock_reachable FS c \<Longrightarrow> fs \<in> FS \<Longrightarrow> lock_reachable FS (invalidate_lock fs dir c)"

definition locks_genuine :: "'v lock_fs set \<Rightarrow> 'v caches \<Rightarrow> bool" where
  "locks_genuine FS c \<longleftrightarrow> (\<forall>key t l. hm_get (locks_mtime c) key = Some t \<and> hm_get (locks c) key = Some l
     \<longrightarrow> (\<exists>fs. fs \<in> FS \<and> lock_mtime fs key = Some t \<and> read_lock fs key = Some l))"

lemma hm_get_remove: "hm_get (hm_remove k m) = (hm_get m)(k := None)"
  by (simp add: hm_get_def hm_remove_def AList.delete_conv' fun_eq_iff)

lemma lock_file_for_cases:
  obtains "lock_mtime fs (canonical fs dir) = None" "lock_file_for fs dir c = (invalidate_lock fs dir c, None)"
  | t where "lock_mtime fs (canonical fs dir) = Some t" "read_lock fs (canonical fs dir) = None"
      "\<not> (hm_get (locks_mtime c) (canonical fs dir) = Some t \<and> hm_get (locks c) (canonical fs dir) \<noteq> None)"
      "lock_file_for fs dir c = (c, None)"
  | t l where "lock_mtime fs (canonical fs dir) = Some t" "read_lock fs (canonical fs dir) = Some l"
      "lock_file_for fs dir c = (c\<lparr>locks := hm_insert (canonical fs dir) l (locks c),
         locks_mtime := hm_insert (canonical fs dir) t (locks_mtime c)\<rparr>, Some l)"
  | t l where "lock_mtime fs (canonical fs dir) = Some t" "hm_get (locks_mtime c) (canonical fs dir) = Some t"
      "hm_get (locks c) (canonical fs dir) = Some l" "lock_file_for fs dir c = (c, Some l)"
proof (cases "lock_mtime fs (canonical fs dir)")
  case None
  with that(1) show thesis by (simp add: lock_file_for_def invalidate_lock_def Let_def)
next
  case (Some t)
  show thesis
  proof (cases "hm_get (locks_mtime c) (canonical fs dir) = Some t \<and> hm_get (locks c) (canonical fs dir) \<noteq> None")
    case True
    then obtain l where "hm_get (locks c) (canonical fs dir) = Some l" by blast
    with True Some that(4) show thesis by (simp add: lock_file_for_def Let_def)
  next
    case False
    then have "lock_file_for fs dir c = (case read_lock fs (canonical fs dir) of
               None \<Rightarrow> (c, None)
             | Some l \<Rightarrow> (c\<lparr>locks := hm_insert (canonical fs dir) l (locks c),
                 locks_mtime := hm_insert (canonical fs dir) t (locks_mtime c)\<rparr>, Some l))"
      using Some by (auto simp: lock_file_for_def Let_def)
    with Some False that(2,3) show thesis by (cases "read_lock fs (canonical fs dir)") auto
  qed
qed

lemma lock_reachable_genuine: "lock_reachable FS c \<Longrightarrow> locks_genuine FS c"
proof (induction rule: lock_reachable.induct)
  case fresh
  show ?case by (simp add: locks_genuine_def no_caches_def hm_get_def)
next
  case (looked_up c fs dir)
  show ?case
    by (rule lock_file_for_cases [of fs dir c])
      (use looked_up in \<open>auto simp: locks_genuine_def invalidate_lock_def Let_def hm_get_remove hm_get_insert\<close>)
next
  case (invalidated c fs dir)
  then show ?case by (auto simp: locks_genuine_def invalidate_lock_def Let_def hm_get_remove)
qed

text \<open>
  Caching the lock file is transparent: after any lookups and invalidations on any states of the disk,
  a lookup returns what reading the file now would return, and nothing when there is no file, provided
  a file's modification time identifies its content.
\<close>

theorem lock_cache_transparent:
  assumes "lock_reachable FS c" "honest FS" "fs \<in> FS"
  shows "snd (lock_file_for fs dir c)
    = (if lock_mtime fs (canonical fs dir) = None then None else read_lock fs (canonical fs dir))"
proof (cases rule: lock_file_for_cases [of fs dir c])
  case (4 t l)
  then obtain g where g: "g \<in> FS" "lock_mtime g (canonical fs dir) = Some t" "read_lock g (canonical fs dir) = Some l"
    using lock_reachable_genuine [OF assms(1)] unfolding locks_genuine_def by blast
  with 4(1) assms(2,3) have "read_lock fs (canonical fs dir) = Some l"
    unfolding honest_def by metis
  with 4 show ?thesis by simp
qed simp_all

section \<open>Unknown values by caller\<close>

lemma bind_eq_case: "Option.bind x f = (case x of None \<Rightarrow> None | Some y \<Rightarrow> f y)"
  by (cases x) simp_all

definition unknown_from :: "'v caches \<Rightarrow> string \<Rightarrow> string \<Rightarrow> var_bits option" where
  "unknown_from c child caller = do { v \<leftarrow> hm_get (unknown_module_vars c) child; hm_get v caller }"

lemma hm_get_drop_caller:
  "hm_ok m \<Longrightarrow> (case hm_get (drop_caller caller staged m) child of None \<Rightarrow> None | Some v \<Rightarrow> hm_get v who)
    = (if hm_get staged child = None \<and> who = caller then None
       else case hm_get m child of None \<Rightarrow> None | Some v \<Rightarrow> hm_get v who)"
proof (induction m)
  case (Cons cv m)
  obtain c v where cv: "cv = (c, v)" by (cases cv)
  have absent: "hm_get (drop_caller caller staged m) c = None"
  proof -
    have "fst ` set (drop_caller caller staged m) \<subseteq> fst ` set m"
      by (force simp: drop_caller_def Let_def)
    moreover have "c \<notin> fst ` set m" using Cons.prems by (simp add: cv hm_ok_def)
    ultimately show ?thesis by (auto simp: hm_get_None)
  qed
  have rest: "hm_get m c = None"
    using Cons.prems by (simp add: cv hm_ok_def hm_get_def map_of_eq_None_iff)
  have step: "hm_get (drop_caller caller staged (cv # m)) child =
    (if c = child \<and> \<not> (hm_get staged c = None \<and> hm_remove caller v = [])
     then Some (if hm_get staged c = None then hm_remove caller v else v)
     else hm_get (drop_caller caller staged m) child)"
    by (auto simp: cv drop_caller_def hm_get_def Let_def)
  have empty: "hm_remove caller v = [] \<Longrightarrow> hm_get v who = (if who = caller then hm_get v who else None)"
    using hm_get_remove [of caller v] by (auto simp: fun_eq_iff hm_get_def split: if_splits)
  show ?case
  proof (cases "c = child")
    case True
    have "hm_get (cv # m) child = Some v" by (simp add: cv hm_get_def True)
    with absent empty True show ?thesis by (auto simp: step hm_get_remove)
  next
    case False
    then have "hm_get (cv # m) child = hm_get m child" by (simp add: cv hm_get_def)
    with False step Cons show ?thesis by (simp add: hm_ok_def)
  qed
qed (simp add: drop_caller_def hm_get_def)

lemma hm_ok_drop_caller: "hm_ok m \<Longrightarrow> hm_ok (drop_caller caller staged m)"
  by (simp add: hm_ok_def drop_caller_def Let_def comp_def case_prod_beta distinct_map_filter)

lemma hm_get_insert_callers:
  "distinct (map fst staged) \<Longrightarrow>
    (case hm_get (fold (insert_caller caller) staged m) child of None \<Rightarrow> None | Some v \<Rightarrow> hm_get v who)
    = (if who = caller \<and> child \<in> fst ` set staged then hm_get staged child
       else case hm_get m child of None \<Rightarrow> None | Some v \<Rightarrow> hm_get v who)"
proof (induction staged arbitrary: m)
  case (Cons cv staged)
  have absent: "fst cv \<notin> fst ` set staged" using Cons.prems by simp
  have here: "hm_get (cv # staged) child = (if child = fst cv then Some (snd cv) else hm_get staged child)"
    by (cases cv) (simp add: hm_get_def)
  show ?case
  proof (cases "child = fst cv")
    case True
    then show ?thesis
      using Cons absent here by (auto simp: insert_caller_def hm_get_insert hm_get_def [of "[]"] split: option.split)
  next
    case False
    then show ?thesis using Cons here by (auto simp: insert_caller_def hm_get_insert)
  qed
qed simp

text \<open>
  A rebuild replaces exactly one caller's contribution: afterwards each child directory has from this
  caller what was staged (nothing where nothing was), and from every other caller what it had.
\<close>

theorem caller_contribution_replaced:
  assumes "hm_ok (unknown_module_vars c)" "hm_ok staged"
  shows "unknown_from (replace_unknown_module_vars_from_caller caller staged c) child who
    = (if who = caller then hm_get staged child else unknown_from c child who)"
proof -
  have "hm_get staged child = None \<longleftrightarrow> child \<notin> fst ` set staged" by (rule hm_get_None)
  with hm_get_insert_callers [where staged = staged and caller = caller and child = child and who = who
      and m = "drop_caller caller staged (unknown_module_vars c)"]
    hm_get_drop_caller [OF assms(1), where caller = caller and staged = staged and child = child and who = who] assms(2)
  show ?thesis
    by (auto simp: unknown_from_def replace_unknown_module_vars_from_caller_def hm_ok_def bind_eq_case split: if_splits)
qed


section \<open>Schemas as a type oracle\<close>

lemma attribute_type_ok: "attribute_type sch a = Some t \<Longrightarrow> type_ok t"
  by (auto simp: attribute_type_def bind_eq_Some_conv schema_type_ok)

lemma store_schema_ok: "schema_ok (store_schema_lookup m)"
  using attribute_type_ok by (auto simp: schema_ok_def store_schema_lookup_def no_schema_lookup_def)

text \<open>
  Whatever providers sent, type inference through the store's schemas gives well-formed types, and so
  does merging the observations of a variable.
\<close>

theorem store_types_well_formed:
  "type_ok (parse_value_shape_with_schema (store_schema_lookup (schemas c)) e)
   \<and> (case merged_assigned_type c dir name of
        None \<Rightarrow> True
      | Some t \<Rightarrow> t \<noteq> TAny
          \<and> merge_observations (the (hm_get (the (hm_get (assigned_variable_types c) dir)) name)) = Some t)"
  using parse_value_shape_with_schema_ok [OF store_schema_ok]
  by (auto simp: merged_assigned_type_def bind_eq_Some_conv split: option.split)

section \<open>Names and the index\<close>

lemma sort_dedup_props: "sorted (sort_dedup xs)" "distinct (sort_dedup xs)" "set (sort_dedup xs) = set xs"
proof -
  have "sorted ys \<Longrightarrow> distinct (remdups_adj ys)" for ys :: "string list"
    by (induction ys rule: remdups_adj.induct) (auto simp: antisym)
  then show "distinct (sort_dedup xs)" by (simp add: sort_dedup_def)
qed (simp_all add: sort_dedup_def sorted_remdups_adj)

lemma variable_entry:
  "(\<lparr>key_kind = Variable, key_name = n\<rparr>, l) \<in> set (document_definitions d)
     \<longleftrightarrow> (\<exists>s. (n, s) \<in> set (variables (d_symbols d)) \<and> l = sym_location s)"
  by (auto simp: document_definitions_def keyed_by_name_def keyed_by_address_def resource_key_def Let_def)

text \<open>
  The variable names offered for completion are sorted, without repetition, and exactly those
  goto-definition can resolve: a name is listed when the definition index has a location for it.
\<close>

theorem listed_names_resolve:
  assumes "store_reachable F s"
  shows "sorted (all_variable_names s) \<and> distinct (all_variable_names s)
    \<and> (n \<in> set (all_variable_names s)
        \<longleftrightarrow> locations_at (definitions_by_name s) \<lparr>key_kind = Variable, key_name = n\<rparr> \<noteq> [])"
proof -
  let ?k = "\<lparr>key_kind = Variable, key_name = n\<rparr>"
  have "mset (locations_at (definitions_by_name s) ?k) = filed_under document_definitions s ?k"
    using store_reachable_ok [OF assms] by (simp add: store_ok_def indexed_def locations_filed)
  then have "locations_at (definitions_by_name s) ?k \<noteq> [] \<longleftrightarrow> filed_under document_definitions s ?k \<noteq> {#}"
    by (metis mset_zero_iff)
  also have "\<dots> \<longleftrightarrow> (\<exists>u d l. (u, d) \<in> set (documents s) \<and> (?k, l) \<in> set (document_definitions d))"
    by (auto simp: filed_under_def document_entries_def filter_mset_eq_mempty_iff)
  also have "\<dots> \<longleftrightarrow> n \<in> set (all_variable_names s)"
    by (force simp: variable_entry all_variable_names_def sort_dedup_props(3))
  finally show ?thesis by (simp add: all_variable_names_def sort_dedup_props(1,2))
qed

lemma listed_names_resolve_witness: "''a'' \<in> set (all_variable_names sample_store)"
proof -
  have "mset (locations_at (definitions_by_name sample_store) \<lparr>key_kind = Variable, key_name = ''a''\<rparr>)
      = {#sym_location sample_symbol#}"
    using store_reachable_ok [OF sample_store_reachable [of tiny_front]]
    by (simp add: store_ok_def indexed_def locations_filed sample_store_filed)
  then have "locations_at (definitions_by_name sample_store) \<lparr>key_kind = Variable, key_name = ''a''\<rparr> \<noteq> []"
    by auto
  with listed_names_resolve [OF sample_store_reachable [of tiny_front], of "''a''"] show ?thesis by blast
qed

text \<open>A disk whose only lock file is in \<open>m\<close>, before and after it was written.\<close>

definition sample_disk :: "nat option \<Rightarrow> nat lock_fs" where
  "sample_disk t = \<lparr>canonical = (\<lambda>p. p), lock_mtime = (\<lambda>p. if p = ''m'' then t else None),
     read_lock = (\<lambda>p. if p = ''m'' \<and> t \<noteq> None then Some [] else None)\<rparr>"

lemma lock_cache_transparent_witness:
  "snd (lock_file_for (sample_disk (Some 5)) ''m'' (fst (lock_file_for (sample_disk (Some 5)) ''m'' no_caches))) = Some []"
proof -
  let ?FS = "{sample_disk (Some 5), sample_disk None}"
  have "lock_reachable ?FS (fst (lock_file_for (sample_disk (Some 5)) ''m'' no_caches))"
    by (intro lock_reachable.intros) simp
  moreover have "honest ?FS" by (auto simp: honest_def sample_disk_def)
  ultimately show ?thesis
    using lock_cache_transparent [of ?FS _ "sample_disk (Some 5)" "''m''"] by (simp add: sample_disk_def)
qed

lemma caller_contribution_replaced_witness:
  "unknown_from (replace_unknown_module_vars_from_caller ''a'' []
     (no_caches\<lparr>unknown_module_vars := [(''m'', [(''a'', []), (''b'', [])])]\<rparr>)) ''m'' ''b'' = Some []"
  using caller_contribution_replaced [of "no_caches\<lparr>unknown_module_vars := [(''m'', [(''a'', []), (''b'', [])])]\<rparr>"
      "[]" "''a''" "''m''" "''b''"]
  by (simp add: no_caches_def hm_ok_def unknown_from_def hm_get_def)

end
