(* ===== verification/Diagnostics.thy ===== *)
theory Diagnostics
  imports Symbols StableSort
begin

text \<open>
  What the lint rules of \<^verbatim>\<open>crates/tfls-diag/src/\<close> produce: the fields of \<^verbatim>\<open>lsp_types::Diagnostic\<close>
  that some rule sets (the source is always \<^verbatim>\<open>terraform-ls-rs\<close>, the others stay at their default),
  and the helpers that several rules repeat.
\<close>

datatype severity = SevError | SevWarning | SevInformation | SevHint

datatype diagnostic_tag = Unnecessary | Deprecated

record diagnostic =
  dg_range :: lsp_range
  dg_severity :: severity
  dg_message :: string
  dg_tags :: "diagnostic_tag list"

definition default_range :: lsp_range where
  "default_range = \<lparr>range_start = \<lparr>pos_line = 0, pos_character = 0\<rparr>, range_end = \<lparr>pos_line = 0, pos_character = 0\<rparr>\<rparr>"

text \<open>The dash and the arrow of the messages, in UTF-8.\<close>

definition em_dash :: string where
  "em_dash = [CHR 0xE2, CHR 0x80, CHR 0x94]"

definition arrow :: string where
  "arrow = [CHR 0xE2, CHR 0x86, CHR 0x92]"

text \<open>\<open>hcl_span_to_lsp_range(rope, span.unwrap_or(0..0)).unwrap_or_default()\<close>.\<close>

definition span_or_default :: "rope \<Rightarrow> span option \<Rightarrow> lsp_range may_panic" where
  "span_or_default rope sp =
     map_option (\<lambda>r. case r of None \<Rightarrow> default_range | Some x \<Rightarrow> x)
       (span_range rope (case sp of None \<Rightarrow> (0, 0) | Some s \<Rightarrow> s))"

text \<open>Sorting diagnostics by the start of their range.\<close>

definition cmp_start :: "diagnostic \<Rightarrow> diagnostic \<Rightarrow> ordering" where
  "cmp_start a b =
     (case cmp (pos_line (range_start (dg_range a))) (pos_line (range_start (dg_range b))) of
        Equal \<Rightarrow> cmp (pos_character (range_start (dg_range a))) (pos_character (range_start (dg_range b)))
      | c \<Rightarrow> c)"

interpretation by_start: comparator cmp_start
  by unfold_locales (auto simp: cmp_start_def cmp_def split: if_splits)

end
