(* ===== verification/Cycles.thy ===== *)
theory Cycles
  imports Diagnostics
begin

text \<open>
  \<^verbatim>\<open>crates/tfls-diag/src/cyclic_locals.rs\<close>: dependency cycles among the locals of a file. The
  definitions are collected into a hash map, and a depth-first search from every name reports the
  members of the first cycle it runs into. Hash maps and sets iterate in an arbitrary order, so the
  theorems are about every order in which the map and the dependency sets may be listed.
\<close>

record local_def =
  deps :: "string list"    \<comment> \<open>a hash set, listed in its iteration order\<close>
  def_range :: lsp_range

section \<open>Collecting the locals\<close>

text \<open>The expressions this rule's own visitor is called on: template directives are not entered.\<close>

fun visit_local_expr :: "expr \<Rightarrow> expr list" where
  "visit_local_expr (EArray items) = EArray items # concat (map visit_local_expr items)"
| "visit_local_expr (EObject sp fs) = EObject sp fs #
     concat (map (\<lambda>(k, v). (case k of KExpr ke \<Rightarrow> visit_local_expr ke | KIdent _ \<Rightarrow> []) @ visit_local_expr v) fs)"
| "visit_local_expr (EParenthesis e) = EParenthesis e # visit_local_expr e"
| "visit_local_expr (EConditional c t f) =
     EConditional c t f # visit_local_expr c @ visit_local_expr t @ visit_local_expr f"
| "visit_local_expr (EFuncCall sp ns name args) = EFuncCall sp ns name args # concat (map visit_local_expr args)"
| "visit_local_expr (ETraversal sp root ops) = ETraversal sp root ops # visit_local_expr root
     @ concat (map (\<lambda>op. case op of Index e \<Rightarrow> visit_local_expr e | _ \<Rightarrow> []) ops)"
| "visit_local_expr (EUnaryOp op e) = EUnaryOp op e # visit_local_expr e"
| "visit_local_expr (EBinaryOp sp l op r) = EBinaryOp sp l op r # visit_local_expr l @ visit_local_expr r"
| "visit_local_expr (EFor k v coll key val cond) = EFor k v coll key val cond # visit_local_expr coll
     @ (case key of Some e \<Rightarrow> visit_local_expr e | None \<Rightarrow> []) @ visit_local_expr val
     @ (case cond of Some e \<Rightarrow> visit_local_expr e | None \<Rightarrow> [])"
| "visit_local_expr (EStringTemplate sp els) = EStringTemplate sp els
     # concat (map (\<lambda>el. case el of Interpolation e \<Rightarrow> visit_local_expr e | _ \<Rightarrow> []) els)"
| "visit_local_expr (EHeredocTemplate els) = EHeredocTemplate els
     # concat (map (\<lambda>el. case el of Interpolation e \<Rightarrow> visit_local_expr e | _ \<Rightarrow> []) els)"
| "visit_local_expr e = [e]"

definition referenced_local :: "expr \<Rightarrow> string option" where
  "referenced_local e =
     (case e of
        ETraversal _ (EVariable v) (GetAttr _ name # _) \<Rightarrow> if v = ''local'' then Some name else None
      | _ \<Rightarrow> None)"

definition local_deps :: "expr \<Rightarrow> string list" where
  "local_deps e = remdups (List.map_filter referenced_local (visit_local_expr e))"

definition collect_local ::
    "rope \<Rightarrow> (string, local_def) hash_map \<Rightarrow> body_item \<Rightarrow> (string, local_def) hash_map may_panic" where
  "collect_local rope defs entry =
     (case entry of
        Attribute (name, sp) value _ _ \<Rightarrow> do {
          r \<leftarrow> opt_span_range rope sp;
          Some (case r of
              None \<Rightarrow> defs
            | Some rg \<Rightarrow>
                (let ds = local_deps value;
                     u = (case hm_get defs name of None \<Rightarrow> ds | Some d \<Rightarrow> deps d @ filter (\<lambda>x. x \<notin> set (deps d)) ds) in
                 hm_insert name \<lparr>deps = u, def_range = rg\<rparr> defs)) }
      | Block _ _ _ _ \<Rightarrow> Some defs)"

definition collect_locals :: "body \<Rightarrow> rope \<Rightarrow> (string, local_def) hash_map may_panic" where
  "collect_locals b rope =
     fold_may (\<lambda>defs item. case item of
          Block _ (kw, _) _ inner \<Rightarrow> if kw = ''locals'' then fold_may (collect_local rope) defs inner else Some defs
        | Attribute _ _ _ _ \<Rightarrow> Some defs) [] b"

section \<open>The search\<close>

record dfs_state =
  stack :: "string list"       \<comment> \<open>the top at the end\<close>
  on_stack :: "string set"
  visited :: "string set"

definition enter :: "string \<Rightarrow> dfs_state \<Rightarrow> dfs_state" where
  "enter n st = st\<lparr>stack := stack st @ [n], on_stack := insert n (on_stack st)\<rparr>"

definition leave :: "string \<Rightarrow> dfs_state \<Rightarrow> dfs_state" where
  "leave n st = st\<lparr>on_stack := on_stack st - {n}, stack := butlast (stack st)\<rparr>"

definition deps_of :: "(string, local_def) hash_map \<Rightarrow> string \<Rightarrow> string list" where
  "deps_of defs n = (case hm_get defs n of None \<Rightarrow> [] | Some d \<Rightarrow> deps d)"

text \<open>
  The loop over the dependencies still to look at, at the node on top of the stack. The recursive call
  of the code is the loop over the dependencies of \<open>dep\<close> between \<open>enter\<close> and \<open>leave\<close>.
\<close>

partial_function (option) dfs_deps ::
    "(string, local_def) hash_map \<Rightarrow> string list \<Rightarrow> dfs_state \<Rightarrow> (bool \<times> dfs_state) option" where
  "dfs_deps defs ds st =
     (case ds of
        [] \<Rightarrow> Some (False, st)
      | dep # rest \<Rightarrow>
          if hm_get defs dep = None then dfs_deps defs rest st
          else if dep \<in> on_stack st then Some (True, st\<lparr>stack := dropWhile (\<lambda>n. n \<noteq> dep) (stack st)\<rparr>)
          else if dep \<in> visited st then dfs_deps defs rest st
          else Option.bind (dfs_deps defs (deps_of defs dep) (enter dep (st\<lparr>visited := insert dep (visited st)\<rparr>)))
            (\<lambda>r. if fst r then Some (True, snd r) else dfs_deps defs rest (leave dep (snd r))))"

definition dfs :: "(string, local_def) hash_map \<Rightarrow> string \<Rightarrow> dfs_state \<Rightarrow> (bool \<times> dfs_state) option" where
  "dfs defs node st =
     map_option (\<lambda>(b, st'). if b then (True, st') else (False, leave node st'))
       (dfs_deps defs (deps_of defs node) (enter node st))"

definition find_cycle_from :: "string \<Rightarrow> (string, local_def) hash_map \<Rightarrow> string list option option" where
  "find_cycle_from start defs =
     map_option (\<lambda>(b, st). if b then Some (stack st) else None)
       (dfs defs start \<lparr>stack = [], on_stack = {}, visited = {}\<rparr>)"

definition render_path :: "string list \<Rightarrow> string" where
  "render_path path =
     (let parts = map (\<lambda>n. ''local.'' @ n) path in
      join_with '' -> '' (parts @ (case parts of [] \<Rightarrow> [] | p # _ \<Rightarrow> [p])))"

definition cycle_diagnostic :: "string list \<Rightarrow> string \<Rightarrow> local_def \<Rightarrow> diagnostic" where
  "cycle_diagnostic path member d =
     \<lparr>dg_range = def_range d, dg_severity = SevError,
      dg_message = backquote (''local.'' @ member) @ '' is part of a dependency cycle: '' @ render_path path,
      dg_tags = []\<rparr>"

text \<open>The loop over the members of one cycle: the diagnostics so far and the names reported.\<close>

definition report_member ::
    "(string, local_def) hash_map \<Rightarrow> string list \<Rightarrow> string \<Rightarrow> diagnostic list \<times> string set \<Rightarrow> diagnostic list \<times> string set" where
  "report_member defs path member acc =
     (case acc of (out, reported) \<Rightarrow>
        if member \<in> reported then (out, reported)
        else (case hm_get defs member of
            None \<Rightarrow> (out, insert member reported)
          | Some d \<Rightarrow> (out @ [cycle_diagnostic path member d], insert member reported)))"

definition report_from ::
    "(string, local_def) hash_map \<Rightarrow> diagnostic list \<times> string set \<Rightarrow> string \<Rightarrow> (diagnostic list \<times> string set) option" where
  "report_from defs acc name =
     (if name \<in> snd acc then Some acc
      else do {
        c \<leftarrow> find_cycle_from name defs;
        Some (case c of None \<Rightarrow> acc | Some path \<Rightarrow> fold (report_member defs path) path acc) })"

definition report_cycles :: "(string, local_def) hash_map \<Rightarrow> (diagnostic list \<times> string set) option" where
  "report_cycles defs = fold_may (report_from defs) ([], {}) (map fst defs)"

definition cyclic_locals_diagnostics :: "body \<Rightarrow> rope \<Rightarrow> diagnostic list may_panic" where
  "cyclic_locals_diagnostics b rope = do {
     defs \<leftarrow> collect_locals b rope;
     (if defs = [] then Some []
      else map_option (\<lambda>(out, _). sort_by cmp_start out) (report_cycles defs)) }"

section \<open>The search finds a cycle exactly when there is one\<close>

definition edges :: "(string, local_def) hash_map \<Rightarrow> (string \<times> string) set" where
  "edges defs = {(x, y). y \<in> set (deps_of defs x) \<and> hm_get defs y \<noteq> None}"

fun path_in :: "(string \<times> string) set \<Rightarrow> string list \<Rightarrow> bool" where
  "path_in E (x # y # p) \<longleftrightarrow> (x, y) \<in> E \<and> path_in E (y # p)"
| "path_in E _ \<longleftrightarrow> True"

definition cycle_in :: "(string \<times> string) set \<Rightarrow> string list \<Rightarrow> bool" where
  "cycle_in E p \<longleftrightarrow> p \<noteq> [] \<and> distinct p \<and> path_in E p \<and> (last p, hd p) \<in> E"

lemma path_in_append: "path_in E (p @ [x]) \<longleftrightarrow> path_in E p \<and> (p = [] \<or> (last p, x) \<in> E)"
  by (induction E p rule: path_in.induct) auto

lemma path_in_drop: "path_in E (p @ q) \<Longrightarrow> path_in E q"
proof (induction p)
  case (Cons a p)
  then show ?case by (cases "p @ q") auto
qed simp

text \<open>The nodes whose search has ended: closed under edges, and on no cycle.\<close>

definition search_ok :: "(string, local_def) hash_map \<Rightarrow> dfs_state \<Rightarrow> bool" where
  "search_ok defs st \<longleftrightarrow>
     distinct (stack st) \<and> on_stack st = set (stack st) \<and> path_in (edges defs) (stack st)
     \<and> edges defs `` (visited st - on_stack st) \<subseteq> visited st - on_stack st
     \<and> (\<forall>x \<in> visited st - on_stack st. (x, x) \<notin> (edges defs)\<^sup>+)"

abbreviation finished :: "dfs_state \<Rightarrow> string set" where
  "finished st \<equiv> visited st - on_stack st"

lemma closed_trancl: "(x, y) \<in> E\<^sup>+ \<Longrightarrow> E `` D \<subseteq> D \<Longrightarrow> x \<in> D \<Longrightarrow> y \<in> D"
  by (induction rule: trancl_induct) auto


lemma path_reaches: "path_in E p \<Longrightarrow> x \<in> set p \<Longrightarrow> (hd p, x) \<in> E\<^sup>*"
proof (induction E p rule: path_in.induct)
  case (1 E a b p)
  then show ?case by (cases "x = a") (auto intro: converse_rtrancl_into_rtrancl)
qed auto

lemma cycle_reaches: "cycle_in E p \<Longrightarrow> x \<in> set p \<Longrightarrow> y \<in> set p \<Longrightarrow> (x, y) \<in> E\<^sup>*"
proof -
  assume p: "cycle_in E p" "x \<in> set p" "y \<in> set p"
  obtain q r where qr: "p = q @ x # r" using p(2) by (auto simp: in_set_conv_decomp)
  have "(x, last p) \<in> E\<^sup>*"
    using path_reaches [of E "x # r" "last p"] path_in_drop [of E q "x # r"] p(1) by (simp add: qr cycle_in_def)
  moreover have "(last p, hd p) \<in> E" "(hd p, y) \<in> E\<^sup>*"
    using p path_reaches by (auto simp: cycle_in_def)
  ultimately show "(x, y) \<in> E\<^sup>*" by (meson rtrancl.rtrancl_into_rtrancl rtrancl_trans)
qed

lemma cycle_members:
  assumes "cycle_in E p" "x \<in> set p"
  shows "(x, x) \<in> E\<^sup>+"
proof -
  have "(last p, hd p) \<in> E" "last p \<in> set p" "hd p \<in> set p" using assms by (auto simp: cycle_in_def)
  with assms cycle_reaches have "(x, last p) \<in> E\<^sup>*" "(last p, hd p) \<in> E" "(hd p, x) \<in> E\<^sup>*" by blast+
  then show ?thesis by (meson rtrancl_into_trancl1 trancl_rtrancl_trancl)
qed

lemma finite_names: "finite {k. hm_get defs k \<noteq> None}"
  using finite_dom_map_of [of defs] by (simp add: hm_get_def dom_def)

lemma trim_cycle:
  assumes "search_ok defs st" "dep \<in> on_stack st" "(last (stack st), dep) \<in> edges defs"
  shows "cycle_in (edges defs) (dropWhile (\<lambda>n. n \<noteq> dep) (stack st))"
proof -
  obtain q r where qr: "stack st = q @ dep # r" "dep \<notin> set q"
    using assms(1,2) by (auto simp: search_ok_def dest: split_list_first)
  then have "dropWhile (\<lambda>n. n \<noteq> dep) (stack st) = dep # r"
    by (simp add: dropWhile_append)
  moreover have "path_in (edges defs) (dep # r)" "distinct (dep # r)"
    using assms(1) path_in_drop [of "edges defs" q "dep # r"] by (auto simp: search_ok_def qr(1))
  ultimately show ?thesis using assms(3) by (auto simp: cycle_in_def qr(1))
qed

lemma enter_ok:
  assumes "search_ok defs st" "stack st \<noteq> []" "(last (stack st), dep) \<in> edges defs"
    "dep \<notin> on_stack st" "dep \<notin> visited st"
  shows "search_ok defs (enter dep (st\<lparr>visited := insert dep (visited st)\<rparr>))"
proof -
  have "insert dep (visited st) - insert dep (on_stack st) = finished st" using assms(5) by auto
  with assms show ?thesis by (auto simp: search_ok_def enter_def path_in_append)
qed

lemma leave_ok:
  assumes "search_ok defs st" "stack st = p @ [dep]" "p \<noteq> []"
    "\<forall>d \<in> set (deps_of defs dep). hm_get defs d \<noteq> None \<longrightarrow> d \<in> finished st" "dep \<in> visited st"
  shows "search_ok defs (leave dep st) \<and> finished (leave dep st) = insert dep (finished st)"
proof -
  let ?D = "finished st"
  have on: "on_stack st = insert dep (set p)" "dep \<notin> set p"
    using assms(1,2) by (auto simp: search_ok_def)
  then have fin: "finished (leave dep st) = insert dep ?D"
    using assms(2,5) by (auto simp: leave_def)
  have closed: "edges defs `` ?D \<subseteq> ?D" using assms(1) unfolding search_ok_def by blast
  have step: "edges defs `` {dep} \<subseteq> ?D" using assms(4) by (auto simp: edges_def)
  have "(dep, dep) \<notin> (edges defs)\<^sup>+"
  proof
    assume "(dep, dep) \<in> (edges defs)\<^sup>+"
    then obtain y where "(dep, y) \<in> edges defs" "(y, dep) \<in> (edges defs)\<^sup>*" by (meson tranclD)
    then have "dep \<in> ?D"
      using step closed closed_trancl [of y dep "edges defs" ?D] by (auto simp: rtrancl_eq_or_trancl)
    with on(1) show False by auto
  qed
  moreover have "path_in (edges defs) p" "distinct p"
    using assms(1,2) by (auto simp: search_ok_def path_in_append)
  moreover have "stack (leave dep st) = p" "on_stack (leave dep st) = set p"
    using assms(2) on by (auto simp: leave_def)
  moreover have "\<forall>x \<in> ?D. (x, x) \<notin> (edges defs)\<^sup>+" using assms(1) unfolding search_ok_def by blast
  moreover have "edges defs `` insert dep ?D \<subseteq> insert dep ?D" using closed step by blast
  ultimately have "search_ok defs (leave dep st)"
    unfolding search_ok_def fin by (simp only: simp_thms insert_iff ball_simps)
  with fin show ?thesis by simp
qed

lemma dfs_deps_correct:
  assumes "card ({k. hm_get defs k \<noteq> None} - visited st) \<le> n" "search_ok defs st" "stack st \<noteq> []"
    "\<forall>d \<in> set ds. hm_get defs d \<noteq> None \<longrightarrow> (last (stack st), d) \<in> edges defs"
  shows "\<exists>b st'. dfs_deps defs ds st = Some (b, st')
    \<and> (if b then cycle_in (edges defs) (stack st') \<and> (hd (stack st), hd (stack st')) \<in> (edges defs)\<^sup>*
       else search_ok defs st' \<and> stack st' = stack st \<and> visited st \<subseteq> visited st'
         \<and> (\<forall>d \<in> set ds. hm_get defs d \<noteq> None \<longrightarrow> d \<in> finished st'))"
  using assms
proof (induction n arbitrary: ds st rule: less_induct)
  case (less n)
  note outer = less.IH
  from less.prems show ?case
  proof (induction ds arbitrary: st)
    case Nil
    then show ?case by (auto simp: dfs_deps.simps)
  next
    case (Cons dep rest)
    let ?keys = "{k. hm_get defs k \<noteq> None}" and ?E = "edges defs"
    consider (skip) "hm_get defs dep = None \<or> dep \<notin> on_stack st \<and> dep \<in> visited st"
      | (found) "hm_get defs dep \<noteq> None" "dep \<in> on_stack st"
      | (new) "hm_get defs dep \<noteq> None" "dep \<notin> on_stack st" "dep \<notin> visited st" by blast
    then show ?case
    proof cases
      case skip
      then have eq: "dfs_deps defs (dep # rest) st = dfs_deps defs rest st"
        by (auto simp: dfs_deps.simps [of defs "dep # rest"])
      from Cons.IH [OF Cons.prems(1-3)] Cons.prems(4) obtain b st' where *:
        "dfs_deps defs rest st = Some (b, st')"
        "if b then cycle_in ?E (stack st') \<and> (hd (stack st), hd (stack st')) \<in> ?E\<^sup>*
         else search_ok defs st' \<and> stack st' = stack st \<and> visited st \<subseteq> visited st'
           \<and> (\<forall>d \<in> set rest. hm_get defs d \<noteq> None \<longrightarrow> d \<in> finished st')" by auto
      then have "\<not> b \<Longrightarrow> on_stack st' = on_stack st" using Cons.prems(2) by (auto simp: search_ok_def)
      with * skip show ?thesis unfolding eq by (cases b) auto
    next
      case found
      have e: "(last (stack st), dep) \<in> ?E" using Cons.prems(4) found by simp
      let ?p = "dropWhile (\<lambda>n. n \<noteq> dep) (stack st)"
      have "cycle_in ?E ?p" using trim_cycle [OF Cons.prems(2) found(2) e] .
      moreover have "hd ?p \<in> set (stack st)"
        by (metis calculation cycle_in_def hd_in_set set_dropWhileD)
      then have "(hd (stack st), hd ?p) \<in> ?E\<^sup>*"
        using Cons.prems(2) path_reaches by (auto simp: search_ok_def)
      moreover have "dfs_deps defs (dep # rest) st = Some (True, st\<lparr>stack := ?p\<rparr>)"
        using found by (auto simp: dfs_deps.simps [of defs "dep # rest"])
      ultimately show ?thesis by auto
    next
      case new
      have e: "(last (stack st), dep) \<in> ?E" using Cons.prems(4) new by simp
      let ?st1 = "enter dep (st\<lparr>visited := insert dep (visited st)\<rparr>)"
      have ok1: "search_ok defs ?st1" using enter_ok [OF Cons.prems(2,3) e new(2,3)] .
      have "?keys - visited ?st1 \<subset> ?keys - visited st" using new by (auto simp: enter_def)
      then have "card (?keys - visited ?st1) < card (?keys - visited st)"
        by (intro psubset_card_mono finite_Diff finite_names)
      then have m: "card (?keys - visited ?st1) < n" using Cons.prems(1) by simp
      have "\<forall>d \<in> set (deps_of defs dep). hm_get defs d \<noteq> None \<longrightarrow> (last (stack ?st1), d) \<in> ?E"
        by (simp add: enter_def edges_def)
      from outer [OF m order.refl ok1 _ this] obtain b st2 where sub:
        "dfs_deps defs (deps_of defs dep) ?st1 = Some (b, st2)"
        "if b then cycle_in ?E (stack st2) \<and> (hd (stack ?st1), hd (stack st2)) \<in> ?E\<^sup>*
         else search_ok defs st2 \<and> stack st2 = stack ?st1 \<and> visited ?st1 \<subseteq> visited st2
           \<and> (\<forall>d \<in> set (deps_of defs dep). hm_get defs d \<noteq> None \<longrightarrow> d \<in> finished st2)"
        by (auto simp: enter_def)
      have hd1: "hd (stack ?st1) = hd (stack st)" using Cons.prems(3) by (simp add: enter_def)
      have eq: "dfs_deps defs (dep # rest) st
          = (if b then Some (True, st2) else dfs_deps defs rest (leave dep st2))"
        using new sub(1) by (auto simp: dfs_deps.simps [of defs "dep # rest"])
      show ?thesis
      proof (cases b)
        case True
        with sub(2) hd1 show ?thesis by (auto simp: eq)
      next
        case False
        let ?st3 = "leave dep st2"
        have s2: "stack st2 = stack st @ [dep]" "dep \<in> visited st2" "visited st \<subseteq> visited st2"
          using False sub(2) by (auto simp: enter_def)
        from leave_ok [OF _ s2(1) Cons.prems(3) _ s2(2)] False sub(2)
        have s3: "search_ok defs ?st3" "finished ?st3 = insert dep (finished st2)" by auto
        have st3: "stack ?st3 = stack st" "visited ?st3 = visited st2" by (simp_all add: leave_def s2(1))
        have "card (?keys - visited ?st3) \<le> card (?keys - visited st)"
          using s2(3) by (intro card_mono finite_Diff finite_names) (auto simp: st3)
        then have le: "card (?keys - visited ?st3) \<le> n" using Cons.prems(1) by simp
        have pre: "stack ?st3 \<noteq> []"
          "\<forall>d \<in> set rest. hm_get defs d \<noteq> None \<longrightarrow> (last (stack ?st3), d) \<in> ?E"
          using Cons.prems(3,4) by (simp_all add: st3(1))
        from Cons.IH [OF le s3(1) pre] obtain b' st' where *:
          "dfs_deps defs rest ?st3 = Some (b', st')"
          "if b' then cycle_in ?E (stack st') \<and> (hd (stack st), hd (stack st')) \<in> ?E\<^sup>*
           else search_ok defs st' \<and> stack st' = stack st \<and> visited st2 \<subseteq> visited st'
             \<and> (\<forall>d \<in> set rest. hm_get defs d \<noteq> None \<longrightarrow> d \<in> finished st')" unfolding st3 by blast
        have "dep \<in> finished st'" if "\<not> b'"
          using that * s2 new(2) Cons.prems(2) by (auto simp: search_ok_def)
        with * s2(3) False show ?thesis unfolding eq by (cases b') auto
      qed
    qed
  qed
qed


section \<open>What is reported\<close>

lemma find_cycle_from_correct:
  assumes "hm_get defs start \<noteq> None"
  shows "\<exists>c. find_cycle_from start defs = Some c
    \<and> (case c of Some p \<Rightarrow> cycle_in (edges defs) p \<and> (start, hd p) \<in> (edges defs)\<^sup>*
       | None \<Rightarrow> (start, start) \<notin> (edges defs)\<^sup>+)"
proof -
  let ?E = "edges defs"
  let ?st = "enter start \<lparr>stack = [], on_stack = {}, visited = {}\<rparr>"
  have st: "stack ?st = [start]" "on_stack ?st = {start}" "visited ?st = {}"
    by (simp_all add: enter_def)
  have ok: "search_ok defs ?st" by (simp add: search_ok_def st)
  have "\<forall>d \<in> set (deps_of defs start). hm_get defs d \<noteq> None \<longrightarrow> (last (stack ?st), d) \<in> ?E"
    by (simp add: st edges_def)
  from dfs_deps_correct [OF order.refl ok _ this] obtain b st' where raw:
    "dfs_deps defs (deps_of defs start) ?st = Some (b, st')"
    "if b then cycle_in ?E (stack st') \<and> (hd (stack ?st), hd (stack st')) \<in> ?E\<^sup>*
     else search_ok defs st' \<and> stack st' = stack ?st \<and> visited ?st \<subseteq> visited st'
       \<and> (\<forall>d \<in> set (deps_of defs start). hm_get defs d \<noteq> None \<longrightarrow> d \<in> finished st')"
    unfolding st(1) by blast
  then have *: "dfs_deps defs (deps_of defs start) ?st = Some (b, st')"
    "if b then cycle_in ?E (stack st') \<and> (start, hd (stack st')) \<in> ?E\<^sup>*
     else search_ok defs st' \<and> stack st' = [start]
       \<and> (\<forall>d \<in> set (deps_of defs start). hm_get defs d \<noteq> None \<longrightarrow> d \<in> finished st')"
    by (cases b; simp add: st(1))+
  show ?thesis
  proof (cases b)
    case True
    with * show ?thesis by (simp add: find_cycle_from_def dfs_def)
  next
    case False
    with *(2) have r: "search_ok defs st'" "stack st' = [start]"
      "\<forall>d \<in> set (deps_of defs start). hm_get defs d \<noteq> None \<longrightarrow> d \<in> finished st'" by auto
    then have ok': "search_ok defs st'" "on_stack st' = {start}" "?E `` {start} \<subseteq> finished st'"
      by (simp, simp add: search_ok_def, auto simp: edges_def)
    have closed: "?E `` finished st' \<subseteq> finished st'" using ok'(1) unfolding search_ok_def by blast
    have "(start, start) \<notin> ?E\<^sup>+"
    proof
      assume "(start, start) \<in> ?E\<^sup>+"
      then obtain y where "(start, y) \<in> ?E" "(y, start) \<in> ?E\<^sup>*" by (meson tranclD)
      then have "start \<in> finished st'"
        using ok'(3) closed closed_trancl [of y start ?E "finished st'"] by (auto simp: rtrancl_eq_or_trancl)
      with ok'(2) show False by simp
    qed
    with False *(1) show ?thesis by (simp add: find_cycle_from_def dfs_def)
  qed
qed

text \<open>
  The reports so far: each is about a name on a cycle, no name twice, and every name looked at
  that is on a cycle reaches a reported one.
\<close>

definition report_ok :: "(string, local_def) hash_map \<Rightarrow> string set \<Rightarrow> diagnostic list \<times> string set \<Rightarrow> bool" where
  "report_ok defs seen acc \<longleftrightarrow>
     (\<exists>ms. distinct (map fst ms) \<and> snd acc = fst ` set ms
        \<and> fst acc = map (\<lambda>(m, p, d). cycle_diagnostic p m d) ms
        \<and> (\<forall>(m, p, d) \<in> set ms. m \<in> set p \<and> cycle_in (edges defs) p \<and> hm_get defs m = Some d))
     \<and> (\<forall>x \<in> seen. (x, x) \<in> (edges defs)\<^sup>+ \<longrightarrow> (\<exists>m \<in> snd acc. (x, m) \<in> (edges defs)\<^sup>*))"

lemma edges_known: "(x, y) \<in> (edges defs)\<^sup>* \<Longrightarrow> hm_get defs x \<noteq> None \<Longrightarrow> hm_get defs y \<noteq> None"
  by (induction rule: rtrancl_induct) (auto simp: edges_def)

lemma cycle_known: "cycle_in (edges defs) p \<Longrightarrow> m \<in> set p \<Longrightarrow> hm_get defs m \<noteq> None"
  using cycle_members [of "edges defs" p m] by (auto simp: edges_def dest!: tranclD2)

lemma report_member_ok:
  assumes "report_ok defs seen acc" "m \<in> set p" "cycle_in (edges defs) p"
  shows "report_ok defs seen (report_member defs p m acc)" "snd (report_member defs p m acc) = insert m (snd acc)"
proof -
  obtain d where d: "hm_get defs m = Some d" using cycle_known [OF assms(3,2)] by blast
  obtain out reported where acc: "acc = (out, reported)" by (cases acc)
  show "snd (report_member defs p m acc) = insert m (snd acc)"
    by (auto simp: report_member_def acc d)
  show "report_ok defs seen (report_member defs p m acc)"
  proof (cases "m \<in> reported")
    case True
    with assms(1) show ?thesis by (simp add: report_member_def acc)
  next
    case False
    from assms(1) obtain ms where ms: "distinct (map fst ms)" "reported = fst ` set ms"
      "out = map (\<lambda>(m, p, d). cycle_diagnostic p m d) ms"
      "\<forall>(m, p, d) \<in> set ms. m \<in> set p \<and> cycle_in (edges defs) p \<and> hm_get defs m = Some d"
      by (auto simp: report_ok_def acc)
    have seen: "\<forall>x \<in> seen. (x, x) \<in> (edges defs)\<^sup>+ \<longrightarrow> (\<exists>m \<in> insert m reported. (x, m) \<in> (edges defs)\<^sup>*)"
      using assms(1) by (fastforce simp: report_ok_def acc)
    have "report_member defs p m acc = (out @ [cycle_diagnostic p m d], insert m reported)"
      using False by (simp add: report_member_def acc d)
    with ms False assms(2,3) d seen show ?thesis
      unfolding report_ok_def by (intro conjI exI [of _ "ms @ [(m, p, d)]"]) auto
  qed
qed

lemma report_members_ok:
  assumes "report_ok defs seen acc" "set q \<subseteq> set p" "cycle_in (edges defs) p"
  shows "report_ok defs seen (fold (report_member defs p) q acc)
    \<and> snd (fold (report_member defs p) q acc) = set q \<union> snd acc"
  using assms
proof (induction q arbitrary: acc)
  case (Cons m q)
  then have m: "m \<in> set p" "set q \<subseteq> set p" by auto
  from Cons.IH [OF report_member_ok(1) [OF Cons.prems(1) m(1) assms(3)] m(2) assms(3)]
    report_member_ok(2) [OF Cons.prems(1) m(1) assms(3)]
  show ?case by auto
qed simp

lemma report_from_ok:
  assumes "report_ok defs seen acc" "hm_get defs name \<noteq> None"
  shows "\<exists>acc'. report_from defs acc name = Some acc' \<and> report_ok defs (insert name seen) acc'"
proof (cases "name \<in> snd acc")
  case True
  with assms(1) have "report_ok defs (insert name seen) acc" by (auto simp: report_ok_def)
  with True show ?thesis by (simp add: report_from_def)
next
  case False
  from find_cycle_from_correct [OF assms(2)] obtain c where c: "find_cycle_from name defs = Some c"
    "case c of Some p \<Rightarrow> cycle_in (edges defs) p \<and> (name, hd p) \<in> (edges defs)\<^sup>*
      | None \<Rightarrow> (name, name) \<notin> (edges defs)\<^sup>+" by blast
  show ?thesis
  proof (cases c)
    case None
    with c assms(1) False show ?thesis by (auto simp: report_from_def report_ok_def)
  next
    case (Some p)
    with c(2) have p: "cycle_in (edges defs) p" "(name, hd p) \<in> (edges defs)\<^sup>*" by auto
    let ?acc = "fold (report_member defs p) p acc"
    from report_members_ok [OF assms(1) order.refl p(1)]
    have "report_ok defs seen ?acc" "hd p \<in> snd ?acc" using p(1) by (auto simp: cycle_in_def)
    with p(2) have "report_ok defs (insert name seen) ?acc" by (auto simp: report_ok_def)
    with False c(1) show ?thesis by (simp add: report_from_def Some)
  qed
qed

lemma report_all_ok:
  assumes "report_ok defs seen acc" "\<forall>n \<in> set names. hm_get defs n \<noteq> None"
  shows "\<exists>acc'. fold_may (report_from defs) acc names = Some acc' \<and> report_ok defs (set names \<union> seen) acc'"
  using assms
proof (induction names arbitrary: acc seen)
  case (Cons n names)
  from Cons.prems(2) have "hm_get defs n \<noteq> None" by simp
  from report_from_ok [OF Cons.prems(1) this] obtain acc' where
    "report_from defs acc n = Some acc'" "report_ok defs (insert n seen) acc'" by blast
  with Cons.IH [of "insert n seen" acc'] Cons.prems(2) show ?case by auto
qed simp

lemma report_cycles_ok: "\<exists>acc. report_cycles defs = Some acc \<and> report_ok defs (fst ` set defs) acc"
proof -
  have "report_ok defs {} ([], {})" by (auto simp: report_ok_def)
  moreover have "\<forall>n \<in> set (map fst defs). hm_get defs n \<noteq> None"
    by (auto simp: hm_get_def map_of_eq_None_iff)
  ultimately show ?thesis
    using report_all_ok [of defs "{}" "([], {})" "map fst defs"] by (auto simp: report_cycles_def)
qed


text \<open>A listing of the map: the same names and ranges, the same dependency sets, in any order.\<close>

definition listing_of :: "(string, local_def) hash_map \<Rightarrow> (string, local_def) hash_map \<Rightarrow> bool" where
  "listing_of defs defs' \<longleftrightarrow>
     (\<forall>n. rel_option (\<lambda>a b. set (deps a) = set (deps b) \<and> def_range a = def_range b) (hm_get defs n) (hm_get defs' n))"

lemma listing_refl: "listing_of defs defs"
  by (simp add: listing_of_def option.rel_refl)

lemma listing_known:
  assumes "listing_of defs defs'"
  shows "hm_get defs' n = None \<longleftrightarrow> hm_get defs n = None" "set (deps_of defs' n) = set (deps_of defs n)"
proof -
  have "rel_option (\<lambda>a b. set (deps a) = set (deps b) \<and> def_range a = def_range b) (hm_get defs n) (hm_get defs' n)"
    using assms by (simp add: listing_of_def)
  then show "hm_get defs' n = None \<longleftrightarrow> hm_get defs n = None" "set (deps_of defs' n) = set (deps_of defs n)"
    by (cases "hm_get defs n"; cases "hm_get defs' n"; simp add: deps_of_def)+
qed

lemma listing_edges:
  assumes "listing_of defs defs'"
  shows "edges defs' = edges defs"
  unfolding edges_def listing_known [OF assms] by (rule refl)

text \<open>
  C21. In whatever order the map and the sets are iterated, the search ends; every diagnostic is about
  a local on the cycle it prints, at its key, and no local has two; and every local on a cycle
  reaches a local that is reported, so no cycle goes unnoticed.
\<close>

theorem cycles_reported:
  assumes "collect_locals b rope = Some defs" "listing_of defs defs'"
  shows "\<exists>ms. report_cycles defs' = Some (map (\<lambda>(m, p, d). cycle_diagnostic p m d) ms, fst ` set ms)
    \<and> distinct (map fst ms)
    \<and> (\<forall>(m, p, d) \<in> set ms. m \<in> set p \<and> cycle_in (edges defs) p \<and> hm_get defs' m = Some d)
    \<and> (\<forall>x. (x, x) \<in> (edges defs)\<^sup>+ \<longrightarrow> (\<exists>m \<in> fst ` set ms. (x, m) \<in> (edges defs)\<^sup>*))"
proof -
  note E = listing_edges [OF assms(2)]
  obtain acc where acc: "report_cycles defs' = Some acc" "report_ok defs' (fst ` set defs') acc"
    using report_cycles_ok by blast
  then obtain ms where ms: "distinct (map fst ms)" "snd acc = fst ` set ms"
    "fst acc = map (\<lambda>(m, p, d). cycle_diagnostic p m d) ms"
    "\<forall>(m, p, d) \<in> set ms. m \<in> set p \<and> cycle_in (edges defs) p \<and> hm_get defs' m = Some d"
    "\<forall>x \<in> fst ` set defs'. (x, x) \<in> (edges defs)\<^sup>+ \<longrightarrow> (\<exists>m \<in> snd acc. (x, m) \<in> (edges defs)\<^sup>*)"
    unfolding report_ok_def E by blast
  have known: "x \<in> fst ` set defs'" if "(x, x) \<in> (edges defs)\<^sup>+" for x
  proof -
    from tranclD2 [OF that] have "\<exists>z. (z, x) \<in> edges defs'" unfolding E by blast
    then have "hm_get defs' x \<noteq> None" by (auto simp: edges_def)
    then show ?thesis by (auto simp: hm_get_def map_of_eq_None_iff)
  qed
  have "\<forall>x. (x, x) \<in> (edges defs)\<^sup>+ \<longrightarrow> (\<exists>m \<in> fst ` set ms. (x, m) \<in> (edges defs)\<^sup>*)"
  proof (intro allI impI)
    fix x assume x: "(x, x) \<in> (edges defs)\<^sup>+"
    from ms(5) [rule_format, OF known [OF x] x] show "\<exists>m \<in> fst ` set ms. (x, m) \<in> (edges defs)\<^sup>*"
      unfolding ms(2) .
  qed
  moreover have "report_cycles defs' = Some (map (\<lambda>(m, p, d). cycle_diagnostic p m d) ms, fst ` set ms)"
    using ms(2,3) acc(1) by (simp add: prod_eq_iff)
  ultimately show ?thesis using ms(1,4) by (intro exI [of _ ms] conjI)
qed

lemma dfs_deps_steps:
  "dfs_deps defs [] st = Some (False, st)"
  "hm_get defs dep = None \<Longrightarrow> dfs_deps defs (dep # rest) st = dfs_deps defs rest st"
  "hm_get defs dep \<noteq> None \<Longrightarrow> dep \<in> on_stack st
     \<Longrightarrow> dfs_deps defs (dep # rest) st = Some (True, st\<lparr>stack := dropWhile (\<lambda>n. n \<noteq> dep) (stack st)\<rparr>)"
  "hm_get defs dep \<noteq> None \<Longrightarrow> dep \<notin> on_stack st \<Longrightarrow> dep \<in> visited st
     \<Longrightarrow> dfs_deps defs (dep # rest) st = dfs_deps defs rest st"
  "hm_get defs dep \<noteq> None \<Longrightarrow> dep \<notin> on_stack st \<Longrightarrow> dep \<notin> visited st
     \<Longrightarrow> dfs_deps defs (dep # rest) st
       = Option.bind (dfs_deps defs (deps_of defs dep) (enter dep (st\<lparr>visited := insert dep (visited st)\<rparr>)))
          (\<lambda>r. if fst r then Some (True, snd r) else dfs_deps defs rest (leave dep (snd r)))"
  by (auto simp: dfs_deps.simps [of defs "dep # rest"] dfs_deps.simps [of defs "[]"])

text \<open>The locals \<open>a = local.b\<close> and \<open>b = [local.b, local.a]\<close>.\<close>

definition two_cycles :: "(string, local_def) hash_map" where
  "two_cycles = [(''a'', \<lparr>deps = [''b''], def_range = default_range\<rparr>),
     (''b'', \<lparr>deps = [''b'', ''a''], def_range = default_range\<rparr>)]"

text \<open>
  A local on a cycle can be left out: the search from it stops at another cycle, whose members are
  then marked as reported, and the search from those is skipped. Here \<open>a\<close> and \<open>b\<close> depend on each
  other and \<open>b\<close> on itself, and only \<open>b\<close> is reported.
\<close>

theorem cycle_member_missed:
  "(''a'', ''a'') \<in> (edges two_cycles)\<^sup>+ \<and> map_option snd (report_cycles two_cycles) = Some {''b''}"
proof
  have "(''a'', ''b'') \<in> edges two_cycles" "(''b'', ''a'') \<in> edges two_cycles"
    by (simp_all add: edges_def two_cycles_def deps_of_def hm_get_def)
  then show "(''a'', ''a'') \<in> (edges two_cycles)\<^sup>+" by (meson trancl.r_into_trancl trancl.trancl_into_trancl)
  have "find_cycle_from ''a'' two_cycles = Some (Some [''b''])"
    by (simp add: find_cycle_from_def dfs_def dfs_deps_steps two_cycles_def deps_of_def hm_get_def enter_def)
  then show "map_option snd (report_cycles two_cycles) = Some {''b''}"
    by (simp add: report_cycles_def report_from_def report_member_def two_cycles_def hm_get_def)
qed

definition self_referring :: body where
  "self_referring = [Block None (''locals'', None) [] [Attribute (''x'', Some (0, 1))
     (ETraversal None (EVariable ''local'') [GetAttr None ''x'']) None None]]"

lemma cycles_reported_witness:
  "\<exists>defs. collect_locals self_referring [120] = Some defs \<and> (''x'', ''x'') \<in> (edges defs)\<^sup>+
     \<and> (\<exists>out. report_cycles defs = Some (out, {''x''}))"
proof -
  let ?r = "\<lparr>range_start = \<lparr>pos_line = 0, pos_character = 0\<rparr>, range_end = \<lparr>pos_line = 0, pos_character = 1\<rparr>\<rparr>"
  let ?defs = "[(''x'', \<lparr>deps = [''x''], def_range = ?r\<rparr>)]"
  have c: "collect_locals self_referring [120] = Some ?defs"
    by (simp add: collect_locals_def self_referring_def collect_local_def span_eval Let_def hm_get_def hm_insert_def
      local_deps_def referenced_local_def List.map_filter_def lsp_range_of_def)
  have e: "edges ?defs = {(''x'', ''x'')}"
    by (auto simp: edges_def deps_of_def hm_get_def split: if_splits option.splits)
  from cycles_reported [OF c listing_refl] obtain ms where ms:
    "report_cycles ?defs = Some (map (\<lambda>(m, p, d). cycle_diagnostic p m d) ms, fst ` set ms)"
    "\<forall>(m, p, d) \<in> set ms. hm_get ?defs m = Some d"
    "\<forall>x. (x, x) \<in> (edges ?defs)\<^sup>+ \<longrightarrow> (\<exists>m \<in> fst ` set ms. (x, m) \<in> (edges ?defs)\<^sup>*)" by blast
  have "fst ` set ms \<subseteq> {''x''}" using ms(2) by (auto simp: hm_get_def split: if_splits)
  moreover have tr: "(''x'', ''x'') \<in> (edges ?defs)\<^sup>+" unfolding e by (rule r_into_trancl) simp
  from ms(3) [rule_format, OF tr] have "fst ` set ms \<noteq> {}" by (elim bexE) (metis empty_iff)
  ultimately have "fst ` set ms = {''x''}" by (metis subset_singletonD)
  then have "\<exists>out. report_cycles ?defs = Some (out, {''x''})" using ms(1) by simp
  show ?thesis by (rule exI [of _ ?defs], intro conjI) fact+
qed

end
