(* ===== verification/Unknown.thy ===== *)
theory Unknown
  imports Diagnostics Schema
begin

text \<open>
  \<^verbatim>\<open>crates/tfls-diag/src/unknown_value.rs\<close>: does the value of an expression, or the set of keys it
  yields, depend on something Terraform only knows after apply? The rules of
  \<^verbatim>\<open>for_each_unknown_keys.rs\<close> and \<^verbatim>\<open>import_unknown_id.rs\<close> are drivers over it.

  The functions of the file call each other recursively through \<open>references_apply_time\<close> and
  \<open>membership_apply_time_inner\<close>. Each is a definition over the recursive call it makes; the knot is
  tied over a number that is the stack still available: \<open>None\<close> is a stack overflow, which kills the
  process. So a theorem that the analysis answers for every large enough stack is its termination,
  and one that no stack is large enough is a crash.
\<close>

section \<open>Inputs\<close>

record block_config =
  bc_attrs :: "(string, expr) hash_map"
  nested_exprs :: "expr list"
  has_depends_on :: bool

record unknown_var_info =
  uv_membership :: bool
  uv_value :: bool
  uv_reason :: string

record module_unknown_inputs =
  mi_locals :: "(string, expr) hash_map"
  data_configs :: "(string \<times> string, block_config) hash_map"
  resource_configs :: "(string \<times> string, block_config) hash_map"
  unknown_variables :: "(string, unknown_var_info) hash_map"
  extra_plan_known :: "(string \<times> string, string list) hash_map"

record unknown_ctx = module_unknown_inputs +
  ctx_schema :: "(string \<Rightarrow> schema option) option"
  module_outputs :: "(string \<Rightarrow> string \<Rightarrow> string list \<Rightarrow> bool option) option"

definition no_inputs :: module_unknown_inputs where
  "no_inputs = \<lparr>mi_locals = [], data_configs = [], resource_configs = [], unknown_variables = [], extra_plan_known = []\<rparr>"

definition new_ctx :: "module_unknown_inputs \<Rightarrow> (string \<Rightarrow> schema option) option
    \<Rightarrow> (string \<Rightarrow> string \<Rightarrow> string list \<Rightarrow> bool option) option \<Rightarrow> unknown_ctx" where
  "new_ctx inputs sch outs = module_unknown_inputs.extend inputs \<lparr>ctx_schema = sch, module_outputs = outs\<rparr>"

text \<open>\<open>entry(k).or_insert(v)\<close> and \<open>extend\<close>.\<close>

definition or_insert :: "'k \<Rightarrow> 'v \<Rightarrow> ('k, 'v) hash_map \<Rightarrow> ('k, 'v) hash_map" where
  "or_insert k v m = (if hm_get m k = None then hm_insert k v m else m)"

definition hm_extend :: "('k, 'v) hash_map \<Rightarrow> ('k, 'v) hash_map \<Rightarrow> ('k, 'v) hash_map" where
  "hm_extend m m' = fold (\<lambda>(k, v). hm_insert k v) m' m"

definition hm_fill :: "('k, 'v) hash_map \<Rightarrow> ('k, 'v) hash_map \<Rightarrow> ('k, 'v) hash_map" where
  "hm_fill m m' = fold (\<lambda>(k, v). or_insert k v) m' m"

definition merge_missing :: "module_unknown_inputs \<Rightarrow> module_unknown_inputs \<Rightarrow> module_unknown_inputs" where
  "merge_missing a b = \<lparr>mi_locals = hm_fill (mi_locals a) (mi_locals b),
     data_configs = hm_fill (data_configs a) (data_configs b),
     resource_configs = hm_fill (resource_configs a) (resource_configs b),
     unknown_variables = hm_fill (unknown_variables a) (unknown_variables b),
     extra_plan_known = hm_fill (extra_plan_known a) (extra_plan_known b)\<rparr>"

definition merge_override :: "module_unknown_inputs \<Rightarrow> module_unknown_inputs \<Rightarrow> module_unknown_inputs" where
  "merge_override a b = \<lparr>mi_locals = hm_extend (mi_locals a) (mi_locals b),
     data_configs = hm_extend (data_configs a) (data_configs b),
     resource_configs = hm_extend (resource_configs a) (resource_configs b),
     unknown_variables = hm_extend (unknown_variables a) (unknown_variables b),
     extra_plan_known = hm_extend (extra_plan_known a) (extra_plan_known b)\<rparr>"

definition depends_on_managed_resource :: "expr \<Rightarrow> bool" where
  "depends_on_managed_resource e =
     (case e of
        EArray els \<Rightarrow> list_ex (\<lambda>el. case el of
            ETraversal _ (EVariable head) _ \<Rightarrow> head \<notin> {''data'', ''module''}
          | EVariable v \<Rightarrow> v \<notin> {''data'', ''module''}
          | _ \<Rightarrow> False) els
      | _ \<Rightarrow> False)"

fun collect_nested_exprs :: "body_item \<Rightarrow> expr list" where
  "collect_nested_exprs (Attribute _ e _ _) = [e]"
| "collect_nested_exprs (Block _ _ _ inner) = concat (map collect_nested_exprs inner)"

definition config_entry :: "block_config \<Rightarrow> body_item \<Rightarrow> block_config" where
  "config_entry c entry =
     (case entry of
        Block _ (kw, _) _ inner \<Rightarrow>
          if kw \<noteq> ''lifecycle'' then c\<lparr>nested_exprs := nested_exprs c @ concat (map collect_nested_exprs inner)\<rparr> else c
      | Attribute (key, _) value _ _ \<Rightarrow>
          if key = ''depends_on'' then c\<lparr>has_depends_on := depends_on_managed_resource value\<rparr>
          else if key \<in> {''count'', ''for_each'', ''provider''} then c
          else c\<lparr>bc_attrs := or_insert key value (bc_attrs c)\<rparr>)"

definition collect_local_entry :: "module_unknown_inputs \<Rightarrow> body_item \<Rightarrow> module_unknown_inputs" where
  "collect_local_entry out entry =
     (case entry of
        Attribute (key, _) value _ _ \<Rightarrow> out\<lparr>mi_locals := or_insert key value (mi_locals out)\<rparr>
      | Block _ _ _ _ \<Rightarrow> out)"

definition collect_input :: "module_unknown_inputs \<Rightarrow> body_item \<Rightarrow> module_unknown_inputs" where
  "collect_input out item =
     (case item of
        Attribute _ _ _ _ \<Rightarrow> out
      | Block _ (kw, _) labels inner \<Rightarrow>
          if kw = ''locals'' then foldl collect_local_entry out inner
          else if kw \<in> {''resource'', ''data''} then
            (case labels of
               [(ty, _), (name, _)] \<Rightarrow>
                 (let config = foldl config_entry \<lparr>bc_attrs = [], nested_exprs = [], has_depends_on = False\<rparr> inner in
                  if kw = ''data'' then out\<lparr>data_configs := or_insert (ty, name) config (data_configs out)\<rparr>
                  else out\<lparr>resource_configs := or_insert (ty, name) config (resource_configs out)\<rparr>)
             | _ \<Rightarrow> out)
          else out)"

definition collect_module_inputs :: "body \<Rightarrow> module_unknown_inputs" where
  "collect_module_inputs b = foldl collect_input no_inputs b"

section \<open>Names and paths\<close>

definition get_attrs :: "trav_op list \<Rightarrow> string list" where
  "get_attrs ops = List.map_filter (\<lambda>op. case op of GetAttr _ i \<Rightarrow> Some i | _ \<Rightarrow> None) ops"

definition first_attr :: "trav_op list \<Rightarrow> string option" where
  "first_attr ops = (case get_attrs ops of [] \<Rightarrow> None | a # _ \<Rightarrow> Some a)"

definition head_name :: "expr \<Rightarrow> string \<Rightarrow> string option" where
  "head_name e expected =
     (case e of ETraversal _ (EVariable head) ops \<Rightarrow> if head = expected then first_attr ops else None | _ \<Rightarrow> None)"

definition local_name :: "expr \<Rightarrow> string option" where
  "local_name e = head_name e ''local''"

definition var_name :: "expr \<Rightarrow> string option" where
  "var_name e =
     (case e of ETraversal _ _ ops \<Rightarrow> if length ops = 1 then head_name e ''var'' else None | _ \<Rightarrow> None)"

definition object_get :: "(obj_key \<times> expr) list \<Rightarrow> string \<Rightarrow> expr option" where
  "object_get fs name = map_option snd (find (\<lambda>(k, _). case k of
       KIdent i \<Rightarrow> i = name | KExpr (EString _ s) \<Rightarrow> s = name | _ \<Rightarrow> False) fs)"

definition safe_roots :: "string list" where
  "safe_roots = [''path'', ''terraform'', ''self'', ''each'', ''count'', ''var'', ''local'']"

definition plan_known_collections :: "(string \<times> string \<times> string list) list" where
  "plan_known_collections = [(''aws_acm_certificate'', ''domain_validation_options'', [''domain_name''])]"

definition is_collection_builder :: "string \<Rightarrow> bool" where
  "is_collection_builder name \<longleftrightarrow> name \<in> {''toset'', ''tomap'', ''tolist'', ''setunion'', ''setintersection'',
     ''setproduct'', ''setsubtract'', ''concat'', ''merge'', ''flatten'', ''keys'', ''distinct'', ''compact'', ''sort''}"

definition is_identity_passthrough :: "string \<Rightarrow> bool" where
  "is_identity_passthrough name \<longleftrightarrow> name \<in> {''nonsensitive'', ''sensitive''}"

definition is_membership_passthrough :: "string \<Rightarrow> bool" where
  "is_membership_passthrough name \<longleftrightarrow> is_identity_passthrough name \<or> name = ''try''"

definition identity_passthrough_arg :: "expr \<Rightarrow> expr option" where
  "identity_passthrough_arg e =
     (case e of
        EFuncCall _ _ name (a # _) \<Rightarrow> if is_identity_passthrough name then Some a else None
      | _ \<Rightarrow> None)"

text \<open>The fields known at plan, and whether a selected field is unknown (\<open>None\<close>: none selected).\<close>

definition allowlisted_traversal :: "unknown_ctx \<Rightarrow> expr \<Rightarrow> trav_op list \<Rightarrow> (string list \<times> bool option) option" where
  "allowlisted_traversal ctx root ops =
     (case root of
        EVariable head \<Rightarrow>
          if head = ''data'' \<or> head \<in> set safe_roots then None
          else (case get_attrs ops of
              _ # attr # sel \<Rightarrow>
                map_option (\<lambda>known. (known, if sel = [] then None else Some (list_ex (\<lambda>f. f \<notin> set known) sel)))
                  (case find (\<lambda>(ty, a, _). ty = head \<and> a = attr) plan_known_collections of
                     Some (_, _, fs) \<Rightarrow> Some fs
                   | None \<Rightarrow> hm_get (extra_plan_known ctx) (head, attr))
            | _ \<Rightarrow> None)
      | _ \<Rightarrow> None)"

definition bare_allowlisted :: "unknown_ctx \<Rightarrow> expr \<Rightarrow> string list option" where
  "bare_allowlisted ctx e =
     (case e of
        ETraversal _ root ops \<Rightarrow> (case allowlisted_traversal ctx root ops of Some (known, None) \<Rightarrow> Some known | _ \<Rightarrow> None)
      | _ \<Rightarrow> None)"

definition resolve_local_def :: "string option \<Rightarrow> unknown_ctx \<Rightarrow> string set \<Rightarrow> (expr \<times> string set) option" where
  "resolve_local_def name ctx visited = do {
     n \<leftarrow> name;
     (if n \<in> visited then None else map_option (\<lambda>d. (d, insert n visited)) (hm_get (mi_locals ctx) n)) }"

lemma finite_keys: "finite {k. hm_get m k \<noteq> None}"
  using finite_dom_map_of [of m] by (simp add: hm_get_def dom_def)

lemma identity_passthrough_size: "identity_passthrough_arg e = Some a \<Longrightarrow> size a < size e"
  by (auto simp: identity_passthrough_arg_def split: expr.splits list.splits if_splits)

function resolve_through_locals :: "unknown_ctx \<Rightarrow> expr \<Rightarrow> string set \<Rightarrow> expr \<times> string set" where
  "resolve_through_locals ctx cur v =
     (case local_name cur of
        Some name \<Rightarrow>
          if name \<in> v then (cur, v)
          else (case hm_get (mi_locals ctx) name of
              Some def \<Rightarrow> resolve_through_locals ctx def (insert name v)
            | None \<Rightarrow> (cur, insert name v))
      | None \<Rightarrow>
          (case identity_passthrough_arg cur of
             Some inner \<Rightarrow> resolve_through_locals ctx inner v
           | None \<Rightarrow> (cur, v)))"
  by pat_completeness auto
termination
proof (relation "measures [\<lambda>(ctx, _, v). card ({k. hm_get (mi_locals ctx) k \<noteq> None} - v), \<lambda>(_, e, _). size e]")
  fix ctx :: unknown_ctx and cur def name v
  assume "local_name cur = Some name" "name \<notin> v" "hm_get (mi_locals ctx) name = Some def"
  then have "{k. hm_get (mi_locals ctx) k \<noteq> None} - insert name v \<subset> {k. hm_get (mi_locals ctx) k \<noteq> None} - v"
    by auto
  then have "card ({k. hm_get (mi_locals ctx) k \<noteq> None} - insert name v) < card ({k. hm_get (mi_locals ctx) k \<noteq> None} - v)"
    by (intro psubset_card_mono finite_Diff finite_keys)
  then show "((ctx, def, insert name v), (ctx, cur, v)) \<in> measures
      [\<lambda>(ctx, _, v). card ({k. hm_get (mi_locals ctx) k \<noteq> None} - v), \<lambda>(_, e, _). size e]" by simp
qed (auto dest: identity_passthrough_size)

declare resolve_through_locals.simps [simp del]


section \<open>The analysis\<close>

text \<open>\<open>any\<close>, \<open>is_some_and\<close> and \<open>||\<close>: they stop at the first hit.\<close>

fun any_may :: "('a \<Rightarrow> bool option) \<Rightarrow> 'a list \<Rightarrow> bool option" where
  "any_may f [] = Some False"
| "any_may f (x # xs) = do { b \<leftarrow> f x; if b then Some True else any_may f xs }"

lemma any_may_cong [fundef_cong]:
  "xs = ys \<Longrightarrow> (\<And>x. x \<in> set ys \<Longrightarrow> f x = g x) \<Longrightarrow> any_may f xs = any_may g ys"
proof (induction ys arbitrary: xs)
  case (Cons y ys)
  then have "any_may f ys = any_may g ys" by simp
  with Cons.prems show ?case by (simp split: Option.bind_splits)
qed simp

definition or_may :: "bool option \<Rightarrow> bool option \<Rightarrow> bool option" where
  "or_may a b = do { x \<leftarrow> a; if x then Some True else b }"

definition opt_may :: "('a \<Rightarrow> bool option) \<Rightarrow> 'a option \<Rightarrow> bool option" where
  "opt_may f o' = (case o' of None \<Rightarrow> Some False | Some x \<Rightarrow> f x)"

text \<open>A loop variable is bound to the element values or the element keys of a collection.\<close>

datatype bind = BindValue expr | BindKey expr

type_synonym binds = "string \<Rightarrow> bind option"

text \<open>The recursive call of \<open>references_apply_time\<close>.\<close>

type_synonym recurse = "expr \<Rightarrow> binds \<Rightarrow> string set \<Rightarrow> bool option"

definition bind_loop :: "string option \<Rightarrow> string \<Rightarrow> expr \<Rightarrow> binds \<Rightarrow> binds" where
  "bind_loop key_var value_var coll binds =
     (let inner = binds(value_var \<mapsto> BindValue coll) in
      case key_var of None \<Rightarrow> inner | Some k \<Rightarrow> inner(k \<mapsto> BindKey coll))"

definition index_operators_apply_time :: "recurse \<Rightarrow> trav_op list \<Rightarrow> binds \<Rightarrow> string set \<Rightarrow> bool option" where
  "index_operators_apply_time refs ops binds visited =
     any_may (\<lambda>op. case op of Index e \<Rightarrow> refs e binds visited | _ \<Rightarrow> Some False) ops"

definition element_field_apply_time :: "recurse \<Rightarrow> expr \<Rightarrow> string option \<Rightarrow> binds \<Rightarrow> string set \<Rightarrow> bool option" where
  "element_field_apply_time refs elem field binds visited =
     (case field of
        None \<Rightarrow> refs elem binds visited
      | Some f \<Rightarrow>
          (case elem of
             EObject _ fs \<Rightarrow> opt_may (\<lambda>fv. refs fv binds visited) (object_get fs f)
           | _ \<Rightarrow> refs elem binds visited))"

definition element_value_apply_time ::
    "recurse \<Rightarrow> unknown_ctx \<Rightarrow> expr \<Rightarrow> string option \<Rightarrow> binds \<Rightarrow> string set \<Rightarrow> bool option" where
  "element_value_apply_time refs ctx coll field binds visited =
     (case resolve_through_locals ctx coll visited of (resolved, v2) \<Rightarrow>
        (case resolved of
           EObject _ fs \<Rightarrow> any_may (\<lambda>(_, v). element_field_apply_time refs v field binds v2) fs
         | EArray els \<Rightarrow> any_may (\<lambda>el. element_field_apply_time refs el field binds v2) els
         | _ \<Rightarrow>
             (case bare_allowlisted ctx resolved of
                Some known \<Rightarrow> Some (case field of Some f \<Rightarrow> f \<notin> set known | None \<Rightarrow> True)
              | None \<Rightarrow> refs resolved binds v2)))"

definition key_set_apply_time :: "recurse \<Rightarrow> unknown_ctx \<Rightarrow> expr \<Rightarrow> binds \<Rightarrow> string set \<Rightarrow> bool option" where
  "key_set_apply_time refs ctx coll binds visited =
     (case resolve_through_locals ctx coll visited of (resolved, v2) \<Rightarrow>
        (case resolved of
           EObject _ _ \<Rightarrow> Some False
         | EArray els \<Rightarrow> any_may (\<lambda>el. refs el binds v2) els
         | _ \<Rightarrow>
             (case var_name resolved of
                Some name \<Rightarrow> Some (case hm_get (unknown_variables ctx) name of None \<Rightarrow> False | Some i \<Rightarrow> uv_membership i)
              | None \<Rightarrow> refs resolved binds v2)))"

definition bind_apply_time ::
    "recurse \<Rightarrow> unknown_ctx \<Rightarrow> bind \<Rightarrow> string option \<Rightarrow> binds \<Rightarrow> string set \<Rightarrow> bool option" where
  "bind_apply_time refs ctx b field binds visited =
     (case b of
        BindValue coll \<Rightarrow> element_value_apply_time refs ctx coll field binds visited
      | BindKey coll \<Rightarrow> key_set_apply_time refs ctx coll binds visited)"

definition data_reference_apply_time ::
    "recurse \<Rightarrow> unknown_ctx \<Rightarrow> trav_op list \<Rightarrow> binds \<Rightarrow> string set \<Rightarrow> bool option" where
  "data_reference_apply_time refs ctx ops binds visited =
     (case get_attrs ops of
        dtype # name # _ \<Rightarrow>
          or_may (index_operators_apply_time refs ops binds visited)
            (let key = ''data:'' @ dtype @ ''.'' @ name in
             if key \<in> visited then Some False
             else (case hm_get (data_configs ctx) (dtype, name) of
                 None \<Rightarrow> Some False
               | Some config \<Rightarrow>
                   if has_depends_on config then Some True
                   else any_may (\<lambda>e. refs e Map.empty (insert key visited))
                     (map snd (bc_attrs config) @ nested_exprs config)))
      | _ \<Rightarrow> index_operators_apply_time refs ops binds visited)"

definition schema_computed :: "unknown_ctx \<Rightarrow> string \<Rightarrow> string \<Rightarrow> bool option" where
  "schema_computed ctx rtype attr = do {
     lookup \<leftarrow> ctx_schema ctx;
     sch \<leftarrow> lookup rtype;
     a \<leftarrow> map_of (attributes (schema_block sch)) attr;
     Some (as_computed a) }"

definition resource_reference_apply_time ::
    "recurse \<Rightarrow> unknown_ctx \<Rightarrow> trav_op list \<Rightarrow> string \<Rightarrow> binds \<Rightarrow> string set \<Rightarrow> bool option" where
  "resource_reference_apply_time refs ctx ops rtype binds visited =
     (case get_attrs ops of
        name # attr # _ \<Rightarrow>
          (let key = ''res:'' @ rtype @ ''.'' @ name in
           if key \<in> visited then Some True
           else (case Option.bind (hm_get (resource_configs ctx) (rtype, name)) (\<lambda>c. hm_get (bc_attrs c) attr) of
               Some e \<Rightarrow> or_may (index_operators_apply_time refs ops binds visited)
                 (refs e Map.empty (insert key visited))
             | None \<Rightarrow>
                 if schema_computed ctx rtype attr = Some False then index_operators_apply_time refs ops binds visited
                 else Some True))
      | _ \<Rightarrow> Some True)"

definition traversal_apply_time ::
    "recurse \<Rightarrow> unknown_ctx \<Rightarrow> expr \<Rightarrow> trav_op list \<Rightarrow> binds \<Rightarrow> string set \<Rightarrow> bool option" where
  "traversal_apply_time refs ctx root ops binds visited =
     (case root of
        EVariable head \<Rightarrow>
          if head = ''local'' then
            (case resolve_local_def (first_attr ops) ctx visited of
               Some (def, v2) \<Rightarrow> refs def binds v2
             | None \<Rightarrow> Some False)
          else if head = ''data'' then data_reference_apply_time refs ctx ops binds visited
          else if head = ''var'' then
            or_may (Some (case Option.bind (first_attr ops) (hm_get (unknown_variables ctx)) of
                None \<Rightarrow> False | Some i \<Rightarrow> uv_value i))
              (index_operators_apply_time refs ops binds visited)
          else if head = ''module'' then
            (case get_attrs ops of
               label # output # rest \<Rightarrow>
                 or_may (Some (case module_outputs ctx of
                     None \<Rightarrow> False
                   | Some lookup \<Rightarrow> (case lookup label output rest of None \<Rightarrow> False | Some v \<Rightarrow> v)))
                   (index_operators_apply_time refs ops binds visited)
             | _ \<Rightarrow> index_operators_apply_time refs ops binds visited)
          else (case binds head of
              Some b \<Rightarrow> bind_apply_time refs ctx b (first_attr ops) binds visited
            | None \<Rightarrow>
                if head \<in> set safe_roots then index_operators_apply_time refs ops binds visited
                else (case allowlisted_traversal ctx root ops of
                    Some (_, Some unknown) \<Rightarrow> or_may (Some unknown) (index_operators_apply_time refs ops binds visited)
                  | _ \<Rightarrow> resource_reference_apply_time refs ctx ops head binds visited))
      | _ \<Rightarrow> or_may (refs root binds visited) (index_operators_apply_time refs ops binds visited))"

fun template_apply_time :: "recurse \<Rightarrow> binds \<Rightarrow> string set \<Rightarrow> element \<Rightarrow> bool option" where
  "template_apply_time refs binds visited (Literal _) = Some False"
| "template_apply_time refs binds visited (Interpolation e) = refs e binds visited"
| "template_apply_time refs binds visited (DirIf c t e) =
     or_may (refs c binds visited)
       (or_may (any_may (template_apply_time refs binds visited) t)
         (case e of None \<Rightarrow> Some False | Some f \<Rightarrow> any_may (template_apply_time refs binds visited) f))"
| "template_apply_time refs binds visited (DirFor c t) =
     or_may (refs c binds visited) (any_may (template_apply_time refs binds visited) t)"

text \<open>\<open>lookup(v, "field", default)\<close> on a loop variable.\<close>

definition bound_lookup :: "string \<Rightarrow> expr list \<Rightarrow> binds \<Rightarrow> (bind \<times> string) option" where
  "bound_lookup name args binds =
     (case args of
        EVariable v # EString _ f # _ \<Rightarrow> if name = ''lookup'' then map_option (\<lambda>b. (b, f)) (binds v) else None
      | _ \<Rightarrow> None)"

definition references_apply_step :: "recurse \<Rightarrow> unknown_ctx \<Rightarrow> expr \<Rightarrow> binds \<Rightarrow> string set \<Rightarrow> bool option" where
  "references_apply_step refs ctx e binds visited =
     (case e of
        ENull \<Rightarrow> Some False
      | EBool _ \<Rightarrow> Some False
      | ENumber _ \<Rightarrow> Some False
      | EString _ _ \<Rightarrow> Some False
      | EVariable v \<Rightarrow> opt_may (\<lambda>b. bind_apply_time refs ctx b None binds visited) (binds v)
      | EArray els \<Rightarrow> any_may (\<lambda>el. refs el binds visited) els
      | EObject _ fs \<Rightarrow> any_may (\<lambda>(k, v).
          or_may (case k of KExpr ke \<Rightarrow> refs ke binds visited | KIdent _ \<Rightarrow> Some False) (refs v binds visited)) fs
      | EParenthesis p \<Rightarrow> refs p binds visited
      | EConditional c t f \<Rightarrow> or_may (refs c binds visited) (or_may (refs t binds visited) (refs f binds visited))
      | EUnaryOp _ x \<Rightarrow> refs x binds visited
      | EBinaryOp _ l _ r \<Rightarrow> or_may (refs l binds visited) (refs r binds visited)
      | EFuncCall _ _ name args \<Rightarrow>
          (case bound_lookup name args binds of
             Some (b, f) \<Rightarrow> or_may (bind_apply_time refs ctx b (Some f) binds visited)
               (case args of _ # _ # d # _ \<Rightarrow> refs d binds visited | _ \<Rightarrow> Some False)
           | None \<Rightarrow> any_may (\<lambda>arg. refs arg binds visited) args)
      | ETraversal _ root ops \<Rightarrow> traversal_apply_time refs ctx root ops binds visited
      | EFor k v coll key val cond \<Rightarrow>
          (let inner = bind_loop k v coll binds in
           or_may (refs coll binds visited)
             (or_may (refs val inner visited)
               (or_may (opt_may (\<lambda>x. refs x inner visited) key) (opt_may (\<lambda>x. refs x inner visited) cond))))
      | EStringTemplate _ els \<Rightarrow> any_may (template_apply_time refs binds visited) els
      | EHeredocTemplate els \<Rightarrow> any_may (template_apply_time refs binds visited) els)"

primrec references_apply_time :: "nat \<Rightarrow> unknown_ctx \<Rightarrow> recurse" where
  "references_apply_time 0 ctx = (\<lambda>e binds visited. None)"
| "references_apply_time (Suc n) ctx =
     (\<lambda>e binds visited. references_apply_step (references_apply_time n ctx) ctx e binds visited)"

section \<open>Membership\<close>

datatype meta_kind = ForEach | Count

definition membership_step ::
    "(expr \<Rightarrow> meta_kind \<Rightarrow> string set \<Rightarrow> bool option) \<Rightarrow> recurse \<Rightarrow> unknown_ctx \<Rightarrow> expr \<Rightarrow> meta_kind \<Rightarrow> binds
      \<Rightarrow> string set \<Rightarrow> bool option" where
  "membership_step member refs ctx value kind binds visited =
     (case value of
        EFuncCall _ _ name args \<Rightarrow>
          if kind = Count \<and> name = ''length'' then
            (case args of
               [] \<Rightarrow> Some False
             | arg # _ \<Rightarrow> if bare_allowlisted ctx arg \<noteq> None then Some False else member arg ForEach visited)
          else if is_collection_builder name \<or> is_membership_passthrough name then
            any_may (\<lambda>arg. member arg kind visited) args
          else refs value binds visited
      | EFor k v coll key val cond \<Rightarrow>
          (let inner = bind_loop k v coll binds in
           or_may (refs (case key of Some x \<Rightarrow> x | None \<Rightarrow> val) inner visited)
             (opt_may (\<lambda>c. refs c inner visited) cond))
      | EArray els \<Rightarrow> any_may (\<lambda>el. refs el binds visited) els
      | EObject _ fs \<Rightarrow> any_may (\<lambda>(k, _). case k of KExpr ke \<Rightarrow> refs ke binds visited | KIdent _ \<Rightarrow> Some False) fs
      | ETraversal _ _ _ \<Rightarrow>
          if local_name value \<noteq> None then
            (case resolve_local_def (local_name value) ctx visited of
               Some (def, v2) \<Rightarrow> member def kind v2
             | None \<Rightarrow> Some False)
          else (case var_name value of
              Some name \<Rightarrow> Some (case hm_get (unknown_variables ctx) name of None \<Rightarrow> False | Some i \<Rightarrow> uv_membership i)
            | None \<Rightarrow> refs value binds visited)
      | _ \<Rightarrow> refs value binds visited)"

primrec membership_apply_time_inner ::
    "nat \<Rightarrow> unknown_ctx \<Rightarrow> binds \<Rightarrow> expr \<Rightarrow> meta_kind \<Rightarrow> string set \<Rightarrow> bool option" where
  "membership_apply_time_inner 0 ctx binds = (\<lambda>value kind visited. None)"
| "membership_apply_time_inner (Suc n) ctx binds =
     (\<lambda>value kind visited. membership_step (membership_apply_time_inner n ctx binds)
        (references_apply_time n ctx) ctx value kind binds visited)"

definition membership_apply_time :: "nat \<Rightarrow> expr \<Rightarrow> meta_kind \<Rightarrow> unknown_ctx \<Rightarrow> bool option" where
  "membership_apply_time n value kind ctx = membership_apply_time_inner n ctx Map.empty value kind {}"

definition value_apply_time :: "nat \<Rightarrow> expr \<Rightarrow> unknown_ctx \<Rightarrow> bool option" where
  "value_apply_time n value ctx = references_apply_time n ctx value Map.empty {}"

fun output_expr_apply_time :: "nat \<Rightarrow> expr \<Rightarrow> string list \<Rightarrow> unknown_ctx \<Rightarrow> bool option" where
  "output_expr_apply_time n e [] ctx = value_apply_time n e ctx"
| "output_expr_apply_time n e (field # remaining) ctx =
     (case e of
        EObject _ fs \<Rightarrow>
          (case object_get fs field of
             Some fe \<Rightarrow> output_expr_apply_time n fe remaining ctx
           | None \<Rightarrow> Some False)
      | _ \<Rightarrow> value_apply_time n e ctx)"

text \<open>The first caller-supplied reason among the \<open>var.<name>\<close> references of an expression.\<close>

definition unknown_var_reason :: "expr \<Rightarrow> unknown_ctx \<Rightarrow> string option" where
  "unknown_var_reason e ctx =
     for_each_expression_in e (\<lambda>x found.
       if found \<noteq> None then found
       else (case x of
           ETraversal _ (EVariable head) ops \<Rightarrow>
             if head = ''var'' then
               (case Option.bind (first_attr ops) (hm_get (unknown_variables ctx)) of
                  Some i \<Rightarrow> if uv_membership i \<or> uv_value i then Some (uv_reason i) else None
                | None \<Rightarrow> None)
             else None
         | _ \<Rightarrow> None)) None"


section \<open>A shadowed loop variable overflows the stack\<close>

lemma get_attrs_simps [simp]:
  "get_attrs [] = []" "get_attrs (GetAttr gp i # ops) = i # get_attrs ops"
  "get_attrs (Index x # ops) = get_attrs ops" "get_attrs (LegacyIndex gp k # ops) = get_attrs ops"
  "get_attrs (AttrSplat # ops) = get_attrs ops" "get_attrs (FullSplat # ops) = get_attrs ops"
  by (simp_all add: get_attrs_def List.map_filter_def)

text \<open>
  When the innermost binding of \<open>s\<close> is the collection \<open>s.a\<close>, resolving \<open>s.a\<close> resolves \<open>s.a\<close>.
\<close>

lemma self_bound_overflows:
  assumes "coll = ETraversal sp (EVariable s) [GetAttr gp a]" "binds s = Some (BindValue coll)"
    "s \<notin> {''local'', ''data'', ''var'', ''module''}"
  shows "references_apply_time n ctx coll binds visited = None"
proof (induction n)
  case (Suc n)
  have "resolve_through_locals ctx coll visited = (coll, visited)"
    using assms(3) unfolding assms(1)
    by (simp add: resolve_through_locals.simps [of ctx "ETraversal sp (EVariable s) [GetAttr gp a]"]
      local_name_def head_name_def identity_passthrough_arg_def)
  moreover have "bare_allowlisted ctx coll = None"
    by (simp add: assms(1) bare_allowlisted_def allowlisted_traversal_def)
  ultimately have "element_value_apply_time (references_apply_time n ctx) ctx coll f binds visited = None" for f
    using Suc by (simp add: element_value_apply_time_def assms(1))
  then show ?case
    using assms by (simp add: references_apply_step_def traversal_apply_time_def bind_apply_time_def)
qed simp

text \<open>\<^verbatim>\<open>[for s in var.items : [for s in s.subs : s.id]]\<close>\<close>

definition shadowing :: expr where
  "shadowing = EFor None ''s'' (ETraversal None (EVariable ''var'') [GetAttr None ''items'']) None
     (EFor None ''s'' (ETraversal None (EVariable ''s'') [GetAttr None ''subs'']) None
        (ETraversal None (EVariable ''s'') [GetAttr None ''id'']) None) None"

text \<open>
  The analysis of a \<open>for_each\<close> over nested comprehensions that use the same loop variable, which
  Terraform accepts, recurses for ever whatever the module and the stack are (unless a caller is
  known to pass an unknown value, which is found first).
\<close>

lemma shadowing_overflows:
  assumes "hm_get (unknown_variables ctx) ''items'' = None"
  shows "membership_apply_time n shadowing ForEach ctx = None"
proof -
  let ?items = "ETraversal None (EVariable ''var'') [GetAttr None ''items'']"
  let ?subs = "ETraversal None (EVariable ''s'') [GetAttr None ''subs'']"
  let ?id = "ETraversal None (EVariable ''s'') [GetAttr None ''id'']"
  let ?b1 = "Map.empty(''s'' \<mapsto> BindValue ?items)" and ?b2 = "Map.empty(''s'' \<mapsto> BindValue ?subs)"
  let ?b3 = "Map.empty(''s'' \<mapsto> BindValue ?items, ''s'' \<mapsto> BindValue ?subs)"
  have resolve: "resolve_through_locals ctx ?subs {} = (?subs, {})"
    by (simp add: resolve_through_locals.simps [of ctx ?subs] local_name_def head_name_def
      identity_passthrough_arg_def)
  have loop: "references_apply_time k ctx ?subs ?b2 {} = None" for k
    by (rule self_bound_overflows [where s = "''s''" and a = "''subs''" and sp = None]) simp_all
  have id: "references_apply_time k ctx ?id ?b2 {} = None" for k
  proof (cases k)
    case (Suc j)
    have "bare_allowlisted ctx ?subs = None"
      by (simp add: bare_allowlisted_def allowlisted_traversal_def)
    with loop [of j] Suc show ?thesis
      by (simp add: references_apply_step_def traversal_apply_time_def bind_apply_time_def
        element_value_apply_time_def resolve first_attr_def)
  qed simp
  have items: "references_apply_time k ctx ?items ?b1 {} \<noteq> Some True" for k
    using assms by (cases k) (auto simp: references_apply_step_def traversal_apply_time_def or_may_def first_attr_def
      index_operators_apply_time_def)
  have resolve': "resolve_through_locals ctx ?items {} = (?items, {})"
    by (simp add: resolve_through_locals.simps [of ctx ?items] local_name_def head_name_def
      identity_passthrough_arg_def)
  have subs: "references_apply_time k ctx ?subs ?b1 {} \<noteq> Some True" for k
  proof (cases k)
    case (Suc j)
    have "bare_allowlisted ctx ?items = None"
      by (simp add: bare_allowlisted_def allowlisted_traversal_def)
    with items [of j] Suc show ?thesis
      by (simp add: references_apply_step_def traversal_apply_time_def bind_apply_time_def
        element_value_apply_time_def resolve')
  qed simp
  have inner: "references_apply_time k ctx (EFor None ''s'' ?subs None ?id None) ?b1 {} = None" for k
    using id subs
    by (cases k) (auto simp: references_apply_step_def bind_loop_def or_may_def Let_def split: Option.bind_splits)
  show ?thesis
  proof (cases n)
    case (Suc k)
    with inner [of k] show ?thesis
      by (auto simp: membership_apply_time_def shadowing_def membership_step_def bind_loop_def or_may_def
        opt_may_def split: Option.bind_splits)
  qed (simp add: membership_apply_time_def)
qed


section \<open>Without shadowing the analysis answers\<close>

text \<open>
  The names an expression mentions as variables, and its loop variables with their collections. A
  rank that falls from a loop variable to the names its collection mentions exists exactly when no
  loop variable is, directly or through others, bound to a collection that mentions it.
\<close>

definition heads :: "expr \<Rightarrow> string set" where
  "heads e = {h. EVariable h \<in> set (visit_expr e)}"

definition loops :: "expr \<Rightarrow> (string \<times> expr) set" where
  "loops e = {(v, C). \<exists>k w x y c. EFor k w C x y c \<in> set (visit_expr e) \<and> (v = w \<or> k = Some v)}"

definition ranked :: "(string \<Rightarrow> nat) \<Rightarrow> nat \<Rightarrow> nat \<Rightarrow> expr \<Rightarrow> bool" where
  "ranked r R S e \<longleftrightarrow> size e \<le> S \<and> (\<forall>h \<in> heads e. r h \<le> R) \<and> (\<forall>(v, C) \<in> loops e. \<forall>h \<in> heads C. r h < r v)"

definition config_exprs :: "block_config \<Rightarrow> expr set" where
  "config_exprs c = snd ` set (bc_attrs c) \<union> set (nested_exprs c)"

definition module_exprs :: "unknown_ctx \<Rightarrow> expr set" where
  "module_exprs ctx = snd ` set (mi_locals ctx) \<union> \<Union> (config_exprs ` snd ` set (data_configs ctx))
     \<union> \<Union> (config_exprs ` snd ` set (resource_configs ctx))"

definition module_keys :: "unknown_ctx \<Rightarrow> string set" where
  "module_keys ctx = {k. hm_get (mi_locals ctx) k \<noteq> None}
     \<union> (\<lambda>(ty, name). ''data:'' @ ty @ ''.'' @ name) ` {k. hm_get (data_configs ctx) k \<noteq> None}
     \<union> (\<lambda>(ty, name). ''res:'' @ ty @ ''.'' @ name) ` {k. hm_get (resource_configs ctx) k \<noteq> None}"

definition binds_ranked :: "(string \<Rightarrow> nat) \<Rightarrow> nat \<Rightarrow> nat \<Rightarrow> binds \<Rightarrow> bool" where
  "binds_ranked r R S binds \<longleftrightarrow>
     (\<forall>v C. binds v \<in> {Some (BindValue C), Some (BindKey C)} \<longrightarrow> ranked r R S C \<and> (\<forall>h \<in> heads C. r h < r v))"

text \<open>What a stack of \<open>n\<close> frames is enough for.\<close>

definition stack_bound :: "nat \<Rightarrow> nat \<Rightarrow> nat \<Rightarrow> nat \<Rightarrow> nat \<Rightarrow> nat" where
  "stack_bound R S m k s = m * ((R + 2) * (S + 1)) + k * (S + 1) + s"

definition affordable ::
    "(string \<Rightarrow> nat) \<Rightarrow> nat \<Rightarrow> nat \<Rightarrow> unknown_ctx \<Rightarrow> nat \<Rightarrow> expr \<Rightarrow> binds \<Rightarrow> string set \<Rightarrow> bool" where
  "affordable r R S ctx n e binds visited \<longleftrightarrow>
     ranked r R S e \<and> binds_ranked r R S binds
     \<and> (\<exists>k \<le> Suc R. (\<forall>h \<in> heads e. r h < k)
          \<and> stack_bound R S (card (module_keys ctx - visited)) k (size e) < n)"

lemma finite_module_keys: "finite (module_keys ctx)"
  by (simp add: module_keys_def finite_keys [simplified])

definition returns :: "'a option \<Rightarrow> bool" where
  "returns x \<longleftrightarrow> x \<noteq> None"

lemma returns_simps [simp]: "returns (Some x)" "\<not> returns None"
  by (simp_all add: returns_def)

lemma any_may_total: "(\<And>x. x \<in> set xs \<Longrightarrow> returns (f x)) \<Longrightarrow> returns (any_may f xs)"
proof (induction xs)
  case (Cons x xs)
  then have "returns (f x)" by simp
  with Cons show ?case by (cases "f x") auto
qed simp

lemma or_may_total: "returns a \<Longrightarrow> returns b \<Longrightarrow> returns (or_may a b)"
  by (cases a) (auto simp: or_may_def)

lemma parts_visited: "part_of\<^sup>*\<^sup>* c e \<Longrightarrow> set (visit_expr c) \<subseteq> set (visit_expr e)"
  using visit_expr_complete visit_expr_sound by (meson rtranclp_trans subsetI)

lemma parts_size: "part_of\<^sup>*\<^sup>* c e \<Longrightarrow> size c \<le> size e"
  by (induction rule: rtranclp_induct) (auto dest: part_of_size)

lemma ranked_part:
  assumes "part_of\<^sup>*\<^sup>* c e" "ranked r R S e"
  shows "ranked r R S c" "heads c \<subseteq> heads e"
  using parts_visited [OF assms(1)] parts_size [OF assms(1)] assms(2)
  by (auto simp: ranked_def heads_def loops_def) blast+

lemma stack_bound_mono: "m \<le> m' \<Longrightarrow> k \<le> k' \<Longrightarrow> s \<le> s' \<Longrightarrow> stack_bound R S m k s \<le> stack_bound R S m' k' s'"
  unfolding stack_bound_def by (intro add_mono mult_le_mono) auto

lemma stack_bound_rank: "s' \<le> S \<Longrightarrow> k' < k \<Longrightarrow> stack_bound R S m k' s' < stack_bound R S m k s"
proof -
  assume a: "s' \<le> S" "k' < k"
  then have "k' * (S + 1) + (S + 1) \<le> k * (S + 1)"
    by (metis Suc_leI add.commute mult.commute mult_Suc_right mult_le_mono2)
  with a show ?thesis by (simp add: stack_bound_def)
qed

lemma stack_bound_keys: "s' \<le> S \<Longrightarrow> k' \<le> Suc R \<Longrightarrow> m' < m \<Longrightarrow> stack_bound R S m' k' s' < stack_bound R S m k s"
proof -
  assume a: "s' \<le> S" "k' \<le> Suc R" "m' < m"
  have "k' * (S + 1) + s' < (R + 2) * (S + 1)"
    using a(1) mult_le_mono1 [OF a(2), of "S + 1"] by simp
  moreover have "m' * ((R + 2) * (S + 1)) + (R + 2) * (S + 1) \<le> m * ((R + 2) * (S + 1))"
    using mult_le_mono1 [of "Suc m'" m "(R + 2) * (S + 1)"] a(3) by simp
  ultimately show ?thesis by (simp add: stack_bound_def)
qed

text \<open>The three ways in which a recursive call costs less.\<close>

lemma afford_part:
  assumes "affordable r R S ctx (Suc n) e binds visited" "part_of\<^sup>*\<^sup>* c d" "part_of d e"
    "binds_ranked r R S binds'" "visited \<subseteq> visited'"
  shows "affordable r R S ctx n c binds' visited'"
proof -
  have p: "part_of\<^sup>*\<^sup>* c e" using assms(2,3) by auto
  have size: "size c < size e" using parts_size [OF assms(2)] part_of_size [OF assms(3)] by simp
  from assms(1) obtain k where k: "k \<le> Suc R" "\<forall>h \<in> heads e. r h < k" "ranked r R S e"
    "stack_bound R S (card (module_keys ctx - visited)) k (size e) < Suc n" by (auto simp: affordable_def)
  have "card (module_keys ctx - visited') \<le> card (module_keys ctx - visited)"
    using assms(5) by (intro card_mono finite_Diff finite_module_keys) auto
  then have "stack_bound R S (card (module_keys ctx - visited')) k (size c)
      \<le> stack_bound R S (card (module_keys ctx - visited)) k (size c)"
    by (intro stack_bound_mono) auto
  also have "\<dots> < stack_bound R S (card (module_keys ctx - visited)) k (size e)"
    using size by (simp add: stack_bound_def)
  finally show ?thesis
    using k ranked_part [OF p k(3)] assms(4) unfolding affordable_def by (intro conjI exI [of _ k]) auto
qed

lemma afford_bound:
  assumes "affordable r R S ctx (Suc n) e binds visited" "v \<in> heads e" "\<forall>h \<in> heads c. r h < r v"
    "ranked r R S c" "binds_ranked r R S binds'" "visited \<subseteq> visited'"
  shows "affordable r R S ctx n c binds' visited'"
proof -
  from assms(1) obtain k where k: "k \<le> Suc R" "\<forall>h \<in> heads e. r h < k"
    "stack_bound R S (card (module_keys ctx - visited)) k (size e) < Suc n" by (auto simp: affordable_def)
  with assms(2) have v: "r v < k" by blast
  have "card (module_keys ctx - visited') \<le> card (module_keys ctx - visited)"
    using assms(6) by (intro card_mono finite_Diff finite_module_keys) auto
  then have "stack_bound R S (card (module_keys ctx - visited')) (r v) (size c)
      \<le> stack_bound R S (card (module_keys ctx - visited)) (r v) (size c)"
    by (intro stack_bound_mono) auto
  also have "\<dots> < stack_bound R S (card (module_keys ctx - visited)) k (size e)"
    using assms(4) v by (intro stack_bound_rank) (auto simp: ranked_def)
  finally show ?thesis
    using k v assms(3-5) unfolding affordable_def by (intro conjI exI [of _ "r v"]) auto
qed

lemma afford_key:
  assumes "affordable r R S ctx (Suc n) e binds visited" "ranked r R S c" "binds_ranked r R S binds'"
    "visited \<subseteq> visited'" "key \<in> module_keys ctx" "key \<in> visited'" "key \<notin> visited"
  shows "affordable r R S ctx n c binds' visited'"
proof -
  from assms(1) obtain k where k: "k \<le> Suc R"
    "stack_bound R S (card (module_keys ctx - visited)) k (size e) < Suc n" by (auto simp: affordable_def)
  have "module_keys ctx - visited' \<subset> module_keys ctx - visited" using assms(4-7) by auto
  then have "card (module_keys ctx - visited') < card (module_keys ctx - visited)"
    by (intro psubset_card_mono finite_Diff finite_module_keys)
  then have "stack_bound R S (card (module_keys ctx - visited')) (Suc R) (size c)
      < stack_bound R S (card (module_keys ctx - visited)) k (size e)"
    using assms(2) by (intro stack_bound_keys) (auto simp: ranked_def)
  then show ?thesis
    using k assms(2,3) unfolding affordable_def
    by (intro conjI exI [of _ "Suc R"]) (auto simp: ranked_def)
qed


definition ctx_ranked :: "(string \<Rightarrow> nat) \<Rightarrow> nat \<Rightarrow> nat \<Rightarrow> unknown_ctx \<Rightarrow> bool" where
  "ctx_ranked r R S ctx \<longleftrightarrow> (\<forall>e \<in> module_exprs ctx. ranked r R S e)"

lemma hm_get_pair: "hm_get m k = Some v \<Longrightarrow> (k, v) \<in> set m"
  by (simp add: hm_get_def map_of_SomeD)

lemma local_ranked: "ctx_ranked r R S ctx \<Longrightarrow> hm_get (mi_locals ctx) n = Some d \<Longrightarrow> ranked r R S d"
  unfolding ctx_ranked_def module_exprs_def by (force dest: hm_get_pair)

lemma config_ranked:
  "ctx_ranked r R S ctx \<Longrightarrow> hm_get (data_configs ctx) k = Some c \<Longrightarrow> e \<in> config_exprs c \<Longrightarrow> ranked r R S e"
  "ctx_ranked r R S ctx \<Longrightarrow> hm_get (resource_configs ctx) k = Some c \<Longrightarrow> e \<in> config_exprs c \<Longrightarrow> ranked r R S e"
  unfolding ctx_ranked_def module_exprs_def by (force dest: hm_get_pair)+

lemma identity_part: "identity_passthrough_arg e = Some a \<Longrightarrow> part_of a e"
  by (auto simp: identity_passthrough_arg_def split: expr.splits list.splits if_splits)

lemma resolved:
  assumes "ctx_ranked r R S ctx" "resolve_through_locals ctx C v = (C', v')"
  shows "v \<subseteq> v' \<and> (part_of\<^sup>*\<^sup>* C' C
    \<or> (\<exists>key \<in> module_keys ctx. key \<in> v' \<and> key \<notin> v \<and> ranked r R S C'))"
  using assms
proof (induction ctx C v rule: resolve_through_locals.induct)
  case (1 ctx cur v)
  note eq = 1(4) [unfolded resolve_through_locals.simps [of ctx cur v]]
  show ?case
  proof (cases "local_name cur")
    case None
    show ?thesis
    proof (cases "identity_passthrough_arg cur")
      case None
      with \<open>local_name cur = None\<close> eq show ?thesis by simp
    next
      case (Some inner)
      from 1(1) [OF \<open>local_name cur = None\<close> Some 1(3)] eq \<open>local_name cur = None\<close> Some identity_part [OF Some]
      show ?thesis by (auto intro: rtranclp.rtrancl_into_rtrancl)
    qed
  next
    case (Some name)
    show ?thesis
    proof (cases "name \<in> v \<or> hm_get (mi_locals ctx) name = None")
      case True
      with Some eq show ?thesis by (auto split: if_splits)
    next
      case False
      then obtain d where d: "name \<notin> v" "hm_get (mi_locals ctx) name = Some d" by blast
      have rec: "resolve_through_locals ctx d (insert name v) = (C', v')" using eq Some d by simp
      from 1(2) [OF Some d 1(3) rec] have ih: "insert name v \<subseteq> v'"
        "part_of\<^sup>*\<^sup>* C' d \<or> (\<exists>key \<in> module_keys ctx. key \<in> v' \<and> key \<notin> insert name v \<and> ranked r R S C')" by auto
      have "ranked r R S C'"
        using ih(2) ranked_part(1) local_ranked [OF 1(3) d(2)] by blast
      moreover have "name \<in> module_keys ctx" using d(2) by (simp add: module_keys_def)
      ultimately show ?thesis using ih(1) d(1) by auto
    qed
  qed
qed

text \<open>Every call that resolving a bound loop variable makes is affordable.\<close>

lemma afford_resolved:
  assumes "affordable r R S ctx (Suc n) e binds visited" "ctx_ranked r R S ctx"
    "binds v \<in> {Some (BindValue C), Some (BindKey C)}" "v \<in> heads e"
    "resolve_through_locals ctx C visited = (C', v')" "part_of\<^sup>*\<^sup>* x C'"
  shows "affordable r R S ctx n x binds v'"
proof -
  have binds: "binds_ranked r R S binds" using assms(1) by (simp add: affordable_def)
  then have C: "ranked r R S C" "\<forall>h \<in> heads C. r h < r v" using assms(3) by (auto simp: binds_ranked_def)
  from resolved [OF assms(2,5)] have v: "visited \<subseteq> v'" by blast
  from resolved [OF assms(2,5)] consider "part_of\<^sup>*\<^sup>* C' C"
    | key where "key \<in> module_keys ctx" "key \<in> v'" "key \<notin> visited" "ranked r R S C'" by blast
  then show ?thesis
  proof cases
    case 1
    with assms(6) have p: "part_of\<^sup>*\<^sup>* x C" by auto
    have "\<forall>h \<in> heads x. r h < r v" using ranked_part(2) [OF p C(1)] C(2) by blast
    from afford_bound [OF assms(1,4) this ranked_part(1) [OF p C(1)] binds v] show ?thesis .
  next
    case 2
    from afford_key [OF assms(1) ranked_part(1) [OF assms(6) 2(4)] binds v 2(1-3)] show ?thesis .
  qed
qed

lemma object_get_part: "object_get fs f = Some e \<Longrightarrow> part_of e (EObject sp fs)"
  by (auto simp: object_get_def find_Some_iff in_set_conv_nth)

lemma element_field_total:
  assumes "\<And>x. part_of\<^sup>*\<^sup>* x elem \<Longrightarrow> returns (refs x binds visited)"
  shows "returns (element_field_apply_time refs elem field binds visited)"
proof -
  have "returns (refs x binds visited)" if "elem = EObject sp fs" "object_get fs f = Some x" for sp fs f x
    using assms object_get_part that by blast
  then show ?thesis
    using assms [of elem] by (auto simp: element_field_apply_time_def opt_may_def split: option.split expr.split)
qed

lemma bind_total:
  assumes "\<And>e binds visited. affordable r R S ctx n e binds visited \<Longrightarrow> returns (refs e binds visited)"
    "affordable r R S ctx (Suc n) e binds visited" "ctx_ranked r R S ctx" "binds v = Some b" "v \<in> heads e"
  shows "returns (bind_apply_time refs ctx b field binds visited)"
proof -
  obtain C where C: "b = BindValue C \<or> b = BindKey C" by (cases b) auto
  obtain C' v' where res: "resolve_through_locals ctx C visited = (C', v')" by fastforce
  have call: "returns (refs x binds v')" if "part_of\<^sup>*\<^sup>* x C'" for x
    using assms(1) afford_resolved [OF assms(2,3) _ assms(5) res that] assms(4) C by auto
  have self: "returns (refs C' binds v')" using call by blast
  have field: "returns (element_field_apply_time refs x field binds v')" if "part_of x C'" for x
    using that by (intro element_field_total call) auto
  have "returns (element_value_apply_time refs ctx C field binds visited)"
  proof (cases C')
    case (EArray els)
    then have "returns (any_may (\<lambda>el. element_field_apply_time refs el field binds v') els)"
      by (intro any_may_total field) simp
    with EArray show ?thesis by (simp add: element_value_apply_time_def res)
  next
    case (EObject sp fs)
    then have "returns (any_may (\<lambda>(_, x). element_field_apply_time refs x field binds v') fs)"
      by (intro any_may_total) (auto simp del: not_None_eq intro!: field)
    with EObject show ?thesis by (simp add: element_value_apply_time_def res)
  qed (use self in \<open>auto simp: element_value_apply_time_def res split: option.split\<close>)
  moreover have "returns (key_set_apply_time refs ctx C binds visited)"
  proof (cases C')
    case (EArray els)
    then have "returns (any_may (\<lambda>el. refs el binds v') els)"
      by (intro any_may_total call) auto
    with EArray show ?thesis by (simp add: key_set_apply_time_def res)
  qed (use self in \<open>auto simp: key_set_apply_time_def res split: option.split\<close>)
  ultimately show ?thesis using C by (auto simp: bind_apply_time_def)
qed


lemma binds_ranked_empty: "binds_ranked r R S Map.empty"
  by (simp add: binds_ranked_def)

lemma bind_loop_ranked:
  assumes "ranked r R S (EFor k v coll key val cond)" "binds_ranked r R S binds"
  shows "binds_ranked r R S (bind_loop k v coll binds)"
proof -
  let ?e = "EFor k v coll key val cond"
  have "part_of coll ?e" by simp
  then have "part_of\<^sup>*\<^sup>* coll ?e" by blast
  from ranked_part(1) [OF this assms(1)] have coll: "ranked r R S coll" .
  have "(w, coll) \<in> loops ?e" if "w = v \<or> k = Some w" for w
    using that visit_expr_self [of ?e] unfolding loops_def by blast
  with assms(1) have "\<forall>h \<in> heads coll. r h < r w" if "w = v \<or> k = Some w" for w
    using that unfolding ranked_def by blast
  with coll assms(2) show ?thesis
    by (auto simp: binds_ranked_def bind_loop_def Let_def split: option.splits if_splits)
qed

lemma template_total:
  "(\<And>x. in_element x el \<Longrightarrow> returns (refs x binds visited)) \<Longrightarrow> returns (template_apply_time refs binds visited el)"
proof (induction refs binds visited el rule: template_apply_time.induct)
  case (3 refs binds visited c t e)
  have "returns (any_may (template_apply_time refs binds visited) t)"
    using "3.prems" by (intro any_may_total "3.IH"(1)) auto
  moreover have "returns (any_may (template_apply_time refs binds visited) f)" if "e = Some f" for f
    using "3.prems" that by (intro any_may_total "3.IH"(2)) auto
  moreover have "returns (refs c binds visited)" using "3.prems" by auto
  ultimately show ?case by (auto intro!: or_may_total split: option.split)
next
  case (4 refs binds visited c t)
  have "returns (any_may (template_apply_time refs binds visited) t)"
    using "4.prems" by (intro any_may_total "4.IH") auto
  moreover have "returns (refs c binds visited)" using "4.prems" by auto
  ultimately show ?case by (auto intro!: or_may_total)
qed auto

lemma traversal_total:
  assumes "\<And>e binds visited. affordable r R S ctx n e binds visited \<Longrightarrow> returns (refs e binds visited)"
    "affordable r R S ctx (Suc n) (ETraversal sp root ops) binds visited" "ctx_ranked r R S ctx"
  shows "returns (traversal_apply_time refs ctx root ops binds visited)"
proof -
  let ?e = "ETraversal sp root ops"
  have binds: "binds_ranked r R S binds" using assms(2) by (simp add: affordable_def)
  have sub: "returns (refs c binds visited)" if "part_of c ?e" for c
    using afford_part [OF assms(2) _ that binds] assms(1) by blast
  have index: "returns (index_operators_apply_time refs ops binds visited)"
    unfolding index_operators_apply_time_def
    by (intro any_may_total) (auto split: trav_op.split intro!: sub)
  have key: "returns (refs c binds' (insert k visited))"
    if "ranked r R S c" "binds_ranked r R S binds'" "k \<in> module_keys ctx" "k \<notin> visited" for c binds' k
    using afford_key [OF assms(2) that(1,2) _ that(3) _ that(4)] assms(1) by auto
  have data: "returns (data_reference_apply_time refs ctx ops binds visited)"
  proof -
    have "returns (any_may (\<lambda>e. refs e Map.empty (insert (''data:'' @ ty @ ''.'' @ name) visited))
        (map snd (bc_attrs c) @ nested_exprs c))"
      if "hm_get (data_configs ctx) (ty, name) = Some c" "''data:'' @ ty @ ''.'' @ name \<notin> visited" for ty name c
    proof (intro any_may_total key)
      fix x assume "x \<in> set (map snd (bc_attrs c) @ nested_exprs c)"
      then show "ranked r R S x" using config_ranked(1) [OF assms(3) that(1)] by (auto simp: config_exprs_def)
      show "''data:'' @ ty @ ''.'' @ name \<in> module_keys ctx" using that(1) by (force simp: module_keys_def)
    qed (use that binds_ranked_empty in auto)
    with index show ?thesis
      by (auto simp: data_reference_apply_time_def Let_def
        split: list.split option.split intro!: or_may_total)
  qed
  have resource: "returns (resource_reference_apply_time refs ctx ops head binds visited)" for head
  proof -
    have "returns (refs x Map.empty (insert (''res:'' @ head @ ''.'' @ name) visited))"
      if "hm_get (resource_configs ctx) (head, name) = Some c" "hm_get (bc_attrs c) attr = Some x"
        "''res:'' @ head @ ''.'' @ name \<notin> visited" for name c attr x
    proof (rule key)
      show "ranked r R S x"
        using config_ranked(2) [OF assms(3) that(1)] hm_get_pair [OF that(2)] by (force simp: config_exprs_def)
      show "''res:'' @ head @ ''.'' @ name \<in> module_keys ctx" using that(1) by (force simp: module_keys_def)
    qed (use that binds_ranked_empty in auto)
    with index show ?thesis
      by (auto simp: resource_reference_apply_time_def Let_def bind_eq_Some_conv
        split: list.split option.split intro!: or_may_total)
  qed
  show ?thesis
  proof (cases "\<exists>head. root = EVariable head")
    case False
    with index sub [of root] show ?thesis
      by (cases root) (auto simp: traversal_apply_time_def intro!: or_may_total)
  next
    case True
    then obtain head where root: "root = EVariable head" by blast
    have hd: "head \<in> heads ?e" by (simp add: heads_def root)
    have loc: "returns (refs d binds v2)" if "resolve_local_def (first_attr ops) ctx visited = Some (d, v2)" for d v2
      using that key [of d binds] local_ranked [OF assms(3)] binds
      by (auto simp: resolve_local_def_def module_keys_def bind_eq_Some_conv split: if_splits)
    have bound: "returns (bind_apply_time refs ctx b (first_attr ops) binds visited)" if "binds head = Some b" for b
      using bind_total [where refs = refs, OF assms(1,2,3) that hd] by blast
    consider "head = ''local''" | "head = ''data''" | "head = ''var''" | "head = ''module''"
      | (other) "head \<noteq> ''local''" "head \<noteq> ''data''" "head \<noteq> ''var''" "head \<noteq> ''module''" by argo
    then show ?thesis
    proof cases
      case 1
      with loc show ?thesis by (auto simp: root traversal_apply_time_def split: option.split)
    next
      case 2
      with data show ?thesis by (simp add: root traversal_apply_time_def)
    next
      case 3
      with index show ?thesis by (simp add: root traversal_apply_time_def or_may_total)
    next
      case 4
      with index show ?thesis by (simp add: root traversal_apply_time_def or_may_total split: list.split)
    next
      case other
      then have eq: "traversal_apply_time refs ctx root ops binds visited =
        (case binds head of
           Some b \<Rightarrow> bind_apply_time refs ctx b (first_attr ops) binds visited
         | None \<Rightarrow>
             if head \<in> set safe_roots then index_operators_apply_time refs ops binds visited
             else (case allowlisted_traversal ctx root ops of
                 Some (_, Some unknown) \<Rightarrow> or_may (Some unknown) (index_operators_apply_time refs ops binds visited)
               | _ \<Rightarrow> resource_reference_apply_time refs ctx ops head binds visited))"
        unfolding traversal_apply_time_def root by simp
      show ?thesis
        unfolding eq using bound resource index by (auto split: option.split intro: or_may_total)
    qed
  qed
qed

lemma references_apply_step_total:
  assumes "\<And>e binds visited. affordable r R S ctx n e binds visited \<Longrightarrow> returns (refs e binds visited)"
    "affordable r R S ctx (Suc n) e binds visited" "ctx_ranked r R S ctx"
  shows "returns (references_apply_step refs ctx e binds visited)"
proof -
  have binds: "binds_ranked r R S binds" and e: "ranked r R S e" using assms(2) by (simp_all add: affordable_def)
  have sub: "returns (refs c binds' visited)" if "part_of c e" "binds_ranked r R S binds'" for c binds'
    using afford_part [OF assms(2) _ that] assms(1) by blast
  note sub0 = sub [OF _ binds]
  have temp: "returns (template_apply_time refs binds visited el)"
    if "\<And>x. in_element x el \<Longrightarrow> part_of x e" for el
    using that sub0 by (intro template_total) blast
  show ?thesis
  proof (cases e)
    case (EArray els)
    then have "returns (any_may (\<lambda>el. refs el binds visited) els)" by (intro any_may_total sub0) simp
    with EArray show ?thesis by (simp add: references_apply_step_def)
  next
    case (EObject sp fs)
    have "returns (any_may (\<lambda>(k, v). or_may (case k of KExpr ke \<Rightarrow> refs ke binds visited | KIdent _ \<Rightarrow> Some False)
        (refs v binds visited)) fs)"
      by (intro any_may_total)
        (auto simp: EObject split: obj_key.split intro!: or_may_total sub0)
    with EObject show ?thesis by (simp add: references_apply_step_def)
  next
    case (EStringTemplate sp els)
    then have "returns (any_may (template_apply_time refs binds visited) els)"
      by (intro any_may_total temp) auto
    with EStringTemplate show ?thesis by (simp add: references_apply_step_def)
  next
    case (EHeredocTemplate els)
    then have "returns (any_may (template_apply_time refs binds visited) els)"
      by (intro any_may_total temp) auto
    with EHeredocTemplate show ?thesis by (simp add: references_apply_step_def)
  next
    case (EParenthesis x)
    then show ?thesis using sub0 [of x] by (simp add: references_apply_step_def)
  next
    case (EVariable v)
    then have "v \<in> heads e" by (simp add: heads_def)
    from bind_total [where refs = refs, OF assms(1-3) _ this] show ?thesis
      by (auto simp: references_apply_step_def EVariable opt_may_def split: option.split)
  next
    case (EConditional c t f)
    then have "returns (refs c binds visited)" "returns (refs t binds visited)" "returns (refs f binds visited)"
      by (auto intro!: sub0)
    then show ?thesis
      by (auto simp: references_apply_step_def EConditional intro!: or_may_total)
  next
    case (EFuncCall sp ns name args)
    have all: "returns (refs a binds visited)" if "a \<in> set args" for a
      using that by (intro sub0) (simp add: EFuncCall)
    then have any: "returns (any_may (\<lambda>a. refs a binds visited) args)" by (intro any_may_total)
    have "returns (bind_apply_time refs ctx b (Some f) binds visited)" if lk: "bound_lookup name args binds = Some (b, f)" for b f
    proof -
      obtain v rest where v: "args = EVariable v # rest" "binds v = Some b"
        using lk by (auto simp: bound_lookup_def split: list.splits expr.splits if_splits)
      then have "v \<in> heads e" by (simp add: heads_def EFuncCall)
      from bind_total [where refs = refs, OF assms(1-3) v(2) this] show ?thesis .
    qed
    with all any show ?thesis
      by (auto simp: references_apply_step_def EFuncCall
        split: option.split list.split intro!: or_may_total)
  next
    case (ETraversal sp root ops)
    then show ?thesis
      using traversal_total [where refs = refs, OF assms(1) assms(2) [unfolded ETraversal] assms(3)] by (simp add: references_apply_step_def)
  next
    case (EUnaryOp op x)
    then show ?thesis using sub0 [of x] by (simp add: references_apply_step_def)
  next
    case (EBinaryOp sp l op x)
    then have "returns (refs l binds visited)" "returns (refs x binds visited)" by (auto intro!: sub0)
    then show ?thesis by (auto simp: references_apply_step_def EBinaryOp intro!: or_may_total)
  next
    case (EFor k v coll key val cond)
    let ?inner = "bind_loop k v coll binds"
    have inner: "binds_ranked r R S ?inner" using bind_loop_ranked [OF _ binds] e by (simp add: EFor)
    have "returns (refs coll binds visited)" "returns (refs val ?inner visited)"
      "key = Some x \<Longrightarrow> returns (refs x ?inner visited)" "cond = Some x \<Longrightarrow> returns (refs x ?inner visited)" for x
      by (auto simp: EFor intro!: sub0 sub [OF _ inner])
    then show ?thesis
      by (auto simp: references_apply_step_def EFor Let_def opt_may_def
        split: option.split intro!: or_may_total)
  qed (auto simp: references_apply_step_def)
qed

lemma references_total:
  assumes "ctx_ranked r R S ctx"
  shows "affordable r R S ctx n e binds visited \<Longrightarrow> returns (references_apply_time n ctx e binds visited)"
proof (induction n arbitrary: e binds visited)
  case 0
  then show ?case by (auto simp: affordable_def)
next
  case (Suc n)
  show ?case
    using references_apply_step_total [where refs = "references_apply_time n ctx", OF Suc.IH Suc.prems assms] by simp
qed


lemma affordable_Suc: "affordable r R S ctx n e binds visited \<Longrightarrow> affordable r R S ctx (Suc n) e binds visited"
  unfolding affordable_def by (meson less_SucI)

lemma membership_step_total:
  assumes "returns (refs e binds visited)"
    "\<And>x. part_of x e \<Longrightarrow> returns (refs x binds visited)"
    "\<And>k v coll key val cond x. e = EFor k v coll key val cond \<Longrightarrow> part_of x e
       \<Longrightarrow> returns (refs x (bind_loop k v coll binds) visited)"
    "\<And>x k. part_of x e \<Longrightarrow> returns (member x k visited)"
    "\<And>d v2. resolve_local_def (local_name e) ctx visited = Some (d, v2) \<Longrightarrow> returns (member d kind v2)"
  shows "returns (membership_step member refs ctx e kind binds visited)"
proof (cases e)
  case (EArray els)
  then have "returns (any_may (\<lambda>el. refs el binds visited) els)" by (intro any_may_total assms(2)) simp
  with EArray show ?thesis by (simp add: membership_step_def)
next
  case (EObject sp fs)
  have "returns (any_may (\<lambda>(k, _). case k of KExpr ke \<Rightarrow> refs ke binds visited | KIdent _ \<Rightarrow> Some False) fs)"
    by (intro any_may_total) (auto simp: EObject split: obj_key.split intro!: assms(2))
  with EObject show ?thesis by (simp add: membership_step_def)
next
  case (EFuncCall sp ns name args)
  have any: "returns (any_may (\<lambda>a. member a kind visited) args)"
    by (intro any_may_total assms(4)) (simp add: EFuncCall)
  have len: "returns (case args of [] \<Rightarrow> Some False
      | arg # _ \<Rightarrow> if bare_allowlisted ctx arg \<noteq> None then Some False else member arg ForEach visited)"
    using assms(4) [of "hd args"] by (cases args) (simp_all add: EFuncCall)
  show ?thesis
    using any len assms(1) unfolding membership_step_def EFuncCall expr.case by presburger
next
  case (EFor k v coll key val cond)
  let ?inner = "bind_loop k v coll binds"
  have "returns (refs (case key of Some x \<Rightarrow> x | None \<Rightarrow> val) ?inner visited)"
    by (intro assms(3) [OF EFor]) (simp add: EFor split: option.split)
  moreover have "returns (opt_may (\<lambda>c. refs c ?inner visited) cond)"
    by (auto simp: opt_may_def EFor split: option.split intro!: assms(3) [OF EFor])
  ultimately show ?thesis
    unfolding membership_step_def EFor expr.case Let_def by (rule or_may_total)
next
  case (ETraversal sp root ops)
  have eq: "membership_step member refs ctx e kind binds visited =
    (if local_name e \<noteq> None then
       (case resolve_local_def (local_name e) ctx visited of Some (def, v2) \<Rightarrow> member def kind v2 | None \<Rightarrow> Some False)
     else (case var_name e of
         Some name \<Rightarrow> Some (case hm_get (unknown_variables ctx) name of None \<Rightarrow> False | Some i \<Rightarrow> uv_membership i)
       | None \<Rightarrow> refs e binds visited))"
    unfolding membership_step_def by (simp only: ETraversal expr.case)
  show ?thesis
    unfolding eq using assms(1,5) by (auto split: option.split)
qed (use assms(1) in \<open>simp_all add: membership_step_def\<close>)

lemma membership_total:
  assumes "ctx_ranked r R S ctx" "affordable r R S ctx n e Map.empty visited"
  shows "returns (membership_apply_time_inner (Suc n) ctx Map.empty e kind visited)"
  using assms(2)
proof (induction n arbitrary: e kind visited)
  case 0
  then show ?case by (auto simp: affordable_def)
next
  case (Suc n)
  define refs where "refs = references_apply_time (Suc n) ctx"
  define member where "member = membership_apply_time_inner (Suc n) ctx Map.empty"
  have refs: "returns (refs x binds visited)" if "affordable r R S ctx (Suc n) x binds visited" for x binds
    unfolding refs_def using references_total [OF assms(1) that] .
  have part: "returns (refs x binds visited)" if "part_of x e" "binds_ranked r R S binds" for x binds
    by (rule refs [OF affordable_Suc [OF afford_part [OF Suc.prems rtranclp.rtrancl_refl that order.refl]]])
  have "returns (membership_step member refs ctx e kind Map.empty visited)"
  proof (rule membership_step_total)
    show "returns (refs e Map.empty visited)" using refs Suc.prems by blast
    show "returns (refs x Map.empty visited)" if "part_of x e" for x
      using part [OF that binds_ranked_empty] .
    show "returns (refs x (bind_loop k v coll Map.empty) visited)"
      if "e = EFor k v coll key val cond" "part_of x e" for k v coll key val cond x
      using Suc.prems that(1) by (intro part that(2) bind_loop_ranked [OF _ binds_ranked_empty]) (auto simp: affordable_def)
    show "returns (member x k visited)" if "part_of x e" for x k
      unfolding member_def
      by (rule Suc.IH [OF afford_part [OF Suc.prems rtranclp.rtrancl_refl that binds_ranked_empty order.refl]])
    show "returns (member d kind v2)" if def: "resolve_local_def (local_name e) ctx visited = Some (d, v2)" for d v2
    proof -
      obtain x where x: "x \<notin> visited" "hm_get (mi_locals ctx) x = Some d" "v2 = insert x visited"
        using def by (auto simp: resolve_local_def_def bind_eq_Some_conv split: if_splits)
      have "affordable r R S ctx n d Map.empty v2"
        using x by (intro afford_key [OF Suc.prems local_ranked [OF assms(1) x(2)] binds_ranked_empty])
          (auto simp: module_keys_def)
      then show ?thesis unfolding member_def by (rule Suc.IH)
    qed
  qed
  then show ?case by (simp only: membership_apply_time_inner.simps(2) [of "Suc n"] refs_def member_def)
qed

text \<open>
  C18. If loop variables can be ranked (none is defined through a collection that mentions it), and
  every expression of the module is at most \<open>S\<close> constructors large with ranks up to \<open>R\<close>, a stack that
  grows with the number of locals and configured blocks is enough: both analyses answer.
\<close>

theorem analysis_answers:
  assumes "ctx_ranked r R S ctx" "ranked r R S e"
    "stack_bound R S (card (module_keys ctx)) (Suc R) (size e) < n"
  shows "membership_apply_time (Suc n) e kind ctx \<noteq> None \<and> value_apply_time n e ctx \<noteq> None"
proof -
  have "affordable r R S ctx n e Map.empty {}"
    using assms(2,3) binds_ranked_empty unfolding affordable_def
    by (intro conjI exI [of _ "Suc R"]) (auto simp: ranked_def)
  then show ?thesis
    using membership_total [OF assms(1)] references_total [OF assms(1)]
    by (simp add: membership_apply_time_def value_apply_time_def returns_def
      del: membership_apply_time_inner.simps references_apply_time.simps)
qed


section \<open>No alarm without an unknown source\<close>

definition allowlist :: "unknown_ctx \<Rightarrow> string set" where
  "allowlist ctx = fst ` set plan_known_collections \<union> {ty. \<exists>a. hm_get (extra_plan_known ctx) (ty, a) \<noteq> None}"

text \<open>
  The heads of the traversals of an expression, apart from those its own loops bind. (A loop variable
  named like a collection in \<open>A\<close>, known at plan, is not taken to hide it: the analysis looks at the
  name.)
\<close>

fun mentions :: "string set \<Rightarrow> expr \<Rightarrow> string set"
  and mentions_elem :: "string set \<Rightarrow> element \<Rightarrow> string set" where
  "mentions A (EArray items) = \<Union> (set (map (mentions A) items))"
| "mentions A (EObject _ fs) =
     \<Union> (set (map (\<lambda>(k, v). (case k of KExpr ke \<Rightarrow> mentions A ke | KIdent _ \<Rightarrow> {}) \<union> mentions A v) fs))"
| "mentions A (EStringTemplate _ els) = \<Union> (set (map (mentions_elem A) els))"
| "mentions A (EHeredocTemplate els) = \<Union> (set (map (mentions_elem A) els))"
| "mentions A (EParenthesis e) = mentions A e"
| "mentions A (EConditional c t f) = mentions A c \<union> mentions A t \<union> mentions A f"
| "mentions A (EFuncCall _ _ _ args) = \<Union> (set (map (mentions A) args))"
| "mentions A (ETraversal _ root ops) =
     (case root of EVariable h \<Rightarrow> {h} | _ \<Rightarrow> mentions A root)
     \<union> \<Union> (set (map (\<lambda>op. case op of Index x \<Rightarrow> mentions A x | _ \<Rightarrow> {}) ops))"
| "mentions A (EUnaryOp _ e) = mentions A e"
| "mentions A (EBinaryOp _ l _ x) = mentions A l \<union> mentions A x"
| "mentions A (EFor k v coll key val cond) =
     mentions A coll
     \<union> ((mentions A val \<union> (case key of None \<Rightarrow> {} | Some x \<Rightarrow> mentions A x)
         \<union> (case cond of None \<Rightarrow> {} | Some x \<Rightarrow> mentions A x)) - (({v} \<union> set_option k) - A))"
| "mentions A e = {}"
| "mentions_elem A (Literal _) = {}"
| "mentions_elem A (Interpolation e) = mentions A e"
| "mentions_elem A (DirIf c t e) = mentions A c \<union> \<Union> (set (map (mentions_elem A) t))
     \<union> (case e of None \<Rightarrow> {} | Some f \<Rightarrow> \<Union> (set (map (mentions_elem A) f)))"
| "mentions_elem A (DirFor c t) = mentions A c \<union> \<Union> (set (map (mentions_elem A) t))"

text \<open>No managed resource is mentioned, where \<open>G\<close> are the loop variables in scope.\<close>

definition known_heads :: "unknown_ctx \<Rightarrow> string set \<Rightarrow> string set" where
  "known_heads ctx G = (G - allowlist ctx) \<union> {''data'', ''module''} \<union> set safe_roots"

text \<open>
  A traversal reads no unknown source of its own: a variable whose callers pass known values, a data block
  without \<open>depends_on\<close> a resource, an output of a child module that is not known to be unknown.
\<close>

definition known_source :: "unknown_ctx \<Rightarrow> expr \<Rightarrow> bool" where
  "known_source ctx e \<longleftrightarrow>
     (\<forall>sp h ops. e = ETraversal sp (EVariable h) ops \<longrightarrow>
        (h = ''var'' \<longrightarrow> (\<forall>i. Option.bind (first_attr ops) (hm_get (unknown_variables ctx)) = Some i \<longrightarrow> \<not> uv_value i \<and> \<not> uv_membership i))
        \<and> (h = ''data'' \<longrightarrow> (\<forall>t n rest c. get_attrs ops = t # n # rest \<longrightarrow> hm_get (data_configs ctx) (t, n) = Some c \<longrightarrow> \<not> has_depends_on c))
        \<and> (h = ''module'' \<longrightarrow> (\<forall>lookup l out rest. get_attrs ops = l # out # rest \<longrightarrow> module_outputs ctx = Some lookup
              \<longrightarrow> lookup l out rest \<noteq> Some True)))"

text \<open>The definition \<open>d\<close> of a local, or an expression \<open>d\<close> of a data block, that some part of \<open>e\<close> names.\<close>

inductive reads :: "unknown_ctx \<Rightarrow> expr \<Rightarrow> expr \<Rightarrow> bool" where
  "part_of\<^sup>*\<^sup>* c e \<Longrightarrow> local_name c = Some n \<Longrightarrow> hm_get (mi_locals ctx) n = Some d \<Longrightarrow> reads ctx e d"
| "part_of\<^sup>*\<^sup>* (ETraversal sp (EVariable ''data'') ops) e \<Longrightarrow> get_attrs ops = t # n # rest
     \<Longrightarrow> hm_get (data_configs ctx) (t, n) = Some c \<Longrightarrow> d \<in> config_exprs c \<Longrightarrow> reads ctx e d"

definition heads_known :: "unknown_ctx \<Rightarrow> string set \<Rightarrow> expr \<Rightarrow> bool" where
  "heads_known ctx G e \<longleftrightarrow> mentions (allowlist ctx) e \<subseteq> known_heads ctx G"

definition sources_known :: "unknown_ctx \<Rightarrow> expr \<Rightarrow> bool" where
  "sources_known ctx e \<longleftrightarrow> (\<forall>c. part_of\<^sup>*\<^sup>* c e \<longrightarrow> known_source ctx c)"

definition plan_known :: "unknown_ctx \<Rightarrow> string set \<Rightarrow> expr \<Rightarrow> bool" where
  "plan_known ctx G e \<longleftrightarrow> heads_known ctx G e \<and> sources_known ctx e
     \<and> (\<forall>d. (reads ctx)\<^sup>+\<^sup>+ e d \<longrightarrow> heads_known ctx {} d \<and> sources_known ctx d)"

definition binds_known :: "unknown_ctx \<Rightarrow> binds \<Rightarrow> bool" where
  "binds_known ctx binds \<longleftrightarrow>
     (\<forall>v C. binds v \<in> {Some (BindValue C), Some (BindKey C)} \<longrightarrow> plan_known ctx (dom binds) C)"

lemma plan_known_mono: "plan_known ctx G e \<Longrightarrow> G \<subseteq> H \<Longrightarrow> plan_known ctx H e"
  by (auto simp: plan_known_def heads_known_def known_heads_def)

text \<open>What a part of an expression reads, the expression reads.\<close>

lemma reads_part: "part_of c e \<Longrightarrow> reads ctx c d \<Longrightarrow> reads ctx e d"
  by (auto elim!: reads.cases intro: reads.intros rtranclp.rtrancl_into_rtrancl)

lemma reads_plus_part:
  assumes "part_of c e" "(reads ctx)\<^sup>+\<^sup>+ c d"
  shows "(reads ctx)\<^sup>+\<^sup>+ e d"
  using assms(2) by (induction rule: tranclp_induct) (auto intro: reads_part [OF assms(1)] tranclp.trancl_into_trancl)

lemma sources_part: "part_of c e \<Longrightarrow> sources_known ctx e \<Longrightarrow> sources_known ctx c"
  by (auto simp: sources_known_def intro: rtranclp.rtrancl_into_rtrancl)

lemma plan_known_read:
  assumes "plan_known ctx G e" "reads ctx e d"
  shows "plan_known ctx H d"
proof -
  have "heads_known ctx {} d' \<and> sources_known ctx d'" if "(reads ctx)\<^sup>*\<^sup>* d d'" for d'
    using assms(1) rtranclp_into_tranclp2 [OF assms(2) that] unfolding plan_known_def by blast
  moreover have "heads_known ctx {} d \<Longrightarrow> heads_known ctx H d" by (auto simp: heads_known_def known_heads_def)
  ultimately show ?thesis unfolding plan_known_def by (auto dest: tranclp_into_rtranclp)
qed

lemma plan_known_source: "plan_known ctx G e \<Longrightarrow> known_source ctx e"
  by (auto simp: plan_known_def sources_known_def)


definition silent :: "bool option \<Rightarrow> bool" where
  "silent x \<longleftrightarrow> x \<noteq> Some True"

lemma silent_simps [simp]: "silent None" "silent (Some b) \<longleftrightarrow> \<not> b"
  by (simp_all add: silent_def)

lemma any_may_silent: "(\<And>x. x \<in> set xs \<Longrightarrow> silent (f x)) \<Longrightarrow> silent (any_may f xs)"
proof (induction xs)
  case (Cons x xs)
  then have "silent (f x)" by simp
  with Cons show ?case by (cases "f x") auto
qed simp

lemma or_may_silent: "silent a \<Longrightarrow> silent b \<Longrightarrow> silent (or_may a b)"
  by (cases a) (auto simp: or_may_def)

lemma mentions_in_element: "in_element x el \<Longrightarrow> mentions A x \<subseteq> mentions_elem A el"
  by (induction rule: in_element.induct) auto

lemma mentions_part:
  assumes "part_of c e" "\<nexists>k v coll key val cond. e = EFor k v coll key val cond"
  shows "mentions A c \<subseteq> mentions A e"
  using assms
proof (induction rule: part_of.induct)
  case (2 k e fs sp)
  then show ?case by force
next
  case (3 e v fs sp)
  then show ?case by (auto intro!: bexI [of _ "(KExpr e, v)"])
next
  case (4 el els e sp)
  then show ?case using mentions_in_element [of e el A] by auto
next
  case (5 el els e)
  then show ?case using mentions_in_element [of e el A] by auto
next
  case (9 root sp ops)
  then show ?case by (cases root) auto
next
  case (10 e ops sp root)
  then show ?case by force
qed auto

lemma plan_known_part:
  "part_of c e \<Longrightarrow> \<nexists>k v coll key val cond. e = EFor k v coll key val cond \<Longrightarrow> plan_known ctx G e \<Longrightarrow> plan_known ctx G c"
  using mentions_part [of c e "allowlist ctx"] sources_part [of c e ctx] reads_plus_part [of c e ctx]
  unfolding plan_known_def heads_known_def by blast

lemma plan_known_local:
  "plan_known ctx G e \<Longrightarrow> local_name e = Some n \<Longrightarrow> hm_get (mi_locals ctx) n = Some d \<Longrightarrow> plan_known ctx H d"
  by (rule plan_known_read [OF _ reads.intros(1)]) auto

lemma plan_known_resolved:
  "plan_known ctx G e \<Longrightarrow> resolve_local_def (local_name e) ctx visited = Some (d, v) \<Longrightarrow> plan_known ctx H d"
  by (auto simp: resolve_local_def_def bind_eq_Some_conv split: if_splits intro: plan_known_local)

lemma plan_known_data:
  assumes "plan_known ctx G (ETraversal sp (EVariable ''data'') ops)" "get_attrs ops = t # n # rest"
    "hm_get (data_configs ctx) (t, n) = Some c"
  shows "\<not> has_depends_on c" "e \<in> config_exprs c \<Longrightarrow> plan_known ctx H e"
  using plan_known_source [OF assms(1)] assms(2,3) plan_known_read [OF assms(1) reads.intros(2) [OF _ assms(2,3)]]
  by (auto simp: known_source_def)

lemma plan_known_var:
  assumes "plan_known ctx G (ETraversal sp (EVariable ''var'') ops)"
    "Option.bind (first_attr ops) (hm_get (unknown_variables ctx)) = Some i"
  shows "\<not> uv_value i" "\<not> uv_membership i"
  using plan_known_source [OF assms(1)] assms(2) by (auto simp: known_source_def)

lemma plan_known_var_name:
  assumes "plan_known ctx G e" "var_name e = Some n" "hm_get (unknown_variables ctx) n = Some i"
  shows "\<not> uv_value i" "\<not> uv_membership i"
proof -
  obtain sp ops where e: "e = ETraversal sp (EVariable ''var'') ops" "first_attr ops = Some n"
    using assms(2) by (auto simp: var_name_def head_name_def split: expr.splits if_splits)
  with plan_known_var [of ctx G sp ops i] assms(1,3) show "\<not> uv_value i" "\<not> uv_membership i" by simp_all
qed

lemma resolved_known:
  assumes "plan_known ctx G C" "resolve_through_locals ctx C v = (C', v')"
  shows "plan_known ctx G C'"
  using assms
proof (induction ctx C v rule: resolve_through_locals.induct)
  case (1 ctx cur v)
  note eq = 1(4) [unfolded resolve_through_locals.simps [of ctx cur v]]
  show ?case
  proof (cases "local_name cur")
    case None
    show ?thesis
    proof (cases "identity_passthrough_arg cur")
      case None
      with \<open>local_name cur = None\<close> eq 1(3) show ?thesis by simp
    next
      case (Some inner)
      have "\<nexists>k v coll key val cond. cur = EFor k v coll key val cond"
        using Some by (auto simp: identity_passthrough_arg_def)
      from plan_known_part [OF identity_part [OF Some] this 1(3)] have inner: "plan_known ctx G inner" .
      with 1(1) [OF None Some inner] eq \<open>local_name cur = None\<close> Some show ?thesis by simp
    qed
  next
    case (Some name)
    show ?thesis
    proof (cases "name \<in> v \<or> hm_get (mi_locals ctx) name = None")
      case True
      with Some eq 1(3) show ?thesis by (auto split: if_splits)
    next
      case False
      then obtain d where d: "name \<notin> v" "hm_get (mi_locals ctx) name = Some d" by blast
      with 1(2) [OF Some d plan_known_local [OF 1(3) Some d(2)]] eq Some show ?thesis by simp
    qed
  qed
qed

lemma element_field_silent:
  assumes "silent (refs elem binds visited)" "\<And>x. part_of x elem \<Longrightarrow> silent (refs x binds visited)"
  shows "silent (element_field_apply_time refs elem field binds visited)"
proof -
  have "silent (refs x binds visited)" if "elem = EObject sp fs" "object_get fs f = Some x" for sp fs f x
    using assms(2) object_get_part that by blast
  with assms(1) show ?thesis
    by (auto simp: element_field_apply_time_def opt_may_def split: option.split expr.split)
qed

lemma no_allowlisted:
  assumes "''module'' \<notin> allowlist ctx" "plan_known ctx G e"
  shows "bare_allowlisted ctx e = None"
proof -
  have "allowlisted_traversal ctx (EVariable h) ops = None" if "h \<in> known_heads ctx G" for h ops
  proof (cases "h \<in> {''data''} \<union> set safe_roots")
    case False
    with that assms(1) have h: "h \<notin> allowlist ctx" by (auto simp: known_heads_def)
    then have "hm_get (extra_plan_known ctx) (h, a) = None" for a
      unfolding allowlist_def by (auto simp: not_None_eq [symmetric] simp del: not_None_eq)
    moreover have "find (\<lambda>(ty, a, _). ty = h \<and> a = b) plan_known_collections = None" for b
      using h by (force simp: allowlist_def find_None_iff)
    ultimately show ?thesis
      by (auto simp: allowlisted_traversal_def split: list.split)
  qed (auto simp: allowlisted_traversal_def)
  moreover have "h \<in> known_heads ctx G" if "e = ETraversal sp (EVariable h) ops" for sp h ops
    using assms(2) that by (simp add: plan_known_def heads_known_def)
  ultimately show ?thesis
    by (auto simp: bare_allowlisted_def allowlisted_traversal_def [of _ "ENull"] split: expr.split)
      (auto simp: allowlisted_traversal_def split: expr.split)
qed


text \<open>The hypothesis on the recursive call under which each function is silent.\<close>

definition silent_calls :: "unknown_ctx \<Rightarrow> recurse \<Rightarrow> bool" where
  "silent_calls ctx refs \<longleftrightarrow>
     (\<forall>e binds visited. plan_known ctx (dom binds) e \<longrightarrow> binds_known ctx binds \<longrightarrow> silent (refs e binds visited))"

lemma silent_callsD:
  "silent_calls ctx refs \<Longrightarrow> plan_known ctx (dom binds) e \<Longrightarrow> binds_known ctx binds \<Longrightarrow> silent (refs e binds visited)"
  by (simp add: silent_calls_def)

lemma bind_silent:
  assumes "silent_calls ctx refs" "''module'' \<notin> allowlist ctx" "binds_known ctx binds" "binds v = Some b"
  shows "silent (bind_apply_time refs ctx b field binds visited)"
proof -
  obtain C where C: "b = BindValue C \<or> b = BindKey C" by (cases b) auto
  then have kC: "plan_known ctx (dom binds) C" using assms(3,4) by (auto simp: binds_known_def)
  obtain C' v' where res: "resolve_through_locals ctx C visited = (C', v')" by fastforce
  have kC': "plan_known ctx (dom binds) C'" using resolved_known [OF kC res] .
  have self: "silent (refs C' binds v')" by (rule silent_callsD [OF assms(1) kC' assms(3)])
  have sub: "silent (refs x binds v')" if "part_of x y" "part_of y C'" "\<nexists>k v coll key val cond. C' = EFor k v coll key val cond"
      "\<nexists>k v coll key val cond. y = EFor k v coll key val cond" for x y
    by (rule silent_callsD [OF assms(1) plan_known_part [OF that(1,4) plan_known_part [OF that(2,3) kC']] assms(3)])
  have part: "silent (refs x binds v')" if "part_of x C'" "\<nexists>k v coll key val cond. C' = EFor k v coll key val cond" for x
    by (rule silent_callsD [OF assms(1) plan_known_part [OF that kC'] assms(3)])
  have field: "silent (element_field_apply_time refs x field binds v')"
    if x: "part_of x C'" "\<nexists>k v coll key val cond. C' = EFor k v coll key val cond" for x
  proof (cases "\<exists>sp fs. x = EObject sp fs")
    case True
    then have "\<nexists>k v coll key val cond. x = EFor k v coll key val cond" by auto
    then show ?thesis
      by (intro element_field_silent part [OF x]) (rule sub [OF _ x(1,2)])
  next
    case False
    then show ?thesis
      using part [OF x] by (cases x; cases field) (auto simp: element_field_apply_time_def)
  qed
  have "silent (element_value_apply_time refs ctx C field binds visited)"
  proof (cases C')
    case (EArray els)
    then have "silent (any_may (\<lambda>el. element_field_apply_time refs el field binds v') els)"
      by (intro any_may_silent field) auto
    with EArray show ?thesis by (simp add: element_value_apply_time_def res)
  next
    case (EObject sp fs)
    then have "silent (any_may (\<lambda>(_, x). element_field_apply_time refs x field binds v') fs)"
      by (intro any_may_silent) (auto intro!: field)
    with EObject show ?thesis by (simp add: element_value_apply_time_def res)
  qed (use self no_allowlisted [OF assms(2) kC'] in \<open>simp_all add: element_value_apply_time_def res\<close>)
  moreover have "silent (key_set_apply_time refs ctx C binds visited)"
  proof (cases C')
    case (EArray els)
    then have "silent (any_may (\<lambda>el. refs el binds v') els)"
      by (intro any_may_silent part) auto
    with EArray show ?thesis by (simp add: key_set_apply_time_def res)
  qed (use self plan_known_var_name(2) [OF kC'] in \<open>auto simp: key_set_apply_time_def res split: option.split\<close>)
  ultimately show ?thesis using C by (auto simp: bind_apply_time_def)
qed

lemma index_silent:
  assumes "silent_calls ctx refs" "binds_known ctx binds" "plan_known ctx (dom binds) (ETraversal sp root ops)"
  shows "silent (index_operators_apply_time refs ops binds visited)"
  unfolding index_operators_apply_time_def
proof (rule any_may_silent)
  fix op assume "op \<in> set ops"
  then show "silent (case op of Index e \<Rightarrow> refs e binds visited | _ \<Rightarrow> Some False)"
    using silent_callsD [OF assms(1) plan_known_part [OF _ _ assms(3)] assms(2)] by (auto split: trav_op.split)
qed

lemma data_silent:
  assumes "silent_calls ctx refs" "plan_known ctx G (ETraversal sp (EVariable ''data'') ops)" "silent (index_operators_apply_time refs ops binds visited)"
  shows "silent (data_reference_apply_time refs ctx ops binds visited)"
proof -
  have config: "silent (any_may (\<lambda>e. refs e Map.empty v2) (map snd (bc_attrs c) @ nested_exprs c))"
    if "hm_get (data_configs ctx) (t, n) = Some c" "get_attrs ops = t # n # rest" for t n rest c v2
  proof (rule any_may_silent)
    fix x assume "x \<in> set (map snd (bc_attrs c) @ nested_exprs c)"
    then have "x \<in> config_exprs c" by (auto simp: config_exprs_def)
    with plan_known_data(2) [OF assms(2) that(2,1)] show "silent (refs x Map.empty v2)"
      by (intro silent_callsD [OF assms(1)]) (auto simp: binds_known_def)
  qed
  show ?thesis
  proof (cases "get_attrs ops")
    case Nil
    then show ?thesis using assms(3) by (simp add: data_reference_apply_time_def)
  next
    case (Cons dtype rest)
    show ?thesis
    proof (cases rest)
      case Nil
      then show ?thesis using Cons assms(3) by (simp add: data_reference_apply_time_def)
    next
      case (Cons name rest')
      have attrs: "get_attrs ops = dtype # name # rest'" using \<open>get_attrs ops = dtype # rest\<close> Cons by simp
      have "silent (let key = ''data:'' @ dtype @ ''.'' @ name in
             if key \<in> visited then Some False
             else (case hm_get (data_configs ctx) (dtype, name) of
                 None \<Rightarrow> Some False
               | Some config \<Rightarrow>
                   if has_depends_on config then Some True
                   else any_may (\<lambda>e. refs e Map.empty (insert key visited))
                     (map snd (bc_attrs config) @ nested_exprs config)))"
        using config [OF _ attrs] plan_known_data(1) [OF assms(2) attrs] by (simp add: Let_def split: option.split)
      with assms(3) show ?thesis
        unfolding data_reference_apply_time_def \<open>get_attrs ops = dtype # rest\<close> Cons list.case
        by (rule or_may_silent)
    qed
  qed
qed

lemma traversal_silent:
  assumes "silent_calls ctx refs" "''module'' \<notin> allowlist ctx" "binds_known ctx binds"
    "plan_known ctx (dom binds) (ETraversal sp root ops)"
  shows "silent (traversal_apply_time refs ctx root ops binds visited)"
proof -
  note index = index_silent [OF assms(1,3,4), of visited]
  show ?thesis
  proof (cases "\<exists>head. root = EVariable head")
    case False
    have "silent (refs root binds visited)"
      using plan_known_part [OF _ _ assms(4), of root] by (intro silent_callsD [OF assms(1) _ assms(3)]) simp
    with False index show ?thesis
      by (cases root) (auto simp: traversal_apply_time_def intro!: or_may_silent)
  next
    case True
    then obtain head where root: "root = EVariable head" by blast
    have hd: "head \<in> known_heads ctx (dom binds)" using assms(4) by (simp add: plan_known_def heads_known_def root)
    consider "head = ''local''" | "head = ''data''" | "head = ''var''" | "head = ''module''"
      | (other) "head \<noteq> ''local''" "head \<noteq> ''data''" "head \<noteq> ''var''" "head \<noteq> ''module''" by argo
    then show ?thesis
    proof cases
      case 1
      have "silent (refs d binds v2)" if "resolve_local_def (first_attr ops) ctx visited = Some (d, v2)" for d v2
        using that plan_known_resolved [OF assms(4), of visited d v2]
        by (intro silent_callsD [OF assms(1) _ assms(3)]) (simp add: root 1 local_name_def head_name_def)
      with 1 show ?thesis by (auto simp: root traversal_apply_time_def split: option.split)
    next
      case 2
      with data_silent [OF assms(1) assms(4) [unfolded root 2] index] show ?thesis by (simp add: root traversal_apply_time_def)
    next
      case 3
      with index plan_known_var(1) [OF assms(4) [unfolded root 3]] show ?thesis
        by (auto simp: root traversal_apply_time_def intro!: or_may_silent split: option.splits
          Option.bind_splits)
    next
      case 4
      have "lookup l out rest \<noteq> Some True" if "module_outputs ctx = Some lookup" "get_attrs ops = l # out # rest" for lookup l out rest
        using plan_known_source [OF assms(4)] that 4 root by (auto simp: known_source_def)
      with 4 index show ?thesis
        by (auto simp: root traversal_apply_time_def intro!: or_may_silent split: list.split option.splits)
    next
      case other
      show ?thesis
      proof (cases "binds head")
        case (Some b)
        with other bind_silent [OF assms(1-3) Some] show ?thesis by (simp add: root traversal_apply_time_def)
      next
        case None
        with hd other have "head \<in> set safe_roots" by (auto simp: known_heads_def)
        with other None index show ?thesis by (simp add: root traversal_apply_time_def)
      qed
    qed
  qed
qed

lemma template_silent:
  "(\<And>x. in_element x el \<Longrightarrow> silent (refs x binds visited)) \<Longrightarrow> silent (template_apply_time refs binds visited el)"
proof (induction refs binds visited el rule: template_apply_time.induct)
  case (3 refs binds visited c t e)
  have "silent (any_may (template_apply_time refs binds visited) t)"
    using "3.prems" by (intro any_may_silent "3.IH"(1)) auto
  moreover have "silent (any_may (template_apply_time refs binds visited) f)" if "e = Some f" for f
    using "3.prems" that by (intro any_may_silent "3.IH"(2)) auto
  moreover have "silent (refs c binds visited)" using "3.prems" by auto
  ultimately show ?case by (auto intro!: or_may_silent split: option.split)
next
  case (4 refs binds visited c t)
  have "silent (any_may (template_apply_time refs binds visited) t)"
    using "4.prems" by (intro any_may_silent "4.IH") auto
  moreover have "silent (refs c binds visited)" using "4.prems" by auto
  ultimately show ?case by (auto intro!: or_may_silent)
qed auto

lemma bind_loop_known:
  assumes "plan_known ctx (dom binds) (EFor k v coll key val cond)" "binds_known ctx binds"
  shows "binds_known ctx (bind_loop k v coll binds)"
    "x \<in> {val} \<union> set_option key \<union> set_option cond \<Longrightarrow> plan_known ctx (dom (bind_loop k v coll binds)) x"
    "plan_known ctx (dom binds) coll"
proof -
  have dom: "dom (bind_loop k v coll binds) = dom binds \<union> ({v} \<union> set_option k)"
    by (auto simp: bind_loop_def Let_def split: option.split)
  have part: "sources_known ctx y \<and> (\<forall>d. (reads ctx)\<^sup>+\<^sup>+ y d \<longrightarrow> heads_known ctx {} d \<and> sources_known ctx d)"
    if "part_of y (EFor k v coll key val cond)" for y
    using assms(1) sources_part [OF that] reads_plus_part [OF that] unfolding plan_known_def by blast
  from part [of coll] assms(1) show coll: "plan_known ctx (dom binds) coll" by (simp add: plan_known_def heads_known_def)
  show "binds_known ctx (bind_loop k v coll binds)"
    unfolding binds_known_def dom
  proof (intro allI impI)
    fix w C assume "bind_loop k v coll binds w \<in> {Some (BindValue C), Some (BindKey C)}"
    then have "C = coll \<or> binds w \<in> {Some (BindValue C), Some (BindKey C)}"
      by (auto simp: bind_loop_def Let_def split: option.splits if_splits)
    then have "plan_known ctx (dom binds) C" using coll assms(2) unfolding binds_known_def by blast
    then show "plan_known ctx (dom binds \<union> ({v} \<union> set_option k)) C" by (rule plan_known_mono) blast
  qed
  assume x: "x \<in> {val} \<union> set_option key \<union> set_option cond"
  then have "mentions (allowlist ctx) x - (({v} \<union> set_option k) - allowlist ctx)
      \<subseteq> mentions (allowlist ctx) (EFor k v coll key val cond)"
    by (cases key; cases cond) auto
  with assms(1) have "mentions (allowlist ctx) x - (({v} \<union> set_option k) - allowlist ctx) \<subseteq> known_heads ctx (dom binds)"
    unfolding plan_known_def heads_known_def by blast
  then have "heads_known ctx (dom (bind_loop k v coll binds)) x"
    unfolding heads_known_def dom known_heads_def by blast
  moreover have "part_of x (EFor k v coll key val cond)" using x by auto
  ultimately show "plan_known ctx (dom (bind_loop k v coll binds)) x" using part unfolding plan_known_def by blast
qed

lemma references_apply_step_silent:
  assumes "silent_calls ctx refs" "''module'' \<notin> allowlist ctx" "binds_known ctx binds" "plan_known ctx (dom binds) e"
  shows "silent (references_apply_step refs ctx e binds visited)"
proof (cases "\<exists>k v coll key val cond. e = EFor k v coll key val cond")
  case True
  then obtain k v coll key val cond where e: "e = EFor k v coll key val cond" by blast
  let ?inner = "bind_loop k v coll binds"
  note inner = bind_loop_known [OF assms(4) [unfolded e] assms(3)]
  have body: "silent (refs x ?inner visited)" if "x \<in> {val} \<union> set_option key \<union> set_option cond" for x
    by (rule silent_callsD [OF assms(1) inner(2) [OF that] inner(1)])
  have "silent (refs coll binds visited)" by (rule silent_callsD [OF assms(1) inner(3) assms(3)])
  then show ?thesis
    using body by (auto simp: references_apply_step_def e Let_def opt_may_def split: option.split intro!: or_may_silent)
next
  case False
  have sub: "silent (refs c binds visited)" if "part_of c e" for c
    by (rule silent_callsD [OF assms(1) plan_known_part [OF that False assms(4)] assms(3)])
  have temp: "silent (template_apply_time refs binds visited el)"
    if "\<And>x. in_element x el \<Longrightarrow> part_of x e" for el
    using that sub by (intro template_silent) blast
  show ?thesis
  proof (cases e)
    case (EArray els)
    then have "silent (any_may (\<lambda>el. refs el binds visited) els)" by (intro any_may_silent sub) simp
    with EArray show ?thesis by (simp add: references_apply_step_def)
  next
    case (EObject sp fs)
    have "silent (any_may (\<lambda>(k, v). or_may (case k of KExpr ke \<Rightarrow> refs ke binds visited | KIdent _ \<Rightarrow> Some False)
        (refs v binds visited)) fs)"
      by (intro any_may_silent)
        (auto simp: EObject split: obj_key.split intro!: or_may_silent sub)
    with EObject show ?thesis by (simp add: references_apply_step_def)
  next
    case (EStringTemplate sp els)
    then have "silent (any_may (template_apply_time refs binds visited) els)"
      by (intro any_may_silent temp) auto
    with EStringTemplate show ?thesis by (simp add: references_apply_step_def)
  next
    case (EHeredocTemplate els)
    then have "silent (any_may (template_apply_time refs binds visited) els)"
      by (intro any_may_silent temp) auto
    with EHeredocTemplate show ?thesis by (simp add: references_apply_step_def)
  next
    case (EParenthesis x)
    then show ?thesis using sub [of x] by (simp add: references_apply_step_def)
  next
    case (EVariable v)
    then show ?thesis
      using bind_silent [OF assms(1-3)] by (auto simp: references_apply_step_def opt_may_def split: option.split)
  next
    case (EConditional c t f)
    then have "silent (refs c binds visited)" "silent (refs t binds visited)" "silent (refs f binds visited)"
      by (auto intro!: sub)
    then show ?thesis by (auto simp: references_apply_step_def EConditional intro!: or_may_silent)
  next
    case (EFuncCall sp ns name args)
    have all: "silent (refs a binds visited)" if "a \<in> set args" for a
      using that by (intro sub) (simp add: EFuncCall)
    then have any: "silent (any_may (\<lambda>a. refs a binds visited) args)" by (intro any_may_silent)
    have "silent (bind_apply_time refs ctx b (Some f) binds visited)"
      if lk: "bound_lookup name args binds = Some (b, f)" for b f
    proof -
      obtain v where "binds v = Some b"
        using lk by (auto simp: bound_lookup_def split: list.splits expr.splits if_splits)
      from bind_silent [OF assms(1-3) this] show ?thesis .
    qed
    with all any show ?thesis
      by (auto simp: references_apply_step_def EFuncCall split: option.split list.split intro!: or_may_silent)
  next
    case (ETraversal sp root ops)
    then show ?thesis
      using traversal_silent [OF assms(1-3) assms(4) [unfolded ETraversal]] by (simp add: references_apply_step_def)
  next
    case (EUnaryOp op x)
    then show ?thesis using sub [of x] by (simp add: references_apply_step_def)
  next
    case (EBinaryOp sp l op x)
    then have "silent (refs l binds visited)" "silent (refs x binds visited)" by (auto intro!: sub)
    then show ?thesis by (auto simp: references_apply_step_def EBinaryOp intro!: or_may_silent)
  qed (use False in \<open>auto simp: references_apply_step_def\<close>)
qed

lemma references_silent: "''module'' \<notin> allowlist ctx \<Longrightarrow> silent_calls ctx (references_apply_time n ctx)"
  by (induction n) (auto simp: silent_calls_def intro: references_apply_step_silent [unfolded silent_calls_def])


lemma membership_step_silent:
  assumes "plan_known ctx G e" "silent (refs e binds visited)"
    "\<And>x. part_of x e \<Longrightarrow> \<nexists>k v coll key val cond. e = EFor k v coll key val cond \<Longrightarrow> silent (refs x binds visited)"
    "\<And>k v coll key val cond x. e = EFor k v coll key val cond \<Longrightarrow> x \<in> {val} \<union> set_option key \<union> set_option cond
       \<Longrightarrow> silent (refs x (bind_loop k v coll binds) visited)"
    "\<And>x k. part_of x e \<Longrightarrow> \<nexists>k v coll key val cond. e = EFor k v coll key val cond \<Longrightarrow> silent (member x k visited)"
    "\<And>d v2. resolve_local_def (local_name e) ctx visited = Some (d, v2) \<Longrightarrow> silent (member d kind v2)"
  shows "silent (membership_step member refs ctx e kind binds visited)"
proof (cases e)
  case (EArray els)
  then have "silent (any_may (\<lambda>el. refs el binds visited) els)" by (intro any_may_silent assms(3)) auto
  with EArray show ?thesis by (simp add: membership_step_def)
next
  case (EObject sp fs)
  have "silent (any_may (\<lambda>(k, _). case k of KExpr ke \<Rightarrow> refs ke binds visited | KIdent _ \<Rightarrow> Some False) fs)"
    by (intro any_may_silent) (auto simp: EObject split: obj_key.split intro!: assms(3))
  with EObject show ?thesis by (simp add: membership_step_def)
next
  case (EFuncCall sp ns name args)
  have any: "silent (any_may (\<lambda>a. member a kind visited) args)"
    by (intro any_may_silent assms(5)) (simp_all add: EFuncCall)
  have len: "silent (case args of [] \<Rightarrow> Some False
      | arg # _ \<Rightarrow> if bare_allowlisted ctx arg \<noteq> None then Some False else member arg ForEach visited)"
    using assms(5) [of "hd args"] by (cases args) (simp_all add: EFuncCall)
  show ?thesis
    using any len assms(2) unfolding membership_step_def EFuncCall expr.case by presburger
next
  case (EFor k v coll key val cond)
  let ?inner = "bind_loop k v coll binds"
  have "silent (refs (case key of Some x \<Rightarrow> x | None \<Rightarrow> val) ?inner visited)"
    by (intro assms(4) [OF EFor]) (simp split: option.split)
  moreover have "silent (opt_may (\<lambda>c. refs c ?inner visited) cond)"
    by (auto simp: opt_may_def split: option.split intro!: assms(4) [OF EFor])
  ultimately show ?thesis
    unfolding membership_step_def EFor expr.case Let_def by (rule or_may_silent)
next
  case (ETraversal sp root ops)
  have eq: "membership_step member refs ctx e kind binds visited =
    (if local_name e \<noteq> None then
       (case resolve_local_def (local_name e) ctx visited of Some (def, v2) \<Rightarrow> member def kind v2 | None \<Rightarrow> Some False)
     else (case var_name e of
         Some name \<Rightarrow> Some (case hm_get (unknown_variables ctx) name of None \<Rightarrow> False | Some i \<Rightarrow> uv_membership i)
       | None \<Rightarrow> refs e binds visited))"
    unfolding membership_step_def by (simp only: ETraversal expr.case)
  show ?thesis
    unfolding eq using assms(2,6) plan_known_var_name(2) [OF assms(1)] by (auto split: option.split)
qed (use assms(2) in \<open>simp_all add: membership_step_def\<close>)

lemma membership_silent:
  assumes "''module'' \<notin> allowlist ctx"
  shows "plan_known ctx {} e \<Longrightarrow> silent (membership_apply_time_inner n ctx Map.empty e kind visited)"
proof (induction n arbitrary: e kind visited)
  case (Suc n)
  define refs where "refs = references_apply_time n ctx"
  define member where "member = membership_apply_time_inner n ctx Map.empty"
  have calls: "silent_calls ctx refs" unfolding refs_def by (rule references_silent [OF assms])
  have known: "plan_known ctx (dom Map.empty) e" using Suc.prems by simp
  have none: "binds_known ctx Map.empty" by (simp add: binds_known_def)
  have "silent (membership_step member refs ctx e kind Map.empty visited)"
  proof (rule membership_step_silent [OF Suc.prems])
    show "silent (refs e Map.empty visited)" by (rule silent_callsD [OF calls known none])
    show "silent (refs x Map.empty visited)" if "part_of x e" "\<nexists>k v coll key val cond. e = EFor k v coll key val cond" for x
      by (rule silent_callsD [OF calls plan_known_part [OF that known] none])
    show "silent (refs x (bind_loop k v coll Map.empty) visited)"
      if "e = EFor k v coll key val cond" "x \<in> {val} \<union> set_option key \<union> set_option cond" for k v coll key val cond x
      using bind_loop_known [OF known [unfolded that(1)] none] that(2) by (intro silent_callsD [OF calls])
    show "silent (member x k visited)" if "part_of x e" "\<nexists>k v coll key val cond. e = EFor k v coll key val cond" for x k
      unfolding member_def by (rule Suc.IH [OF plan_known_part [OF that Suc.prems]])
    show "silent (member d kind v2)" if "resolve_local_def (local_name e) ctx visited = Some (d, v2)" for d v2
      unfolding member_def by (rule Suc.IH [OF plan_known_resolved [OF Suc.prems that]])
  qed
  then show ?case by (simp only: membership_apply_time_inner.simps(2) refs_def member_def)
qed simp

text \<open>
  C17. No false alarm: take the expression with the locals and data blocks it names, those that these name, and so
  on. When none of them mentions a managed resource (the loop variable of a template directive, which the
  analysis does not bind, counts as a mention) and none reads an unknown variable of a caller, a
  data block with \<open>depends_on\<close> or an unknown output of a child module, the expression is flagged nowhere (as long
  as the allow-lists name no resource type \<open>module\<close>).
\<close>

theorem no_false_alarm:
  assumes "''module'' \<notin> allowlist ctx" "\<And>d. (reads ctx)\<^sup>*\<^sup>* e d \<Longrightarrow> heads_known ctx {} d \<and> sources_known ctx d"
  shows "membership_apply_time n e kind ctx \<noteq> Some True \<and> value_apply_time n e ctx \<noteq> Some True"
proof -
  have "plan_known ctx {} e"
    using assms(2) unfolding plan_known_def by (auto dest: tranclp_into_rtranclp)
  then show ?thesis
    using membership_silent [OF assms(1)] references_silent [OF assms(1)]
    by (auto simp: membership_apply_time_def value_apply_time_def silent_calls_def silent_def binds_known_def)
qed

text \<open>
  A false alarm: the analysis binds the variable of a \<open>for\<close> expression but not that of a \<open>for\<close> directive of a
  template. A loop over a known collection that uses its variable is flagged in a template and not flagged as an
  expression.
\<close>

theorem template_loop_flagged:
  assumes "v \<notin> {''data'', ''module''} \<union> set safe_roots" "allowlisted_traversal ctx (EVariable v) [GetAttr sp f] = None"
    and "hm_get (unknown_variables ctx) l = None"
  shows "value_apply_time (3 + n) (EStringTemplate None [DirFor (ETraversal None (EVariable ''var'') [GetAttr None l])
      [Interpolation (ETraversal None (EVariable v) [GetAttr sp f])]]) ctx = Some True
    \<and> value_apply_time (3 + n) (EFor None v (ETraversal None (EVariable ''var'') [GetAttr None l]) None
        (ETraversal None (EVariable v) [GetAttr sp f]) None) ctx \<noteq> Some True"
proof -
  let ?coll = "ETraversal None (EVariable ''var'') [GetAttr None l]" and ?x = "ETraversal None (EVariable v) [GetAttr sp f]"
  have v: "v \<noteq> ''local''" "v \<noteq> ''data''" "v \<noteq> ''var''" "v \<noteq> ''module''" "v \<notin> set safe_roots"
    using assms(1) by (auto simp: safe_roots_def)
  have coll: "references_apply_time (Suc m) ctx ?coll binds visited = Some False" for m binds visited
    using assms(3) by (simp add: references_apply_step_def traversal_apply_time_def index_operators_apply_time_def first_attr_def or_may_def)
  have alone: "references_apply_time (Suc m) ctx ?x Map.empty {} = Some True" for m
    using v assms(2) by (simp add: references_apply_step_def traversal_apply_time_def resource_reference_apply_time_def)
  have bare: "bare_allowlisted ctx ?coll = None" by (simp add: bare_allowlisted_def allowlisted_traversal_def safe_roots_def)
  have bound: "references_apply_time (Suc (Suc m)) ctx ?x (Map.empty(v \<mapsto> BindValue ?coll)) {} \<noteq> Some True" for m
    using v coll [of m] bare
    by (simp add: references_apply_time.simps(2) [of "Suc m"] references_apply_step_def traversal_apply_time_def bind_apply_time_def
        element_value_apply_time_def resolve_through_locals.simps [of ctx ?coll] local_name_def head_name_def identity_passthrough_arg_def
        del: references_apply_time.simps split: option.splits)
  have "references_apply_time (Suc (Suc m)) ctx (EStringTemplate None [DirFor ?coll [Interpolation ?x]]) Map.empty {} = Some True" for m
    unfolding references_apply_time.simps(2) [of "Suc m"] references_apply_step_def expr.case
    by (simp add: coll alone or_may_def del: references_apply_time.simps)
  moreover have "references_apply_time (Suc (Suc (Suc m))) ctx (EFor None v ?coll None ?x None) Map.empty {} \<noteq> Some True" for m
    unfolding references_apply_time.simps(2) [of "Suc (Suc m)"] references_apply_step_def expr.case
    using bound [of m] coll [of "Suc m" Map.empty "{}"]
    by (auto simp: or_may_def opt_may_def bind_loop_def Let_def simp del: references_apply_time.simps split: option.splits Option.bind_splits if_splits)
  ultimately show ?thesis
    by (simp add: value_apply_time_def numeral_3_eq_3 del: references_apply_time.simps)
qed

section \<open>A resource attribute is seen\<close>

text \<open>The parts whose value goes into the value of the whole.\<close>

definition yields :: "expr \<Rightarrow> expr \<Rightarrow> bool" where
  "yields c e \<longleftrightarrow> part_of c e \<and> (\<nexists>k v coll key val cond. e = EFor k v coll key val cond)
     \<and> (\<nexists>sp root ops. e = ETraversal sp root ops)"

definition alarmed :: "bool option \<Rightarrow> bool" where
  "alarmed x \<longleftrightarrow> x \<noteq> Some False"

lemma alarmed_simps [simp]: "alarmed None" "alarmed (Some b) \<longleftrightarrow> b"
  by (simp_all add: alarmed_def)

lemma any_may_alarmed: "x \<in> set xs \<Longrightarrow> alarmed (f x) \<Longrightarrow> alarmed (any_may f xs)"
proof (induction xs)
  case (Cons y xs)
  then show ?case by (cases "f y") auto
qed simp

lemma or_may_alarmed: "alarmed a \<or> alarmed b \<Longrightarrow> alarmed (or_may a b)"
  by (cases a) (auto simp: or_may_def)

lemma template_alarmed:
  "in_element x el \<Longrightarrow> alarmed (refs x binds visited) \<Longrightarrow> alarmed (template_apply_time refs binds visited el)"
  by (induction rule: in_element.induct) (auto intro: or_may_alarmed any_may_alarmed)

lemma yields_alarmed:
  assumes "yields c e" "alarmed (refs c Map.empty visited)"
  shows "alarmed (references_apply_step refs ctx e Map.empty visited)"
proof -
  have p: "part_of c e" using assms(1) by (simp add: yields_def)
  show ?thesis
  proof (cases e)
    case (EArray els)
    with p assms(2) show ?thesis by (auto simp: references_apply_step_def intro: any_may_alarmed)
  next
    case (EObject sp fs)
    with p obtain k v where kv: "(k, v) \<in> set fs" "c = v \<or> k = KExpr c" by auto
    then have "alarmed (or_may (case k of KExpr ke \<Rightarrow> refs ke Map.empty visited | KIdent _ \<Rightarrow> Some False) (refs v Map.empty visited))"
      using assms(2) by (auto intro: or_may_alarmed)
    with kv(1) have "alarmed (any_may (\<lambda>(k, v).
          or_may (case k of KExpr ke \<Rightarrow> refs ke Map.empty visited | KIdent _ \<Rightarrow> Some False) (refs v Map.empty visited)) fs)"
      by (intro any_may_alarmed) auto
    with EObject show ?thesis by (simp add: references_apply_step_def)
  next
    case (EStringTemplate sp els)
    with p assms(2) show ?thesis by (auto simp: references_apply_step_def intro: any_may_alarmed template_alarmed)
  next
    case (EHeredocTemplate els)
    with p assms(2) show ?thesis by (auto simp: references_apply_step_def intro: any_may_alarmed template_alarmed)
  next
    case (EFuncCall sp ns name args)
    have "bound_lookup name args Map.empty = None" by (simp add: bound_lookup_def split: list.split expr.split)
    with EFuncCall p assms(2) show ?thesis by (auto simp: references_apply_step_def intro: any_may_alarmed)
  qed (use p assms in \<open>auto simp: references_apply_step_def yields_def intro: or_may_alarmed\<close>)
qed


section \<open>Concrete modules\<close>

lemma analysis_answers_witness:
  "\<exists>b. membership_apply_time 40 (EFor None ''x'' (ETraversal None (EVariable ''var'') [GetAttr None ''l'']) None (EVariable ''x'') None)
     ForEach (new_ctx no_inputs None None) = Some b"
proof -
  let ?e = "EFor None ''x'' (ETraversal None (EVariable ''var'') [GetAttr None ''l'']) None (EVariable ''x'') None"
  let ?ctx = "new_ctx no_inputs None None"
  let ?r = "\<lambda>h. if h = ''x'' then 1 else 0 :: nat"
  have empty: "module_exprs ?ctx = {}" "module_keys ?ctx = {}"
    by (simp_all add: new_ctx_def no_inputs_def module_exprs_def module_keys_def hm_get_def module_unknown_inputs.defs)
  have "ctx_ranked ?r 1 (size ?e) ?ctx" by (simp add: ctx_ranked_def empty)
  moreover have "ranked ?r 1 (size ?e) ?e" by (auto simp: ranked_def heads_def loops_def)
  moreover have "stack_bound 1 (size ?e) (card (module_keys ?ctx)) (Suc 1) (size ?e) < 39"
    by (simp add: stack_bound_def empty)
  ultimately have "membership_apply_time (Suc 39) ?e ForEach ?ctx \<noteq> None"
    using analysis_answers by blast
  then show ?thesis by simp
qed

lemma no_false_alarm_witness:
  "membership_apply_time 9 (ETraversal None (EVariable ''var'') [GetAttr None ''l'']) ForEach (new_ctx no_inputs None None) \<noteq> Some True"
proof -
  let ?ctx = "new_ctx no_inputs None None" and ?e = "ETraversal None (EVariable ''var'') [GetAttr None ''l'']"
  have empty: "mi_locals ?ctx = []" "data_configs ?ctx = []" "unknown_variables ?ctx = []" "module_outputs ?ctx = None" "extra_plan_known ?ctx = []"
    by (simp_all add: new_ctx_def no_inputs_def module_unknown_inputs.defs)
  have "\<not> reads ?ctx e d" for e d by (auto elim!: reads.cases simp: empty hm_get_def)
  then have "d = ?e" if "(reads ?ctx)\<^sup>*\<^sup>* ?e d" for d using that by (auto elim: converse_rtranclpE)
  moreover have "heads_known ?ctx {} ?e" by (simp add: heads_known_def known_heads_def safe_roots_def)
  moreover have "known_source ?ctx c" for c by (simp add: known_source_def empty hm_get_def split: Option.bind_split)
  then have "sources_known ?ctx ?e" by (simp add: sources_known_def)
  moreover have "''module'' \<notin> allowlist ?ctx" by (simp add: allowlist_def plan_known_collections_def empty hm_get_def)
  ultimately show ?thesis using no_false_alarm [of ?ctx ?e 9 ForEach] by blast
qed


end
