(* ===== verification/UnknownRules.thy ===== *)
theory UnknownRules
  imports Unknown
begin

text \<open>
  \<^verbatim>\<open>crates/tfls-diag/src/for_each_unknown_keys.rs\<close> and
  \<^verbatim>\<open>crates/tfls-diag/src/import_unknown_id.rs\<close>: the two rules over the analysis of \<open>Unknown\<close>. As
  there, the first argument is the stack available; a result of \<open>None\<close> is an overflow of it, or the panic
  of converting a span off a character boundary.
\<close>

definition expr_range :: "span option \<Rightarrow> rope \<Rightarrow> lsp_range may_panic" where
  "expr_range sp rope = do { r \<leftarrow> opt_span_range rope sp; Some (case r of None \<Rightarrow> default_range | Some x \<Rightarrow> x) }"

definition with_reason :: "string \<Rightarrow> expr \<Rightarrow> unknown_ctx \<Rightarrow> string" where
  "with_reason message value ctx =
     (case unknown_var_reason value ctx of
        None \<Rightarrow> message
      | Some reason \<Rightarrow> message @ '' ('' @ reason @ ''.)'')"

definition message :: "meta_kind \<Rightarrow> string" where
  "message kind =
     (case kind of
        ForEach \<Rightarrow> backquote ''for_each'' @ '' membership depends on a value not known until apply '' @ em_dash
          @ '' Terraform rejects this at plan time. Key it on a statically-known ''
          @ ''attribute instead (values may stay unknown; only the keys must be known).''
      | Count \<Rightarrow> backquote ''count'' @ '' depends on a value not known until apply '' @ em_dash
          @ '' Terraform rejects this at plan time. Base the count on a statically-known value instead.'')"

definition id_message :: string where
  "id_message = backquote ''id'' @ '' of this import block depends on a value not known until apply '' @ em_dash
     @ '' Terraform requires import IDs to be known at plan time. Reference ''
     @ ''statically-known values (variables, config-set attributes) instead of computed resource attributes.''"

definition import_for_each_message :: string where
  "import_for_each_message = backquote ''for_each''
     @ '' membership of this import block depends on a value not known until apply '' @ em_dash
     @ '' Terraform rejects this at plan time. Key it on a statically-known attribute instead.''"

definition unknown_diagnostic :: "string \<Rightarrow> lsp_range \<Rightarrow> diagnostic" where
  "unknown_diagnostic msg rg = \<lparr>dg_range = rg, dg_severity = SevWarning, dg_message = msg, dg_tags = []\<rparr>"

text \<open>One attribute: the verdict of the analysis, and the diagnostic when it is flagged.\<close>

definition flag_if :: "bool option \<Rightarrow> string \<Rightarrow> expr \<Rightarrow> span option \<Rightarrow> rope \<Rightarrow> unknown_ctx
    \<Rightarrow> diagnostic list \<Rightarrow> diagnostic list option" where
  "flag_if verdict msg value sp rope ctx out = do {
     hit \<leftarrow> verdict;
     (if hit then do {
        rg \<leftarrow> expr_range sp rope;
        Some (out @ [unknown_diagnostic (with_reason msg value ctx) rg]) }
      else Some out) }"

definition check_entry :: "nat \<Rightarrow> rope \<Rightarrow> unknown_ctx \<Rightarrow> diagnostic list \<Rightarrow> body_item \<Rightarrow> diagnostic list option" where
  "check_entry n rope ctx out entry =
     (case entry of
        Block _ _ _ _ \<Rightarrow> Some out
      | Attribute (key, _) value sp _ \<Rightarrow>
          if key = ''for_each'' then
            flag_if (membership_apply_time n value ForEach ctx) (message ForEach) value sp rope ctx out
          else if key = ''count'' then
            flag_if (membership_apply_time n value Count ctx) (message Count) value sp rope ctx out
          else Some out)"

definition check_block :: "nat \<Rightarrow> rope \<Rightarrow> unknown_ctx \<Rightarrow> diagnostic list \<Rightarrow> body_item \<Rightarrow> diagnostic list option" where
  "check_block n rope ctx out item =
     (case item of
        Attribute _ _ _ _ \<Rightarrow> Some out
      | Block _ (kw, _) _ inner \<Rightarrow>
          if kw \<in> {''resource'', ''data'', ''module''} then fold_may (check_entry n rope ctx) out inner else Some out)"

definition overlaid_ctx :: "body \<Rightarrow> module_unknown_inputs \<Rightarrow> (string \<Rightarrow> schema option) option
    \<Rightarrow> (string \<Rightarrow> string \<Rightarrow> string list \<Rightarrow> bool option) option \<Rightarrow> unknown_ctx" where
  "overlaid_ctx b inputs sch outs = new_ctx (merge_override inputs (collect_module_inputs b)) sch outs"

definition for_each_unknown_keys_diagnostics_with_ctx ::
    "nat \<Rightarrow> body \<Rightarrow> rope \<Rightarrow> module_unknown_inputs \<Rightarrow> (string \<Rightarrow> schema option) option
      \<Rightarrow> (string \<Rightarrow> string \<Rightarrow> string list \<Rightarrow> bool option) option \<Rightarrow> diagnostic list option" where
  "for_each_unknown_keys_diagnostics_with_ctx n b rope inputs sch outs =
     fold_may (check_block n rope (overlaid_ctx b inputs sch outs)) [] b"

definition for_each_unknown_keys_diagnostics_with_locals ::
    "nat \<Rightarrow> body \<Rightarrow> rope \<Rightarrow> (string, expr) hash_map \<Rightarrow> diagnostic list option" where
  "for_each_unknown_keys_diagnostics_with_locals n b rope module_locals =
     for_each_unknown_keys_diagnostics_with_ctx n b rope (no_inputs\<lparr>mi_locals := module_locals\<rparr>) None None"

definition for_each_unknown_keys_diagnostics :: "nat \<Rightarrow> body \<Rightarrow> rope \<Rightarrow> diagnostic list option" where
  "for_each_unknown_keys_diagnostics n b rope = for_each_unknown_keys_diagnostics_with_locals n b rope []"

definition check_import_entry :: "nat \<Rightarrow> rope \<Rightarrow> unknown_ctx \<Rightarrow> diagnostic list \<Rightarrow> body_item \<Rightarrow> diagnostic list option" where
  "check_import_entry n rope ctx out entry =
     (case entry of
        Block _ _ _ _ \<Rightarrow> Some out
      | Attribute (key, _) value sp _ \<Rightarrow>
          if key = ''id'' then flag_if (value_apply_time n value ctx) id_message value sp rope ctx out
          else if key = ''for_each'' then
            flag_if (membership_apply_time n value ForEach ctx) import_for_each_message value sp rope ctx out
          else Some out)"

definition import_unknown_id_diagnostics_with_ctx ::
    "nat \<Rightarrow> body \<Rightarrow> rope \<Rightarrow> module_unknown_inputs \<Rightarrow> (string \<Rightarrow> schema option) option
      \<Rightarrow> (string \<Rightarrow> string \<Rightarrow> string list \<Rightarrow> bool option) option \<Rightarrow> diagnostic list option" where
  "import_unknown_id_diagnostics_with_ctx n b rope inputs sch outs =
     fold_may (\<lambda>out item. case item of
         Attribute _ _ _ _ \<Rightarrow> Some out
       | Block _ (kw, _) _ inner \<Rightarrow>
           if kw = ''import'' then fold_may (check_import_entry n rope (overlaid_ctx b inputs sch outs)) out inner
           else Some out) [] b"

definition import_unknown_id_diagnostics :: "nat \<Rightarrow> body \<Rightarrow> rope \<Rightarrow> diagnostic list option" where
  "import_unknown_id_diagnostics n b rope = import_unknown_id_diagnostics_with_ctx n b rope no_inputs None None"

section \<open>A crash of the linter\<close>

text \<open>
  \<^verbatim>\<open>resource "t" "n" { for_each = [for s in var.items : [for s in s.subs : s.id]] }\<close>, with the spans
  the parser records.
\<close>

definition crashing :: "span option \<Rightarrow> body" where
  "crashing sp = [Block None (''resource'', None) [(''t'', None), (''n'', None)]
     [Attribute (''for_each'', None) shadowing sp None]]"

text \<open>
  C22. No stack is deep enough to lint that file: the rule overflows it on every run, whatever its text and
  the provider schemas are. (The process dies; an overflow cannot be caught.)
\<close>

theorem shadowed_for_each_crashes:
  "for_each_unknown_keys_diagnostics_with_ctx n (crashing sp) rope no_inputs sch outs = None"
proof -
  have "hm_get (unknown_variables (overlaid_ctx (crashing sp) no_inputs sch outs)) ''items'' = None"
    by (simp add: overlaid_ctx_def new_ctx_def merge_override_def no_inputs_def hm_extend_def collect_module_inputs_def
      crashing_def collect_input_def config_entry_def hm_get_def module_unknown_inputs.defs)
  from shadowing_overflows [OF this] show ?thesis
    by (simp add: for_each_unknown_keys_diagnostics_with_ctx_def crashing_def check_block_def check_entry_def flag_if_def)
qed

text \<open>The attributes the rule looks at, and the verdict on each.\<close>

definition meta_attributes :: "body \<Rightarrow> (meta_kind \<times> expr \<times> span option) list" where
  "meta_attributes b = concat (map (\<lambda>item. case item of
       Block _ (kw, _) _ inner \<Rightarrow>
         if kw \<in> {''resource'', ''data'', ''module''} then
           List.map_filter (\<lambda>entry. case entry of
             Attribute (key, _) value sp _ \<Rightarrow>
               if key = ''for_each'' then Some (ForEach, value, sp) else if key = ''count'' then Some (Count, value, sp) else None
           | Block _ _ _ _ \<Rightarrow> None) inner
         else []
     | Attribute _ _ _ _ \<Rightarrow> []) b)"

definition flagged_at :: "nat \<Rightarrow> rope \<Rightarrow> unknown_ctx \<Rightarrow> meta_kind \<times> expr \<times> span option \<Rightarrow> diagnostic list option" where
  "flagged_at n rope ctx = (\<lambda>(kind, value, sp).
     flag_if (membership_apply_time n value kind ctx) (message kind) value sp rope ctx [])"

lemma flag_if_append: "flag_if v m e sp rope ctx out = map_option ((@) out) (flag_if v m e sp rope ctx [])"
  by (cases v) (auto simp: flag_if_def split: Option.bind_splits)

lemma check_entries_eq:
  "fold_may (check_entry n rope ctx) out inner = map_option ((@) out) (concat_may (map (flagged_at n rope ctx)
     (List.map_filter (\<lambda>entry. case entry of
        Attribute (key, _) value sp _ \<Rightarrow>
          if key = ''for_each'' then Some (ForEach, value, sp) else if key = ''count'' then Some (Count, value, sp) else None
      | Block _ _ _ _ \<Rightarrow> None) inner)))"
proof (induction inner arbitrary: out)
  case Nil
  then show ?case by (simp add: List.map_filter_def)
next
  case (Cons entry inner)
  show ?case
  proof (cases entry)
    case (Block sp ident labels body)
    with Cons show ?thesis by (simp add: check_entry_def)
  next
    case (Attribute key v sp sa)
    obtain k ks where key: "key = (k, ks)" by (cases key)
    have step: "fold_may (check_entry n rope ctx) out (entry # inner) =
        Option.bind (check_entry n rope ctx out entry) (\<lambda>out. fold_may (check_entry n rope ctx) out inner)"
      by simp
    show ?thesis
      unfolding step Cons
      by (cases "flagged_at n rope ctx (ForEach, v, sp)"; cases "flagged_at n rope ctx (Count, v, sp)")
        (auto simp: Attribute key check_entry_def flagged_at_def flag_if_append [of _ _ _ _ _ _ out]
          split: Option.bind_splits)
  qed
qed

text \<open>
  The rule answers exactly when the analysis answers on every \<open>for_each\<close> and \<open>count\<close> of the file, and
  its diagnostics are those of the flagged ones, in their order.
\<close>

theorem for_each_rule_eq:
  "for_each_unknown_keys_diagnostics_with_ctx n b rope inputs sch outs
     = concat_may (map (flagged_at n rope (overlaid_ctx b inputs sch outs)) (meta_attributes b))"
proof -
  have "fold_may (check_block n rope ctx) out b = map_option ((@) out) (concat_may (map (flagged_at n rope ctx) (meta_attributes b)))"
    for ctx out b
  proof (induction b arbitrary: out)
    case Nil
    then show ?case by (simp add: meta_attributes_def)
  next
    case (Cons item b)
    show ?case
    proof (cases item)
      case (Attribute k e sp sa)
      then have "check_block n rope ctx out item = Some out" "meta_attributes (item # b) = meta_attributes b"
        by (simp_all add: check_block_def meta_attributes_def)
      then show ?thesis by (simp add: Cons)
    next
      case (Block sp ident labels inner)
      obtain kw sk where id: "ident = (kw, sk)" by (cases ident)
      show ?thesis
      proof (cases "kw \<in> {''resource'', ''data'', ''module''}")
        case False
        then have "check_block n rope ctx out item = Some out" "meta_attributes (item # b) = meta_attributes b"
          by (simp_all add: Block id check_block_def meta_attributes_def)
        then show ?thesis by (simp add: Cons)
      next
        case True
        then have eq: "check_block n rope ctx out item = fold_may (check_entry n rope ctx) out inner"
          by (simp add: Block id check_block_def del: insert_iff)
        show ?thesis
          unfolding fold_may.simps eq check_entries_eq
          using True by (auto simp: meta_attributes_def Block id concat_may_append Cons
            simp del: insert_iff split: Option.bind_splits)
      qed
    qed
  qed
  then show ?thesis
    unfolding for_each_unknown_keys_diagnostics_with_ctx_def by simp
qed

end
