(* ===== verification/Deprecation.thy ===== *)
theory Deprecation
  imports Diagnostics GitRef VersionConstraint
begin

text \<open>
  \<^verbatim>\<open>crates/tfls-diag/src/deprecation_rule.rs\<close> and the rule tables over it
  (\<^verbatim>\<open>deprecated_null_resource.rs\<close>, \<^verbatim>\<open>deprecated_null_data_source.rs\<close>, \<^verbatim>\<open>deprecated_template_file.rs\<close>,
  \<^verbatim>\<open>deprecated_template_dir.rs\<close>, \<^verbatim>\<open>deprecated_aws_renames.rs\<close>, \<^verbatim>\<open>deprecated_azurerm_blocks.rs\<close>,
  \<^verbatim>\<open>deprecated_google_blocks.rs\<close>, \<^verbatim>\<open>deprecated_vault_blocks.rs\<close>, \<^verbatim>\<open>deprecated_kubernetes_renames.rs\<close>):
  blocks that are superseded, flagged when the declared or locked version has the replacement. Reading
  a version constraint can panic (\<open>VersionConstraint\<close>), so every gate is a \<open>may_panic\<close>.
\<close>

section \<open>Rules\<close>

datatype gate =
    TerraformVersion string
  | ProviderVersion string string  \<comment> \<open>provider, threshold\<close>

record deprecation_rule =
  block_kind :: string
  rule_label :: string
  gate :: gate
  rule_message :: string

fun gate_threshold :: "gate \<Rightarrow> string" where
  "gate_threshold (TerraformVersion t) = t"
| "gate_threshold (ProviderVersion _ t) = t"

definition threshold :: "deprecation_rule \<Rightarrow> string" where
  "threshold r = gate_threshold (gate r)"

definition rule_key :: "deprecation_rule \<Rightarrow> string \<times> string" where
  "rule_key r = (block_kind r, rule_label r)"

section \<open>Constraints declared in a body\<close>

fun literals :: "element list \<Rightarrow> string option" where
  "literals [] = Some []"
| "literals (Literal l # els) = map_option ((@) l) (literals els)"
| "literals (_ # els) = None"

definition string_value :: "expr \<Rightarrow> string option" where
  "string_value e =
     (case e of
        EString _ s \<Rightarrow> Some s
      | EStringTemplate _ els \<Rightarrow> literals els
      | _ \<Rightarrow> None)"

definition object_key_name :: "obj_key \<Rightarrow> string option" where
  "object_key_name k =
     (case k of
        KIdent i \<Rightarrow> Some i
      | KExpr (EVariable v) \<Rightarrow> Some v
      | KExpr (EString _ s) \<Rightarrow> Some s
      | KExpr _ \<Rightarrow> None)"

text \<open>The value of the first \<open>required_version\<close> of the \<open>terraform\<close> blocks, in order.\<close>

definition required_version_in :: "body_item \<Rightarrow> expr option" where
  "required_version_in item =
     (case item of
        Block _ (kw, _) _ inner \<Rightarrow>
          if kw = ''terraform'' then
            (case List.map_filter (\<lambda>sub. case sub of
                 Attribute (key, _) v _ _ \<Rightarrow> if key = ''required_version'' then Some v else None
               | Block _ _ _ _ \<Rightarrow> None) inner of
               [] \<Rightarrow> None
             | v # _ \<Rightarrow> Some v)
          else None
      | Attribute _ _ _ _ \<Rightarrow> None)"

definition extract_required_version :: "body \<Rightarrow> string option" where
  "extract_required_version b =
     (case List.map_filter required_version_in b of
        [] \<Rightarrow> None
      | v # _ \<Rightarrow> string_value v)"

definition provider_ns_name :: "string \<Rightarrow> string" where
  "provider_ns_name s =
     (case rev (filter (\<lambda>p. p \<noteq> []) (split_on CHR ''/'' s)) of
        [name] \<Rightarrow> ''hashicorp/'' @ to_ascii_lowercase name
      | name # ns # _ \<Rightarrow> to_ascii_lowercase ns @ ''/'' @ to_ascii_lowercase name
      | [] \<Rightarrow> to_ascii_lowercase s)"

definition entry_matches_provider :: "string \<Rightarrow> string option \<Rightarrow> string \<Rightarrow> bool" where
  "entry_matches_provider local_key explicit_source canonical \<longleftrightarrow>
     provider_ns_name (case explicit_source of Some src \<Rightarrow> src | None \<Rightarrow> local_key) = canonical"

text \<open>The last \<open>version\<close> and the last \<open>source\<close> of an object, read as strings.\<close>

definition object_field :: "string \<Rightarrow> (obj_key \<times> expr) list \<Rightarrow> string option" where
  "object_field name fs = fold (\<lambda>(k, v) acc. if object_key_name k = Some name then string_value v else acc) fs None"

definition provider_entry_version :: "string \<Rightarrow> body_item \<Rightarrow> string option" where
  "provider_entry_version canonical entry =
     (case entry of
        Attribute (key, _) v _ _ \<Rightarrow>
          (case string_value v of
             Some s \<Rightarrow> if entry_matches_provider key None canonical then Some s else None
           | None \<Rightarrow>
               (case v of
                  EObject _ fs \<Rightarrow>
                    if entry_matches_provider key (object_field ''source'' fs) canonical then object_field ''version'' fs
                    else None
                | _ \<Rightarrow> None))
      | Block _ _ _ _ \<Rightarrow> None)"

text \<open>The entries of the \<open>required_providers\<close> blocks of the \<open>terraform\<close> blocks, in order.\<close>

definition nested_bodies :: "string \<Rightarrow> body \<Rightarrow> body" where
  "nested_bodies name b = concat (map (\<lambda>item. case item of
       Block _ (kw, _) _ inner \<Rightarrow> if kw = name then inner else []
     | Attribute _ _ _ _ \<Rightarrow> []) b)"

definition provider_entries :: "body \<Rightarrow> body" where
  "provider_entries b = nested_bodies ''required_providers'' (nested_bodies ''terraform'' b)"

definition extract_required_provider_version :: "body \<Rightarrow> string \<Rightarrow> string option" where
  "extract_required_provider_version b provider_name =
     (case List.map_filter (provider_entry_version (provider_ns_name provider_name)) (provider_entries b) of
        [] \<Rightarrow> None
      | v # _ \<Rightarrow> Some v)"

definition provider_entry_source :: "string \<Rightarrow> body_item \<Rightarrow> string option" where
  "provider_entry_source provider_name entry =
     (case entry of
        Attribute (key, _) (EObject _ fs) _ _ \<Rightarrow>
          if key = provider_name then
            (case List.map_filter (\<lambda>(k, v). if object_key_name k = Some ''source'' then string_value v else None) fs of
               [] \<Rightarrow> None
             | s # _ \<Rightarrow> Some s)
          else None
      | _ \<Rightarrow> None)"

definition extract_required_provider_source :: "body \<Rightarrow> string \<Rightarrow> string option" where
  "extract_required_provider_source b provider_name =
     (case List.map_filter (provider_entry_source provider_name) (provider_entries b) of
        [] \<Rightarrow> None
      | s # _ \<Rightarrow> Some s)"

section \<open>Gates\<close>

definition supports :: "deprecation_rule \<Rightarrow> string \<Rightarrow> bool may_panic" where
  "supports r constraint = do {
     parsed \<leftarrow> parse constraint;
     Some (if p_constraints parsed = [] then True
       else (case min_admitted_version (p_constraints parsed) of
               None \<Rightarrow> False
             | Some m \<Rightarrow> version_at_least m (threshold r))) }"

definition supports_via_constraint :: "deprecation_rule \<Rightarrow> string option \<Rightarrow> bool may_panic" where
  "supports_via_constraint r constraint = (case constraint of Some c \<Rightarrow> supports r c | None \<Rightarrow> Some True)"

definition declared_constraint :: "deprecation_rule \<Rightarrow> body \<Rightarrow> string option" where
  "declared_constraint r b =
     (case gate r of
        TerraformVersion _ \<Rightarrow> extract_required_version b
      | ProviderVersion provider _ \<Rightarrow> extract_required_provider_version b provider)"

text \<open>\<open>body_supports\<close> and \<open>body_supports_rule\<close> have the same body.\<close>

definition body_supports_rule :: "deprecation_rule \<Rightarrow> body \<Rightarrow> bool may_panic" where
  "body_supports_rule r b = supports_via_constraint r (declared_constraint r b)"

definition supports_with_lock :: "'v semver \<Rightarrow> deprecation_rule \<Rightarrow> string option \<Rightarrow> 'v option \<Rightarrow> bool may_panic" where
  "supports_with_lock S r constraint locked =
     (case (gate r, locked) of
        (ProviderVersion _ _, Some v) \<Rightarrow>
          (case sv_parse S (threshold r) of
             Some t \<Rightarrow> Some (sv_cmp S v t \<noteq> Less)
           | None \<Rightarrow>
               (case sv_parse S (threshold r @ ''.0'') of
                  Some t \<Rightarrow> Some (sv_cmp S v t \<noteq> Less)
                | None \<Rightarrow>
                    (case sv_parse S (threshold r @ ''.0.0'') of
                       Some t \<Rightarrow> Some (sv_cmp S v t \<noteq> Less)
                     | None \<Rightarrow> supports_via_constraint r constraint)))
      | _ \<Rightarrow> supports_via_constraint r constraint)"

section \<open>Walking a body\<close>

definition deprecation_diagnostic :: "deprecation_rule \<Rightarrow> lsp_range \<Rightarrow> diagnostic" where
  "deprecation_diagnostic r rg =
     \<lparr>dg_range = rg, dg_severity = SevWarning, dg_message = rule_message r, dg_tags = [Deprecated]\<rparr>"

definition flag_label :: "deprecation_rule \<Rightarrow> rope \<Rightarrow> ident \<Rightarrow> diagnostic list \<Rightarrow> diagnostic list may_panic" where
  "flag_label r rope l out = do {
     rg \<leftarrow> label_range rope l;
     Some (case rg of None \<Rightarrow> out | Some x \<Rightarrow> out @ [deprecation_diagnostic r x]) }"

definition flag_block :: "deprecation_rule \<Rightarrow> rope \<Rightarrow> diagnostic list \<Rightarrow> body_item \<Rightarrow> diagnostic list may_panic" where
  "flag_block r rope out item =
     (case item of
        Block _ (kw, _) (l # _) _ \<Rightarrow>
          if kw = block_kind r \<and> fst l = rule_label r then flag_label r rope l out else Some out
      | _ \<Rightarrow> Some out)"

definition diagnostics_for_module :: "deprecation_rule \<Rightarrow> body \<Rightarrow> rope \<Rightarrow> bool \<Rightarrow> diagnostic list may_panic" where
  "diagnostics_for_module r b rope supported =
     (if supported then fold_may (flag_block r rope) [] b else Some [])"

definition rule_diagnostics :: "deprecation_rule \<Rightarrow> body \<Rightarrow> rope \<Rightarrow> diagnostic list may_panic" where
  "rule_diagnostics r b rope = do {
     supported \<leftarrow> body_supports_rule r b;
     diagnostics_for_module r b rope supported }"

text \<open>The index of the rules whose gate is open; a later rule replaces an earlier one of the same key.\<close>

definition index_rule :: "(deprecation_rule \<Rightarrow> bool may_panic) \<Rightarrow> (string \<times> string, deprecation_rule) hash_map
    \<Rightarrow> deprecation_rule \<Rightarrow> (string \<times> string, deprecation_rule) hash_map may_panic" where
  "index_rule supported by_key r = do {
     s \<leftarrow> supported r;
     Some (if s then hm_insert (rule_key r) r by_key else by_key) }"

definition flag_indexed :: "(string \<times> string, deprecation_rule) hash_map \<Rightarrow> rope \<Rightarrow> diagnostic list \<Rightarrow> body_item
    \<Rightarrow> diagnostic list may_panic" where
  "flag_indexed by_key rope out item =
     (case item of
        Block _ (kw, _) (l # _) _ \<Rightarrow>
          (case hm_get by_key (kw, fst l) of
             None \<Rightarrow> Some out
           | Some r \<Rightarrow> flag_label r rope l out)
      | _ \<Rightarrow> Some out)"

definition diagnostics_from_table ::
    "body \<Rightarrow> rope \<Rightarrow> deprecation_rule list \<Rightarrow> (deprecation_rule \<Rightarrow> bool may_panic) \<Rightarrow> diagnostic list may_panic" where
  "diagnostics_from_table b rope rules supported = do {
     by_key \<leftarrow> fold_may (index_rule supported) [] rules;
     (if by_key = [] then Some [] else fold_may (flag_indexed by_key rope) [] b) }"

definition table_diagnostics :: "deprecation_rule list \<Rightarrow> body \<Rightarrow> rope \<Rightarrow> diagnostic list may_panic" where
  "table_diagnostics rules b rope = diagnostics_from_table b rope rules (\<lambda>r. body_supports_rule r b)"

section \<open>The tables\<close>

definition null_resource_rule :: deprecation_rule where
  "null_resource_rule = \<lparr>block_kind = ''resource'', rule_label = ''null_resource'', gate = TerraformVersion ''1.4.0'', rule_message =
     ''`null_resource` is superseded by the built-in `terraform_data` (Terraform 1.4+) ''
     @ em_dash @ '' use the \"Convert null_resource to terraform_data\" code action.''\<rparr>"

definition null_data_source_rule :: deprecation_rule where
  "null_data_source_rule = \<lparr>block_kind = ''data'', rule_label = ''null_data_source'', gate = TerraformVersion ''0.10.0'', rule_message =
     ''`data \"null_data_source\"` is part of the unmaintained `hashicorp/null` provider ''
     @ ''(the bundled binary is unavailable on darwin/arm64 and several modern Linux ''
     @ ''variants). Replace with a `locals { ... }` block '' @ em_dash
     @ '' Terraform 0.10+ supports computed locals and 0.12+ adds rich expressions covering ''
     @ ''every case null_data_source was a workaround for.''\<rparr>"

definition template_dir_rule :: deprecation_rule where
  "template_dir_rule = \<lparr>block_kind = ''data'', rule_label = ''template_dir'', gate = TerraformVersion ''0.12.0'', rule_message =
     ''`data \"template_dir\"` is part of the unmaintained `hashicorp/template` provider ''
     @ ''(the bundled binary is unavailable on darwin/arm64 and several modern Linux ''
     @ ''variants). Migrate to `for_each = fileset(<src_dir>, \"**\")` over a `local_file` ''
     @ ''resource calling `templatefile()` per match '' @ em_dash
     @ '' Terraform 0.12+ ships both functions.''\<rparr>"

definition template_file_rule :: deprecation_rule where
  "template_file_rule = \<lparr>block_kind = ''data'', rule_label = ''template_file'', gate = TerraformVersion ''0.12.0'', rule_message =
     ''`data \"template_file\"` is superseded by the built-in `templatefile()` function ''
     @ ''(Terraform 0.12+) '' @ em_dash
     @ '' use the \"Convert template_file to templatefile()\" code action.''\<rparr>"

definition aws_type_renames :: "deprecation_rule list" where
  "aws_type_renames = [
    \<lparr>block_kind = ''resource'', rule_label = ''aws_alb'', gate = ProviderVersion ''aws'' ''1.7.0'', rule_message =
      ''`aws_alb` is a backward-compatibility alias for `aws_lb` (AWS provider 1.7+). ''
      @ ''Use `aws_lb` for new code '' @ em_dash
      @ '' schemas are identical, refs need updating in tandem (`aws_alb.X.arn` '' @ arrow
      @ '' `aws_lb.X.arn`).''\<rparr>,
    \<lparr>block_kind = ''resource'', rule_label = ''aws_alb_listener'', gate = ProviderVersion ''aws'' ''1.7.0'', rule_message =
      ''`aws_alb_listener` is a backward-compatibility alias for `aws_lb_listener` ''
      @ ''(AWS provider 1.7+). Use `aws_lb_listener` and update references (`aws_alb_listener.X.arn` ''
      @ arrow @ '' `aws_lb_listener.X.arn`).''\<rparr>,
    \<lparr>block_kind = ''resource'', rule_label = ''aws_alb_listener_rule'', gate = ProviderVersion ''aws'' ''1.7.0'', rule_message =
      ''`aws_alb_listener_rule` is a backward-compatibility alias for `aws_lb_listener_rule` ''
      @ ''(AWS provider 1.7+). Use `aws_lb_listener_rule`.''\<rparr>,
    \<lparr>block_kind = ''resource'', rule_label = ''aws_alb_target_group'', gate = ProviderVersion ''aws'' ''1.7.0'', rule_message =
      ''`aws_alb_target_group` is a backward-compatibility alias for `aws_lb_target_group` ''
      @ ''(AWS provider 1.7+). Use `aws_lb_target_group`.''\<rparr>,
    \<lparr>block_kind = ''resource'', rule_label = ''aws_alb_target_group_attachment'', gate = ProviderVersion ''aws'' ''1.7.0'', rule_message =
      ''`aws_alb_target_group_attachment` is a backward-compatibility alias for `aws_lb_target_group_attachment` ''
      @ ''(AWS provider 1.7+). Use `aws_lb_target_group_attachment`.''\<rparr>,
    \<lparr>block_kind = ''resource'', rule_label = ''aws_s3_bucket_object'', gate = ProviderVersion ''aws'' ''4.0.0'', rule_message =
      ''`aws_s3_bucket_object` is superseded by `aws_s3_object` (AWS provider 4.0+) '' @ em_dash
      @ '' the new resource adds `force_destroy` semantics and lifecycle alignment with ''
      @ ''the rest of the v4 S3 split. Migration: rename the resource type and update ''
      @ ''references.''\<rparr>,
    \<lparr>block_kind = ''data'', rule_label = ''aws_s3_bucket_object'', gate = ProviderVersion ''aws'' ''4.0.0'', rule_message =
      ''`data \"aws_s3_bucket_object\"` is superseded by `data \"aws_s3_object\"` (AWS ''
      @ ''provider 4.0+) '' @ em_dash @ '' same migration as the resource rename.''\<rparr>,
    \<lparr>block_kind = ''data'', rule_label = ''aws_s3_bucket_objects'', gate = ProviderVersion ''aws'' ''4.0.0'', rule_message =
      ''`data \"aws_s3_bucket_objects\"` is superseded by `data \"aws_s3_objects\"` (AWS ''
      @ ''provider 4.0+).''\<rparr>,
    \<lparr>block_kind = ''resource'', rule_label = ''aws_kinesis_analytics_application'', gate = ProviderVersion ''aws'' ''5.0.0'', rule_message =
      ''`aws_kinesis_analytics_application` (Kinesis Data Analytics for SQL) is superseded ''
      @ ''by `aws_kinesisanalyticsv2_application` (the v2 / Apache Flink control plane). ''
      @ ''The two resources are NOT state-compatible; running side-by-side is the supported ''
      @ ''migration path.''\<rparr>]"

definition azurerm_block_deprecations :: "deprecation_rule list" where
  "azurerm_block_deprecations = [
    \<lparr>block_kind = ''resource'', rule_label = ''azurerm_virtual_machine'', gate = ProviderVersion ''azurerm'' ''2.40.0'', rule_message =
      ''`azurerm_virtual_machine` is superseded by the OS-specific pair `azurerm_linux_virtual_machine` ''
      @ ''/ `azurerm_windows_virtual_machine` (azurerm 2.40+; canonical from 3.0). The ''
      @ ''new resources have stricter schemas around OS configuration '' @ em_dash
      @ '' the migration is not a pure rename, the body needs adjusting.''\<rparr>,
    \<lparr>block_kind = ''resource'', rule_label = ''azurerm_virtual_machine_scale_set'', gate = ProviderVersion ''azurerm'' ''2.40.0'', rule_message =
      ''`azurerm_virtual_machine_scale_set` is superseded by `azurerm_linux_virtual_machine_scale_set` ''
      @ ''/ `azurerm_windows_virtual_machine_scale_set` (azurerm 2.40+). Pick the OS-specific ''
      @ ''resource that matches your `os_profile`; schema is similar but not identical.''\<rparr>]"

definition google_block_deprecations :: "deprecation_rule list" where
  "google_block_deprecations = [
    \<lparr>block_kind = ''resource'', rule_label = ''google_dataflow_job'', gate = ProviderVersion ''google'' ''3.45.0'', rule_message =
      ''`google_dataflow_job` is superseded by `google_dataflow_flex_template_job` ''
      @ ''(google provider 3.45+) '' @ em_dash
      @ '' flex templates run from container images with per-job parameter overrides, ''
      @ ''the recommended path for new Dataflow jobs.''\<rparr>]"

definition vault_block_deprecations :: "deprecation_rule list" where
  "vault_block_deprecations = [
    \<lparr>block_kind = ''resource'', rule_label = ''vault_generic_secret'', gate = ProviderVersion ''vault'' ''3.0.0'', rule_message =
      ''`vault_generic_secret` is superseded by `vault_kv_secret_v1` / `vault_kv_secret_v2` ''
      @ ''(vault provider 3.0+) '' @ em_dash @ '' pick the resource matching the mount''
      @ [CHR 0x27]
      @ ''s KV backend version. The new resources expose metadata + lease semantics the ''
      @ ''generic resource doesn'' @ [CHR 0x27] @ ''t.''\<rparr>]"

definition rename_rule :: "string \<Rightarrow> deprecation_rule" where
  "rename_rule from_type = \<lparr>block_kind = ''resource'', rule_label = from_type, gate = ProviderVersion ''kubernetes'' ''3.0.0'', rule_message =
     ''Kubernetes resource type is deprecated in favour of its API-versioned variant ''
     @ ''(kubernetes provider 3.0+). Replace with the `_v1`-suffixed type and update ''
     @ ''references in tandem. Most variants share the schema, but some narrow it (e.g. ''
     @ ''the horizontal_pod_autoscaler v1 metric shape) '' @ em_dash
     @ '' run `terraform plan` to confirm before applying.''\<rparr>"

definition kubernetes_type_renames :: "deprecation_rule list" where
  "kubernetes_type_renames = map rename_rule [
     ''kubernetes_pod'',
     ''kubernetes_deployment'',
     ''kubernetes_service'',
     ''kubernetes_namespace'',
     ''kubernetes_config_map'',
     ''kubernetes_secret'',
     ''kubernetes_role'',
     ''kubernetes_role_binding'',
     ''kubernetes_cluster_role'',
     ''kubernetes_cluster_role_binding'',
     ''kubernetes_persistent_volume'',
     ''kubernetes_persistent_volume_claim'',
     ''kubernetes_service_account'',
     ''kubernetes_stateful_set'',
     ''kubernetes_daemonset'',
     ''kubernetes_job'',
     ''kubernetes_cron_job'',
     ''kubernetes_network_policy'',
     ''kubernetes_ingress'',
     ''kubernetes_horizontal_pod_autoscaler'']"

definition hardcoded_deprecation_labels :: "(string \<times> string) list" where
  "hardcoded_deprecation_labels = [
     (''resource'', ''null_resource''),
     (''data'', ''template_file''),
     (''data'', ''template_dir''),
     (''data'', ''null_data_source''),
     (''resource'', ''aws_alb''),
     (''resource'', ''aws_alb_listener''),
     (''resource'', ''aws_alb_listener_rule''),
     (''resource'', ''aws_alb_target_group''),
     (''resource'', ''aws_alb_target_group_attachment''),
     (''resource'', ''aws_s3_bucket_object''),
     (''data'', ''aws_s3_bucket_object''),
     (''data'', ''aws_s3_bucket_objects''),
     (''resource'', ''aws_kinesis_analytics_application''),
     (''resource'', ''kubernetes_pod''),
     (''resource'', ''kubernetes_deployment''),
     (''resource'', ''kubernetes_service''),
     (''resource'', ''kubernetes_namespace''),
     (''resource'', ''kubernetes_config_map''),
     (''resource'', ''kubernetes_secret''),
     (''resource'', ''kubernetes_role''),
     (''resource'', ''kubernetes_role_binding''),
     (''resource'', ''kubernetes_cluster_role''),
     (''resource'', ''kubernetes_cluster_role_binding''),
     (''resource'', ''kubernetes_persistent_volume''),
     (''resource'', ''kubernetes_persistent_volume_claim''),
     (''resource'', ''kubernetes_service_account''),
     (''resource'', ''kubernetes_stateful_set''),
     (''resource'', ''kubernetes_daemonset''),
     (''resource'', ''kubernetes_job''),
     (''resource'', ''kubernetes_cron_job''),
     (''resource'', ''kubernetes_network_policy''),
     (''resource'', ''kubernetes_ingress''),
     (''resource'', ''kubernetes_horizontal_pod_autoscaler''),
     (''resource'', ''azurerm_virtual_machine''),
     (''resource'', ''azurerm_virtual_machine_scale_set''),
     (''resource'', ''google_dataflow_job''),
     (''resource'', ''vault_generic_secret'')]"

definition is_hardcoded_deprecation :: "string \<Rightarrow> string \<Rightarrow> bool" where
  "is_hardcoded_deprecation kind l \<longleftrightarrow> (kind, l) \<in> set hardcoded_deprecation_labels"

text \<open>The entry points of the rule modules that read the constraints of the body itself.\<close>

definition deprecated_null_resource_diagnostics :: "body \<Rightarrow> rope \<Rightarrow> diagnostic list may_panic" where
  "deprecated_null_resource_diagnostics = rule_diagnostics null_resource_rule"

definition deprecated_null_data_source_diagnostics :: "body \<Rightarrow> rope \<Rightarrow> diagnostic list may_panic" where
  "deprecated_null_data_source_diagnostics = rule_diagnostics null_data_source_rule"

definition deprecated_template_dir_diagnostics :: "body \<Rightarrow> rope \<Rightarrow> diagnostic list may_panic" where
  "deprecated_template_dir_diagnostics = rule_diagnostics template_dir_rule"

definition deprecated_template_file_diagnostics :: "body \<Rightarrow> rope \<Rightarrow> diagnostic list may_panic" where
  "deprecated_template_file_diagnostics = rule_diagnostics template_file_rule"

definition aws_renames_diagnostics :: "body \<Rightarrow> rope \<Rightarrow> diagnostic list may_panic" where
  "aws_renames_diagnostics = table_diagnostics aws_type_renames"

definition azurerm_blocks_diagnostics :: "body \<Rightarrow> rope \<Rightarrow> diagnostic list may_panic" where
  "azurerm_blocks_diagnostics = table_diagnostics azurerm_block_deprecations"

definition google_blocks_diagnostics :: "body \<Rightarrow> rope \<Rightarrow> diagnostic list may_panic" where
  "google_blocks_diagnostics = table_diagnostics google_block_deprecations"

definition vault_blocks_diagnostics :: "body \<Rightarrow> rope \<Rightarrow> diagnostic list may_panic" where
  "vault_blocks_diagnostics = table_diagnostics vault_block_deprecations"

definition kubernetes_renames_diagnostics :: "body \<Rightarrow> rope \<Rightarrow> diagnostic list may_panic" where
  "kubernetes_renames_diagnostics = table_diagnostics kubernetes_type_renames"

text \<open>The same entry points with the decision of the caller, who has seen the constraints of the whole module.\<close>

definition deprecated_null_resource_diagnostics_for_module :: "body \<Rightarrow> rope \<Rightarrow> bool \<Rightarrow> diagnostic list may_panic" where
  "deprecated_null_resource_diagnostics_for_module = diagnostics_for_module null_resource_rule"

definition deprecated_null_data_source_diagnostics_for_module :: "body \<Rightarrow> rope \<Rightarrow> bool \<Rightarrow> diagnostic list may_panic" where
  "deprecated_null_data_source_diagnostics_for_module = diagnostics_for_module null_data_source_rule"

definition deprecated_template_dir_diagnostics_for_module :: "body \<Rightarrow> rope \<Rightarrow> bool \<Rightarrow> diagnostic list may_panic" where
  "deprecated_template_dir_diagnostics_for_module = diagnostics_for_module template_dir_rule"

definition deprecated_template_file_diagnostics_for_module :: "body \<Rightarrow> rope \<Rightarrow> bool \<Rightarrow> diagnostic list may_panic" where
  "deprecated_template_file_diagnostics_for_module = diagnostics_for_module template_file_rule"

definition aws_renames_diagnostics_for_module ::
    "body \<Rightarrow> rope \<Rightarrow> (deprecation_rule \<Rightarrow> bool may_panic) \<Rightarrow> diagnostic list may_panic" where
  "aws_renames_diagnostics_for_module b rope supported = diagnostics_from_table b rope aws_type_renames supported"

definition azurerm_blocks_diagnostics_for_module ::
    "body \<Rightarrow> rope \<Rightarrow> (deprecation_rule \<Rightarrow> bool may_panic) \<Rightarrow> diagnostic list may_panic" where
  "azurerm_blocks_diagnostics_for_module b rope supported = diagnostics_from_table b rope azurerm_block_deprecations supported"

definition google_blocks_diagnostics_for_module ::
    "body \<Rightarrow> rope \<Rightarrow> (deprecation_rule \<Rightarrow> bool may_panic) \<Rightarrow> diagnostic list may_panic" where
  "google_blocks_diagnostics_for_module b rope supported = diagnostics_from_table b rope google_block_deprecations supported"

definition vault_blocks_diagnostics_for_module ::
    "body \<Rightarrow> rope \<Rightarrow> (deprecation_rule \<Rightarrow> bool may_panic) \<Rightarrow> diagnostic list may_panic" where
  "vault_blocks_diagnostics_for_module b rope supported = diagnostics_from_table b rope vault_block_deprecations supported"

definition kubernetes_renames_diagnostics_for_module ::
    "body \<Rightarrow> rope \<Rightarrow> (deprecation_rule \<Rightarrow> bool may_panic) \<Rightarrow> diagnostic list may_panic" where
  "kubernetes_renames_diagnostics_for_module b rope supported = diagnostics_from_table b rope kubernetes_type_renames supported"

definition supports_terraform_data :: "string \<Rightarrow> bool may_panic" where
  "supports_terraform_data = supports null_resource_rule"

definition supports_locals_replacement :: "string \<Rightarrow> bool may_panic" where
  "supports_locals_replacement = supports null_data_source_rule"

definition supports_templatefile :: "string \<Rightarrow> bool may_panic" where
  "supports_templatefile = supports template_file_rule"

text \<open>
  The comment on the short form promises that a renamed key still resolves; without a \<open>source\<close> the key
  itself is taken for the provider's name, so it does not.
\<close>

lemma renamed_key_not_found:
  "extract_required_provider_version [Block None (''terraform'', None) [] [Block None (''required_providers'', None) []
     [Attribute (''awscloud'', None) (EString None ''~> 4.0'') None None]]] ''aws'' = None"
  by (simp add: extract_required_provider_version_def provider_entries_def nested_bodies_def provider_entry_version_def
    string_value_def entry_matches_provider_def provider_ns_name_def to_ascii_lowercase_def to_ascii_lower_def
    List.map_filter_def byte_def)

section \<open>The gate\<close>

text \<open>
  C27. A rule never fires too early: when the gate is open under a constraint that says something,
  every version the constraint admits has the replacement.
\<close>

theorem gate_open_is_safe:
  assumes "supports r c = Some True" "parse c = Some p" "p_constraints p \<noteq> []"
    "satisfies_all (p_constraints p) v"
  shows "version_at_least v (threshold r)"
  using assms min_admitted_best(3) version_at_least_trans
  by (fastforce simp: supports_def split: option.splits)

text \<open>
  Typing the next constraint: while the declared \<open>required_version\<close> has a blank piece between its
  commas, the rule on \<open>null_resource\<close> panics on the file, whether or not it has such a resource.
\<close>

theorem typing_constraint_panics:
  assumes "utf8_shape c" "piece \<in> set (split_on CHR '','' c)" "piece \<noteq> []" "list_all is_ascii_whitespace piece"
  shows "deprecated_null_resource_diagnostics
    (Block bsp (''terraform'', ks) labels (Attribute (''required_version'', vs) (EString vp c) es asp # inner) # b) rope = None"
proof -
  have "parse c = None" using parse_None_iff [OF utf8_shape_lead_from [OF assms(1)]] assms(2-4) by blast
  then show ?thesis
    by (simp add: deprecated_null_resource_diagnostics_def rule_diagnostics_def body_supports_rule_def
      declared_constraint_def null_resource_rule_def extract_required_version_def required_version_in_def
      string_value_def supports_via_constraint_def supports_def List.map_filter_def)
qed

text \<open>
  The list that silences the provider's own deprecation warnings names exactly the blocks that some
  rule of some table covers, each once.
\<close>

definition all_rules :: "deprecation_rule list" where
  "all_rules = [null_resource_rule, template_file_rule, template_dir_rule, null_data_source_rule]
     @ aws_type_renames @ kubernetes_type_renames @ azurerm_block_deprecations @ google_block_deprecations
     @ vault_block_deprecations"

theorem hardcoded_labels_exact:
  "distinct (map rule_key all_rules)
   \<and> (is_hardcoded_deprecation kind l \<longleftrightarrow> (\<exists>r \<in> set all_rules. block_kind r = kind \<and> rule_label r = l))"
proof -
  have "set hardcoded_deprecation_labels = set (map rule_key all_rules)" by code_simp
  then have "is_hardcoded_deprecation kind l \<longleftrightarrow> (kind, l) \<in> rule_key ` set all_rules"
    by (simp add: is_hardcoded_deprecation_def)
  moreover have "distinct (map rule_key all_rules)" by code_simp
  ultimately show ?thesis by (auto simp: rule_key_def)
qed

section \<open>One walk for a table\<close>

definition label_flags :: "deprecation_rule \<Rightarrow> rope \<Rightarrow> ident \<Rightarrow> diagnostic list may_panic" where
  "label_flags r rope l = flag_label r rope l []"

lemma flag_label_eq: "flag_label r rope l out = map_option ((@) out) (label_flags r rope l)"
  by (cases "label_range rope l") (simp_all add: flag_label_def label_flags_def split: option.split)

text \<open>The diagnostics of one item of the body under one rule.\<close>

definition item_flags :: "deprecation_rule \<Rightarrow> rope \<Rightarrow> body_item \<Rightarrow> diagnostic list may_panic" where
  "item_flags r rope item = flag_block r rope [] item"

lemma flag_block_eq: "flag_block r rope out item = map_option ((@) out) (item_flags r rope item)"
  by (simp add: flag_block_def item_flags_def flag_label_eq split: body_item.split list.split prod.split)

lemma rule_walk: "diagnostics_for_module r b rope True = concat_may (map (item_flags r rope) b)"
  unfolding diagnostics_for_module_def using fold_may_concat [where f = "flag_block r rope" and g = "item_flags r rope" and xs = b and out = "[]", OF flag_block_eq] by simp

definition item_key :: "body_item \<Rightarrow> (string \<times> string) option" where
  "item_key item = (case item of Block _ (kw, _) (l # _) _ \<Rightarrow> Some (kw, fst l) | _ \<Rightarrow> None)"

lemma item_flags_other: "item_key item \<noteq> Some (rule_key r) \<Longrightarrow> item_flags r rope item = Some []"
  by (auto simp: item_flags_def flag_block_def item_key_def rule_key_def split: body_item.split list.split prod.split)

definition item_indexed :: "(string \<times> string, deprecation_rule) hash_map \<Rightarrow> rope \<Rightarrow> body_item \<Rightarrow> diagnostic list may_panic" where
  "item_indexed by_key rope item =
     (case Option.bind (item_key item) (hm_get by_key) of None \<Rightarrow> Some [] | Some r \<Rightarrow> item_flags r rope item)"

definition well_indexed :: "(string \<times> string, deprecation_rule) hash_map \<Rightarrow> bool" where
  "well_indexed by_key \<longleftrightarrow> (\<forall>k r. hm_get by_key k = Some r \<longrightarrow> rule_key r = k)"

lemma flag_indexed_eq:
  assumes "well_indexed by_key"
  shows "flag_indexed by_key rope out item = map_option ((@) out) (item_indexed by_key rope item)"
proof (cases "item_key item")
  case None
  then show ?thesis
    by (auto simp: flag_indexed_def item_indexed_def item_key_def split: body_item.splits list.splits prod.splits)
next
  case (Some k)
  then obtain sp kw ks l ls inner where item: "item = Block sp (kw, ks) (l # ls) inner" "k = (kw, fst l)"
    by (auto simp: item_key_def split: body_item.splits list.splits prod.splits)
  show ?thesis
  proof (cases "hm_get by_key (kw, fst l)")
    case (Some r)
    with assms have "block_kind r = kw" "rule_label r = fst l" by (auto simp: well_indexed_def rule_key_def)
    with Some show ?thesis
      by (simp add: item flag_indexed_def item_indexed_def item_key_def item_flags_def flag_block_def flag_label_eq)
  qed (simp add: item flag_indexed_def item_indexed_def item_key_def)
qed

lemma find_other_key:
  "rule_key r \<notin> rule_key ` set rules \<Longrightarrow> find (\<lambda>q. P q \<and> rule_key q = rule_key r) rules = None"
  by (induction rules) auto

lemma index_rules:
  assumes "fold_may (index_rule open_gate) m rules = Some m'" "distinct (map rule_key rules)"
    "\<forall>r \<in> set rules. hm_get m (rule_key r) = None"
  shows "(\<forall>r \<in> set rules. open_gate r \<noteq> None)
    \<and> hm_get m' k = (case find (\<lambda>r. open_gate r = Some True \<and> rule_key r = k) rules of Some r \<Rightarrow> Some r | None \<Rightarrow> hm_get m k)"
  using assms
proof (induction rules arbitrary: m)
  case (Cons r rules)
  from Cons.prems(1) obtain m1 where m1: "index_rule open_gate m r = Some m1"
    "fold_may (index_rule open_gate) m1 rules = Some m'"
    by (auto simp: bind_eq_Some_conv)
  from m1(1) obtain s where "open_gate r = Some s" "m1 = (if s then hm_insert (rule_key r) r m else m)"
    by (auto simp: index_rule_def bind_eq_Some_conv)
  with m1(2) have s: "open_gate r = Some s"
    "fold_may (index_rule open_gate) (if s then hm_insert (rule_key r) r m else m) rules = Some m'"
    by simp_all
  have fresh: "\<forall>q \<in> set rules. hm_get (if s then hm_insert (rule_key r) r m else m) (rule_key q) = None"
    using Cons.prems(2,3) by (auto simp: hm_get_insert dest: image_eqI [OF sym])
  have other: "find (\<lambda>q. open_gate q = Some True \<and> rule_key q = rule_key r) rules = None"
    using Cons.prems(2) by (simp add: find_other_key)
  from Cons.IH [OF s(2) _ fresh] Cons.prems(2) s(1) other show ?case
    by (auto simp: hm_get_insert split: option.split)
qed simp

lemma find_rules_sum:
  assumes "distinct (map rule_key rules)" "\<And>r. r \<in> set rules \<Longrightarrow> item_key item \<noteq> Some (rule_key r) \<Longrightarrow> F r = []"
  shows "(\<Sum>r\<leftarrow>rules. if en r then mset (F r) else {#})
    = (case Option.bind (item_key item) (\<lambda>k. find (\<lambda>r. en r \<and> rule_key r = k) rules) of None \<Rightarrow> {#} | Some r \<Rightarrow> mset (F r))"
  using assms
proof (induction rules)
  case Nil
  then show ?case by (cases "item_key item") simp_all
next
  case (Cons r rules)
  have IH: "(\<Sum>r\<leftarrow>rules. if en r then mset (F r) else {#})
    = (case Option.bind (item_key item) (\<lambda>k. find (\<lambda>r. en r \<and> rule_key r = k) rules) of None \<Rightarrow> {#} | Some r \<Rightarrow> mset (F r))"
    using Cons by simp
  show ?case
  proof (cases "item_key item = Some (rule_key r)")
    case True
    have "find (\<lambda>q. en q \<and> rule_key q = rule_key r) rules = None"
      using Cons.prems(1) by (simp add: find_other_key)
    with True IH show ?thesis by simp
  next
    case False
    with Cons.prems(2) have "F r = []" by simp
    with False IH show ?thesis by (cases "item_key item") auto
  qed
qed

text \<open>
  C28. One walk over the body with the table's index reports what a walk per rule reports: the table's
  diagnostics are, up to their order, those of all its rules, each under its own gate.
\<close>

theorem table_walk_exact:
  assumes "distinct (map rule_key rules)" "diagnostics_from_table b rope rules open_gate = Some out"
  shows "\<exists>outs. list_all2 (\<lambda>r o'. \<exists>s. open_gate r = Some s \<and> diagnostics_for_module r b rope s = Some o') rules outs
    \<and> mset out = mset (concat outs)"
proof -
  obtain by_key where by_key: "fold_may (index_rule open_gate) [] rules = Some by_key"
    and out: "(if by_key = [] then Some [] else fold_may (flag_indexed by_key rope) [] b) = Some out"
    using assms(2) by (auto simp: diagnostics_from_table_def bind_eq_Some_conv)
  note ix = index_rules [OF by_key assms(1)]
  have get: "hm_get by_key k = find (\<lambda>r. open_gate r = Some True \<and> rule_key r = k) rules" for k
    using ix [of k] by (simp add: hm_get_def split: option.splits)
  have "well_indexed by_key" unfolding well_indexed_def get by (auto simp: find_Some_iff)
  then have "fold_may (flag_indexed by_key rope) [] b = concat_may (map (item_indexed by_key rope) b)"
    using fold_may_concat [where f = "flag_indexed by_key rope" and g = "item_indexed by_key rope" and xs = b and out = "[]", OF flag_indexed_eq] by simp
  moreover have "concat_may (map (item_indexed [] rope) b) = Some []"
    by (induction b) (auto simp: item_indexed_def hm_get_def bind_eq_Some_conv split: option.split Option.bind_splits)
  ultimately have "concat_may (map (item_indexed by_key rope) b) = Some out"
    using out by (auto split: if_splits)
  from concat_may_Some [OF this] have some: "\<forall>item \<in> set b. item_indexed by_key rope item \<noteq> None"
    and out_eq: "out = concat (map (\<lambda>item. the (item_indexed by_key rope item)) b)"
    by (auto simp: comp_def)
  define F where "F r item = the (item_flags r rope item)" for r item
  have flags: "item_flags r rope item = Some (F r item)" if "r \<in> set rules" "open_gate r = Some True" "item \<in> set b" for r item
  proof (cases "item_key item = Some (rule_key r)")
    case True
    have "find (\<lambda>q. open_gate q = Some True \<and> rule_key q = rule_key r) rules = Some r"
      using that(1,2) assms(1) by (induction rules) auto
    with True have "item_indexed by_key rope item = item_flags r rope item" by (simp add: item_indexed_def get)
    with bspec [OF some that(3)] show ?thesis by (auto simp: F_def)
  next
    case False
    then show ?thesis by (simp add: F_def item_flags_other)
  qed
  have item: "mset (the (item_indexed by_key rope item)) = (\<Sum>r\<leftarrow>rules. if open_gate r = Some True then mset (F r item) else {#})" for item
  proof -
    have other: "F r item = []" if "r \<in> set rules" "item_key item \<noteq> Some (rule_key r)" for r
      using that(2) by (simp add: F_def item_flags_other)
    have "the (item_indexed by_key rope item) = (case Option.bind (item_key item) (\<lambda>k. find (\<lambda>r. open_gate r = Some True \<and> rule_key r = k) rules)
        of None \<Rightarrow> [] | Some r \<Rightarrow> F r item)"
      by (cases "item_key item") (auto simp: item_indexed_def get F_def split: option.split)
    then show ?thesis
      by (simp add: find_rules_sum [where F = "\<lambda>r. F r item", OF assms(1) other] split: option.split)
  qed
  let ?o = "\<lambda>r. if open_gate r = Some True then concat (map (F r) b) else []"
  have "diagnostics_for_module r b rope s = Some (?o r)" if "r \<in> set rules" "open_gate r = Some s" for r s
  proof (cases s)
    case True
    with that flags have "concat_may (map (item_flags r rope) b') = Some (concat (map (F r) b'))" if "set b' \<subseteq> set b" for b'
      using that by (induction b') auto
    from this [of b] True that show ?thesis by (simp add: rule_walk)
  qed (simp add: that diagnostics_for_module_def)
  moreover have "\<exists>s. open_gate r = Some s" if "r \<in> set rules" for r
    using ix that by (auto simp: hm_get_def)
  ultimately have "\<exists>s. open_gate r = Some s \<and> diagnostics_for_module r b rope s = Some (?o r)" if "r \<in> set rules" for r
    using that by blast
  then have "list_all2 (\<lambda>r o'. \<exists>s. open_gate r = Some s \<and> diagnostics_for_module r b rope s = Some o') rules (map ?o rules)"
    by (simp add: list_all2_conv_all_nth)
  moreover have "mset out = mset (concat (map ?o rules))"
  proof -
    have "mset (concat (map (\<lambda>item. the (item_indexed by_key rope item)) b)) = (\<Sum>r\<leftarrow>rules. mset (?o r))"
      by (induction b) (simp_all add: item sum_list_addf [symmetric] if_distrib cong: if_cong)
    then show ?thesis unfolding out_eq by (simp add: mset_concat comp_def)
  qed
  ultimately show ?thesis by blast
qed

section \<open>Concrete constraints\<close>

lemma gate_open_is_safe_witness:
  "supports null_resource_rule ''>= 1.4'' = Some True \<and> version_at_least ''1.5.0'' ''1.4.0''"
proof -
  have p: "parse ''>= 1.4'' = Some \<lparr>p_constraints = [\<lparr>c_op = OpGte, c_version = ''1.4'', c_span = (0, 6)\<rparr>], p_errors = []\<rparr>"
    by (simp add: rust_eval Let_def trim_end_rev.simps)
  have k: "version_key ''1.4'' = Some (VersionKey 1 4 0 1 [])" "version_key ''1.4.0'' = Some (VersionKey 1 4 0 1 [])"
      "version_key ''1.5.0'' = Some (VersionKey 1 5 0 1 [])"
    by (simp_all add: rust_eval)
  have s: "supports null_resource_rule ''>= 1.4'' = Some True"
    by (simp add: supports_def p null_resource_rule_def threshold_def min_admitted_version_def min_admitted_step_def
      lower_bound_def version_at_least_iff k)
  have "satisfies_all [\<lparr>c_op = OpGte, c_version = ''1.4'', c_span = (0, 6)\<rparr>] ''1.5.0''"
    by (simp add: satisfies_all_def satisfies_one_def k pre_excluded_def not_less [symmetric] key_less_iff)
  then have "version_at_least ''1.5.0'' (threshold null_resource_rule)"
    using gate_open_is_safe [OF s p, of "''1.5.0''"] by simp
  with s show ?thesis by (simp add: threshold_def null_resource_rule_def)
qed

lemma typing_constraint_panics_witness:
  "deprecated_null_resource_diagnostics
    [Block None (''terraform'', None) [] [Attribute (''required_version'', None) (EString None ''>= 1.0, '') None None]] [] = None"
  by (rule typing_constraint_panics [where piece = "'' ''"]) (simp_all add: rust_eval)

lemma table_walk_exact_witness:
  "\<exists>outs. list_all2 (\<lambda>r o'. \<exists>s. (\<lambda>_. Some True) r = Some s \<and> diagnostics_for_module r
        [Block None (''resource'', None) [(''google_dataflow_job'', Some (0, 1))] []] [65, 66] s = Some o')
      google_block_deprecations outs \<and> length (concat outs) = 1"
proof -
  have "distinct (map rule_key google_block_deprecations)" by (simp add: google_block_deprecations_def)
  moreover obtain d where d: "diagnostics_from_table [Block None (''resource'', None) [(''google_dataflow_job'', Some (0, 1))] []] [65, 66]
      google_block_deprecations (\<lambda>_. Some True) = Some [d]"
    by (simp add: diagnostics_from_table_def google_block_deprecations_def index_rule_def rule_key_def flag_indexed_def
      hm_get_def hm_insert_def flag_label_def label_range_def span_eval Let_def)
  ultimately obtain outs where o: "list_all2 (\<lambda>r o'. \<exists>s. (\<lambda>_. Some True) r = Some s \<and> diagnostics_for_module r
        [Block None (''resource'', None) [(''google_dataflow_job'', Some (0, 1))] []] [65, 66] s = Some o')
      google_block_deprecations outs" "mset [d] = mset (concat outs)"
    using table_walk_exact by blast
  from o(2) have "length (concat outs) = 1" by (metis size_mset length_Cons list.size(3) One_nat_def)
  with o(1) show ?thesis by blast
qed

end
