(* ===== verification/Validation.thy ===== *)
theory Validation
  imports Deprecation Schema Aligned
begin

text \<open>
  \<^verbatim>\<open>crates/tfls-diag/src/schema_validation.rs\<close> and the names it takes from
  \<^verbatim>\<open>crates/tfls-core/src/meta_arguments.rs\<close>: checking \<open>resource\<close> and \<open>data\<close> blocks against the
  provider's schema. The code pushes onto one vector; here every check returns what it pushes. The maps
  of a schema are listed in their iteration order. The lookups of schemas and of upgrade hints are
  parameters, as the two traits are in the code.
\<close>

section \<open>Names of the language\<close>

datatype block_type = ResourceBlock | DataBlock

definition meta_attrs :: "string list" where
  "meta_attrs = [''count'', ''for_each'', ''provider'', ''depends_on'']"

definition is_meta_attr :: "string \<Rightarrow> bool" where
  "is_meta_attr name \<longleftrightarrow> name \<in> set meta_attrs"

definition lifecycle_attrs :: "block_type \<Rightarrow> string list" where
  "lifecycle_attrs kind =
     (case kind of
        ResourceBlock \<Rightarrow> [''create_before_destroy'', ''prevent_destroy'', ''ignore_changes'', ''replace_triggered_by'', ''enabled'']
      | DataBlock \<Rightarrow> [''enabled''])"

definition lifecycle_blocks :: "block_type \<Rightarrow> string list" where
  "lifecycle_blocks kind =
     (case kind of
        ResourceBlock \<Rightarrow> [''precondition'', ''postcondition'']
      | DataBlock \<Rightarrow> [''postcondition''])"

definition condition_attrs :: "string list" where
  "condition_attrs = [''condition'', ''error_message'']"

section \<open>Lookups\<close>

record schema_lookup =
  lookup_resource :: "string \<Rightarrow> schema option"
  lookup_data_source :: "string \<Rightarrow> schema option"

text \<open>The lookup that \<^verbatim>\<open>ProviderSchemas\<close> implements.\<close>

definition provider_lookup :: "provider_schemas \<Rightarrow> schema_lookup" where
  "provider_lookup s = \<lparr>lookup_resource = (\<lambda>t. map_option snd (find_resource s t)),
     lookup_data_source = (\<lambda>t. map_option snd (find_data_source s t))\<rparr>"

record upgrade_hint =
  provider_local_name :: string
  latest_version :: string
  hint_installed_version :: "string option"

record upgrade_hints =
  attribute_hint :: "string \<Rightarrow> string \<Rightarrow> upgrade_hint option"
  resource_hint :: "string \<Rightarrow> upgrade_hint option"
  data_source_hint :: "string \<Rightarrow> upgrade_hint option"

definition render_upgrade_hint :: "upgrade_hint \<Rightarrow> string" where
  "render_upgrade_hint h = ''. Available in `'' @ provider_local_name h @ ''` v'' @ latest_version h @ '' '' @ em_dash
     @ '' run `terraform init -upgrade` to ''
     @ (case hint_installed_version h of
          Some installed \<Rightarrow> ''update from v'' @ installed @ ''.''
        | None \<Rightarrow> ''pull it in.'')"

section \<open>Names and ranges of a block\<close>

definition error_at :: "lsp_range \<Rightarrow> string \<Rightarrow> diagnostic" where
  "error_at rg msg = \<lparr>dg_range = rg, dg_severity = SevError, dg_message = msg, dg_tags = []\<rparr>"

definition warning_at :: "lsp_range \<Rightarrow> string \<Rightarrow> diagnostic" where
  "warning_at rg msg = \<lparr>dg_range = rg, dg_severity = SevWarning, dg_message = msg, dg_tags = []\<rparr>"

definition deprecated_at :: "lsp_range \<Rightarrow> string \<Rightarrow> diagnostic" where
  "deprecated_at rg msg = \<lparr>dg_range = rg, dg_severity = SevWarning, dg_message = msg, dg_tags = [Deprecated]\<rparr>"

definition quoted :: "string \<Rightarrow> string" where
  "quoted s = ''`'' @ s @ ''`''"

definition first_label :: "ident list \<Rightarrow> string option" where
  "first_label labels = (case labels of [] \<Rightarrow> None | l # _ \<Rightarrow> Some (fst l))"

definition first_label_range :: "rope \<Rightarrow> ident list \<Rightarrow> lsp_range option may_panic" where
  "first_label_range rope labels = (case labels of [] \<Rightarrow> Some None | l # _ \<Rightarrow> label_range rope l)"

definition present_attrs :: "rope \<Rightarrow> body \<Rightarrow> (string \<times> lsp_range) list may_panic" where
  "present_attrs rope inner = concat_may (map (\<lambda>item. case item of
       Attribute (name, _) _ _ sp \<Rightarrow> map_option (\<lambda>rg. [(name, rg)]) (span_or_default rope sp)
     | Block _ _ _ _ \<Rightarrow> Some []) inner)"

definition is_present :: "(string \<times> 'r) list \<Rightarrow> string \<Rightarrow> bool" where
  "is_present present name \<longleftrightarrow> name \<in> fst ` set present"

section \<open>One attribute at a time\<close>

datatype value_literal = PrimitiveLiteral | ArrayLiteral | ObjectLiteral

definition value_literal_kind :: "expr \<Rightarrow> value_literal option" where
  "value_literal_kind e =
     (case e of
        EString _ _ \<Rightarrow> Some PrimitiveLiteral
      | ENumber _ \<Rightarrow> Some PrimitiveLiteral
      | EBool _ \<Rightarrow> Some PrimitiveLiteral
      | EArray _ \<Rightarrow> Some ArrayLiteral
      | EObject _ _ \<Rightarrow> Some ObjectLiteral
      | _ \<Rightarrow> None)"

text \<open>Deprecated, read-only and unknown attributes.\<close>

definition name_checks :: "block_schema \<Rightarrow> string \<Rightarrow> upgrade_hints option \<Rightarrow> string \<times> lsp_range \<Rightarrow> diagnostic list" where
  "name_checks sch type_name hints = (\<lambda>(name, rg).
     (case map_of (attributes sch) name of
        Some a \<Rightarrow>
          (if as_deprecated a then [deprecated_at rg (''attribute '' @ quoted name @ '' is deprecated'')] else [])
          @ (if as_computed a \<and> \<not> as_optional a \<and> \<not> as_required a
             then [error_at rg (''attribute '' @ quoted name @ '' is read-only (computed) and cannot be set'')] else [])
      | None \<Rightarrow>
          if is_meta_attr name \<or> map_of (block_types sch) name \<noteq> None then []
          else [error_at rg (''unknown attribute '' @ quoted name
            @ (case Option.bind hints (\<lambda>h. attribute_hint h type_name name) of
                 Some h \<Rightarrow> render_upgrade_hint h | None \<Rightarrow> []))]))"

definition literal_mismatch :: "cty_category \<Rightarrow> value_literal \<Rightarrow> string option" where
  "literal_mismatch c l =
     (if c = Primitive \<and> (l = ArrayLiteral \<or> l = ObjectLiteral) then Some ''expects a single value, not a collection''
      else if c = Collection \<and> l = PrimitiveLiteral then Some ''expects a collection, not a single value''
      else None)"

definition type_check :: "block_schema \<Rightarrow> rope \<Rightarrow> body_item \<Rightarrow> diagnostic list may_panic" where
  "type_check sch rope item =
     (case item of
        Block _ _ _ _ \<Rightarrow> Some []
      | Attribute (name, _) v vsp _ \<Rightarrow>
          (case do { a \<leftarrow> map_of (attributes sch) name; c \<leftarrow> cty_category a; l \<leftarrow> value_literal_kind v; literal_mismatch c l } of
             None \<Rightarrow> Some []
           | Some reason \<Rightarrow> map_option (\<lambda>rg. [error_at rg (''type mismatch for '' @ quoted name @ '' '' @ em_dash @ '' '' @ reason)])
               (span_or_default rope vsp)))"

text \<open>\<open>x.trim().trim_matches(quotes)\<close>.\<close>

function trim_start :: "string \<Rightarrow> string" where
  "trim_start s = (let n = whitespace_len_rev (rev (take 3 s)); m = whitespace_len_rev (rev (take 2 s));
       k = whitespace_len_rev (rev (take 1 s)) in
     if s = [] then [] else if k = 1 then trim_start (drop 1 s) else if m = 2 then trim_start (drop 2 s)
     else if n = 3 then trim_start (drop 3 s) else s)"
  by pat_completeness auto
termination by (relation "measure length") auto

definition is_quote :: "char \<Rightarrow> bool" where
  "is_quote c \<longleftrightarrow> byte c = 34 \<or> byte c = 39"

definition unquote :: "string \<Rightarrow> string" where
  "unquote x = rev (dropWhile is_quote (rev (dropWhile is_quote (trim_end (trim_start x)))))"

fun first_occurrences :: "'a set \<Rightarrow> 'a list \<Rightarrow> 'a list" where
  "first_occurrences seen [] = []"
| "first_occurrences seen (x # xs) =
     (if x \<in> seen then first_occurrences seen xs else x # first_occurrences (insert x seen) xs)"

definition enum_check :: "block_schema \<Rightarrow> rope \<Rightarrow> body_item \<Rightarrow> diagnostic list may_panic" where
  "enum_check sch rope item =
     (case item of
        Attribute (name, _) (EString _ s) vsp _ \<Rightarrow>
          (case Option.bind (map_of (attributes sch) name) allowed_values of
             None \<Rightarrow> Some []
           | Some allowed \<Rightarrow>
               if unquote s \<in> unquote ` set allowed then Some []
               else map_option (\<lambda>rg. [warning_at rg (''invalid value '' @ quoted s @ '' for '' @ quoted name @ '' '' @ em_dash
                   @ '' expected one of '' @ join_with '', '' (map quoted (first_occurrences {} (map unquote allowed))))])
                 (span_or_default rope vsp))
      | _ \<Rightarrow> Some [])"

section \<open>Nested blocks\<close>

definition validate_condition_block :: "rope \<Rightarrow> body \<Rightarrow> diagnostic list may_panic" where
  "validate_condition_block rope inner = concat_may (map (\<lambda>item. case item of
       Attribute (name, _) _ _ sp \<Rightarrow>
         if name \<in> set condition_attrs then Some []
         else map_option (\<lambda>rg. [error_at rg (''unknown attribute '' @ quoted name)]) (span_or_default rope sp)
     | Block _ _ _ _ \<Rightarrow> Some []) inner)"

definition validate_lifecycle_block :: "block_type \<Rightarrow> rope \<Rightarrow> body \<Rightarrow> diagnostic list may_panic" where
  "validate_lifecycle_block kind rope inner = concat_may (map (\<lambda>item. case item of
       Attribute (name, _) _ _ sp \<Rightarrow>
         if name \<in> set (lifecycle_attrs kind) then Some []
         else map_option (\<lambda>rg. [error_at rg (''unknown attribute '' @ quoted name)]) (span_or_default rope sp)
     | Block _ (name, isp) _ sub \<Rightarrow>
         if name \<in> set (lifecycle_blocks kind) then validate_condition_block rope sub
         else map_option (\<lambda>rg. [error_at rg (''unknown block '' @ quoted name)]) (span_or_default rope isp)) inner)"

text \<open>The last \<open>content\<close> block of a \<open>dynamic\<close> block: the span of its identifier and its body.\<close>

fun content_block :: "body \<Rightarrow> (span option \<times> body) option" where
  "content_block [] = None"
| "content_block (Attribute _ _ _ _ # rest) = content_block rest"
| "content_block (Block _ (name, isp) _ inner # rest) =
     (case content_block rest of
        Some c \<Rightarrow> Some c
      | None \<Rightarrow> if name = ''content'' then Some (isp, inner) else None)"

definition attr_names :: "body \<Rightarrow> string list" where
  "attr_names b = List.map_filter (\<lambda>item. case item of Attribute (name, _) _ _ _ \<Rightarrow> Some name | Block _ _ _ _ \<Rightarrow> None) b"

text \<open>The required attributes of the target that \<open>content\<close> does not set.\<close>

definition content_checks :: "block_schema \<Rightarrow> string \<Rightarrow> rope \<Rightarrow> span option \<Rightarrow> (span option \<times> body) option \<Rightarrow> diagnostic list may_panic" where
  "content_checks target label rope header content = do {
     content_ident_range \<leftarrow> (case content of None \<Rightarrow> Some None | Some (isp, _) \<Rightarrow> opt_span_range rope isp);
     concat_may (map (\<lambda>(name, a).
       if \<not> as_required a \<or> (\<exists>isp inner. content = Some (isp, inner) \<and> name \<in> set (attr_names inner)) then Some []
       else do {
         rg \<leftarrow> (case content_ident_range of Some rg \<Rightarrow> Some (Some rg) | None \<Rightarrow> opt_span_range rope header);
         Some [error_at (case rg of Some x \<Rightarrow> x | None \<Rightarrow> default_range) (''dynamic \"'' @ label @ ''\" '' @ em_dash
           @ '' missing required attribute '' @ quoted name @ '' inside '' @ quoted ''content'')] }) (attributes target)) }"

text \<open>What a \<open>dynamic\<close> block generates: a nested block, an attribute that is written as a block, or nothing known.\<close>

datatype dynamic_target = NestedTarget block_schema | BlockLikeAttribute | UnknownTarget

definition target_of :: "block_schema \<Rightarrow> string \<Rightarrow> dynamic_target" where
  "target_of parent label =
     (case map_of (block_types parent) label of
        Some nb \<Rightarrow> NestedTarget (nested_block nb)
      | None \<Rightarrow>
          (case map_of (attributes parent) label of
             Some a \<Rightarrow> if is_block_like a then BlockLikeAttribute else UnknownTarget
           | None \<Rightarrow> UnknownTarget))"

definition for_each_check :: "string \<Rightarrow> rope \<Rightarrow> span option \<Rightarrow> body \<Rightarrow> diagnostic list may_panic" where
  "for_each_check label rope header inner =
     (if ''for_each'' \<in> set (attr_names inner) then Some []
      else do {
        rg \<leftarrow> opt_span_range rope header;
        Some (case rg of None \<Rightarrow> []
          | Some x \<Rightarrow> [error_at x (''dynamic \"'' @ label @ ''\" missing required `for_each`'')]) })"

definition unknown_nested :: "rope \<Rightarrow> ident \<Rightarrow> diagnostic list may_panic" where
  "unknown_nested rope l =
     (case snd l of
        None \<Rightarrow> Some []
      | Some sp \<Rightarrow> map_option (\<lambda>rg. [error_at rg (''unknown nested block '' @ quoted (fst l) @ '' on this resource/data'')])
          (span_or_default rope (Some sp)))"

lemma size_content_block:
  "content_block b = Some (isp, inner) \<Longrightarrow> size_list size inner < Suc (size_list size b)"
  by (induction b rule: content_block.induct) (auto split: option.splits if_splits)

function (sequential) validate_dynamic_block :: "ident \<Rightarrow> ident list \<Rightarrow> body \<Rightarrow> block_schema \<Rightarrow> rope \<Rightarrow> diagnostic list may_panic"
  and validate_nested_dynamics :: "body \<Rightarrow> block_schema \<Rightarrow> rope \<Rightarrow> diagnostic list may_panic" where
  "validate_dynamic_block ident [] inner parent rope = Some []"
| "validate_dynamic_block ident (l # ls) inner parent rope =
     (case target_of parent (fst l) of
        UnknownTarget \<Rightarrow> unknown_nested rope l
      | BlockLikeAttribute \<Rightarrow> for_each_check (fst l) rope (snd ident) inner
      | NestedTarget target \<Rightarrow> do {
          a \<leftarrow> for_each_check (fst l) rope (snd ident) inner;
          b \<leftarrow> content_checks target (fst l) rope (snd ident) (content_block inner);
          c \<leftarrow> (case content_block inner of
                  None \<Rightarrow> Some []
                | Some (_, content) \<Rightarrow> validate_nested_dynamics content target rope);
          Some (a @ b @ c) })"
| "validate_nested_dynamics [] sch rope = Some []"
| "validate_nested_dynamics (Attribute _ _ _ _ # rest) sch rope = validate_nested_dynamics rest sch rope"
| "validate_nested_dynamics (Block _ ident labels inner # rest) sch rope = do {
     a \<leftarrow> (if fst ident = ''dynamic'' then validate_dynamic_block ident labels inner sch rope
           else (case map_of (block_types sch) (fst ident) of
                   None \<Rightarrow> Some []
                 | Some nb \<Rightarrow> validate_nested_dynamics inner (nested_block nb) rope));
     b \<leftarrow> validate_nested_dynamics rest sch rope;
     Some (a @ b) }"
  by pat_completeness auto
termination
  by (relation "measure (case_sum (\<lambda>(_, _, inner, _, _). 2 * size_list size inner + 1) (\<lambda>(b, _, _). 2 * size_list size b))")
    (auto dest: size_content_block)

section \<open>What must be there\<close>

text \<open>The names written as nested blocks or as \<open>dynamic\<close> blocks.\<close>

definition present_block_names :: "body \<Rightarrow> string list" where
  "present_block_names inner = List.map_filter (\<lambda>item. case item of
       Attribute _ _ _ _ \<Rightarrow> None
     | Block _ (name, _) labels _ \<Rightarrow> if name = ''dynamic'' then first_label labels else Some name) inner"

definition required_check :: "(string \<times> lsp_range) list \<Rightarrow> body \<Rightarrow> lsp_range \<Rightarrow> string \<times> attribute_schema \<Rightarrow> diagnostic list" where
  "required_check present inner header = (\<lambda>(name, a).
     if as_required a \<and> \<not> is_present present name \<and> \<not> (is_block_like a \<and> name \<in> set (present_block_names inner))
     then [error_at header (''missing required attribute '' @ quoted name)] else [])"

definition block_count :: "body \<Rightarrow> string \<Rightarrow> nat" where
  "block_count inner name = length (filter (\<lambda>item. case item of
       Attribute _ _ _ _ \<Rightarrow> False | Block _ (n, _) _ _ \<Rightarrow> n = name) inner)"

definition has_dynamic :: "body \<Rightarrow> string \<Rightarrow> bool" where
  "has_dynamic inner name \<longleftrightarrow> list_ex (\<lambda>item. case item of
       Attribute _ _ _ _ \<Rightarrow> False
     | Block _ (n, _) labels _ \<Rightarrow> n \<noteq> name \<and> n = ''dynamic'' \<and> first_label labels = Some name) inner"

definition block_check :: "body \<Rightarrow> lsp_range \<Rightarrow> string \<times> nested_block_schema \<Rightarrow> diagnostic list" where
  "block_check inner header = (\<lambda>(name, nested).
     (if min_items nested \<ge> 1 \<and> block_count inner name = 0 \<and> \<not> has_dynamic inner name
      then [error_at header (if min_items nested = 1 then ''missing required block '' @ quoted name
        else ''block '' @ quoted name @ '' requires at least '' @ show_nat (min_items nested) @ '' entries'')] else [])
     @ (if max_items nested > 0 \<and> block_count inner name > max_items nested \<and> \<not> has_dynamic inner name
        then [error_at header (''too many '' @ quoted name @ '' blocks ('' @ show_nat (block_count inner name) @ '', max ''
          @ show_nat (max_items nested) @ '')'')] else []))"

section \<open>Relations between attributes\<close>

definition pair_key :: "string \<Rightarrow> string \<Rightarrow> string \<times> string" where
  "pair_key a b = (if a \<le> b then (a, b) else (b, a))"

text \<open>The pairs already reported, as conflicting and as members of one exactly-one-of group.\<close>

record reported =
  reported_conflicts :: "(string \<times> string) set"
  reported_exactly_one :: "(string \<times> string) set"

definition conflict_step ::
    "(string \<times> lsp_range) list \<Rightarrow> string \<times> lsp_range \<Rightarrow> diagnostic list \<times> reported \<Rightarrow> string \<Rightarrow> diagnostic list \<times> reported" where
  "conflict_step present = (\<lambda>(name, rg) (out, r) other.
     if \<not> is_present present other \<or> pair_key name other \<in> reported_conflicts r then (out, r)
     else (out @ [warning_at rg (''attribute '' @ quoted name @ '' conflicts with '' @ quoted other @ '' '' @ em_dash
         @ '' set one, not both'')],
       r\<lparr>reported_conflicts := insert (pair_key name other) (reported_conflicts r)\<rparr>))"

definition required_with_checks :: "(string \<times> lsp_range) list \<Rightarrow> string \<times> lsp_range \<Rightarrow> string list \<Rightarrow> diagnostic list" where
  "required_with_checks present = (\<lambda>(name, rg) others.
     map (\<lambda>other. warning_at rg (''attribute '' @ quoted name @ '' requires '' @ quoted other @ '' to also be set''))
       (filter (\<lambda>other. \<not> is_present present other) others))"

definition exactly_one_step ::
    "(string \<times> lsp_range) list \<Rightarrow> string \<times> lsp_range \<Rightarrow> diagnostic list \<times> reported \<Rightarrow> string \<Rightarrow> diagnostic list \<times> reported" where
  "exactly_one_step present = (\<lambda>(name, rg) (out, r) other.
     if other = name \<or> \<not> is_present present other \<or> pair_key name other \<in> reported_exactly_one r then (out, r)
     else (out @ [warning_at rg (''attribute '' @ quoted name @ '' and '' @ quoted other
         @ '' are in the same exactly-one-of group '' @ em_dash @ '' set exactly one'')],
       r\<lparr>reported_exactly_one := insert (pair_key name other) (reported_exactly_one r)\<rparr>))"

definition relation_step :: "block_schema \<Rightarrow> (string \<times> lsp_range) list \<Rightarrow> diagnostic list \<times> reported \<Rightarrow> string \<times> lsp_range
    \<Rightarrow> diagnostic list \<times> reported" where
  "relation_step sch present acc p =
     (case map_of (attributes sch) (fst p) of
        None \<Rightarrow> acc
      | Some a \<Rightarrow>
          (let (out, r) = foldl (conflict_step present p) acc (conflicts_with a) in
           foldl (exactly_one_step present p) (out @ required_with_checks present p (required_with a), r) (exactly_one_of a)))"

definition relation_checks :: "block_schema \<Rightarrow> (string \<times> lsp_range) list \<Rightarrow> diagnostic list" where
  "relation_checks sch present =
     fst (foldl (relation_step sch present) ([], \<lparr>reported_conflicts = {}, reported_exactly_one = {}\<rparr>) present)"

text \<open>
  A group is the listed names with the attribute's own, sorted; each group is looked at once. The two
  loops over \<open>at_least_one_of\<close> and \<open>exactly_one_of\<close> differ in the list they read and in their message.
\<close>

definition group_of :: "(attribute_schema \<Rightarrow> string list) \<Rightarrow> string \<times> attribute_schema \<Rightarrow> string list" where
  "group_of sel = (\<lambda>(name, a). sort (if name \<in> set (sel a) then sel a else sel a @ [name]))"

definition group_step :: "(attribute_schema \<Rightarrow> string list) \<Rightarrow> string \<Rightarrow> (string \<times> lsp_range) list \<Rightarrow> lsp_range
    \<Rightarrow> diagnostic list \<times> string list list \<Rightarrow> string \<times> attribute_schema \<Rightarrow> diagnostic list \<times> string list list" where
  "group_step sel lead present header = (\<lambda>(out, seen) entry.
     if sel (snd entry) = [] \<or> group_of sel entry \<in> set seen then (out, seen)
     else (if \<exists>m \<in> set (group_of sel entry). is_present present m then out
           else out @ [warning_at header (lead @ join_with '', '' (map quoted (group_of sel entry)) @ '' must be set'')],
         seen @ [group_of sel entry]))"

definition group_checks :: "(attribute_schema \<Rightarrow> string list) \<Rightarrow> string \<Rightarrow> (string \<times> lsp_range) list \<Rightarrow> lsp_range
    \<Rightarrow> (string \<times> attribute_schema) list \<Rightarrow> diagnostic list" where
  "group_checks sel lead present header entries = fst (foldl (group_step sel lead present header) ([], []) entries)"

section \<open>A block and a file\<close>

definition nested_check :: "block_type \<Rightarrow> block_schema \<Rightarrow> rope \<Rightarrow> body_item \<Rightarrow> diagnostic list may_panic" where
  "nested_check kind sch rope item =
     (case item of
        Attribute _ _ _ _ \<Rightarrow> Some []
      | Block _ ident labels inner \<Rightarrow>
          if fst ident = ''lifecycle'' then validate_lifecycle_block kind rope inner
          else if fst ident = ''dynamic'' then validate_dynamic_block ident labels inner sch rope
          else if kind = ResourceBlock \<and> fst ident \<in> {''provisioner'', ''connection''} then Some []
          else (case map_of (block_types sch) (fst ident) of
                  None \<Rightarrow> Some []
                | Some nb \<Rightarrow> validate_nested_dynamics inner (nested_block nb) rope))"

definition validate_block :: "ident \<Rightarrow> body \<Rightarrow> rope \<Rightarrow> schema \<Rightarrow> block_type \<Rightarrow> string \<Rightarrow> upgrade_hints option
    \<Rightarrow> diagnostic list may_panic" where
  "validate_block ident inner rope s kind type_name hints = do {
     let sch = schema_block s;
     hr \<leftarrow> opt_span_range rope (snd ident);
     (case hr of
        None \<Rightarrow> Some []
      | Some header \<Rightarrow> do {
          present \<leftarrow> present_attrs rope inner;
          types \<leftarrow> concat_may (map (type_check sch rope) inner);
          enums \<leftarrow> concat_may (map (enum_check sch rope) inner);
          nested \<leftarrow> concat_may (map (nested_check kind sch rope) inner);
          Some (concat (map (name_checks sch type_name hints) present) @ types @ enums @ nested
            @ concat (map (required_check present inner header) (attributes sch))
            @ concat (map (block_check inner header) (block_types sch))
            @ relation_checks sch present
            @ group_checks at_least_one_of ''at least one of '' present header (attributes sch)
            @ group_checks exactly_one_of ''exactly one of '' present header (attributes sch)) }) }"

definition kind_word :: "block_type \<Rightarrow> string" where
  "kind_word kind = (case kind of ResourceBlock \<Rightarrow> ''resource'' | DataBlock \<Rightarrow> ''data source'')"

text \<open>A block whose type has no schema.\<close>

definition unknown_type_check :: "block_type \<Rightarrow> string \<Rightarrow> ident list \<Rightarrow> rope \<Rightarrow> upgrade_hints option \<Rightarrow> diagnostic list may_panic" where
  "unknown_type_check kind type_name labels rope hints =
     (case Option.bind hints (\<lambda>h. (case kind of ResourceBlock \<Rightarrow> resource_hint h | DataBlock \<Rightarrow> data_source_hint h) type_name) of
        None \<Rightarrow> Some []
      | Some hint \<Rightarrow> map_option (\<lambda>rg. case rg of
            None \<Rightarrow> []
          | Some x \<Rightarrow> [error_at x (''unknown '' @ kind_word kind @ '' type '' @ quoted type_name @ render_upgrade_hint hint)])
          (first_label_range rope labels))"

definition deprecated_type_check :: "block_type \<Rightarrow> string \<Rightarrow> string \<Rightarrow> ident list \<Rightarrow> rope \<Rightarrow> schema \<Rightarrow> diagnostic list may_panic" where
  "deprecated_type_check kind kw type_name labels rope s =
     (if block_deprecated (schema_block s) \<and> \<not> is_hardcoded_deprecation kw type_name then
        map_option (\<lambda>rg. case rg of
            None \<Rightarrow> []
          | Some x \<Rightarrow> [deprecated_at x (kind_word kind @ '' '' @ quoted type_name @ '' is deprecated by its provider. ''
              @ ''Check the provider'' @ [CHR 0x27] @ ''s release notes for the recommended replacement.'')])
          (first_label_range rope labels)
      else Some [])"

definition check_top_block :: "schema_lookup \<Rightarrow> upgrade_hints option \<Rightarrow> rope \<Rightarrow> body_item \<Rightarrow> diagnostic list may_panic" where
  "check_top_block lookup hints rope item =
     (case item of
        Attribute _ _ _ _ \<Rightarrow> Some []
      | Block _ (kw, ks) labels inner \<Rightarrow>
          (case first_label labels of
             None \<Rightarrow> Some []
           | Some t \<Rightarrow>
               if kw \<noteq> ''resource'' \<and> kw \<noteq> ''data'' then Some []
               else
                 (let kind = (if kw = ''resource'' then ResourceBlock else DataBlock) in
                  case (case kind of ResourceBlock \<Rightarrow> lookup_resource lookup t | DataBlock \<Rightarrow> lookup_data_source lookup t) of
                    None \<Rightarrow> unknown_type_check kind t labels rope hints
                  | Some s \<Rightarrow> do {
                      a \<leftarrow> deprecated_type_check kind kw t labels rope s;
                      b \<leftarrow> validate_block (kw, ks) inner rope s kind t hints;
                      Some (a @ b) })))"

definition resource_diagnostics_with_hints :: "body \<Rightarrow> rope \<Rightarrow> schema_lookup \<Rightarrow> upgrade_hints option \<Rightarrow> diagnostic list may_panic" where
  "resource_diagnostics_with_hints b rope lookup hints = concat_may (map (check_top_block lookup hints rope) b)"

definition resource_diagnostics :: "body \<Rightarrow> rope \<Rightarrow> schema_lookup \<Rightarrow> diagnostic list may_panic" where
  "resource_diagnostics b rope lookup = resource_diagnostics_with_hints b rope lookup None"

section \<open>No panic\<close>

declare not_None_eq [iff del]

lemma aligned_None [simp]: "aligned rope None"
  by (simp add: aligned_def)

lemma aligned_start: "aligned rope (Some (0, 0))"
  by (auto simp: aligned_def boundary_def intro: exI [of _ "[]"])

lemma span_or_default_total [simp]: "aligned rope sp \<Longrightarrow> span_or_default rope sp = None \<longleftrightarrow> False"
proof -
  assume "aligned rope sp"
  then have "opt_span_range rope (Some (case sp of None \<Rightarrow> (0, 0) | Some s \<Rightarrow> s)) \<noteq> None"
    using aligned_start by (cases sp) simp_all
  then show ?thesis by (simp add: span_or_default_def opt_span_range_def)
qed

lemma concat_may_map_total: "(\<And>x. x \<in> set xs \<Longrightarrow> f x \<noteq> None) \<Longrightarrow> concat_may (map f xs) \<noteq> None"
  by (rule concat_may_total) auto

lemma present_attrs_total: "list_all (item_aligned rope) inner \<Longrightarrow> present_attrs rope inner \<noteq> None"
  unfolding present_attrs_def by (rule concat_may_map_total) (auto simp: list_all_iff split: body_item.split)

lemma type_check_total: "item_aligned rope item \<Longrightarrow> type_check sch rope item \<noteq> None"
  by (auto simp: type_check_def split: body_item.split option.split)

lemma enum_check_total: "item_aligned rope item \<Longrightarrow> enum_check sch rope item \<noteq> None"
  by (auto simp: enum_check_def split: body_item.split expr.split option.split)

lemma validate_condition_block_total: "list_all (item_aligned rope) inner \<Longrightarrow> validate_condition_block rope inner \<noteq> None"
  unfolding validate_condition_block_def
  by (rule concat_may_map_total) (auto simp: list_all_iff split: body_item.split)

lemma validate_lifecycle_block_total: "list_all (item_aligned rope) inner \<Longrightarrow> validate_lifecycle_block kind rope inner \<noteq> None"
  unfolding validate_lifecycle_block_def
proof (rule concat_may_map_total)
  fix item
  assume "list_all (item_aligned rope) inner" "item \<in> set inner"
  then have "item_aligned rope item" by (simp add: list_all_iff)
  then show "(case item of
       Attribute (name, _) _ _ sp \<Rightarrow>
         if name \<in> set (lifecycle_attrs kind) then Some []
         else map_option (\<lambda>rg. [error_at rg (''unknown attribute '' @ quoted name)]) (span_or_default rope sp)
     | Block _ (name, isp) _ sub \<Rightarrow>
         if name \<in> set (lifecycle_blocks kind) then validate_condition_block rope sub
         else map_option (\<lambda>rg. [error_at rg (''unknown block '' @ quoted name)]) (span_or_default rope isp)) \<noteq> None"
    using validate_condition_block_total by (auto split: body_item.split prod.split)
qed

lemma content_block_aligned:
  "content_block b = Some (isp, inner) \<Longrightarrow> list_all (item_aligned rope) b \<Longrightarrow> aligned rope isp \<and> list_all (item_aligned rope) inner"
  by (induction b rule: content_block.induct) (auto split: option.splits if_splits)

lemma content_checks_total:
  assumes "aligned rope header" "\<And>isp inner. content = Some (isp, inner) \<Longrightarrow> aligned rope isp"
  shows "content_checks target label rope header content \<noteq> None"
proof -
  obtain cr where cr: "(case content of None \<Rightarrow> Some None | Some (isp, _) \<Rightarrow> opt_span_range rope isp) = Some cr"
    using assms(2) opt_span_range_total by (cases content) fastforce+
  show ?thesis
    unfolding content_checks_def cr Option.bind.bind_lunit
    by (rule concat_may_map_total) (use assms(1) in \<open>auto simp: bind_eq_None_conv split: option.splits if_splits\<close>)
qed

lemma for_each_check_total: "aligned rope header \<Longrightarrow> for_each_check label rope header inner \<noteq> None"
  by (simp add: for_each_check_def bind_eq_None_conv)

lemma dynamics_total:
  "aligned rope (snd ident) \<Longrightarrow> list_all (\<lambda>(_, ls). aligned rope ls) labels \<Longrightarrow> list_all (item_aligned rope) inner
     \<Longrightarrow> validate_dynamic_block ident labels inner parent rope \<noteq> None"
  "list_all (item_aligned rope) b \<Longrightarrow> validate_nested_dynamics b sch rope \<noteq> None"
proof (induction ident labels inner parent rope and b sch rope rule: validate_dynamic_block_validate_nested_dynamics.induct)
  case (2 ident l ls inner parent rope)
  have a: "for_each_check (fst l) rope (snd ident) inner \<noteq> None"
    using 2(2) by (rule for_each_check_total)
  show ?case
  proof (cases "target_of parent (fst l)")
    case (NestedTarget t)
    have b: "content_checks t (fst l) rope (snd ident) (content_block inner) \<noteq> None"
      using content_block_aligned 2(2,4) by (intro content_checks_total) blast+
    have c: "(case content_block inner of None \<Rightarrow> Some [] | Some (_, content) \<Rightarrow> validate_nested_dynamics content t rope) \<noteq> None"
    proof (cases "content_block inner")
      case (Some p)
      obtain a' b' where "for_each_check (fst l) rope (snd ident) inner = Some a'"
        "content_checks t (fst l) rope (snd ident) (content_block inner) = Some b'"
        using a b by (auto simp: not_None_eq)
      moreover obtain isp content where p: "p = (isp, content)" by (cases p)
      ultimately have "validate_nested_dynamics content t rope \<noteq> None"
        using 2(1) [OF NestedTarget] content_block_aligned [OF Some [unfolded p] 2(4)] Some by simp
      with Some p show ?thesis by simp
    qed simp
    show ?thesis using a b c NestedTarget by (simp add: bind_eq_None_conv)
  qed (use a 2 in \<open>auto simp: unknown_nested_def split: option.split prod.splits\<close>)
next
  case (5 sp ident labels inner rest sch rope)
  obtain kw ks where ident: "ident = (kw, ks)" by (cases ident)
  have al: "aligned rope (snd ident)" "list_all (\<lambda>(_, ls). aligned rope ls) labels" "list_all (item_aligned rope) inner"
      "list_all (item_aligned rope) rest"
    using 5(4) ident by auto
  have "(if fst ident = ''dynamic'' then validate_dynamic_block ident labels inner sch rope
         else (case map_of (block_types sch) (fst ident) of None \<Rightarrow> Some []
           | Some nb \<Rightarrow> validate_nested_dynamics inner (nested_block nb) rope)) \<noteq> None"
    using 5(1,2) al by (auto split: option.split)
  then obtain a where a: "(if fst ident = ''dynamic'' then validate_dynamic_block ident labels inner sch rope
         else (case map_of (block_types sch) (fst ident) of None \<Rightarrow> Some []
           | Some nb \<Rightarrow> validate_nested_dynamics inner (nested_block nb) rope)) = Some a"
    unfolding not_None_eq by blast
  show ?case
    unfolding validate_nested_dynamics.simps a using 5(3) [OF a al(4)] by (simp add: bind_eq_None_conv)
qed auto

lemma nested_check_total: "item_aligned rope item \<Longrightarrow> nested_check kind sch rope item \<noteq> None"
proof (cases item)
  case (Block sp ident labels inner)
  assume "item_aligned rope item"
  then have "aligned rope (snd ident)" "list_all (\<lambda>(_, ls). aligned rope ls) labels" "list_all (item_aligned rope) inner"
    using Block by (cases ident; simp)+
  with validate_lifecycle_block_total dynamics_total show ?thesis
    unfolding Block nested_check_def body_item.case by (simp split: option.split)
qed (simp add: nested_check_def)

lemma validate_block_total:
  assumes "aligned rope (snd ident)" "list_all (item_aligned rope) inner"
  shows "validate_block ident inner rope s kind t hints \<noteq> None"
proof -
  obtain present where "present_attrs rope inner = Some present" using present_attrs_total [OF assms(2)]
    by (cases "present_attrs rope inner") simp_all
  moreover have "concat_may (map (type_check (schema_block s) rope) inner) \<noteq> None"
    "concat_may (map (enum_check (schema_block s) rope) inner) \<noteq> None"
    "concat_may (map (nested_check kind (schema_block s) rope) inner) \<noteq> None"
    using assms(2) type_check_total enum_check_total nested_check_total
    by (auto simp only: list_all_iff intro!: concat_may_map_total)
  ultimately show ?thesis
    using opt_span_range_total [OF assms(1)]
    by (simp add: validate_block_def bind_eq_None_conv Let_def split: option.split)
qed

text \<open>
  C26. Validation always returns: on a body whose spans are character boundaries of the text, no schema,
  however strange, and no file makes it panic.
\<close>

theorem validation_returns:
  assumes "list_all (item_aligned rope) b"
  shows "resource_diagnostics_with_hints b rope lookup hints \<noteq> None"
  unfolding resource_diagnostics_with_hints_def
proof (rule concat_may_map_total)
  fix item
  assume "item \<in> set b"
  with assms have item: "item_aligned rope item" by (simp add: list_all_iff)
  show "check_top_block lookup hints rope item \<noteq> None"
  proof (cases item)
    case (Block sp ident labels inner)
    obtain kw ks where ident: "ident = (kw, ks)" by (cases ident)
    have al: "aligned rope ks" "list_all (\<lambda>(_, ls). aligned rope ls) labels" "list_all (item_aligned rope) inner"
      using item Block ident by auto
    have labels: "first_label_range rope labels \<noteq> None"
      using al(2) by (auto simp: first_label_range_def label_range_def split: list.split)
    have "unknown_type_check kind t labels rope hints \<noteq> None" for kind t
      using labels by (auto simp: unknown_type_check_def split: option.split)
    moreover have "deprecated_type_check kind kw t labels rope s \<noteq> None" for kind t s
      using labels by (auto simp: deprecated_type_check_def)
    moreover have "validate_block (kw, ks) inner rope s kind t hints \<noteq> None" for s kind t
      using al by (intro validate_block_total) simp_all
    ultimately show ?thesis
      unfolding Block ident check_top_block_def body_item.case prod.case
      by (auto simp: Let_def bind_eq_None_conv split: option.split)
  qed (simp add: check_top_block_def)
qed

declare not_None_eq [iff]

end
