(* ===== verification/ValidationOrder.thy ===== *)
theory ValidationOrder
  imports Validation
begin

text \<open>
  The schema's maps are hash maps, so their iteration order changes from run to run. What validation
  reports does not depend on it, up to the order of the diagnostics.
\<close>

section \<open>Two listings of a schema\<close>

inductive relisted :: "block_schema \<Rightarrow> block_schema \<Rightarrow> bool" where
  relisted: "mset as = mset as' \<Longrightarrow> distinct (map fst as) \<Longrightarrow> mset (map fst bts) = mset (map fst bts')
     \<Longrightarrow> distinct (map fst bts)
     \<Longrightarrow> (\<And>n nb. map_of bts n = Some nb \<Longrightarrow> \<exists>nb'. map_of bts' n = Some nb' \<and> min_items nb' = min_items nb
           \<and> max_items nb' = max_items nb \<and> relisted (nested_block nb) (nested_block nb'))
     \<Longrightarrow> relisted (BlockSchema as bts ds dk dep) (BlockSchema as' bts' ds' dk' dep)"

lemma mset_map_of:
  assumes "mset xs = mset ys" "distinct (map fst xs)"
  shows "map_of ys = map_of xs"
proof -
  have "distinct (map fst ys)" using assms by (metis mset_map distinct_count_atmost_1 mset_eq_imp_distinct_iff)
  with assms show ?thesis by (metis map_of_inject_set mset_eq_setD)
qed

lemma relistedE:
  assumes "relisted s s'"
  shows "mset (attributes s) = mset (attributes s')" "distinct (map fst (attributes s))"
    "mset (map fst (block_types s)) = mset (map fst (block_types s'))" "distinct (map fst (block_types s))"
    "map_of (block_types s) n = Some nb \<Longrightarrow> \<exists>nb'. map_of (block_types s') n = Some nb' \<and> min_items nb' = min_items nb
       \<and> max_items nb' = max_items nb \<and> relisted (nested_block nb) (nested_block nb')"
  using assms by (cases; simp)+

lemma relisted_attributes: "relisted s s' \<Longrightarrow> map_of (attributes s') = map_of (attributes s)"
  using mset_map_of relistedE(1,2) by blast

lemma relisted_absent:
  assumes "relisted s s'" "map_of (block_types s) n = None"
  shows "map_of (block_types s') n = None"
proof -
  have "set (map fst (block_types s)) = set (map fst (block_types s'))"
    by (rule mset_eq_setD [OF relistedE(3) [OF assms(1)]])
  with assms(2) show ?thesis by (simp add: map_of_eq_None_iff)
qed

lemma relisted_bounds:
  assumes "relisted s s'"
  shows "mset (map (\<lambda>(n, nb). (n, min_items nb, max_items nb)) (block_types s'))
    = mset (map (\<lambda>(n, nb). (n, min_items nb, max_items nb)) (block_types s))"
  using assms
proof cases
  case (relisted as as' bts bts' ds dk dep ds' dk')
  let ?b = "\<lambda>(n, nb). (n, min_items nb, max_items nb)"
  have dist: "distinct (map fst bts')"
    using relisted(5,6) by (metis distinct_count_atmost_1 mset_eq_imp_distinct_iff)
  have "?b (n, nb) \<in> ?b ` set bts'" if "(n, nb) \<in> set bts" for n nb
  proof -
    have "map_of bts n = Some nb" using that relisted(6) by simp
    from relisted(7) [OF this] obtain nb' where "map_of bts' n = Some nb'" "min_items nb' = min_items nb"
      "max_items nb' = max_items nb" by blast
    then show ?thesis by (force dest: map_of_SomeD)
  qed
  moreover have "?b (n, nb') \<in> ?b ` set bts" if "(n, nb') \<in> set bts'" for n nb'
  proof -
    from that have "map_of bts' n = Some nb'" using dist by simp
    moreover from that relisted(5) obtain nb where nb: "map_of bts n = Some nb"
      by (metis (no_types) fst_conv image_eqI map_of_eq_None_iff mset_eq_setD list.set_map option.exhaust)
    ultimately have "min_items nb' = min_items nb" "max_items nb' = max_items nb"
      using relisted(7) [OF nb] by auto
    with nb show ?thesis by (force dest: map_of_SomeD)
  qed
  ultimately have sets: "set (map ?b bts') = set (map ?b bts)" by auto
  have "distinct (map ?b xs)" if "distinct (map fst xs)" for xs
  proof -
    have keys: "map fst (map ?b xs) = map fst xs" by (simp add: comp_def split_beta)
    have "distinct (map fst (map ?b xs))" unfolding keys by (rule that)
    then show ?thesis unfolding distinct_map [of fst] by (rule conjunct1)
  qed
  then have "distinct (map ?b bts')" "distinct (map ?b bts)" using relisted(6) dist by blast+
  then have "mset (map ?b bts') = mset (map ?b bts)"
    using sets by (rule iffD1 [OF set_eq_iff_mset_eq_distinct])
  then show ?thesis unfolding relisted(1,2) block_schema.sel .
qed

section \<open>Nested blocks\<close>

text \<open>Both panic, or both return the same diagnostics up to their order.\<close>

abbreviation same :: "diagnostic list may_panic \<Rightarrow> diagnostic list may_panic \<Rightarrow> bool" where
  "same \<equiv> rel_option (\<lambda>x y. mset x = mset y)"

lemma same_refl [simp]: "same x x"
  by (simp add: option.rel_refl)

lemma same_if: "same a a' \<Longrightarrow> same b b' \<Longrightarrow> same (if c then a else b) (if c then a' else b')"
  by simp

lemma same_bind:
  assumes "same a a'" "same b b'"
  shows "same (Option.bind a (\<lambda>x. Option.bind b (\<lambda>y. Some (x @ y)))) (Option.bind a' (\<lambda>x. Option.bind b' (\<lambda>y. Some (x @ y))))"
  using assms by (cases a; cases a'; cases b; cases b') auto

lemma same_around:
  assumes "same n n'" "mset B = mset B'"
  shows "same (Option.bind n (\<lambda>x. Some (A @ x @ B))) (Option.bind n' (\<lambda>x. Some (A @ x @ B')))"
  using assms by (cases n; cases n') auto

lemma same_concat_may:
  assumes "\<And>x. x \<in> set xs \<Longrightarrow> same (f x) (g x)"
  shows "same (concat_may (map f xs)) (concat_may (map g xs))"
  using assms by (induction xs) (simp_all add: same_bind)

lemma concat_may_perm:
  fixes xs :: "diagnostic list may_panic list"
  assumes "mset xs = mset ys"
  shows "same (concat_may xs) (concat_may ys)"
proof (cases "None \<in> set xs")
  case True
  then have "concat_may zs = None" if "mset zs = mset xs" for zs
    using concat_may_Some [of zs] mset_eq_setD [OF that] by (cases "concat_may zs") auto
  with assms show ?thesis by simp
next
  case False
  have "concat_may zs \<noteq> None" if "mset zs = mset xs" for zs
    using mset_eq_setD [OF that] False by (intro concat_may_total) metis
  with assms obtain a b where ab: "concat_may xs = Some a" "concat_may ys = Some b"
    by (metis not_None_eq)
  then have "a = concat (map the xs)" "b = concat (map the ys)"
    using concat_may_Some by blast+
  moreover have "mset (concat (map the zs)) = (\<Sum>x\<in>#mset zs. mset (the x))" for zs :: "diagnostic list option list"
    by (induction zs) simp_all
  ultimately show ?thesis using ab assms by simp
qed

lemma relisted_target:
  assumes "relisted s s'"
  shows "(\<exists>t t'. target_of s n = NestedTarget t \<and> target_of s' n = NestedTarget t' \<and> relisted t t')
    \<or> (target_of s n = target_of s' n \<and> (target_of s n = BlockLikeAttribute \<or> target_of s n = UnknownTarget))"
proof (cases "map_of (block_types s) n")
  case None
  with relisted_absent [OF assms] relisted_attributes [OF assms] show ?thesis
    by (auto simp: target_of_def split: option.split)
next
  case (Some nb)
  from relistedE(5) [OF assms Some] Some show ?thesis by (auto simp: target_of_def)
qed

lemma same_content_checks:
  assumes "relisted t t'"
  shows "same (content_checks t label rope header content) (content_checks t' label rope header content)"
proof -
  let ?f = "\<lambda>cr (name, a).
       if \<not> as_required a \<or> (\<exists>isp inner. content = Some (isp, inner) \<and> name \<in> set (attr_names inner)) then Some []
       else do {
         rg \<leftarrow> (case cr of Some rg \<Rightarrow> Some (Some rg) | None \<Rightarrow> opt_span_range rope header);
         Some [error_at (case rg of Some x \<Rightarrow> x | None \<Rightarrow> default_range) (''dynamic \"'' @ label @ ''\" '' @ em_dash
           @ '' missing required attribute '' @ quoted name @ '' inside '' @ quoted ''content'')] }"
  have "same (concat_may (map (?f cr) (attributes t))) (concat_may (map (?f cr) (attributes t')))" for cr
    by (rule concat_may_perm) (simp add: relistedE(1) [OF assms])
  then show ?thesis
    unfolding content_checks_def
    by (cases "case content of None \<Rightarrow> Some None | Some (isp, _) \<Rightarrow> opt_span_range rope isp") simp_all
qed

lemma same_dynamics:
  "relisted parent parent' \<Longrightarrow>
     same (validate_dynamic_block ident labels inner parent rope) (validate_dynamic_block ident labels inner parent' rope)"
  "relisted sch sch' \<Longrightarrow> same (validate_nested_dynamics b sch rope) (validate_nested_dynamics b sch' rope)"
proof (induction ident labels inner parent rope and b sch rope arbitrary: parent' and sch'
    rule: validate_dynamic_block_validate_nested_dynamics.induct)
  case (2 ident l ls inner parent rope)
  from relisted_target [OF 2(2), of "fst l"] show ?case
  proof (elim disjE exE conjE)
    fix t t'
    assume t: "target_of parent (fst l) = NestedTarget t" "target_of parent' (fst l) = NestedTarget t'" "relisted t t'"
    let ?c = "\<lambda>t. case content_block inner of None \<Rightarrow> Some [] | Some (_, content) \<Rightarrow> validate_nested_dynamics content t rope"
    have c: "same (?c t) (?c t')"
      if "for_each_check (fst l) rope (snd ident) inner \<noteq> None"
        "content_checks t (fst l) rope (snd ident) (content_block inner) \<noteq> None"
      using that 2(1) [OF t(1) _ _ _ refl t(3)] by (auto split: option.split)
    show ?case
    proof (cases "for_each_check (fst l) rope (snd ident) inner")
      case None
      with t show ?thesis by simp
    next
      case (Some a)
      show ?thesis
      proof (cases "content_checks t (fst l) rope (snd ident) (content_block inner)")
        case None
        with same_content_checks [OF t(3), of "fst l" rope "snd ident" "content_block inner"] t Some show ?thesis
          by simp
      next
        case (Some b)
        then have "same (?c t) (?c t')" using \<open>for_each_check _ _ _ _ = Some a\<close> by (intro c) simp_all
        from same_bind [OF same_content_checks [OF t(3), of "fst l" rope "snd ident" "content_block inner"] this]
          same_bind [OF same_refl [of "Some a"] this]
        show ?thesis using \<open>for_each_check _ _ _ _ = Some a\<close> t(1,2)
          by (cases "content_checks t (fst l) rope (snd ident) (content_block inner)";
              cases "content_checks t' (fst l) rope (snd ident) (content_block inner)"; cases "?c t"; cases "?c t'") simp_all
      qed
    qed
  qed simp_all
next
  case (5 sp ident labels inner rest sch rope)
  let ?a = "\<lambda>sch. if fst ident = ''dynamic'' then validate_dynamic_block ident labels inner sch rope
           else (case map_of (block_types sch) (fst ident) of
                   None \<Rightarrow> Some [] | Some nb \<Rightarrow> validate_nested_dynamics inner (nested_block nb) rope)"
  have a: "same (?a sch) (?a sch')"
  proof (cases "fst ident = ''dynamic''")
    case True
    with 5 show ?thesis by simp
  next
    case False
    show ?thesis
    proof (cases "map_of (block_types sch) (fst ident)")
      case None
      with relisted_absent [OF 5(4)] False show ?thesis by simp
    next
      case (Some nb)
      with relistedE(5) [OF 5(4) Some] 5(2) [OF False Some] False show ?thesis by auto
    qed
  qed
  show ?case
  proof (cases "?a sch")
    case None
    with a have "?a sch' = None" by simp
    then show ?thesis unfolding validate_nested_dynamics.simps None by simp
  next
    case (Some x)
    have "same (validate_nested_dynamics rest sch rope) (validate_nested_dynamics rest sch' rope)"
      using 5(3) [OF Some 5(4)] .
    from same_bind [OF a this] show ?thesis unfolding validate_nested_dynamics.simps .
  qed
qed simp_all

section \<open>Groups\<close>

lemma first_occurrences_set: "set (first_occurrences seen xs) = set xs - seen" "distinct (first_occurrences seen xs)"
proof (induction seen xs rule: first_occurrences.induct)
  case (2 seen x xs)
  { case 1 from 2 show ?case by auto }
  { case 2 from \<open>x \<notin> seen \<Longrightarrow> set (first_occurrences (insert x seen) xs) = set xs - insert x seen\<close>
      \<open>x \<notin> seen \<Longrightarrow> distinct (first_occurrences (insert x seen) xs)\<close>
      \<open>x \<in> seen \<Longrightarrow> distinct (first_occurrences seen xs)\<close> show ?case by auto }
qed simp_all

definition group_warning :: "string \<Rightarrow> lsp_range \<Rightarrow> string list \<Rightarrow> diagnostic" where
  "group_warning lead header g = warning_at header (lead @ join_with '', '' (map quoted g) @ '' must be set'')"

lemma group_checks_eq:
  "group_checks sel lead present header entries
     = map (group_warning lead header) (filter (\<lambda>g. \<not> (\<exists>m \<in> set g. is_present present m))
        (first_occurrences {} (map (group_of sel) (filter (\<lambda>e. sel (snd e) \<noteq> []) entries))))"
proof -
  let ?fo = "\<lambda>seen entries. first_occurrences (set seen) (map (group_of sel) (filter (\<lambda>e. sel (snd e) \<noteq> []) entries))"
  have "foldl (group_step sel lead present header) (out, seen) entries
    = (out @ map (group_warning lead header) (filter (\<lambda>g. \<not> (\<exists>m \<in> set g. is_present present m)) (?fo seen entries)),
       seen @ ?fo seen entries)" for out seen
    by (induction entries arbitrary: out seen)
      (auto simp: group_step_def group_warning_def insert_absorb)
  from this [of "[]" "[]"] show ?thesis by (simp add: group_checks_def)
qed

lemma mset_concat_map: "mset (concat (map f xs)) = (\<Sum>x\<in>#mset xs. mset (f x))"
  by (induction xs) simp_all

lemma group_checks_perm:
  assumes "mset entries = mset entries'"
  shows "mset (group_checks sel lead present header entries) = mset (group_checks sel lead present header entries')"
proof -
  let ?g = "\<lambda>es. first_occurrences {} (map (group_of sel) (filter (\<lambda>e. sel (snd e) \<noteq> []) es))"
  have "set (?g entries) = set (?g entries')"
    using mset_eq_setD [OF assms] by (simp add: first_occurrences_set)
  then have "mset (?g entries) = mset (?g entries')"
    by (rule iffD1 [OF set_eq_iff_mset_eq_distinct [OF first_occurrences_set(2) first_occurrences_set(2)]])
  then show ?thesis unfolding group_checks_eq mset_map mset_filter by simp
qed

lemma block_checks_relisted:
  assumes "relisted s s'"
  shows "mset (concat (map (block_check inner header) (block_types s))) = mset (concat (map (block_check inner header) (block_types s')))"
proof -
  let ?b = "\<lambda>(n, nb). (n, min_items nb, max_items nb)"
  let ?g = "\<lambda>(n, l, u). block_check inner header (n, NestedBlockSchema NSingle (BlockSchema [] [] None None False) l u)"
  have "map (block_check inner header) bts = map ?g (map ?b bts)" for bts
    by (auto simp: block_check_def)
  then show ?thesis using relisted_bounds [OF assms] by (simp only: mset_concat_map)
qed

section \<open>A block and a file\<close>

lemma same_validate_block:
  assumes "relisted (schema_block s) (schema_block s')"
  shows "same (validate_block ident inner rope s kind t hints) (validate_block ident inner rope s' kind t hints)"
proof -
  let ?s = "schema_block s" and ?s' = "schema_block s'"
  note attrs = relisted_attributes [OF assms]
  have name: "name_checks ?s' t hints p = name_checks ?s t hints p" for p
  proof -
    have "map_of (block_types ?s') n = None \<longleftrightarrow> map_of (block_types ?s) n = None" for n
      using relisted_absent [OF assms, of n] relistedE(5) [OF assms, of n] by fastforce
    then show ?thesis by (simp add: name_checks_def attrs del: not_None_eq split: prod.split)
  qed
  then have names: "name_checks ?s' t hints = name_checks ?s t hints" by (rule ext)
  have rel: "relation_step ?s' = relation_step ?s" by (simp add: relation_step_def attrs fun_eq_iff)
  have simple: "type_check ?s' rope = type_check ?s rope" "enum_check ?s' rope = enum_check ?s rope"
    "relation_checks ?s' = relation_checks ?s"
    by (auto simp: type_check_def enum_check_def relation_checks_def rel attrs fun_eq_iff split: body_item.split expr.split)
  have nested: "same (concat_may (map (nested_check kind ?s rope) inner)) (concat_may (map (nested_check kind ?s' rope) inner))"
  proof (rule same_concat_may)
    fix item
    show "same (nested_check kind ?s rope item) (nested_check kind ?s' rope item)"
    proof (cases item)
      case (Block sp ident labels inner)
      have "same (case map_of (block_types ?s) (fst ident) of None \<Rightarrow> Some []
             | Some nb \<Rightarrow> validate_nested_dynamics inner (nested_block nb) rope)
           (case map_of (block_types ?s') (fst ident) of None \<Rightarrow> Some []
             | Some nb \<Rightarrow> validate_nested_dynamics inner (nested_block nb) rope)"
        using relisted_absent [OF assms] relistedE(5) [OF assms] same_dynamics(2)
        by (cases "map_of (block_types ?s) (fst ident)") fastforce+
      then show ?thesis
        unfolding Block nested_check_def body_item.case by (intro same_if same_refl same_dynamics(1) [OF assms])
    qed (simp add: nested_check_def)
  qed
  have perm: "mset (concat (map f (attributes ?s'))) = mset (concat (map f (attributes ?s)))" for f :: "_ \<Rightarrow> diagnostic list"
    unfolding mset_concat_map relistedE(1) [OF assms] by (rule refl)
  let ?rest = "\<lambda>s present header. concat (map (required_check present inner header) (attributes s))
      @ concat (map (block_check inner header) (block_types s)) @ relation_checks s present
      @ group_checks at_least_one_of ''at least one of '' present header (attributes s)
      @ group_checks exactly_one_of ''exactly one of '' present header (attributes s)"
  have rest: "mset (?rest ?s present header) = mset (?rest ?s' present header)" for present header
    unfolding mset_append perm simple block_checks_relisted [OF assms] group_checks_perm [OF relistedE(1) [OF assms]] by (rule refl)
  consider "opt_span_range rope (snd ident) = None" | "opt_span_range rope (snd ident) = Some None"
    | "present_attrs rope inner = None" | "concat_may (map (type_check ?s rope) inner) = None"
    | "concat_may (map (enum_check ?s rope) inner) = None"
    | header present types enums where "opt_span_range rope (snd ident) = Some (Some header)"
      "present_attrs rope inner = Some present" "concat_may (map (type_check ?s rope) inner) = Some types"
      "concat_may (map (enum_check ?s rope) inner) = Some enums"
    by (metis not_None_eq)
  then show ?thesis
  proof cases
    case 6
    let ?v = "\<lambda>s. Option.bind (concat_may (map (nested_check kind s rope) inner))
      (\<lambda>x. Some ((concat (map (name_checks ?s t hints) present) @ types @ enums) @ x @ ?rest s present header))"
    have "validate_block ident inner rope s kind t hints = ?v ?s" "validate_block ident inner rope s' kind t hints = ?v ?s'"
      by (simp_all add: validate_block_def Let_def 6 simple(1,2) names)
    then show ?thesis using same_around [OF nested rest] by presburger
  qed (simp_all add: validate_block_def Let_def simple(1,2) bind_eq_None_conv del: not_None_eq split: option.split)
qed

text \<open>
  C23. What validation reports is determined by the schema, not by the iteration order of its hash maps:
  two runs over the same file, with every map of every schema listed in any order, both panic or report
  the same diagnostics up to their order.
\<close>

theorem validation_order_free:
  assumes "\<And>t. rel_option (\<lambda>s s'. relisted (schema_block s) (schema_block s')) (lookup_resource lk t) (lookup_resource lk' t)"
    "\<And>t. rel_option (\<lambda>s s'. relisted (schema_block s) (schema_block s')) (lookup_data_source lk t) (lookup_data_source lk' t)"
  shows "rel_option (\<lambda>x y. mset x = mset y)
    (resource_diagnostics_with_hints b rope lk hints) (resource_diagnostics_with_hints b rope lk' hints)"
  unfolding resource_diagnostics_with_hints_def
proof (rule same_concat_may)
  fix item
  show "same (check_top_block lk hints rope item) (check_top_block lk' hints rope item)"
  proof (cases item)
    case (Block sp ident labels inner)
    have step: "same (do { a \<leftarrow> deprecated_type_check kind (fst ident) t labels rope s; b \<leftarrow> validate_block ident inner rope s kind t hints; Some (a @ b) })
        (do { a \<leftarrow> deprecated_type_check kind (fst ident) t labels rope s'; b \<leftarrow> validate_block ident inner rope s' kind t hints; Some (a @ b) })"
      if "relisted (schema_block s) (schema_block s')" for s s' kind t
    proof -
      have "block_deprecated (schema_block s') = block_deprecated (schema_block s)"
        using that by (auto elim: relisted.cases)
      then have "deprecated_type_check kind (fst ident) t labels rope s' = deprecated_type_check kind (fst ident) t labels rope s"
        by (simp add: deprecated_type_check_def)
      with same_bind [OF same_refl same_validate_block [OF that]] show ?thesis by presburger
    qed
    obtain kw ks where ident: "ident = (kw, ks)" by (cases ident)
    show ?thesis
    proof (cases "first_label labels")
      case None
      then show ?thesis by (simp add: Block ident check_top_block_def)
    next
      case (Some t)
      consider "kw = ''resource''" | "kw = ''data''" | "kw \<noteq> ''resource''" "kw \<noteq> ''data''" by blast
      then show ?thesis
      proof cases
        case 1
        with assms(1) [of t] step [of _ _ ResourceBlock t] show ?thesis
          by (cases "lookup_resource lk t"; cases "lookup_resource lk' t") (simp_all add: Block ident Some check_top_block_def)
      next
        case 2
        with assms(2) [of t] step [of _ _ DataBlock t] show ?thesis
          by (cases "lookup_data_source lk t"; cases "lookup_data_source lk' t") (simp_all add: Block ident Some check_top_block_def)
      next
        case 3
        then show ?thesis by (simp add: Block ident Some check_top_block_def)
      qed
    qed
  qed (simp add: check_top_block_def)
qed

end
