(* ===== verification/ValidationSpec.thy ===== *)
theory ValidationSpec
  imports ValidationOrder
begin

text \<open>
  What the checks of \<open>Validation\<close> report, stated without their loops: missing attributes, relations
  between attributes, and \<open>dynamic\<close> blocks at any depth.
\<close>

section \<open>Relations between attributes\<close>

text \<open>The elements of a list whose key has not been seen.\<close>

fun fresh_on :: "('a \<Rightarrow> 'k) \<Rightarrow> 'k set \<Rightarrow> 'a list \<Rightarrow> 'a list" where
  "fresh_on key seen [] = []"
| "fresh_on key seen (x # xs) =
     (if key x \<in> seen then fresh_on key seen xs else x # fresh_on key (insert (key x) seen) xs)"

lemma fresh_on_append: "fresh_on key seen (xs @ ys) = fresh_on key seen xs @ fresh_on key (seen \<union> key ` set xs) ys"
  by (induction xs arbitrary: seen) (simp_all add: insert_absorb)

lemma fresh_on_keys: "key ` set (fresh_on key seen xs) = key ` set xs - seen"
  "distinct (map key (fresh_on key seen xs))" "set (fresh_on key seen xs) \<subseteq> set xs"
proof (induction key seen xs rule: fresh_on.induct)
  case (2 key seen x xs)
  { case 1 from 2(1,4) show ?case by auto }
  { case 2
    have "key x \<notin> key ` set (fresh_on key (insert (key x) seen) xs)" if "key x \<notin> seen"
      using that \<open>key x \<notin> seen \<Longrightarrow> key ` set (fresh_on key (insert (key x) seen) xs) = key ` set xs - insert (key x) seen\<close> by blast
    with \<open>key x \<in> seen \<Longrightarrow> distinct (map key (fresh_on key seen xs))\<close>
      \<open>key x \<notin> seen \<Longrightarrow> distinct (map key (fresh_on key (insert (key x) seen) xs))\<close> show ?case by simp }
  { case 3 from 2(3,6) show ?case by auto }
qed simp_all

type_synonym relation = "(string \<times> lsp_range) \<times> string"

definition relation_pair :: "relation \<Rightarrow> string \<times> string" where
  "relation_pair = (\<lambda>(p, other). pair_key (fst p) other)"

text \<open>The relations that a list of the schema states, between attributes that the body sets.\<close>

definition stated :: "(attribute_schema \<Rightarrow> string list) \<Rightarrow> block_schema \<Rightarrow> (string \<times> lsp_range) list \<Rightarrow> relation list" where
  "stated sel sch ps = concat (map (\<lambda>p. case map_of (attributes sch) (fst p) of
       None \<Rightarrow> [] | Some a \<Rightarrow> map (Pair p) (sel a)) ps)"

definition conflicts :: "block_schema \<Rightarrow> (string \<times> lsp_range) list \<Rightarrow> (string \<times> lsp_range) list \<Rightarrow> relation list" where
  "conflicts sch present ps = filter (\<lambda>(p, other). is_present present other) (stated conflicts_with sch ps)"

definition unmet :: "block_schema \<Rightarrow> (string \<times> lsp_range) list \<Rightarrow> (string \<times> lsp_range) list \<Rightarrow> relation list" where
  "unmet sch present ps = filter (\<lambda>(p, other). \<not> is_present present other) (stated required_with sch ps)"

definition rivals :: "block_schema \<Rightarrow> (string \<times> lsp_range) list \<Rightarrow> (string \<times> lsp_range) list \<Rightarrow> relation list" where
  "rivals sch present ps = filter (\<lambda>(p, other). other \<noteq> fst p \<and> is_present present other) (stated exactly_one_of sch ps)"

definition conflict_warning :: "relation \<Rightarrow> diagnostic" where
  "conflict_warning = (\<lambda>((name, rg), other). warning_at rg (''attribute '' @ quoted name @ '' conflicts with '' @ quoted other
     @ '' '' @ em_dash @ '' set one, not both''))"

definition unmet_warning :: "relation \<Rightarrow> diagnostic" where
  "unmet_warning = (\<lambda>((name, rg), other). warning_at rg (''attribute '' @ quoted name @ '' requires '' @ quoted other @ '' to also be set''))"

definition rival_warning :: "relation \<Rightarrow> diagnostic" where
  "rival_warning = (\<lambda>((name, rg), other). warning_at rg (''attribute '' @ quoted name @ '' and '' @ quoted other
     @ '' are in the same exactly-one-of group '' @ em_dash @ '' set exactly one''))"

lemma conflict_fold:
  "foldl (conflict_step present p) (out, r) others
     = (out @ map conflict_warning (fresh_on relation_pair (reported_conflicts r)
           (filter (\<lambda>(p, other). is_present present other) (map (Pair p) others))),
        r\<lparr>reported_conflicts := reported_conflicts r
           \<union> relation_pair ` set (filter (\<lambda>(p, other). is_present present other) (map (Pair p) others))\<rparr>)"
  by (induction others arbitrary: out r; cases p)
    (auto simp: conflict_step_def conflict_warning_def relation_pair_def insert_absorb)

lemma rival_fold:
  "foldl (exactly_one_step present p) (out, r) others
     = (out @ map rival_warning (fresh_on relation_pair (reported_exactly_one r)
           (filter (\<lambda>(p, other). other \<noteq> fst p \<and> is_present present other) (map (Pair p) others))),
        r\<lparr>reported_exactly_one := reported_exactly_one r
           \<union> relation_pair ` set (filter (\<lambda>(p, other). other \<noteq> fst p \<and> is_present present other) (map (Pair p) others))\<rparr>)"
  by (induction others arbitrary: out r; cases p)
    (auto simp: exactly_one_step_def rival_warning_def relation_pair_def insert_absorb)

lemma unmet_map:
  "required_with_checks present p others
     = map unmet_warning (filter (\<lambda>(p, other). \<not> is_present present other) (map (Pair p) others))"
  by (induction others; cases p) (auto simp: required_with_checks_def unmet_warning_def)

lemma relation_fold:
  "\<exists>out' r'. foldl (relation_step sch present) (out, r) ps = (out', r')
    \<and> mset out' = mset out + mset (map conflict_warning (fresh_on relation_pair (reported_conflicts r) (conflicts sch present ps)))
        + mset (map unmet_warning (unmet sch present ps))
        + mset (map rival_warning (fresh_on relation_pair (reported_exactly_one r) (rivals sch present ps)))"
proof (induction ps arbitrary: out r)
  case Nil
  then show ?case by (simp add: conflicts_def unmet_def rivals_def stated_def)
next
  case (Cons p ps)
  show ?case
  proof (cases "map_of (attributes sch) (fst p)")
    case None
    then have "relation_step sch present (out, r) p = (out, r)" by (simp add: relation_step_def)
    moreover have "stated sel sch (p # ps) = stated sel sch ps" for sel by (simp add: stated_def None)
    ultimately show ?thesis using Cons.IH [of out r] by (simp add: conflicts_def unmet_def rivals_def)
  next
    case (Some a)
    let ?c = "filter (\<lambda>(p, other). is_present present other) (map (Pair p) (conflicts_with a))"
    let ?u = "filter (\<lambda>(p, other). \<not> is_present present other) (map (Pair p) (required_with a))"
    let ?e = "filter (\<lambda>(p, other). other \<noteq> fst p \<and> is_present present other) (map (Pair p) (exactly_one_of a))"
    have lists: "conflicts sch present (p # ps) = ?c @ conflicts sch present ps" "unmet sch present (p # ps) = ?u @ unmet sch present ps"
      "rivals sch present (p # ps) = ?e @ rivals sch present ps"
      by (simp_all add: conflicts_def unmet_def rivals_def stated_def Some)
    let ?r = "r\<lparr>reported_conflicts := reported_conflicts r \<union> relation_pair ` set ?c,
        reported_exactly_one := reported_exactly_one r \<union> relation_pair ` set ?e\<rparr>"
    let ?out = "(out @ map conflict_warning (fresh_on relation_pair (reported_conflicts r) ?c)) @ map unmet_warning ?u
        @ map rival_warning (fresh_on relation_pair (reported_exactly_one r) ?e)"
    have step: "relation_step sch present (out, r) p = (?out, ?r)"
      unfolding relation_step_def Some option.case conflict_fold Let_def prod.case rival_fold unmet_map by simp
    from Cons.IH [of ?out ?r] obtain out' r' where "foldl (relation_step sch present) (out, r) (p # ps) = (out', r')"
      "mset out' = mset ?out + mset (map conflict_warning (fresh_on relation_pair (reported_conflicts ?r) (conflicts sch present ps)))
        + mset (map unmet_warning (unmet sch present ps))
        + mset (map rival_warning (fresh_on relation_pair (reported_exactly_one ?r) (rivals sch present ps)))"
      unfolding foldl.simps step by blast
    then show ?thesis
      by (intro exI conjI) (assumption, simp add: lists fresh_on_append)
  qed
qed

text \<open>
  The relations between the attributes of a body are reported exactly: every conflict and every
  exactly-one-of rivalry that either side of the schema states between two attributes that are set
  gives one warning for its unordered pair, and every missing companion one warning.
\<close>

theorem relations_exact:
  "\<exists>cs es. mset (relation_checks sch present) = mset (map conflict_warning cs)
       + mset (map unmet_warning (unmet sch present present)) + mset (map rival_warning es)
    \<and> distinct (map relation_pair cs) \<and> set cs \<subseteq> set (conflicts sch present present)
    \<and> relation_pair ` set cs = relation_pair ` set (conflicts sch present present)
    \<and> distinct (map relation_pair es) \<and> set es \<subseteq> set (rivals sch present present)
    \<and> relation_pair ` set es = relation_pair ` set (rivals sch present present)"
proof -
  let ?r = "\<lparr>reported_conflicts = {}, reported_exactly_one = {}\<rparr>"
  obtain out' r' where "foldl (relation_step sch present) ([], ?r) present = (out', r')"
    "mset out' = mset (map conflict_warning (fresh_on relation_pair {} (conflicts sch present present)))
      + mset (map unmet_warning (unmet sch present present))
      + mset (map rival_warning (fresh_on relation_pair {} (rivals sch present present)))"
    using relation_fold [of sch present "[]" ?r present] by auto
  then have "mset (relation_checks sch present) = mset (map conflict_warning (fresh_on relation_pair {} (conflicts sch present present)))
      + mset (map unmet_warning (unmet sch present present))
      + mset (map rival_warning (fresh_on relation_pair {} (rivals sch present present)))"
    by (simp add: relation_checks_def)
  then show ?thesis
    using fresh_on_keys [of relation_pair "{}"] by (intro exI conjI) (assumption | simp)+
qed

section \<open>Dynamic blocks at any depth\<close>

text \<open>
  The \<open>dynamic\<close> blocks below a body, each with the schema that governs the block it stands in: directly in
  the body, in the \<open>content\<close> of another, or in a nested block of the schema.
\<close>

inductive governs :: "block_schema \<Rightarrow> body \<Rightarrow> ident \<Rightarrow> ident list \<Rightarrow> body \<Rightarrow> block_schema \<Rightarrow> bool" where
  here: "fst ident = ''dynamic'' \<Longrightarrow> governs sch (Block sp ident labels inner # rest) ident labels inner sch"
| content: "fst i = ''dynamic'' \<Longrightarrow> target_of sch (fst l) = NestedTarget t \<Longrightarrow> content_block body = Some (isp, c)
    \<Longrightarrow> governs t c ident labels inner parent \<Longrightarrow> governs sch (Block sp i (l # ls) body # rest) ident labels inner parent"
| nested: "fst i \<noteq> ''dynamic'' \<Longrightarrow> map_of (block_types sch) (fst i) = Some nb
    \<Longrightarrow> governs (nested_block nb) body ident labels inner parent
    \<Longrightarrow> governs sch (Block sp i ls body # rest) ident labels inner parent"
| later: "governs sch rest ident labels inner parent \<Longrightarrow> governs sch (item # rest) ident labels inner parent"

inductive_simps governs_Nil [simp]: "governs sch [] ident labels inner parent"
inductive_simps governs_Attribute [simp]: "governs sch (Attribute k v vs sp # rest) ident labels inner parent"
inductive_simps governs_Block: "governs sch (Block sp i ls body # rest) ident labels inner parent"

text \<open>What one \<open>dynamic\<close> block itself is reported for.\<close>

definition own_checks :: "ident \<Rightarrow> ident list \<Rightarrow> body \<Rightarrow> block_schema \<Rightarrow> rope \<Rightarrow> diagnostic list may_panic" where
  "own_checks ident labels inner parent rope =
     (case labels of
        [] \<Rightarrow> Some []
      | l # _ \<Rightarrow>
          (case target_of parent (fst l) of
             UnknownTarget \<Rightarrow> unknown_nested rope l
           | BlockLikeAttribute \<Rightarrow> for_each_check (fst l) rope (snd ident) inner
           | NestedTarget t \<Rightarrow> do {
               a \<leftarrow> for_each_check (fst l) rope (snd ident) inner;
               b \<leftarrow> content_checks t (fst l) rope (snd ident) (content_block inner);
               Some (a @ b) }))"

definition reports :: "rope \<Rightarrow> (ident \<Rightarrow> ident list \<Rightarrow> body \<Rightarrow> block_schema \<Rightarrow> bool) \<Rightarrow> diagnostic set" where
  "reports rope G = {d. \<exists>ident labels inner parent ds. G ident labels inner parent
     \<and> own_checks ident labels inner parent rope = Some ds \<and> d \<in> set ds}"

lemma reports_or: "reports rope (\<lambda>i ls body p. G i ls body p \<or> H i ls body p) = reports rope G \<union> reports rope H"
  unfolding reports_def by blast

lemma reports_none: "reports rope (\<lambda>i ls body p. False) = {}"
  by (simp add: reports_def)

lemma reports_one: "reports rope (\<lambda>ident labels inner parent. ident = i \<and> labels = ls \<and> inner = body \<and> parent = p)
    = {d. \<exists>ds. own_checks i ls body p rope = Some ds \<and> d \<in> set ds}"
  by (simp add: reports_def)

definition found :: "rope \<Rightarrow> block_schema \<Rightarrow> body \<Rightarrow> diagnostic set" where
  "found rope sch b = reports rope (governs sch b)"

lemma found_simps [simp]: "found rope sch [] = {}" "found rope sch (Attribute k v vs sp # rest) = found rope sch rest"
  by (simp_all add: found_def reports_def)

lemma found_nested:
  assumes "fst i \<noteq> ''dynamic''"
  shows "found rope sch (Block sp i ls body # rest)
    = (case map_of (block_types sch) (fst i) of None \<Rightarrow> {} | Some nb \<Rightarrow> found rope (nested_block nb) body) \<union> found rope sch rest"
proof (cases "map_of (block_types sch) (fst i)")
  case None
  then have "governs sch (Block sp i ls body # rest) = governs sch rest"
    using assms by (auto simp: governs_Block fun_eq_iff)
  with None show ?thesis by (simp add: found_def)
next
  case (Some nb)
  then have "governs sch (Block sp i ls body # rest)
      = (\<lambda>ident labels inner parent. governs (nested_block nb) body ident labels inner parent \<or> governs sch rest ident labels inner parent)"
    using assms by (auto simp: governs_Block fun_eq_iff)
  with Some show ?thesis by (simp add: found_def reports_or)
qed

text \<open>The diagnostics below a \<open>dynamic\<close> block: its own, and those of its content.\<close>

definition found_dynamic :: "rope \<Rightarrow> ident \<Rightarrow> ident list \<Rightarrow> body \<Rightarrow> block_schema \<Rightarrow> diagnostic set" where
  "found_dynamic rope i ls body sch = {d. \<exists>ds. own_checks i ls body sch rope = Some ds \<and> d \<in> set ds}
     \<union> (case ls of
          [] \<Rightarrow> {}
        | l # _ \<Rightarrow>
            (case target_of sch (fst l) of
               NestedTarget t \<Rightarrow> (case content_block body of None \<Rightarrow> {} | Some (_, c) \<Rightarrow> found rope t c)
             | _ \<Rightarrow> {}))"

lemma found_Block:
  assumes "fst i = ''dynamic''"
  shows "found rope sch (Block sp i ls body # rest) = found_dynamic rope i ls body sch \<union> found rope sch rest"
proof -
  let ?own = "{d. \<exists>ds. own_checks i ls body sch rope = Some ds \<and> d \<in> set ds}"
  consider l ls' t isp c where "ls = l # ls'" "target_of sch (fst l) = NestedTarget t" "content_block body = Some (isp, c)"
    | "\<not> (\<exists>n ns ls' t isp c. ls = (n, ns) # ls' \<and> target_of sch n = NestedTarget t \<and> content_block body = Some (isp, c))"
    by (metis fst_conv)
  then show ?thesis
  proof cases
    case 1
    have "governs sch (Block sp i ls body # rest) = (\<lambda>ident labels inner parent.
        (ident = i \<and> labels = ls \<and> inner = body \<and> parent = sch)
        \<or> (governs t c ident labels inner parent \<or> governs sch rest ident labels inner parent))"
      using assms 1 by (cases l) (auto simp: governs_Block fun_eq_iff)
    then have "found rope sch (Block sp i ls body # rest) = ?own \<union> found rope t c \<union> found rope sch rest"
      by (simp add: found_def reports_or reports_one Un_assoc)
    with 1 show ?thesis by (simp add: found_dynamic_def)
  next
    case 2
    have "governs sch (Block sp i ls body # rest) = (\<lambda>ident labels inner parent.
        (ident = i \<and> labels = ls \<and> inner = body \<and> parent = sch) \<or> governs sch rest ident labels inner parent)"
      using assms 2 by (auto simp: governs_Block fun_eq_iff)
    then have "found rope sch (Block sp i ls body # rest) = ?own \<union> found rope sch rest"
      by (simp add: found_def reports_or reports_one)
    moreover have "found_dynamic rope i ls body sch = ?own"
      using 2 by (auto simp: found_dynamic_def split: list.split dynamic_target.split option.split)
    ultimately show ?thesis by simp
  qed
qed

lemma dynamics_found:
  "validate_dynamic_block ident labels inner parent rope = Some out \<Longrightarrow> set out = found_dynamic rope ident labels inner parent"
  "validate_nested_dynamics b sch rope = Some out \<Longrightarrow> set out = found rope sch b"
proof (induction ident labels inner parent rope and b sch rope arbitrary: out and out
    rule: validate_dynamic_block_validate_nested_dynamics.induct)
  case (2 ident l ls inner parent rope)
  show ?case
  proof (cases "target_of parent (fst l)")
    case (NestedTarget t)
    from 2(2) NestedTarget obtain a b c where abc: "for_each_check (fst l) rope (snd ident) inner = Some a"
      "content_checks t (fst l) rope (snd ident) (content_block inner) = Some b"
      "(case content_block inner of None \<Rightarrow> Some [] | Some (_, content) \<Rightarrow> validate_nested_dynamics content t rope) = Some c"
      "out = a @ b @ c"
      by (auto simp: bind_eq_Some_conv)
    have "set c = (case content_block inner of None \<Rightarrow> {} | Some (_, c) \<Rightarrow> found rope t c)"
      using abc(3) 2(1) [OF NestedTarget abc(1,2)] by (auto split: option.splits)
    with abc NestedTarget show ?thesis by (auto simp: found_dynamic_def own_checks_def)
  qed (use 2(2) in \<open>auto simp: found_dynamic_def own_checks_def\<close>)
next
  case (5 sp ident labels inner rest sch rope)
  from 5(4) obtain a c where a: "(if fst ident = ''dynamic'' then validate_dynamic_block ident labels inner sch rope
           else (case map_of (block_types sch) (fst ident) of
                   None \<Rightarrow> Some [] | Some nb \<Rightarrow> validate_nested_dynamics inner (nested_block nb) rope)) = Some a"
    and c: "validate_nested_dynamics rest sch rope = Some c" "out = a @ c"
    by (auto simp: bind_eq_Some_conv simp del: if_split)
  have c': "set c = found rope sch rest" by (rule 5(3) [OF a c(1)])
  show ?case
  proof (cases "fst ident = ''dynamic''")
    case True
    with a 5(1) [OF True] have "set a = found_dynamic rope ident labels inner sch" by simp
    with c(2) c' show ?thesis by (simp add: found_Block [OF True])
  next
    case False
    then have "set a = (case map_of (block_types sch) (fst ident) of None \<Rightarrow> {} | Some nb \<Rightarrow> found rope (nested_block nb) inner)"
      using a 5(2) [OF False] by (auto split: option.splits)
    with c(2) c' show ?thesis by (simp add: found_nested [OF False])
  qed
qed (auto simp: found_dynamic_def own_checks_def)

text \<open>
  C25. Nested \<open>dynamic\<close> blocks are checked at every depth against the right schema: the diagnostics are
  exactly those of the blocks reachable through \<open>content\<close> and through nested blocks of the schema,
  each judged by the schema that governs it.
\<close>

theorem nested_dynamics_exact:
  assumes "validate_nested_dynamics b sch rope = Some out"
  shows "d \<in> set out \<longleftrightarrow> (\<exists>ident labels inner parent ds. governs sch b ident labels inner parent
    \<and> own_checks ident labels inner parent rope = Some ds \<and> d \<in> set ds)"
  using dynamics_found(2) [OF assms] by (simp add: found_def reports_def)

section \<open>Missing attributes\<close>

text \<open>Only one check words its message this way.\<close>

definition says_missing :: "diagnostic \<Rightarrow> bool" where
  "says_missing d \<longleftrightarrow> take 27 (dg_message d) = ''missing required attribute ''"

definition never_missing :: "diagnostic list may_panic \<Rightarrow> bool" where
  "never_missing x \<longleftrightarrow> (\<forall>ds. x = Some ds \<longrightarrow> (\<forall>d \<in> set ds. \<not> says_missing d))"

lemma never_missing_simps [simp]: "never_missing None"
  "never_missing (Some ds) \<longleftrightarrow> (\<forall>d \<in> set ds. \<not> says_missing d)"
  "never_missing (map_option f x) \<longleftrightarrow> (\<forall>y. x = Some y \<longrightarrow> (\<forall>d \<in> set (f y). \<not> says_missing d))"
  by (auto simp: never_missing_def)

lemma never_missing_concat: "(\<And>x. x \<in> set xs \<Longrightarrow> never_missing (f x)) \<Longrightarrow> never_missing (concat_may (map f xs))"
  by (induction xs) (fastforce simp: never_missing_def bind_eq_Some_conv)+

lemma never_missing_append:
  "never_missing a \<Longrightarrow> never_missing b \<Longrightarrow> never_missing (Option.bind a (\<lambda>x. Option.bind b (\<lambda>y. Some (x @ y))))"
  by (cases a; cases b) auto

lemmas message_defs = says_missing_def error_at_def warning_at_def deprecated_at_def

lemma name_checks_missing: "d \<in> set (name_checks sch t hints p) \<Longrightarrow> \<not> says_missing d"
  by (auto simp: name_checks_def message_defs split: prod.splits option.splits if_splits)

lemma type_check_missing: "never_missing (type_check sch rope item)"
  by (auto simp: type_check_def message_defs split: body_item.split option.split)

lemma enum_check_missing: "never_missing (enum_check sch rope item)"
  by (auto simp: enum_check_def message_defs split: body_item.split expr.split option.split)

lemma condition_missing: "never_missing (validate_condition_block rope inner)"
  unfolding validate_condition_block_def
  by (rule never_missing_concat) (auto simp: message_defs split: body_item.split)

lemma lifecycle_missing: "never_missing (validate_lifecycle_block kind rope inner)"
  unfolding validate_lifecycle_block_def
  by (rule never_missing_concat) (auto simp: message_defs condition_missing split: body_item.split)

lemma dynamics_missing:
  "never_missing (validate_dynamic_block ident labels inner parent rope)"
  "never_missing (validate_nested_dynamics b sch rope)"
proof (induction ident labels inner parent rope and b sch rope rule: validate_dynamic_block_validate_nested_dynamics.induct)
  case (2 ident l ls inner parent rope)
  have a: "never_missing (for_each_check (fst l) rope (snd ident) inner)"
    by (cases "opt_span_range rope (snd ident)") (auto simp: for_each_check_def message_defs split: option.split)
  show ?case
  proof (cases "target_of parent (fst l)")
    case (NestedTarget t)
    have b: "never_missing (content_checks t (fst l) rope (snd ident) (content_block inner))"
    proof (cases "case content_block inner of None \<Rightarrow> Some None | Some (isp, _) \<Rightarrow> opt_span_range rope isp")
      case (Some cr)
      show ?thesis
        unfolding content_checks_def Some Option.bind.bind_lunit
        by (rule never_missing_concat) (auto simp: never_missing_def bind_eq_Some_conv message_defs split: if_splits prod.splits)
    qed (simp add: content_checks_def)
    then show ?thesis
      using a 2 NestedTarget by (fastforce simp: never_missing_def bind_eq_Some_conv split: option.splits)
  qed (use a in \<open>auto simp: unknown_nested_def message_defs split: option.split\<close>)
next
  case (5 sp ident labels inner rest sch rope)
  then show ?case by (fastforce simp: never_missing_def bind_eq_Some_conv split: if_splits option.splits)
qed simp_all

lemma nested_check_missing: "never_missing (nested_check kind sch rope item)"
  using lifecycle_missing dynamics_missing by (auto simp: nested_check_def split: body_item.split option.split)

lemma block_check_missing: "d \<in> set (block_check inner header x) \<Longrightarrow> \<not> says_missing d"
  by (auto simp: block_check_def message_defs split: prod.splits if_splits)

lemma relation_missing: "d \<in> set (relation_checks sch present) \<Longrightarrow> \<not> says_missing d"
proof -
  assume "d \<in> set (relation_checks sch present)"
  moreover obtain out' r' where "foldl (relation_step sch present) ([], \<lparr>reported_conflicts = {}, reported_exactly_one = {}\<rparr>) present = (out', r')"
    "mset out' = mset (map conflict_warning (fresh_on relation_pair {} (conflicts sch present present)))
      + mset (map unmet_warning (unmet sch present present))
      + mset (map rival_warning (fresh_on relation_pair {} (rivals sch present present)))"
    using relation_fold [of sch present "[]" "\<lparr>reported_conflicts = {}, reported_exactly_one = {}\<rparr>" present] by auto
  ultimately have "d \<in># mset (map conflict_warning (fresh_on relation_pair {} (conflicts sch present present)))
      + mset (map unmet_warning (unmet sch present present))
      + mset (map rival_warning (fresh_on relation_pair {} (rivals sch present present)))"
    by (metis fst_conv relation_checks_def set_mset_mset)
  then have "d \<in> range conflict_warning \<union> range unmet_warning \<union> range rival_warning" by auto
  then show ?thesis
    by (auto simp: conflict_warning_def unmet_warning_def rival_warning_def message_defs)
qed

lemma says_missing_lead: "says_missing d \<Longrightarrow> take 4 (dg_message d) = ''miss''"
proof -
  assume "says_missing d"
  moreover have "take 4 (dg_message d) = take 4 (take 27 (dg_message d))" by (simp add: min_def)
  ultimately show ?thesis by (simp add: says_missing_def)
qed

lemma group_missing:
  "d \<in> set (group_checks sel lead present header entries) \<Longrightarrow> take 4 lead \<noteq> ''miss'' \<Longrightarrow> 4 \<le> length lead \<Longrightarrow> \<not> says_missing d"
  using says_missing_lead [of d] by (auto simp: group_checks_eq group_warning_def warning_at_def)

lemma present_attrs_simps [simp]:
  "present_attrs rope [] = Some []"
  "present_attrs rope (Attribute k v vs sp # rest) =
     do { rg \<leftarrow> span_or_default rope sp; ps \<leftarrow> present_attrs rope rest; Some ((fst k, rg) # ps) }"
  "present_attrs rope (Block bsp i ls b # rest) = present_attrs rope rest"
  by (cases k; cases "span_or_default rope sp"; simp add: present_attrs_def)
    (cases k; cases "span_or_default rope sp"; simp add: present_attrs_def)+

lemma attr_names_simps [simp]:
  "attr_names [] = []" "attr_names (Attribute k v vs sp # rest) = fst k # attr_names rest"
  "attr_names (Block bsp i ls b # rest) = attr_names rest"
  by (cases k; simp add: attr_names_def List.map_filter_def)+

lemma present_names:
  "present_attrs rope inner = Some present \<Longrightarrow> is_present present n \<longleftrightarrow> n \<in> set (attr_names inner)"
proof (induction inner arbitrary: present)
  case (Cons item inner)
  then show ?case
    by (cases item) (fastforce simp: is_present_def bind_eq_Some_conv)+
qed (simp add: is_present_def)

text \<open>
  C24. A block is reported for a missing attribute exactly when its schema requires the attribute and the
  body neither sets it nor, where the attribute has the type of a block, writes it as a block or as a
  \<open>dynamic\<close> block.
\<close>

theorem missing_attribute_exact:
  assumes "validate_block ident inner rope s kind t hints = Some out" "opt_span_range rope (snd ident) = Some (Some header)"
  shows "error_at header (''missing required attribute '' @ quoted n) \<in> set out \<longleftrightarrow>
    (\<exists>a. (n, a) \<in> set (attributes (schema_block s)) \<and> as_required a \<and> n \<notin> set (attr_names inner)
       \<and> \<not> (is_block_like a \<and> n \<in> set (present_block_names inner)))"
proof -
  let ?s = "schema_block s" and ?d = "error_at header (''missing required attribute '' @ quoted n)"
  obtain present types enums nested where parts: "present_attrs rope inner = Some present"
    "concat_may (map (type_check ?s rope) inner) = Some types" "concat_may (map (enum_check ?s rope) inner) = Some enums"
    "concat_may (map (nested_check kind ?s rope) inner) = Some nested"
    and out: "out = concat (map (name_checks ?s t hints) present) @ types @ enums @ nested
            @ concat (map (required_check present inner header) (attributes ?s))
            @ concat (map (block_check inner header) (block_types ?s))
            @ relation_checks ?s present
            @ group_checks at_least_one_of ''at least one of '' present header (attributes ?s)
            @ group_checks exactly_one_of ''exactly one of '' present header (attributes ?s)"
    using assms by (auto simp: validate_block_def Let_def bind_eq_Some_conv)
  have d: "says_missing ?d" by (simp add: says_missing_def error_at_def)
  have "never_missing (Some types)" "never_missing (Some enums)" "never_missing (Some nested)"
    unfolding parts(2-4) [symmetric]
    by (rule never_missing_concat, rule type_check_missing enum_check_missing nested_check_missing)+
  then have "?d \<notin> set types" "?d \<notin> set enums" "?d \<notin> set nested" using d by auto
  moreover have "?d \<notin> set (concat (map (name_checks ?s t hints) present))" "?d \<notin> set (relation_checks ?s present)"
    "?d \<notin> set (concat (map (block_check inner header) (block_types ?s)))"
    using d name_checks_missing relation_missing block_check_missing by auto
  moreover have "?d \<notin> set (group_checks at_least_one_of ''at least one of '' present header (attributes ?s))"
    "?d \<notin> set (group_checks exactly_one_of ''exactly one of '' present header (attributes ?s))"
    using d group_missing by auto
  ultimately have "?d \<in> set out \<longleftrightarrow> ?d \<in> set (concat (map (required_check present inner header) (attributes ?s)))"
    unfolding out by auto
  also have "\<dots> \<longleftrightarrow> (\<exists>a. (n, a) \<in> set (attributes ?s) \<and> as_required a \<and> n \<notin> set (attr_names inner)
       \<and> \<not> (is_block_like a \<and> n \<in> set (present_block_names inner)))"
    by (force simp: required_check_def present_names [OF parts(1)] error_at_def quoted_def split: if_splits)
  finally show ?thesis .
qed

section \<open>A concrete schema\<close>

definition sample_attribute :: attribute_schema where
  "sample_attribute = \<lparr>as_type = Some (JString ''string''), as_description = None, as_description_kind = None,
     as_required = True, as_optional = False, as_computed = False, as_sensitive = False, as_deprecated = False,
     conflicts_with = [], required_with = [], exactly_one_of = [], at_least_one_of = [], allowed_values = None\<rparr>"

definition sample_schema :: "(string \<times> attribute_schema) list \<Rightarrow> schema" where
  "sample_schema as = \<lparr>schema_version = 0, schema_block = BlockSchema as [] None None False\<rparr>"

definition sample_lookup :: "(string \<times> attribute_schema) list \<Rightarrow> schema_lookup" where
  "sample_lookup as = \<lparr>lookup_resource = (\<lambda>t. if t = ''t'' then Some (sample_schema as) else None), lookup_data_source = (\<lambda>t. None)\<rparr>"

definition sample_block :: body_item where
  "sample_block = Block (Some (0, 2)) (''resource'', Some (0, 1)) [(''t'', Some (1, 2))] []"

lemma validation_returns_witness:
  "resource_diagnostics_with_hints [sample_block] [65, 66] (sample_lookup [(''ami'', sample_attribute)]) None \<noteq> None"
proof (rule validation_returns)
  have "boundary [65, 66] n" if "n \<le> 2" for n
  proof -
    from that consider "n = 0" | "n = 1" | "n = 2" by linarith
    then show ?thesis
    proof cases
      case 1 then show ?thesis unfolding boundary_def by (intro disjI2 exI [of _ "[]"] exI [of _ "[65, 66]"]) simp
    next
      case 2 then show ?thesis unfolding boundary_def by (intro disjI2 exI [of _ "[65]"] exI [of _ "[66]"]) (simp add: len_bytes_def utf8_len_def)
    next
      case 3 then show ?thesis unfolding boundary_def by (intro disjI2 exI [of _ "[65, 66]"] exI [of _ "[]"]) (simp add: len_bytes_def utf8_len_def)
    qed
  qed
  then show "list_all (item_aligned [65, 66]) [sample_block]" by (simp add: sample_block_def aligned_def)
qed

lemma validation_order_free_witness:
  "rel_option (\<lambda>x y. mset x = mset y)
    (resource_diagnostics_with_hints [sample_block] [65, 66] (sample_lookup [(''a'', sample_attribute), (''b'', sample_attribute)]) None)
    (resource_diagnostics_with_hints [sample_block] [65, 66] (sample_lookup [(''b'', sample_attribute), (''a'', sample_attribute)]) None)"
  by (rule validation_order_free) (auto simp: sample_lookup_def sample_schema_def intro!: relisted)

lemma missing_attribute_exact_witness:
  "\<exists>out. validate_block (''resource'', Some (0, 1)) [] [65, 66] (sample_schema [(''ami'', sample_attribute)]) ResourceBlock ''t'' None = Some out
    \<and> error_at \<lparr>range_start = \<lparr>pos_line = 0, pos_character = 0\<rparr>, range_end = \<lparr>pos_line = 0, pos_character = 1\<rparr>\<rparr>
         (''missing required attribute '' @ quoted ''ami'') \<in> set out"
proof -
  have header: "opt_span_range [65, 66] (snd (''resource'', Some (0, 1)))
    = Some (Some \<lparr>range_start = \<lparr>pos_line = 0, pos_character = 0\<rparr>, range_end = \<lparr>pos_line = 0, pos_character = 1\<rparr>\<rparr>)"
    by (simp add: span_eval Let_def)
  then obtain out where out: "validate_block (''resource'', Some (0, 1)) [] [65, 66] (sample_schema [(''ami'', sample_attribute)]) ResourceBlock ''t'' None = Some out"
    by (simp add: validate_block_def Let_def)
  moreover have "error_at \<lparr>range_start = \<lparr>pos_line = 0, pos_character = 0\<rparr>, range_end = \<lparr>pos_line = 0, pos_character = 1\<rparr>\<rparr>
         (''missing required attribute '' @ quoted ''ami'') \<in> set out"
    unfolding missing_attribute_exact [OF out header]
    by (simp add: sample_schema_def sample_attribute_def present_block_names_def List.map_filter_def)
  ultimately show ?thesis by blast
qed

lemma nested_dynamics_exact_witness:
  "error_at default_range (''unknown nested block '' @ quoted ''x'' @ '' on this resource/data'')
     \<in> set (the (validate_nested_dynamics [Block None (''dynamic'', None) [(''x'', Some (9, 1))] []] (BlockSchema [] [] None None False) [65, 66]))"
proof -
  let ?b = "[Block None (''dynamic'', None) [(''x'', Some (9, 1))] []]" and ?s = "BlockSchema [] [] None None False"
  have target: "target_of ?s ''x'' = UnknownTarget" by (simp add: target_of_def)
  have own: "own_checks (''dynamic'', None) [(''x'', Some (9, 1))] [] ?s [65, 66]
      = Some [error_at default_range (''unknown nested block '' @ quoted ''x'' @ '' on this resource/data'')]"
    by (simp add: own_checks_def target unknown_nested_def span_or_default_def span_eval Let_def)
  have "validate_nested_dynamics ?b ?s [65, 66]
      = Some [error_at default_range (''unknown nested block '' @ quoted ''x'' @ '' on this resource/data'')]"
    using own by (simp add: own_checks_def target)
  moreover have "governs ?s ?b (''dynamic'', None) [(''x'', Some (9, 1))] [] ?s" by (rule here) simp
  ultimately show ?thesis using own nested_dynamics_exact by fastforce
qed

end
