(* ===== verification/ModuleGraph.thy ===== *)
theory ModuleGraph
  imports Store Deprecation Workspace
begin

text \<open>
  Which documents make up a module, and what they say together:
  \<^verbatim>\<open>crates/tfls-engine/src/module.rs\<close> (scopes of documents), the trait
  \<open>ModuleGraphLookup\<close> of \<^verbatim>\<open>crates/tfls-diag/src/module_graph.rs\<close> (the record \<open>module_graph\<close>), and its
  two implementations over the store: the adapter built for one request
  (\<^verbatim>\<open>crates/tfls-engine/src/pipeline.rs\<close>) and the snapshot shared by a bulk scan
  (\<^verbatim>\<open>crates/tfls-engine/src/snapshot.rs\<close>).

  Absolute paths are lists of components, as \<open>std::path\<close> compares them. The conversion of a URI to a path
  belongs to the \<open>url\<close> crate and symbolic links to the file system: both are fields of \<open>file_sys\<close>.
\<close>

section \<open>Paths\<close>

type_synonym path = "string list"

record file_sys =
  to_file_path :: "string \<Rightarrow> path option"
  canonicalize :: "path \<Rightarrow> path option"
  read_dir :: "path \<Rightarrow> string list option"   \<comment> \<open>file names that are valid UTF-8\<close>

definition path_parent :: "path \<Rightarrow> path option" where
  "path_parent p = (if p = [] then None else Some (butlast p))"

definition file_name :: "path \<Rightarrow> string option" where
  "file_name p = (if p = [] \<or> last p = ''..'' then None else Some (last p))"

text \<open>\<open>Path::join\<close>: an absolute argument replaces the path; empty components and \<open>.\<close> disappear.\<close>

definition join_path :: "path \<Rightarrow> string \<Rightarrow> path" where
  "join_path p s =
     (if starts_with s ''/'' then [] else p) @ filter (\<lambda>c. c \<noteq> [] \<and> c \<noteq> ''.'') (split_on CHR ''/'' s)"

definition parent_dir :: "file_sys \<Rightarrow> string \<Rightarrow> path option" where
  "parent_dir fs uri = do { p \<leftarrow> to_file_path fs uri; path_parent p }"

definition module_under_test_dir :: "file_sys \<Rightarrow> string \<Rightarrow> path option" where
  "module_under_test_dir fs uri = do {
     dir \<leftarrow> parent_dir fs uri;
     Some (if file_name dir = Some ''tests'' then
             (case path_parent dir of
                Some p \<Rightarrow> if file_name p \<noteq> None then p else dir
              | None \<Rightarrow> dir)
           else dir) }"

definition module_scope_dir :: "file_sys \<Rightarrow> string \<Rightarrow> path option" where
  "module_scope_dir fs uri = (if is_tftest_uri uri then module_under_test_dir fs uri else parent_dir fs uri)"

definition open_peers_in_scope :: "file_sys \<Rightarrow> 'e store \<Rightarrow> string \<Rightarrow> string list" where
  "open_peers_in_scope fs s changed =
     (case module_scope_dir fs changed of
        None \<Rightarrow> []
      | Some scope \<Rightarrow> filter (\<lambda>u. \<not> (u = changed \<or> \<not> is_open s u) \<and> module_scope_dir fs u = Some scope)
          (map fst (documents s)))"

definition dir_paths_match :: "file_sys \<Rightarrow> path \<Rightarrow> path \<Rightarrow> bool" where
  "dir_paths_match fs a b \<longleftrightarrow> a = b \<or>
     (case (canonicalize fs a, canonicalize fs b) of (Some x, Some y) \<Rightarrow> x = y | _ \<Rightarrow> False)"

definition location_in_dir :: "file_sys \<Rightarrow> symbol_location \<Rightarrow> path \<Rightarrow> bool" where
  "location_in_dir fs l dir \<longleftrightarrow>
     (case parent_dir fs (loc_uri l) of None \<Rightarrow> False | Some p \<Rightarrow> dir_paths_match fs p dir)"

section \<open>The questions\<close>

record module_graph =
  variable_is_referenced :: "string \<Rightarrow> bool"
  local_is_referenced :: "string \<Rightarrow> bool"
  data_source_is_referenced :: "string \<Rightarrow> string \<Rightarrow> bool"
  used_provider_locals :: "string set"
  present_files :: "string set"
  is_root_module :: bool
  is_applyable_root :: bool
  module_has_required_version :: bool
  is_primary_terraform_doc :: bool
  providers_with_version_set :: "string set"

section \<open>What a body contributes\<close>

definition is_block :: "string \<Rightarrow> body_item \<Rightarrow> bool" where
  "is_block name item \<longleftrightarrow> (case item of Block _ (kw, _) _ _ \<Rightarrow> kw = name | Attribute _ _ _ _ \<Rightarrow> False)"

definition is_attr :: "string \<Rightarrow> body_item \<Rightarrow> bool" where
  "is_attr name item \<longleftrightarrow> (case item of Attribute (key, _) _ _ _ \<Rightarrow> key = name | Block _ _ _ _ \<Rightarrow> False)"

text \<open>The values of the attributes of a body that have a given key.\<close>

definition attrs_named :: "string \<Rightarrow> body \<Rightarrow> expr list" where
  "attrs_named name b = List.map_filter (\<lambda>item. case item of
       Attribute (key, _) v _ _ \<Rightarrow> if key = name then Some v else None | Block _ _ _ _ \<Rightarrow> None) b"

definition extract_provider_local :: "expr \<Rightarrow> string option" where
  "extract_provider_local e =
     (case e of
        EVariable v \<Rightarrow> Some v
      | ETraversal _ (EVariable v) _ \<Rightarrow> Some v
      | _ \<Rightarrow> None)"

text \<open>The match on object keys that the adapter, the snapshot and the rules repeat.\<close>

definition key_ident :: "obj_key \<Rightarrow> string option" where
  "key_ident k =
     (case k of
        KIdent i \<Rightarrow> Some i
      | KExpr (EVariable v) \<Rightarrow> Some v
      | KExpr (EString _ s) \<Rightarrow> Some s
      | _ \<Rightarrow> None)"

definition providers_argument :: "expr \<Rightarrow> string set" where
  "providers_argument e =
     (case e of
        EObject _ fs \<Rightarrow> \<Union> (set (map (\<lambda>(k, v). set_option (extract_provider_local v) \<union> set_option (key_ident k)) fs))
      | _ \<Rightarrow> {})"

text \<open>What one structure of a body adds in \<open>collect_provider_locals\<close>.\<close>

definition item_provider_locals :: "body_item \<Rightarrow> string set" where
  "item_provider_locals item =
     (case item of
        Block _ (kw, _) labels inner \<Rightarrow>
          if kw = ''resource'' \<or> kw = ''data'' then
            (case labels of
               [] \<Rightarrow> {}
             | l # _ \<Rightarrow> (let lp = first_piece CHR ''_'' (fst l) in if lp \<noteq> [] then {lp} else {}))
            \<union> \<Union> (set (map (\<lambda>v. set_option (extract_provider_local v)) (attrs_named ''provider'' inner)))
          else if kw = ''provider'' then (case labels of [] \<Rightarrow> {} | l # _ \<Rightarrow> {fst l})
          else if kw = ''module'' then \<Union> (set (map providers_argument (attrs_named ''providers'' inner)))
          else {}
      | Attribute _ _ _ _ \<Rightarrow> {})"

definition collect_provider_locals :: "body \<Rightarrow> string set \<Rightarrow> string set" where
  "collect_provider_locals b out = fold (\<lambda>item acc. acc \<union> item_provider_locals item) b out"

text \<open>
  Calls \<open>provider::<local>::<fn>(\<close> in the text. \<open>provider_call_at\<close> is one turn of the loop: the
  next position to search from, and the local it found.
\<close>

definition word_byte :: "char \<Rightarrow> bool" where
  "word_byte c \<longleftrightarrow> is_ascii_alphanumeric c \<or> c = CHR ''_''"

definition provider_call_at :: "string \<Rightarrow> nat \<Rightarrow> nat \<times> string option" where
  "provider_call_at text kw_start =
     (let after = kw_start + 10 in
      if 0 < kw_start \<and> word_byte (text ! (kw_start - 1)) then (after, None)
      else
        (let local = takeWhile word_byte (drop after text);
             p = after + length local;
             rest = drop p text;
             r = dropWhile (\<lambda>c. c = CHR '' '' \<or> c = CHR 0x09) (dropWhile word_byte (drop 2 rest)) in
         if local = [] then (p, None)
         else if starts_with rest ''::'' \<and> length rest > 2 \<and> r \<noteq> [] \<and> hd r = CHR ''('' then (p, str_slice text after p)
         else (p, None)))"

lemma provider_call_at_advances: "(j, found) = provider_call_at t k \<Longrightarrow> k < j"
  by (auto simp: provider_call_at_def Let_def split: if_splits)

function function_locals_from :: "string \<Rightarrow> nat \<Rightarrow> string set" where
  "function_locals_from text i =
     (if length text < i + 10 then {}
      else (case str_find ''provider::'' (drop i text) of
              None \<Rightarrow> {}
            | Some rel \<Rightarrow>
                (case provider_call_at text (i + rel) of
                   (j, found) \<Rightarrow> set_option found \<union> function_locals_from text j)))"
  by pat_completeness auto
termination
  by (relation "measure (\<lambda>(t, i). length t - i)") (auto dest: provider_call_at_advances)

definition collect_provider_function_locals :: "string \<Rightarrow> string set \<Rightarrow> string set" where
  "collect_provider_function_locals text out = out \<union> function_locals_from text 0"

text \<open>The \<open>required_providers\<close> entries of a body that carry a \<open>version\<close> key.\<close>

definition versioned_entry :: "body_item \<Rightarrow> string option" where
  "versioned_entry entry =
     (case entry of
        Attribute (key, _) (EObject _ fs) _ _ \<Rightarrow> if list_ex (\<lambda>(k, _). key_ident k = Some ''version'') fs then Some key else None
      | _ \<Rightarrow> None)"

definition versioned_providers :: "body \<Rightarrow> string set" where
  "versioned_providers b = set (List.map_filter versioned_entry (provider_entries b))"

definition declares_required_version :: "body \<Rightarrow> bool" where
  "declares_required_version b \<longleftrightarrow> list_ex (\<lambda>item. case item of
       Block _ (kw, _) _ inner \<Rightarrow> kw = ''terraform'' \<and> list_ex (is_attr ''required_version'') inner
     | Attribute _ _ _ _ \<Rightarrow> False) b"

definition configures :: "body_item \<Rightarrow> bool" where
  "configures item \<longleftrightarrow>
     (case item of
        Block _ (kw, _) _ inner \<Rightarrow> kw = ''provider''
          \<or> kw = ''terraform'' \<and> list_ex (\<lambda>i. is_block ''backend'' i \<or> is_block ''cloud'' i) inner
      | Attribute _ _ _ _ \<Rightarrow> False)"

section \<open>The adapter of one request\<close>

text \<open>
  The bodies of a module. The adapter and the snapshot filter by the directory of the document as it is
  written, without following links; without a directory every document counts.
\<close>

definition in_module :: "file_sys \<Rightarrow> string \<Rightarrow> path option \<Rightarrow> bool" where
  "in_module fs uri dir \<longleftrightarrow> (case dir of Some d \<Rightarrow> parent_dir fs uri = Some d | None \<Rightarrow> True)"

definition module_bodies :: "file_sys \<Rightarrow> 'e store \<Rightarrow> path option \<Rightarrow> (string \<times> rope \<times> body) list" where
  "module_bodies fs s dir = List.map_filter (\<lambda>(u, d).
     if in_module fs u dir then map_option (\<lambda>b. (u, d_rope d, b)) (body (d_parsed d)) else None) (documents s)"

definition has_ref :: "file_sys \<Rightarrow> 'e store \<Rightarrow> path option \<Rightarrow> symbol_key \<Rightarrow> bool" where
  "has_ref fs s dir k =
     (case hm_get (references_by_name s) k of
        None \<Rightarrow> False
      | Some locs \<Rightarrow>
          (case dir of
             Some d \<Rightarrow> list_ex (\<lambda>l. location_in_dir fs l d) locs
           | None \<Rightarrow> locs \<noteq> []))"

definition local_source :: "string \<Rightarrow> bool" where
  "local_source src \<longleftrightarrow> starts_with src ''./'' \<or> starts_with src ''../'' \<or> starts_with src ''/''"

definition source_points_at :: "file_sys \<Rightarrow> string \<Rightarrow> path option \<Rightarrow> path \<Rightarrow> bool" where
  "source_points_at fs source caller target =
     (if \<not> local_source source then False
      else (case caller of
              None \<Rightarrow> False
            | Some c \<Rightarrow>
                (case canonicalize fs (join_path c source) of
                   None \<Rightarrow> False
                 | Some resolved \<Rightarrow>
                     (case canonicalize fs target of None \<Rightarrow> False | Some t \<Rightarrow> resolved = t))))"

text \<open>The literal \<open>source\<close> values of the \<open>module\<close> blocks of a body.\<close>

definition module_source_literals :: "body \<Rightarrow> string list" where
  "module_source_literals b =
     List.map_filter (\<lambda>e. case e of EString _ s \<Rightarrow> Some s | _ \<Rightarrow> None)
       (concat (map (\<lambda>item. case item of
            Block _ (kw, _) _ inner \<Rightarrow> if kw = ''module'' then attrs_named ''source'' inner else []
          | Attribute _ _ _ _ \<Rightarrow> []) b))"

definition compute_is_root :: "file_sys \<Rightarrow> 'e store \<Rightarrow> path option \<Rightarrow> bool" where
  "compute_is_root fs s dir =
     (case dir of
        None \<Rightarrow> True
      | Some d \<Rightarrow> \<not> list_ex (\<lambda>(u, d').
            (case body (d_parsed d') of
               None \<Rightarrow> False
             | Some b \<Rightarrow> parent_dir fs u \<noteq> Some d
                 \<and> list_ex (\<lambda>src. source_points_at fs src (parent_dir fs u) d) (module_source_literals b))) (documents s))"

definition module_has_applyable_config :: "file_sys \<Rightarrow> 'e store \<Rightarrow> path option \<Rightarrow> bool" where
  "module_has_applyable_config fs s dir = list_ex (\<lambda>(_, _, b). list_ex configures b) (module_bodies fs s dir)"

definition terraform_files :: "file_sys \<Rightarrow> path option \<Rightarrow> string set" where
  "terraform_files fs dir =
     (case dir of
        None \<Rightarrow> {}
      | Some d \<Rightarrow>
          (case read_dir fs d of
             None \<Rightarrow> {}
           | Some names \<Rightarrow> set (filter (\<lambda>n. ends_with n ''.tf'' \<or> ends_with n ''.tf.json'') names)))"

definition adapter_provider_locals :: "file_sys \<Rightarrow> 'e store \<Rightarrow> path option \<Rightarrow> string set" where
  "adapter_provider_locals fs s dir =
     fold (\<lambda>(_, rope, b) used. collect_provider_function_locals (to_utf8 rope) (collect_provider_locals b used))
       (module_bodies fs s dir) {}"

definition adapter_is_primary :: "file_sys \<Rightarrow> 'e store \<Rightarrow> path option \<Rightarrow> string \<Rightarrow> bool" where
  "adapter_is_primary fs s dir uri =
     (case sort (map fst (filter (\<lambda>(_, _, b). list_ex (is_block ''terraform'') b) (module_bodies fs s dir))) of
        [] \<Rightarrow> False
      | u # _ \<Rightarrow> u = uri)"

definition module_graph_adapter :: "file_sys \<Rightarrow> 'e store \<Rightarrow> path option \<Rightarrow> string \<Rightarrow> module_graph" where
  "module_graph_adapter fs s dir uri =
     \<lparr>variable_is_referenced = (\<lambda>n. has_ref fs s dir \<lparr>key_kind = Variable, key_name = n\<rparr>),
      local_is_referenced = (\<lambda>n. has_ref fs s dir \<lparr>key_kind = Local, key_name = n\<rparr>),
      data_source_is_referenced = (\<lambda>t n. has_ref fs s dir (resource_key DataSource t n)),
      used_provider_locals = adapter_provider_locals fs s dir,
      present_files = terraform_files fs dir,
      is_root_module = compute_is_root fs s dir,
      is_applyable_root = (compute_is_root fs s dir \<and> module_has_applyable_config fs s dir),
      module_has_required_version = list_ex (\<lambda>(_, _, b). declares_required_version b) (module_bodies fs s dir),
      is_primary_terraform_doc = adapter_is_primary fs s dir uri,
      providers_with_version_set = \<Union> (set (map (\<lambda>(_, _, b). versioned_providers b) (module_bodies fs s dir)))\<rparr>"

section \<open>The snapshot of a bulk scan\<close>

record module_snapshot =
  snap_dir :: "path option"
  has_required_version :: bool
  providers_with_version :: "string set"
  snap_provider_locals :: "string set"
  primary_terraform_uri :: "string option"
  snap_files :: "string set"
  is_root :: bool
  has_applyable_config :: bool

text \<open>What the single pass over the documents accumulates.\<close>

record pass =
  ps_required :: bool
  ps_versioned :: "string set"
  ps_locals :: "string set"
  ps_candidates :: "string list"
  ps_applyable :: bool

definition pass_item :: "string \<Rightarrow> pass \<Rightarrow> body_item \<Rightarrow> pass" where
  "pass_item u p item =
     (case item of
        Attribute _ _ _ _ \<Rightarrow> p
      | Block _ (kw, _) labels inner \<Rightarrow>
          if kw = ''terraform'' then
            p\<lparr>ps_required := ps_required p \<or> list_ex (is_attr ''required_version'') inner,
              ps_candidates := ps_candidates p @ [u],
              ps_applyable := ps_applyable p \<or> list_ex (\<lambda>i. is_block ''backend'' i \<or> is_block ''cloud'' i) inner,
              ps_versioned := ps_versioned p
                \<union> set (List.map_filter versioned_entry (nested_bodies ''required_providers'' inner))\<rparr>
          else if kw = ''provider'' then
            p\<lparr>ps_applyable := True, ps_locals := ps_locals p \<union> item_provider_locals item\<rparr>
          else p\<lparr>ps_locals := ps_locals p \<union> item_provider_locals item\<rparr>)"

definition pass_document :: "pass \<Rightarrow> string \<times> rope \<times> body \<Rightarrow> pass" where
  "pass_document p entry =
     (case entry of
        (u, rope, b) \<Rightarrow>
          (let p' = foldl (pass_item u) p b in
           p'\<lparr>ps_locals := collect_provider_function_locals (to_utf8 rope) (ps_locals p')\<rparr>))"

definition empty_pass :: pass where
  "empty_pass = \<lparr>ps_required = False, ps_versioned = {}, ps_locals = {}, ps_candidates = [], ps_applyable = False\<rparr>"

definition is_root_via_set :: "file_sys \<Rightarrow> path option \<Rightarrow> path set \<Rightarrow> bool" where
  "is_root_via_set fs dir referenced =
     (case dir of
        None \<Rightarrow> True
      | Some d \<Rightarrow> (case canonicalize fs d of Some c \<Rightarrow> c \<notin> referenced | None \<Rightarrow> True))"

definition called_dirs :: "file_sys \<Rightarrow> path option \<Rightarrow> body option \<Rightarrow> path list" where
  "called_dirs fs caller b =
     (case (b, caller) of
        (Some b, Some dir) \<Rightarrow> List.map_filter (\<lambda>src.
            if local_source src then canonicalize fs (join_path dir src) else None) (module_source_literals b)
      | _ \<Rightarrow> [])"

definition referenced_dirs_in_workspace :: "file_sys \<Rightarrow> 'e store \<Rightarrow> path set" where
  "referenced_dirs_in_workspace fs s =
     set (concat (map (\<lambda>(u, d). called_dirs fs (parent_dir fs u) (body (d_parsed d))) (documents s)))"

definition snapshot_build :: "file_sys \<Rightarrow> 'e store \<Rightarrow> path option \<Rightarrow> path set option \<Rightarrow> module_snapshot" where
  "snapshot_build fs s dir referenced =
     (let p = foldl pass_document empty_pass (module_bodies fs s dir) in
      \<lparr>snap_dir = dir, has_required_version = ps_required p, providers_with_version = ps_versioned p,
       snap_provider_locals = ps_locals p,
       primary_terraform_uri = (case sort (ps_candidates p) of [] \<Rightarrow> None | u # _ \<Rightarrow> Some u),
       snap_files = terraform_files fs dir,
       is_root = (case referenced of Some R \<Rightarrow> is_root_via_set fs dir R | None \<Rightarrow> compute_is_root fs s dir),
       has_applyable_config = ps_applyable p\<rparr>)"

text \<open>The snapshot compares directories as they are written.\<close>

definition snapshot_has_ref :: "file_sys \<Rightarrow> 'e store \<Rightarrow> module_snapshot \<Rightarrow> symbol_key \<Rightarrow> bool" where
  "snapshot_has_ref fs s snap k =
     (case hm_get (references_by_name s) k of
        None \<Rightarrow> False
      | Some locs \<Rightarrow>
          (case snap_dir snap of
             Some d \<Rightarrow> list_ex (\<lambda>l. parent_dir fs (loc_uri l) = Some d) locs
           | None \<Rightarrow> locs \<noteq> []))"

definition cached_module_lookup :: "file_sys \<Rightarrow> 'e store \<Rightarrow> module_snapshot \<Rightarrow> string \<Rightarrow> module_graph" where
  "cached_module_lookup fs s snap uri =
     \<lparr>variable_is_referenced = (\<lambda>n. snapshot_has_ref fs s snap \<lparr>key_kind = Variable, key_name = n\<rparr>),
      local_is_referenced = (\<lambda>n. snapshot_has_ref fs s snap \<lparr>key_kind = Local, key_name = n\<rparr>),
      data_source_is_referenced = (\<lambda>t n. snapshot_has_ref fs s snap (resource_key DataSource t n)),
      used_provider_locals = snap_provider_locals snap,
      present_files = snap_files snap,
      is_root_module = is_root snap,
      is_applyable_root = (is_root snap \<and> has_applyable_config snap),
      module_has_required_version = has_required_version snap,
      is_primary_terraform_doc = (case primary_terraform_uri snap of Some u \<Rightarrow> u = uri | None \<Rightarrow> False),
      providers_with_version_set = providers_with_version snap\<rparr>"


section \<open>The snapshot answers what the adapter answers\<close>

lemma collect_provider_locals_eq: "collect_provider_locals b out = out \<union> \<Union> (item_provider_locals ` set b)"
  unfolding collect_provider_locals_def by (induction b arbitrary: out) auto

definition item_pass :: "string \<Rightarrow> body_item \<Rightarrow> pass" where
  "item_pass u item = \<lparr>ps_required = declares_required_version [item], ps_versioned = versioned_providers [item],
     ps_locals = item_provider_locals item, ps_candidates = (if is_block ''terraform'' item then [u] else []),
     ps_applyable = configures item\<rparr>"

definition join_pass :: "pass \<Rightarrow> pass \<Rightarrow> pass" where
  "join_pass p q = \<lparr>ps_required = (ps_required p \<or> ps_required q), ps_versioned = ps_versioned p \<union> ps_versioned q,
     ps_locals = ps_locals p \<union> ps_locals q, ps_candidates = ps_candidates p @ ps_candidates q,
     ps_applyable = (ps_applyable p \<or> ps_applyable q)\<rparr>"

lemma pass_item_join: "pass_item u p item = join_pass p (item_pass u item)"
proof (cases item)
  case (Block sp ident labels inner)
  obtain kw ks where [simp]: "ident = (kw, ks)" by (cases ident)
  consider "kw = ''terraform''" | "kw = ''provider''" | "kw \<noteq> ''terraform''" "kw \<noteq> ''provider''" by blast
  then show ?thesis
    unfolding Block
    by cases (simp_all add: pass_item_def join_pass_def item_pass_def declares_required_version_def versioned_providers_def
        provider_entries_def nested_bodies_def item_provider_locals_def is_block_def configures_def)
qed (simp add: pass_item_def join_pass_def item_pass_def declares_required_version_def versioned_providers_def
      provider_entries_def nested_bodies_def item_provider_locals_def is_block_def configures_def)

definition body_pass :: "string \<Rightarrow> body \<Rightarrow> pass" where
  "body_pass u b = \<lparr>ps_required = declares_required_version b, ps_versioned = versioned_providers b,
     ps_locals = \<Union> (item_provider_locals ` set b), ps_candidates = map (\<lambda>_. u) (filter (is_block ''terraform'') b),
     ps_applyable = list_ex configures b\<rparr>"

lemma nested_bodies_append: "nested_bodies n (xs @ ys) = nested_bodies n xs @ nested_bodies n ys"
  by (simp add: nested_bodies_def)

lemma versioned_providers_Cons: "versioned_providers (i # b) = versioned_providers [i] \<union> versioned_providers b"
  using nested_bodies_append [of "''terraform''" "[i]" b]
  by (simp add: versioned_providers_def provider_entries_def nested_bodies_append List.map_filter_def)

lemma declares_required_version_Cons:
  "declares_required_version (i # b) \<longleftrightarrow> declares_required_version [i] \<or> declares_required_version b"
  by (simp add: declares_required_version_def)

lemma join_body_pass: "join_pass (join_pass p (item_pass u i)) (body_pass u b) = join_pass p (body_pass u (i # b))"
  by (auto simp: join_pass_def item_pass_def body_pass_def versioned_providers_Cons [of i b] declares_required_version_Cons [of i b]
      simp del: Un_insert_left)

lemma pass_item_fold: "foldl (pass_item u) p b = join_pass p (body_pass u b)"
proof (induction b arbitrary: p)
  case (Cons i b)
  have "foldl (pass_item u) p (i # b) = join_pass (join_pass p (item_pass u i)) (body_pass u b)"
    by (simp only: foldl_Cons pass_item_join Cons.IH)
  then show ?case by (simp only: join_body_pass)
qed (simp add: join_pass_def body_pass_def declares_required_version_def versioned_providers_def provider_entries_def
      nested_bodies_def List.map_filter_def)

lemma pass_document_join: "pass_document p (u, r, b) = (let q = join_pass p (body_pass u b) in
    q\<lparr>ps_locals := collect_provider_function_locals (to_utf8 r) (collect_provider_locals b (ps_locals p))\<rparr>)"
  by (simp add: pass_document_def pass_item_fold collect_provider_locals_eq join_pass_def body_pass_def Let_def)

lemma pass_document_fold:
  "foldl pass_document p docs = p\<lparr>ps_required := ps_required p \<or> list_ex (\<lambda>(_, _, b). declares_required_version b) docs,
     ps_versioned := ps_versioned p \<union> \<Union> (set (map (\<lambda>(_, _, b). versioned_providers b) docs)),
     ps_locals := fold (\<lambda>(_, rope, b) used. collect_provider_function_locals (to_utf8 rope) (collect_provider_locals b used))
       docs (ps_locals p),
     ps_candidates := ps_candidates p
       @ concat (map (\<lambda>(u, _, b). map (\<lambda>_. u) (filter (is_block ''terraform'') b)) docs),
     ps_applyable := ps_applyable p \<or> list_ex (\<lambda>(_, _, b). list_ex configures b) docs\<rparr>"
proof (induction docs arbitrary: p)
  case (Cons d docs)
  obtain u r b where d: "d = (u, r, b)" by (cases d)
  show ?case
    by (simp add: Cons.IH d pass_document_join join_pass_def body_pass_def Let_def Un_assoc)
qed simp

lemma candidates_set:
  "set (concat (map (\<lambda>(u, _, b). map (\<lambda>_. u) (filter P b)) docs)) = set (map fst (filter (\<lambda>(_, _, b). list_ex P b) docs))"
  by (induction docs) (auto simp: list_ex_iff)

lemma hd_sort: "ys \<noteq> [] \<Longrightarrow> hd (sort ys) = Min (set ys)"
proof -
  assume "ys \<noteq> []"
  then obtain z zs where z: "sort ys = z # zs" by (cases "sort ys") (auto dest: arg_cong [of _ _ length])
  then have "sorted (z # zs)" using sorted_sort [of ys] by simp
  then have "Min (set (z # zs)) = z" by (auto intro!: Min_eqI)
  moreover have "set ys = set (z # zs)" using arg_cong [OF z, of set] by simp
  ultimately show ?thesis by (simp add: z)
qed


text \<open>The first of the sorted candidates does not depend on how often each was recorded.\<close>

lemma least_candidate:
  fixes xs ys :: "'a::linorder list"
  assumes "set xs = set ys"
  shows "(case sort xs of [] \<Rightarrow> None | u # _ \<Rightarrow> Some u) = (case sort ys of [] \<Rightarrow> None | u # _ \<Rightarrow> Some u)"
proof (cases "xs = []")
  case False
  with assms have ne: "ys \<noteq> []" by auto
  have first: "(case sort zs of [] \<Rightarrow> None | u # _ \<Rightarrow> Some u) = Some (hd (sort zs))" if "zs \<noteq> []" for zs :: "'a::linorder list"
    using that by (cases "sort zs") (auto dest: arg_cong [of _ _ length])
  show ?thesis using hd_sort [OF False] hd_sort [OF ne] assms by (simp only: first [OF False] first [OF ne])
qed (use assms in simp)

text \<open>The literal sources of the module calls of the store, each with the document it is in.\<close>

definition module_calls :: "'e store \<Rightarrow> (string \<times> string) set" where
  "module_calls s = {(u, src). \<exists>d b. (u, d) \<in> set (documents s) \<and> body (d_parsed d) = Some b \<and> src \<in> set (module_source_literals b)}"

lemma source_points_at_iff: "source_points_at fs src caller target \<longleftrightarrow> local_source src
    \<and> (\<exists>dir c. caller = Some dir \<and> canonicalize fs (join_path dir src) = Some c \<and> canonicalize fs target = Some c)"
  by (auto simp: source_points_at_def split: option.splits)

lemma compute_is_root_iff: "compute_is_root fs s (Some p) \<longleftrightarrow>
    \<not> (\<exists>u src. (u, src) \<in> module_calls s \<and> parent_dir fs u \<noteq> Some p \<and> source_points_at fs src (parent_dir fs u) p)"
  by (fastforce simp: compute_is_root_def module_calls_def list_ex_iff split: option.splits)

lemma called_dirs_iff: "c \<in> set (called_dirs fs caller bo) \<longleftrightarrow> (\<exists>b dir src. bo = Some b \<and> caller = Some dir
    \<and> src \<in> set (module_source_literals b) \<and> local_source src \<and> canonicalize fs (join_path dir src) = Some c)"
  by (cases bo; cases caller) (auto simp: called_dirs_def in_map_filter split: if_splits)

lemma referenced_dirs_iff: "c \<in> referenced_dirs_in_workspace fs s \<longleftrightarrow> (\<exists>u src dir. (u, src) \<in> module_calls s
    \<and> local_source src \<and> parent_dir fs u = Some dir \<and> canonicalize fs (join_path dir src) = Some c)"
proof -
  have "c \<in> referenced_dirs_in_workspace fs s \<longleftrightarrow>
      (\<exists>u d. (u, d) \<in> set (documents s) \<and> c \<in> set (called_dirs fs (parent_dir fs u) (body (d_parsed d))))"
    by (auto simp: referenced_dirs_in_workspace_def)
  then show ?thesis unfolding called_dirs_iff module_calls_def by fast
qed

text \<open>No document of the module at \<open>dir\<close> calls the module itself.\<close>

definition calls_itself :: "file_sys \<Rightarrow> 'e store \<Rightarrow> path option \<Rightarrow> bool" where
  "calls_itself fs s dir \<longleftrightarrow> (\<exists>p. dir = Some p
     \<and> (\<exists>u src. (u, src) \<in> module_calls s \<and> parent_dir fs u = Some p \<and> source_points_at fs src (Some p) p))"

lemma is_root_via_referenced:
  assumes "\<not> calls_itself fs s dir"
  shows "is_root_via_set fs dir (referenced_dirs_in_workspace fs s) = compute_is_root fs s dir"
proof (cases dir)
  case (Some p)
  have "is_root_via_set fs dir (referenced_dirs_in_workspace fs s) \<longleftrightarrow>
      \<not> (\<exists>u src. (u, src) \<in> module_calls s \<and> source_points_at fs src (parent_dir fs u) p)"
    by (auto simp: is_root_via_set_def Some referenced_dirs_iff source_points_at_iff split: option.splits)
  also have "\<dots> \<longleftrightarrow> compute_is_root fs s dir"
    using assms unfolding Some compute_is_root_iff calls_itself_def by (metis option.inject)
  finally show ?thesis .
qed (simp add: is_root_via_set_def compute_is_root_def)


lemma snapshot_applyable: "has_applyable_config (snapshot_build fs s dir referenced) = module_has_applyable_config fs s dir"
  by (simp add: snapshot_build_def Let_def pass_document_fold empty_pass_def module_has_applyable_config_def)

lemma map_filter_cong: "(\<And>x. x \<in> set xs \<Longrightarrow> f x = g x) \<Longrightarrow> List.map_filter f xs = List.map_filter g xs"
  by (induction xs) (simp_all add: List.map_filter_def)

text \<open>
  A location of the reference index belongs to a document of the store, so where links do not matter to the
  documents of the store they do not matter to the index either.
\<close>

lemma filed_member:
  "l \<in># filed_under f s k \<longleftrightarrow> (\<exists>u d. (u, d) \<in> set (documents s) \<and> (k, l) \<in> set (f d))"
proof -
  have "l \<in># filed_under f s k \<longleftrightarrow> (k, l) \<in># document_entries f (documents s)"
    unfolding filed_under_def count_greater_zero_iff [symmetric] count_filed ..
  also have "\<dots> \<longleftrightarrow> (k, l) \<in> set (concat (map (\<lambda>ud. f (snd ud)) (documents s)))"
    by (simp add: document_entries_def case_prod_beta)
  finally show ?thesis by force
qed

lemma located:
  assumes "store_ok s"
  shows "l \<in> set (locations_at (references_by_name s) k) \<longleftrightarrow>
      (\<exists>u d. (u, d) \<in> set (documents s) \<and> (k, l) \<in> set (document_references d))"
    "l \<in> set (locations_at (definitions_by_name s) k) \<longleftrightarrow>
      (\<exists>u d. (u, d) \<in> set (documents s) \<and> (k, l) \<in> set (document_definitions d))"
  using assms locations_filed [of "references_by_name s" document_references s k]
    locations_filed [of "definitions_by_name s" document_definitions s k]
  by (metis (no_types, lifting) filed_member indexed_def set_mset_mset store_ok_def)+

lemma has_ref_iff: "has_ref fs s dir k \<longleftrightarrow> (\<exists>l \<in> set (locations_at (references_by_name s) k).
    case dir of Some d \<Rightarrow> location_in_dir fs l d | None \<Rightarrow> True)"
  by (auto simp: has_ref_def locations_at_def list_ex_iff ex_in_conv split: option.splits)

lemma snapshot_has_ref_iff: "snapshot_has_ref fs s snap k \<longleftrightarrow> (\<exists>l \<in> set (locations_at (references_by_name s) k).
    case snap_dir snap of Some d \<Rightarrow> parent_dir fs (loc_uri l) = Some d | None \<Rightarrow> True)"
  by (auto simp: snapshot_has_ref_def locations_at_def list_ex_iff ex_in_conv split: option.splits)

definition reached_by_link :: "file_sys \<Rightarrow> 'e store \<Rightarrow> path option \<Rightarrow> bool" where
  "reached_by_link fs s dir \<longleftrightarrow> (\<exists>p q u d. dir = Some p \<and> (u, d) \<in> set (documents s)
     \<and> parent_dir fs u = Some q \<and> q \<noteq> p \<and> dir_paths_match fs q p)"

lemma references_agree:
  assumes "store_ok s" "\<not> reached_by_link fs s dir" "snap_dir snap = dir"
  shows "snapshot_has_ref fs s snap k = has_ref fs s dir k"
proof -
  have "(case dir of Some p \<Rightarrow> parent_dir fs (loc_uri l) = Some p | None \<Rightarrow> True)
      = (case dir of Some p \<Rightarrow> location_in_dir fs l p | None \<Rightarrow> True)"
    if "l \<in> set (locations_at (references_by_name s) k)" for l
  proof -
    from that located(1) [OF assms(1)] obtain u d where d: "(u, d) \<in> set (documents s)" "(k, l) \<in> set (document_references d)"
      by blast
    then have "loc_uri l = u" using assms(1) references_uri [of d k l]
      by (auto simp: store_ok_def documents_ok_def list_all_iff)
    with d(1) assms(2) have "parent_dir fs (loc_uri l) = Some q \<Longrightarrow> dir = Some p \<Longrightarrow> dir_paths_match fs q p \<Longrightarrow> q = p" for p q
      unfolding reached_by_link_def by blast
    then show ?thesis by (auto simp: location_in_dir_def dir_paths_match_def [of _ p p for p] split: option.splits)
  qed
  then show ?thesis by (simp add: snapshot_has_ref_iff has_ref_iff assms(3))
qed


text \<open>
  C4. A bulk scan lints with what it computed once per module, a single request asks the store. Both get the
  same answers: the snapshot, whether it was built with the set of called directories or without, agrees
  with the adapter on every question, as long as no document of the workspace lies in the module through a
  symbolic link and the module does not call itself.
\<close>

theorem snapshot_agrees:
  assumes "store_reachable F s" "\<not> reached_by_link fs s dir" "\<not> calls_itself fs s dir"
    "referenced \<in> {None, Some (referenced_dirs_in_workspace fs s)}"
  shows "cached_module_lookup fs s (snapshot_build fs s dir referenced) uri = module_graph_adapter fs s dir uri"
proof -
  let ?docs = "module_bodies fs s dir"
  note p = pass_document_fold [of empty_pass ?docs]
  have primary: "(case (case sort (ps_candidates (foldl pass_document empty_pass ?docs)) of [] \<Rightarrow> None | u # _ \<Rightarrow> Some u) of
      Some u \<Rightarrow> u = uri | None \<Rightarrow> False) = adapter_is_primary fs s dir uri"
  proof -
    let ?ys = "map fst (filter (\<lambda>(_, _, b). list_ex (is_block ''terraform'') b) ?docs)"
    have "set (ps_candidates (foldl pass_document empty_pass ?docs)) = set ?ys"
      unfolding p by (simp add: empty_pass_def candidates_set del: set_concat set_map set_filter)
    from least_candidate [OF this] show ?thesis
      by (simp add: adapter_is_primary_def split: list.splits)
  qed
  have root: "is_root (snapshot_build fs s dir referenced) = compute_is_root fs s dir"
    using assms(4) is_root_via_referenced [OF assms(3)] by (auto simp: snapshot_build_def Let_def)
  have "snap_dir (snapshot_build fs s dir referenced) = dir" by (simp add: snapshot_build_def Let_def)
  note refs = references_agree [OF store_reachable_ok [OF assms(1)] assms(2) this]
  show ?thesis
    unfolding cached_module_lookup_def module_graph_adapter_def refs root
    using primary p
    by (simp add: snapshot_build_def Let_def empty_pass_def adapter_provider_locals_def module_has_applyable_config_def)
qed

end
