(* ===== verification/ModuleRules.thy ===== *)
theory ModuleRules
  imports ModuleGraph
begin

text \<open>
  The rules that look beyond the file they lint: \<^verbatim>\<open>references.rs\<close>, \<^verbatim>\<open>unused_declarations.rs\<close>,
  \<^verbatim>\<open>typed_variables.rs\<close>, \<^verbatim>\<open>unused_required_providers.rs\<close>, \<^verbatim>\<open>required_providers_version.rs\<close>,
  \<^verbatim>\<open>required_version_presence.rs\<close> and \<^verbatim>\<open>standard_module_structure.rs\<close> of \<^verbatim>\<open>crates/tfls-diag/src/\<close>,
  and how \<^verbatim>\<open>crates/tfls-engine/src/pipeline.rs\<close> resolves a reference in the store.
\<close>

section \<open>Undefined references\<close>

definition undefined_warning :: "reference \<Rightarrow> string \<Rightarrow> string \<Rightarrow> diagnostic" where
  "undefined_warning r missing_kind n =
     \<lparr>dg_range = location_range (ref_location r), dg_severity = SevWarning,
      dg_message = ''undefined '' @ missing_kind @ '' `'' @ n @ ''`'', dg_tags = []\<rparr>"

definition check_reference :: "(reference_kind \<Rightarrow> bool) \<Rightarrow> reference \<Rightarrow> diagnostic option" where
  "check_reference resolver r =
     (case ref_kind r of
        RefVariable n \<Rightarrow> if \<not> resolver (ref_kind r) then Some (undefined_warning r ''variable'' n) else None
      | RefLocal n \<Rightarrow> if \<not> resolver (ref_kind r) then Some (undefined_warning r ''local'' n) else None
      | RefModule n \<Rightarrow> if \<not> resolver (ref_kind r) then Some (undefined_warning r ''module'' n) else None
      | _ \<Rightarrow> None)"

definition undefined_reference_diagnostics :: "reference list \<Rightarrow> (reference_kind \<Rightarrow> bool) \<Rightarrow> diagnostic list" where
  "undefined_reference_diagnostics refs resolver = List.map_filter (check_reference resolver) refs"

definition undefined_reference_diagnostics_for_document :: "reference list \<Rightarrow> symbol_table \<Rightarrow> diagnostic list" where
  "undefined_reference_diagnostics_for_document refs t = undefined_reference_diagnostics refs (\<lambda>k.
     (case k of
        RefVariable n \<Rightarrow> hm_get (variables t) n \<noteq> None
      | RefLocal n \<Rightarrow> hm_get (locals t) n \<noteq> None
      | RefModule n \<Rightarrow> hm_get (modules t) n \<noteq> None
      | _ \<Rightarrow> True))"

definition defined_in_current_doc :: "symbol_table \<Rightarrow> reference_kind \<Rightarrow> bool" where
  "defined_in_current_doc t k =
     (case k of
        RefVariable n \<Rightarrow> hm_get (variables t) n \<noteq> None
      | RefLocal n \<Rightarrow> hm_get (locals t) n \<noteq> None
      | RefModule n \<Rightarrow> hm_get (modules t) n \<noteq> None
      | _ \<Rightarrow> False)"

definition is_defined_in_module :: "file_sys \<Rightarrow> 'e store \<Rightarrow> path option \<Rightarrow> reference_kind \<Rightarrow> bool" where
  "is_defined_in_module fs s dir k =
     (let look = (\<lambda>key.
        (case hm_get (definitions_by_name s) key of
           None \<Rightarrow> False
         | Some locs \<Rightarrow>
             (case dir of
                None \<Rightarrow> locs \<noteq> []
              | Some d \<Rightarrow> list_ex (\<lambda>l. location_in_dir fs l d) locs))) in
      case k of
        RefVariable n \<Rightarrow> look \<lparr>key_kind = Variable, key_name = n\<rparr>
      | RefLocal n \<Rightarrow> look \<lparr>key_kind = Local, key_name = n\<rparr>
      | RefModule n \<Rightarrow> look \<lparr>key_kind = Module, key_name = n\<rparr>
      | _ \<Rightarrow> True)"

text \<open>The part of \<open>compute_diagnostics_with_lookup\<close> that reports undefined references of a document.\<close>

definition resolving_dir :: "file_sys \<Rightarrow> string \<Rightarrow> path option" where
  "resolving_dir fs u = (if is_tftest_uri u then module_under_test_dir fs u else parent_dir fs u)"

definition undefined_references :: "file_sys \<Rightarrow> 'e store \<Rightarrow> string \<Rightarrow> diagnostic list" where
  "undefined_references fs s u =
     (case hm_get (documents s) u of
        None \<Rightarrow> []
      | Some d \<Rightarrow>
          if has_errors (d_parsed d) then []
          else undefined_reference_diagnostics (d_references d)
            (\<lambda>k. defined_in_current_doc (d_symbols d) k \<or> is_defined_in_module fs s (resolving_dir fs u) k))"

section \<open>Unused declarations\<close>

definition push_diagnostic :: "severity \<Rightarrow> diagnostic_tag list \<Rightarrow> rope \<Rightarrow> span option \<Rightarrow> string \<Rightarrow> diagnostic list may_panic" where
  "push_diagnostic sev tags rope sp msg = do {
     rg \<leftarrow> span_or_default rope sp;
     Some [\<lparr>dg_range = rg, dg_severity = sev, dg_message = msg, dg_tags = tags\<rparr>] }"

definition check_variable :: "rope \<Rightarrow> module_graph \<Rightarrow> span option \<Rightarrow> ident list \<Rightarrow> diagnostic list may_panic" where
  "check_variable rope g ks labels =
     (case labels of
        [] \<Rightarrow> Some []
      | l # _ \<Rightarrow>
          if variable_is_referenced g (fst l) then Some []
          else if \<not> is_applyable_root g then Some []
          else push_diagnostic SevWarning [Unnecessary] rope ks (''variable `'' @ fst l @ ''` is declared but not used''))"

definition check_local :: "rope \<Rightarrow> module_graph \<Rightarrow> body_item \<Rightarrow> diagnostic list may_panic" where
  "check_local rope g item =
     (case item of
        Attribute (n, ks) _ _ _ \<Rightarrow>
          if local_is_referenced g n then Some []
          else push_diagnostic SevWarning [Unnecessary] rope ks (''local `'' @ n @ ''` is declared but not used'')
      | Block _ _ _ _ \<Rightarrow> Some [])"

definition check_data :: "rope \<Rightarrow> module_graph \<Rightarrow> span option \<Rightarrow> ident list \<Rightarrow> diagnostic list may_panic" where
  "check_data rope g ks labels =
     (case labels of
        t # n # _ \<Rightarrow>
          if data_source_is_referenced g (fst t) (fst n) then Some []
          else push_diagnostic SevWarning [Unnecessary] rope ks
            (''data `'' @ fst t @ ''.'' @ fst n @ ''` is declared but not used'')
      | _ \<Rightarrow> Some [])"

definition unused_in_item :: "rope \<Rightarrow> module_graph \<Rightarrow> body_item \<Rightarrow> diagnostic list may_panic" where
  "unused_in_item rope g item =
     (case item of
        Attribute _ _ _ _ \<Rightarrow> Some []
      | Block _ (kw, ks) labels inner \<Rightarrow>
          if kw = ''variable'' then check_variable rope g ks labels
          else if kw = ''locals'' then concat_may (map (check_local rope g) inner)
          else if kw = ''data'' then check_data rope g ks labels
          else Some [])"

definition unused_declarations_diagnostics :: "body \<Rightarrow> rope \<Rightarrow> module_graph \<Rightarrow> diagnostic list may_panic" where
  "unused_declarations_diagnostics b rope g =
     (if \<not> is_root_module g then Some [] else concat_may (map (unused_in_item rope g) b))"

section \<open>Variables without a type\<close>

definition first_label_or :: "ident list \<Rightarrow> string" where
  "first_label_or labels = (case labels of [] \<Rightarrow> ''?'' | l # _ \<Rightarrow> fst l)"

definition untyped_in_item :: "rope \<Rightarrow> module_graph option \<Rightarrow> body_item \<Rightarrow> diagnostic list may_panic" where
  "untyped_in_item rope g item =
     (case item of
        Attribute _ _ _ _ \<Rightarrow> Some []
      | Block _ (kw, ks) labels inner \<Rightarrow>
          if kw \<noteq> ''variable'' then Some []
          else if list_ex (is_attr ''type'') inner then Some []
          else (let n = first_label_or labels in
            if (case g of Some g' \<Rightarrow> is_root_module g' \<and> \<not> variable_is_referenced g' n | None \<Rightarrow> False) then Some []
            else push_diagnostic SevWarning [] rope ks (''`'' @ n @ ''` variable has no type'')))"

definition typed_variables_diagnostics :: "body \<Rightarrow> rope \<Rightarrow> module_graph option \<Rightarrow> diagnostic list may_panic" where
  "typed_variables_diagnostics b rope g = concat_may (map (untyped_in_item rope g) b)"

section \<open>Required providers and versions\<close>

definition unused_provider :: "rope \<Rightarrow> string set \<Rightarrow> body_item \<Rightarrow> diagnostic list may_panic" where
  "unused_provider rope used entry =
     (case entry of
        Attribute (n, ks) _ _ _ \<Rightarrow>
          if n \<in> used then Some []
          else push_diagnostic SevWarning [Unnecessary] rope ks
            (''provider `'' @ n @ ''` is declared in required_providers but not used'')
      | Block _ _ _ _ \<Rightarrow> Some [])"

definition unused_required_providers_diagnostics :: "body \<Rightarrow> rope \<Rightarrow> module_graph \<Rightarrow> diagnostic list may_panic" where
  "unused_required_providers_diagnostics b rope g =
     concat_may (map (unused_provider rope (used_provider_locals g)) (provider_entries b))"

definition unversioned_provider :: "rope \<Rightarrow> string set \<Rightarrow> body_item \<Rightarrow> diagnostic list may_panic" where
  "unversioned_provider rope versioned entry =
     (case entry of
        Attribute (n, _) (EObject _ fs) _ sp \<Rightarrow>
          if versioned_entry entry \<noteq> None then Some []
          else if n \<in> versioned then Some []
          else push_diagnostic SevWarning [] rope sp (''provider `'' @ n @ ''` should declare a `version` constraint'')
      | _ \<Rightarrow> Some [])"

definition required_providers_version_diagnostics :: "body \<Rightarrow> rope \<Rightarrow> module_graph \<Rightarrow> diagnostic list may_panic" where
  "required_providers_version_diagnostics b rope g =
     concat_may (map (unversioned_provider rope (providers_with_version_set g)) (provider_entries b))"

definition required_version_presence_diagnostics :: "body \<Rightarrow> rope \<Rightarrow> module_graph \<Rightarrow> diagnostic list may_panic" where
  "required_version_presence_diagnostics b rope g =
     (if module_has_required_version g then Some []
      else if \<not> is_primary_terraform_doc g then Some []
      else (case filter (is_block ''terraform'') b of
              Block _ (_, ks) _ _ # _ \<Rightarrow>
                push_diagnostic SevWarning [] rope ks ''terraform \"required_version\" attribute is required''
            | _ \<Rightarrow> Some []))"

section \<open>The standard file layout\<close>

definition should_flag :: "string \<Rightarrow> string \<Rightarrow> string set \<Rightarrow> bool" where
  "should_flag current expected present =
     (if current = expected then False else if expected \<notin> present then True else True)"

record structure_state =
  flagged_variable :: bool
  flagged_output :: bool
  st_out :: "diagnostic list"

definition structure_step :: "rope \<Rightarrow> string \<Rightarrow> string set \<Rightarrow> structure_state \<Rightarrow> body_item \<Rightarrow> structure_state may_panic" where
  "structure_step rope current present st item =
     (case item of
        Attribute _ _ _ _ \<Rightarrow> Some st
      | Block _ (kw, ks) _ _ \<Rightarrow>
          if kw = ''variable'' then
            (if flagged_variable st then Some st
             else if should_flag current ''variables.tf'' present then do {
               ds \<leftarrow> push_diagnostic SevWarning [] rope ks ''variable declarations should live in `variables.tf`'';
               Some (st\<lparr>flagged_variable := True, st_out := st_out st @ ds\<rparr>) }
             else Some st)
          else if kw = ''output'' then
            (if flagged_output st then Some st
             else if should_flag current ''outputs.tf'' present then do {
               ds \<leftarrow> push_diagnostic SevWarning [] rope ks ''output declarations should live in `outputs.tf`'';
               Some (st\<lparr>flagged_output := True, st_out := st_out st @ ds\<rparr>) }
             else Some st)
          else Some st)"

definition standard_module_structure_diagnostics :: "body \<Rightarrow> rope \<Rightarrow> string \<Rightarrow> module_graph \<Rightarrow> diagnostic list may_panic" where
  "standard_module_structure_diagnostics b rope current g =
     map_option st_out (fold_may (structure_step rope current (present_files g))
       \<lparr>flagged_variable = False, flagged_output = False, st_out = []\<rparr> b)"


section \<open>What resolution means\<close>

text \<open>The documents that resolve references for a document: its own, and those of the directory.\<close>

definition in_scope :: "file_sys \<Rightarrow> string \<Rightarrow> string \<Rightarrow> bool" where
  "in_scope fs u u' \<longleftrightarrow> u' = u \<or> (case resolving_dir fs u of
     Some d \<Rightarrow> (\<exists>p. parent_dir fs u' = Some p \<and> dir_paths_match fs p d) | None \<Rightarrow> True)"

definition declared_in_scope :: "file_sys \<Rightarrow> 'e store \<Rightarrow> string \<Rightarrow> reference_kind \<Rightarrow> bool" where
  "declared_in_scope fs s u k \<longleftrightarrow> (\<exists>u' d. (u', d) \<in> set (documents s) \<and> in_scope fs u u' \<and> defined_in_current_doc (d_symbols d) k)"

text \<open>The kinds of reference the rule reports on.\<close>

definition checkable :: "reference_kind \<Rightarrow> bool" where
  "checkable k \<longleftrightarrow> (case k of RefResource _ _ \<Rightarrow> False | RefDataSource _ _ \<Rightarrow> False | _ \<Rightarrow> True)"

lemma keyed_by_name_iff:
  "(\<exists>l. (\<lparr>key_kind = kd, key_name = n\<rparr>, l) \<in> set (keyed_by_name kd' m)) \<longleftrightarrow> kd = kd' \<and> hm_get m n \<noteq> None"
  by (induction m) (auto simp: keyed_by_name_def hm_get_def)

lemma keyed_by_address_kind: "kd \<noteq> kd' \<Longrightarrow> (\<lparr>key_kind = kd, key_name = n\<rparr>, l) \<notin> set (keyed_by_address kd' m)"
  by (auto simp: keyed_by_address_def resource_key_def)

lemma definitions_key:
  assumes "checkable k"
  shows "(\<exists>l. (reference_key k, l) \<in> set (document_definitions d)) \<longleftrightarrow> defined_in_current_doc (d_symbols d) k"
proof -
  have "(\<exists>l. (\<lparr>key_kind = kd, key_name = n\<rparr>, l) \<in> set (document_definitions d)) \<longleftrightarrow>
      kd = Variable \<and> hm_get (variables (d_symbols d)) n \<noteq> None \<or> kd = Local \<and> hm_get (locals (d_symbols d)) n \<noteq> None
      \<or> kd = Output \<and> hm_get (outputs (d_symbols d)) n \<noteq> None \<or> kd = Module \<and> hm_get (modules (d_symbols d)) n \<noteq> None"
    if "kd \<noteq> Resource" "kd \<noteq> DataSource" for kd n
    using that by (simp add: document_definitions_def Let_def ex_disj_distrib keyed_by_name_iff keyed_by_address_kind)
  with assms show ?thesis
    by (cases k) (simp_all add: checkable_def reference_key_def defined_in_current_doc_def)
qed

lemma located_at:
  assumes "index_wf idx" "entries idx = document_entries f docs"
  shows "l \<in> set (locations_at idx k) \<longleftrightarrow> (\<exists>u d. (u, d) \<in> set docs \<and> (k, l) \<in> set (f d))"
proof -
  have "l \<in># mset (locations_at idx k) \<longleftrightarrow> (k, l) \<in># entries idx"
    unfolding count_greater_zero_iff [symmetric] using locations_entries [of idx k l] assms(1) by (simp add: index_wf_def)
  also have "\<dots> \<longleftrightarrow> (k, l) \<in> set (concat (map (\<lambda>ud. f (snd ud)) docs))"
    by (simp add: assms(2) document_entries_def case_prod_beta)
  finally show ?thesis by force
qed

lemma is_defined_iff:
  assumes "checkable k"
  shows "is_defined_in_module fs s dir k \<longleftrightarrow> (\<exists>l \<in> set (locations_at (definitions_by_name s) (reference_key k)).
    case dir of Some d \<Rightarrow> location_in_dir fs l d | None \<Rightarrow> True)"
  using assms
  by (cases k) (auto simp: checkable_def is_defined_in_module_def reference_key_def locations_at_def list_ex_iff ex_in_conv
      Let_def split: option.splits)

lemma resolves_iff:
  assumes "checkable k" "documents_ok docs" "index_wf (definitions_by_name s)"
    "entries (definitions_by_name s) = document_entries document_definitions docs"
  shows "is_defined_in_module fs s (resolving_dir fs u) k \<longleftrightarrow> (\<exists>u' d. (u', d) \<in> set docs
    \<and> (case resolving_dir fs u of Some p \<Rightarrow> (\<exists>q. parent_dir fs u' = Some q \<and> dir_paths_match fs q p) | None \<Rightarrow> True)
    \<and> defined_in_current_doc (d_symbols d) k)"
proof -
  have uri: "loc_uri l = u'" if "(u', d) \<in> set docs" "(k', l) \<in> set (document_definitions d)" for u' d k' l
    using that assms(2) definitions_uri [of d k' l] by (auto simp: documents_ok_def list_all_iff)
  have "is_defined_in_module fs s (resolving_dir fs u) k \<longleftrightarrow> (\<exists>u' d l. (u', d) \<in> set docs
      \<and> (reference_key k, l) \<in> set (document_definitions d)
      \<and> (case resolving_dir fs u of Some p \<Rightarrow> location_in_dir fs l p | None \<Rightarrow> True))"
    unfolding is_defined_iff [OF assms(1)] Bex_def located_at [OF assms(3,4)] by blast
  also have "\<dots> \<longleftrightarrow> (\<exists>u' d l. (u', d) \<in> set docs \<and> (reference_key k, l) \<in> set (document_definitions d)
      \<and> (case resolving_dir fs u of Some p \<Rightarrow> (\<exists>q. parent_dir fs u' = Some q \<and> dir_paths_match fs q p) | None \<Rightarrow> True))"
  proof -
    have "(case resolving_dir fs u of Some p \<Rightarrow> location_in_dir fs l p | None \<Rightarrow> True)
        = (case resolving_dir fs u of Some p \<Rightarrow> (\<exists>q. parent_dir fs u' = Some q \<and> dir_paths_match fs q p) | None \<Rightarrow> True)"
      if "(u', d) \<in> set docs" "(k', l) \<in> set (document_definitions d)" for u' d k' l
      by (simp add: location_in_dir_def uri [OF that] split: option.splits)
    then show ?thesis by (metis (no_types, lifting))
  qed
  finally show ?thesis using definitions_key [OF assms(1)] by blast
qed

definition undefined_in :: "file_sys \<Rightarrow> 'e store \<Rightarrow> string \<Rightarrow> reference list \<Rightarrow> diagnostic list" where
  "undefined_in fs s u refs = undefined_reference_diagnostics refs (declared_in_scope fs s u)"

lemma undefined_cong:
  "(\<And>k. checkable k \<Longrightarrow> f k = g k) \<Longrightarrow> undefined_reference_diagnostics refs f = undefined_reference_diagnostics refs g"
  unfolding undefined_reference_diagnostics_def
  by (rule map_filter_cong) (auto simp: check_reference_def checkable_def split: reference_kind.splits)

text \<open>
  What is reported is settled by the documents, as soon as the index holds the documents other than the
  linted one: whether that document's own entries are in the index at the time does not matter.
\<close>

lemma undefined_references_eq:
  assumes "store_ok s" "hm_get (documents s) u = Some d" "\<not> has_errors (d_parsed d)"
    "documents s' = documents s" "indexed s' docs" "docs \<in> {documents s, hm_remove u (documents s)}"
  shows "undefined_references fs s' u = undefined_reference_diagnostics (d_references d) (declared_in_scope fs s u)"
proof -
  have "documents_ok docs" using assms(1,6) by (auto simp: store_ok_def hm_remove_ok)
  note res = resolves_iff [OF _ this]
  have idx: "index_wf (definitions_by_name s')" "entries (definitions_by_name s') = document_entries document_definitions docs"
    using assms(5) by (simp_all add: indexed_def)
  have own: "(u, d') \<in> set (documents s) \<longleftrightarrow> d' = d" for d'
    using assms(1) hm_get_in [OF assms(2)] eq_key_imp_eq_value [of "documents s" u d d']
    by (auto simp: store_ok_def documents_ok_def hm_ok_def)
  have "defined_in_current_doc (d_symbols d) k \<or> is_defined_in_module fs s' (resolving_dir fs u) k
      \<longleftrightarrow> declared_in_scope fs s u k" if "checkable k" for k
    unfolding res [OF that idx] declared_in_scope_def in_scope_def using assms(6) own
    by (auto simp: set_hm_remove split: option.splits) metis+
  then have "undefined_reference_diagnostics (d_references d)
      (\<lambda>k. defined_in_current_doc (d_symbols d) k \<or> is_defined_in_module fs s' (resolving_dir fs u) k)
    = undefined_reference_diagnostics (d_references d) (declared_in_scope fs s u)"
    by (rule undefined_cong)
  then show ?thesis by (simp add: undefined_references_def assms(2,3,4))
qed

text \<open>
  C3. In every reachable store, a reference to a variable, a local or a module of a cleanly parsed document
  is reported as undefined exactly when no document of its scope declares the name, the document itself
  included: nothing declared is reported and nothing undeclared is missed.
\<close>

theorem undefined_reference_exact:
  assumes "store_reachable F s" "hm_get (documents s) u = Some d" "\<not> has_errors (d_parsed d)"
  shows "undefined_references fs s u = List.map_filter (\<lambda>r.
     if declared_in_scope fs s u (ref_kind r) then None
     else (case ref_kind r of
             RefVariable n \<Rightarrow> Some (undefined_warning r ''variable'' n)
           | RefLocal n \<Rightarrow> Some (undefined_warning r ''local'' n)
           | RefModule n \<Rightarrow> Some (undefined_warning r ''module'' n)
           | _ \<Rightarrow> None)) (d_references d)"
  using undefined_references_eq [OF store_reachable_ok [OF assms(1)] assms(2,3) refl] store_reachable_ok [OF assms(1)]
  by (auto simp: store_ok_def undefined_reference_diagnostics_def check_reference_def intro!: map_filter_cong
      split: reference_kind.splits)

text \<open>
  An edit takes the entries of a document out of the indexes before it puts the new ones back, and a
  request for diagnostics may run in between. It sees no reference of that document as undefined that is
  defined: it reports exactly what it would report with the entries in place.
\<close>

theorem no_undefined_flash:
  assumes "store_reachable F s" "hm_get (documents s) u = Some d"
  shows "undefined_references fs (remove_from_indexes u s) u = undefined_references fs s u"
proof (cases "has_errors (d_parsed d)")
  case False
  note ok = store_reachable_ok [OF assms(1)]
  have "documents_ok (documents s)" "indexed s (documents s)" using ok by (simp_all add: store_ok_def)
  with undefined_references_eq [OF ok assms(2) False refl, of "documents s"]
    undefined_references_eq [OF ok assms(2) False _ remove_from_indexes_ok [OF ok, of u]]
  show ?thesis by simp
qed (simp add: undefined_references_def assms(2))


section \<open>What counts as unused\<close>

text \<open>What a file declares that the rule looks at, named by the reference that would use it.\<close>

definition local_declared :: "body_item \<Rightarrow> reference_kind set" where
  "local_declared item = (case item of Attribute (n, _) _ _ _ \<Rightarrow> {RefLocal n} | Block _ _ _ _ \<Rightarrow> {})"

definition item_declares :: "body_item \<Rightarrow> reference_kind set" where
  "item_declares item =
     (case item of
        Attribute _ _ _ _ \<Rightarrow> {}
      | Block _ (kw, _) labels inner \<Rightarrow>
          if kw = ''variable'' then (case labels of [] \<Rightarrow> {} | l # _ \<Rightarrow> {RefVariable (fst l)})
          else if kw = ''locals'' then \<Union> (local_declared ` set inner)
          else if kw = ''data'' then (case labels of t # n # _ \<Rightarrow> {RefDataSource (fst t) (fst n)} | _ \<Rightarrow> {})
          else {})"

definition referenced_in :: "module_graph \<Rightarrow> reference_kind \<Rightarrow> bool" where
  "referenced_in g k =
     (case k of
        RefVariable n \<Rightarrow> variable_is_referenced g n
      | RefLocal n \<Rightarrow> local_is_referenced g n
      | RefDataSource t n \<Rightarrow> data_source_is_referenced g t n
      | _ \<Rightarrow> True)"

definition unused_message :: "reference_kind \<Rightarrow> string" where
  "unused_message k =
     (case k of
        RefVariable n \<Rightarrow> ''variable `'' @ n
      | RefLocal n \<Rightarrow> ''local `'' @ n
      | RefDataSource t n \<Rightarrow> ''data `'' @ t @ ''.'' @ n
      | _ \<Rightarrow> []) @ ''` is declared but not used''"

definition reportable :: "module_graph \<Rightarrow> reference_kind \<Rightarrow> bool" where
  "reportable g k \<longleftrightarrow> \<not> referenced_in g k \<and> (\<forall>n. k = RefVariable n \<longrightarrow> is_applyable_root g)"

lemma push_messages: "push_diagnostic sev tags rope sp msg = Some ds \<Longrightarrow> dg_message ` set ds = {msg}"
  by (auto simp: push_diagnostic_def bind_eq_Some_conv)

lemma concat_may_messages:
  assumes "concat_may (map f xs) = Some ds" "\<And>x ys. x \<in> set xs \<Longrightarrow> f x = Some ys \<Longrightarrow> dg_message ` set ys = M x"
  shows "dg_message ` set ds = (\<Union>x \<in> set xs. M x)"
  using assms
proof (induction xs arbitrary: ds)
  case (Cons x xs)
  then obtain a b where "f x = Some a" "concat_may (map f xs) = Some b" "ds = a @ b" by (auto simp: bind_eq_Some_conv)
  moreover have "dg_message ` set a = M x" by (rule Cons.prems(2)) (simp_all add: calculation)
  moreover have "dg_message ` set b = (\<Union>x \<in> set xs. M x)"
    using Cons.prems(2) by (intro Cons.IH) (simp_all add: calculation)
  ultimately show ?case by (simp add: image_Un)
qed simp

lemma UN_image_filter: "(\<Union>x \<in> A. f ` {k \<in> L x. P k}) = f ` {k \<in> \<Union> (L ` A). P k}"
  by blast

lemma unused_item_messages:
  assumes "unused_in_item rope g item = Some ds"
  shows "dg_message ` set ds = unused_message ` {k \<in> item_declares item. reportable g k}"
proof (cases item)
  case (Block sp ident labels inner)
  obtain kw ks where [simp]: "ident = (kw, ks)" by (cases ident)
  consider "kw = ''variable''" | "kw = ''locals''" | "kw = ''data''" | "kw \<notin> {''variable'', ''locals'', ''data''}" by blast
  then show ?thesis
  proof cases
    case 1
    then have kinds: "{k \<in> item_declares item. reportable g k} = (case labels of [] \<Rightarrow> {} | l # _ \<Rightarrow>
        if variable_is_referenced g (fst l) \<or> \<not> is_applyable_root g then {} else {RefVariable (fst l)})"
      by (cases labels) (auto simp: Block item_declares_def reportable_def referenced_in_def)
    have "check_variable rope g ks labels = Some ds" using assms 1 by (simp add: Block unused_in_item_def)
    then show ?thesis
      unfolding kinds
      by (cases labels) (auto simp: check_variable_def unused_message_def dest!: push_messages split: if_splits)
  next
    case 2
    let ?M = "\<lambda>i. unused_message ` {k \<in> local_declared i. reportable g k}"
    have each: "dg_message ` set ys = ?M i" if "check_local rope g i = Some ys" for i ys
    proof (cases i)
      case (Attribute nk v vs sp)
      obtain n nks where nk: "nk = (n, nks)" by (cases nk)
      have "{k \<in> local_declared i. reportable g k} = (if local_is_referenced g n then {} else {RefLocal n})"
        by (auto simp: Attribute nk local_declared_def reportable_def referenced_in_def)
      then show ?thesis
        using that push_messages [of SevWarning "[Unnecessary]" rope nks "''local `'' @ n @ ''` is declared but not used''" ys]
        by (simp add: Attribute nk check_local_def unused_message_def split: if_splits)
    qed (use that in \<open>simp add: check_local_def local_declared_def\<close>)
    have "concat_may (map (check_local rope g) inner) = Some ds" using assms 2 by (simp add: Block unused_in_item_def)
    from concat_may_messages [OF this, of ?M] each have "dg_message ` set ds = (\<Union>i \<in> set inner. ?M i)" by simp
    also have "\<dots> = unused_message ` {k \<in> item_declares item. reportable g k}"
      unfolding UN_image_filter using 2 by (simp add: Block item_declares_def)
    finally show ?thesis .
  next
    case 3
    then have kinds: "{k \<in> item_declares item. reportable g k} = (case labels of t # n # _ \<Rightarrow>
        if data_source_is_referenced g (fst t) (fst n) then {} else {RefDataSource (fst t) (fst n)} | _ \<Rightarrow> {})"
      by (cases labels rule: remdups_adj.cases) (auto simp: Block item_declares_def reportable_def referenced_in_def)
    have "check_data rope g ks labels = Some ds" using assms 3 by (simp add: Block unused_in_item_def)
    then show ?thesis
      unfolding kinds
      by (cases labels rule: remdups_adj.cases)
        (auto simp: check_data_def unused_message_def dest!: push_messages split: if_splits)
  next
    case 4
    with assms show ?thesis by (auto simp: Block unused_in_item_def item_declares_def)
  qed
qed (use assms in \<open>simp add: unused_in_item_def item_declares_def\<close>)

text \<open>A document of the module mentions \<open>k\<close>.\<close>

definition mentioned_in_module :: "file_sys \<Rightarrow> 'e store \<Rightarrow> path option \<Rightarrow> reference_kind \<Rightarrow> bool" where
  "mentioned_in_module fs s dir k \<longleftrightarrow> (\<exists>u d r. (u, d) \<in> set (documents s)
     \<and> (case dir of Some p \<Rightarrow> (\<exists>q. parent_dir fs u = Some q \<and> dir_paths_match fs q p) | None \<Rightarrow> True)
     \<and> r \<in> set (d_references d) \<and> reference_key (ref_kind r) = reference_key k)"

lemma has_ref_exact:
  assumes "store_ok s"
  shows "has_ref fs s dir (reference_key k) \<longleftrightarrow> mentioned_in_module fs s dir k"
proof -
  have uri: "loc_uri l = u" if "(u, d) \<in> set (documents s)" "(k', l) \<in> set (document_references d)" for u d k' l
    using that assms references_uri [of d k' l] by (auto simp: store_ok_def documents_ok_def list_all_iff)
  have scope: "(case dir of Some p \<Rightarrow> location_in_dir fs l p | None \<Rightarrow> True)
      = (case dir of Some p \<Rightarrow> (\<exists>q. parent_dir fs u = Some q \<and> dir_paths_match fs q p) | None \<Rightarrow> True)"
    if "(u, d) \<in> set (documents s)" "(k', l) \<in> set (document_references d)" for u d k' l
    by (simp add: location_in_dir_def uri [OF that] split: option.splits)
  have "has_ref fs s dir (reference_key k) \<longleftrightarrow> (\<exists>u d l. (u, d) \<in> set (documents s)
      \<and> (reference_key k, l) \<in> set (document_references d) \<and> (case dir of Some p \<Rightarrow> location_in_dir fs l p | None \<Rightarrow> True))"
    unfolding has_ref_iff Bex_def located(1) [OF assms] by blast
  also have "\<dots> \<longleftrightarrow> (\<exists>u d. (u, d) \<in> set (documents s) \<and> (\<exists>l. (reference_key k, l) \<in> set (document_references d))
      \<and> (case dir of Some p \<Rightarrow> (\<exists>q. parent_dir fs u = Some q \<and> dir_paths_match fs q p) | None \<Rightarrow> True))"
    using scope by (metis (no_types, lifting))
  also have "\<dots> \<longleftrightarrow> mentioned_in_module fs s dir k"
    unfolding mentioned_in_module_def document_references_def by force
  finally show ?thesis .
qed

lemma local_declared_kind: "k \<in> local_declared i \<Longrightarrow> \<exists>n. k = RefLocal n"
  by (auto simp: local_declared_def split: body_item.splits)

lemma declared_kind:
  assumes "k \<in> item_declares item"
  obtains n where "k = RefVariable n" | n where "k = RefLocal n" | t n where "k = RefDataSource t n"
  using assms local_declared_kind
  by (fastforce simp: item_declares_def split: body_item.splits if_splits list.splits)

lemma adapter_referenced:
  assumes "store_ok s" "k \<in> item_declares item"
  shows "referenced_in (module_graph_adapter fs s dir u) k \<longleftrightarrow> mentioned_in_module fs s dir k"
  using assms(2)
proof (cases rule: declared_kind)
qed (use has_ref_exact [OF assms(1), of fs dir k] in
    \<open>simp_all add: referenced_in_def module_graph_adapter_def reference_key_def\<close>)



text \<open>
  The two rules about variables leave a gap. The warning about a missing type is withheld from a
  variable nobody mentions, because the other rule is to say that it is unused; but that rule is silent in a
  module that configures neither provider nor backend. In such a root module an untyped variable that is
  not mentioned gets no warning at all.
\<close>

theorem untyped_variable_unreported:
  assumes "store_reachable F s" "compute_is_root fs s dir" "\<not> module_has_applyable_config fs s dir"
    "\<not> mentioned_in_module fs s dir (RefVariable (fst l))"
  shows "typed_variables_diagnostics [Block sp (''variable'', ks) (l # ls) inner] rope
      (Some (module_graph_adapter fs s dir u)) = Some []
    \<and> unused_declarations_diagnostics [Block sp (''variable'', ks) (l # ls) inner] rope (module_graph_adapter fs s dir u) = Some []"
proof -
  have "\<not> variable_is_referenced (module_graph_adapter fs s dir u) (fst l)"
    using has_ref_exact [OF store_reachable_ok [OF assms(1)], of fs dir "RefVariable (fst l)"] assms(4)
    by (simp add: module_graph_adapter_def reference_key_def)
  with assms(2,3) show ?thesis
    by (simp add: typed_variables_diagnostics_def untyped_in_item_def first_label_or_def unused_declarations_diagnostics_def
        unused_in_item_def check_variable_def module_graph_adapter_def Let_def)
qed

section \<open>Concrete modules\<close>

text \<open>Every file URI names a path; \<open>/link\<close> is a symbolic link to \<open>/real\<close>.\<close>

definition linked_fs :: file_sys where
  "linked_fs = \<lparr>to_file_path = (\<lambda>u. Some (filter (\<lambda>c. c \<noteq> []) (split_on CHR ''/'' u))),
     canonicalize = (\<lambda>p. Some (if p = [''link''] then [''real''] else p)), read_dir = (\<lambda>_. None)\<rparr>"

definition ref_at :: "string \<Rightarrow> reference_kind \<Rightarrow> reference" where
  "ref_at u k = \<lparr>ref_kind = k, ref_location = location_new u default_range\<rparr>"

definition using_document :: "nat document" where
  "using_document = hydrated_from_cache ''/real/main.tf'' [97]
     (empty_table\<lparr>variables := [(''a'', sample_symbol\<lparr>sym_location := location_new ''/real/main.tf'' default_range\<rparr>)]\<rparr>)
     [ref_at ''/real/main.tf'' (RefVariable ''a''), ref_at ''/real/main.tf'' (RefLocal ''b'')]"

definition declaring_body :: body where
  "declaring_body = [Block None (''provider'', None) [(''aws'', None)] [], Block None (''variable'', None) [(''a'', None)] []]"

definition declaring_document :: "nat document" where
  "declaring_document = (hydrated_from_cache ''/link/variables.tf'' [97] empty_table [])
     \<lparr>d_parsed := \<lparr>body = Some declaring_body, errors = []\<rparr>\<rparr>"

definition using_store :: "nat store" where
  "using_store = upsert_document using_document store_new"

definition linked_store :: "nat store" where
  "linked_store = upsert_document declaring_document using_store"


lemma using_document_ok: "document_ok using_document"
  by (simp add: using_document_def hydrated_from_cache_def document_ok_def table_ok_def keyed_def within_def hm_ok_def
      empty_table_def sample_symbol_def scalar_def is_tftest_uri_def ends_with_def ref_at_def location_new_def)

lemma using_store_reachable: "store_reachable F using_store"
  unfolding using_store_def
  by (intro store_reachable.intros held_document.hydrated [OF using_document_def using_document_ok])

lemma using_store_documents: "documents using_store = [(''/real/main.tf'', using_document)]"
  by (simp add: using_store_def upsert_document_def add_to_indexes_def remove_from_indexes_def Let_def store_new_def
      hm_insert_def hm_get_def using_document_def hydrated_from_cache_def)

lemma using_document_simps:
  "d_references using_document = [ref_at ''/real/main.tf'' (RefVariable ''a''), ref_at ''/real/main.tf'' (RefLocal ''b'')]"
  "hm_get (variables (d_symbols using_document)) n \<noteq> None \<longleftrightarrow> n = ''a''"
  "hm_get (locals (d_symbols using_document)) n = None"
  "\<not> has_errors (d_parsed using_document)" "body (d_parsed using_document) = None"
  by (simp_all add: using_document_def hydrated_from_cache_def empty_table_def hm_get_def has_errors_def)

lemma using_store_document: "hm_get (documents using_store) ''/real/main.tf'' = Some using_document"
  by (simp add: using_store_documents hm_get_def)

definition missing_local :: diagnostic where
  "missing_local = undefined_warning (ref_at ''/real/main.tf'' (RefLocal ''b'')) ''local'' ''b''"

lemma undefined_reference_exact_witness:
  "undefined_references linked_fs using_store ''/real/main.tf'' = [missing_local]"
proof -
  have "declared_in_scope linked_fs using_store ''/real/main.tf'' (RefVariable ''a'')"
    "\<not> declared_in_scope linked_fs using_store ''/real/main.tf'' (RefLocal ''b'')"
    using using_document_simps(2) [of "''a''"]
    by (auto simp: declared_in_scope_def in_scope_def using_store_documents defined_in_current_doc_def using_document_simps(3))
  with undefined_reference_exact [OF using_store_reachable [of tiny_front] using_store_document using_document_simps(4), of linked_fs]
  show ?thesis by (simp add: using_document_simps(1) ref_at_def missing_local_def List.map_filter_def)
qed

lemma no_undefined_flash_witness:
  "undefined_references linked_fs (remove_from_indexes ''/real/main.tf'' using_store) ''/real/main.tf''
     = undefined_references linked_fs using_store ''/real/main.tf''"
  by (rule no_undefined_flash [OF using_store_reachable [of tiny_front] using_store_document])

lemma using_store_calls: "module_calls using_store = {}" "compute_is_root linked_fs using_store (Some [''real''])"
  by (simp_all add: module_calls_def using_store_documents using_document_simps compute_is_root_def)


lemma untyped_variable_unreported_witness:
  "typed_variables_diagnostics [Block None (''variable'', None) [(''x'', None)] []] []
     (Some (module_graph_adapter linked_fs using_store (Some [''real'']) ''/real/main.tf'')) = Some []"
proof -
  have "module_bodies linked_fs using_store (Some [''real'']) = []"
    by (simp add: module_bodies_def using_store_documents using_document_simps List.map_filter_def)
  moreover have "\<not> mentioned_in_module linked_fs using_store (Some [''real'']) (RefVariable ''x'')"
    by (auto simp: mentioned_in_module_def using_store_documents using_document_simps(1) ref_at_def reference_key_def)
  ultimately show ?thesis
    using untyped_variable_unreported [OF using_store_reachable [of tiny_front] using_store_calls(2), of "(''x'', None)"]
    by (simp add: module_has_applyable_config_def)
qed

lemma snapshot_agrees_witness:
  "cached_module_lookup linked_fs using_store (snapshot_build linked_fs using_store (Some [''real''])
       (Some (referenced_dirs_in_workspace linked_fs using_store))) ''/real/main.tf''
     = module_graph_adapter linked_fs using_store (Some [''real'']) ''/real/main.tf''"
proof (rule snapshot_agrees [OF using_store_reachable [of tiny_front]])
  show "\<not> reached_by_link linked_fs using_store (Some [''real''])"
    by (simp add: reached_by_link_def using_store_documents linked_fs_def parent_dir_def path_parent_def dir_paths_match_def)
  show "\<not> calls_itself linked_fs using_store (Some [''real''])"
    by (simp add: calls_itself_def using_store_calls)
qed simp


lemma linked_store_ok: "store_ok linked_store"
  unfolding linked_store_def
  by (intro upsert_document_ok store_reachable_ok [OF using_store_reachable])
    (simp add: declaring_document_def hydrated_from_cache_def document_ok_def table_ok_def keyed_def within_def hm_ok_def
      empty_table_def scalar_def is_tftest_uri_def ends_with_def)

lemma linked_store_documents:
  "documents linked_store = [(''/real/main.tf'', using_document), (''/link/variables.tf'', declaring_document)]"
  by (simp add: linked_store_def upsert_document_def add_to_indexes_def Let_def hm_insert_def using_store_documents
      declaring_document_def hydrated_from_cache_def)


lemma linked_variable_referenced: "has_ref linked_fs linked_store (Some [''link'']) \<lparr>key_kind = Variable, key_name = ''a''\<rparr>"
proof -
  have "mentioned_in_module linked_fs linked_store (Some [''link'']) (RefVariable ''a'')"
    unfolding mentioned_in_module_def
    by (rule exI [of _ "''/real/main.tf''"], rule exI [of _ using_document],
        rule exI [of _ "ref_at ''/real/main.tf'' (RefVariable ''a'')"])
      (simp add: linked_store_documents using_document_simps(1) ref_at_def linked_fs_def parent_dir_def path_parent_def
        dir_paths_match_def)
  then show ?thesis using has_ref_exact [OF linked_store_ok, of linked_fs "Some [''link'']" "RefVariable ''a''"]
    by (simp add: reference_key_def)
qed

lemma linked_variable_missed:
  assumes "snap_dir snap = Some [''link'']"
  shows "\<not> snapshot_has_ref linked_fs linked_store snap \<lparr>key_kind = Variable, key_name = ''a''\<rparr>"
proof
  assume "snapshot_has_ref linked_fs linked_store snap \<lparr>key_kind = Variable, key_name = ''a''\<rparr>"
  then obtain l where at: "l \<in> set (locations_at (references_by_name linked_store) \<lparr>key_kind = Variable, key_name = ''a''\<rparr>)"
    and dir: "parent_dir linked_fs (loc_uri l) = Some [''link'']"
    unfolding snapshot_has_ref_iff assms by auto
  from at located(1) [OF linked_store_ok] obtain u d where l: "(u, d) \<in> set (documents linked_store)"
    "(\<lparr>key_kind = Variable, key_name = ''a''\<rparr>, l) \<in> set (document_references d)" by blast
  then have "d = using_document"
    by (auto simp: linked_store_documents document_references_def declaring_document_def hydrated_from_cache_def)
  with l(2) have "loc_uri l = ''/real/main.tf''"
    by (auto simp: document_references_def using_document_simps(1) ref_at_def location_new_def)
  with dir show False by (simp add: linked_fs_def parent_dir_def path_parent_def)
qed

text \<open>
  Where a module is reached through a symbolic link the snapshot is wrong: it compares directories as
  they are written, so a mention in a file opened under the other name does not count, and the bulk scan
  reports the variable as unused where a request for the same file reports nothing.
\<close>

theorem linked_reference_missed:
  "store_ok linked_store
   \<and> unused_declarations_diagnostics declaring_body []
       (module_graph_adapter linked_fs linked_store (Some [''link'']) ''/link/variables.tf'') = Some []
   \<and> unused_declarations_diagnostics declaring_body []
       (cached_module_lookup linked_fs linked_store (snapshot_build linked_fs linked_store (Some [''link'']) None) ''/link/variables.tf'')
     = Some [\<lparr>dg_range = default_range, dg_severity = SevWarning, dg_message = ''variable `a` is declared but not used'',
         dg_tags = [Unnecessary]\<rparr>]"
proof -
  let ?snap = "snapshot_build linked_fs linked_store (Some [''link'']) None"
  have missed: "\<not> snapshot_has_ref linked_fs linked_store ?snap \<lparr>key_kind = Variable, key_name = ''a''\<rparr>"
    by (rule linked_variable_missed) (simp add: snapshot_build_def Let_def)
  have bodies: "module_bodies linked_fs linked_store (Some [''link'']) = [(''/link/variables.tf'', [97], declaring_body)]"
    by (simp add: module_bodies_def linked_store_documents using_document_simps declaring_document_def hydrated_from_cache_def
        in_module_def linked_fs_def parent_dir_def path_parent_def List.map_filter_def)
  have "compute_is_root linked_fs linked_store (Some [''link''])"
    by (simp add: compute_is_root_def linked_store_documents using_document_simps declaring_document_def hydrated_from_cache_def
        declaring_body_def module_source_literals_def List.map_filter_def)
  then have "is_root ?snap" "has_applyable_config ?snap"
    by (simp_all add: snapshot_applyable module_has_applyable_config_def bodies declaring_body_def configures_def)
      (simp add: snapshot_build_def Let_def)
  with missed linked_variable_referenced linked_store_ok show ?thesis
    by (simp add: unused_declarations_diagnostics_def module_graph_adapter_def cached_module_lookup_def declaring_body_def
        unused_in_item_def check_variable_def push_diagnostic_def span_or_default_def span_eval default_range_def Let_def)
qed

end
