(* ===== verification/GitSource.thy ===== *)
theory GitSource
  imports Diagnostics GitRef
begin

text \<open>
  Git sources of module blocks: \<^verbatim>\<open>crates/tfls-diag/src/git_source.rs\<close> (which sources are git, the ref they
  pin, the tag named in a comment on their line) and the edits that
  \<^verbatim>\<open>crates/tfls-lsp/src/handlers/code_action_git_ref.rs\<close> makes to them. How \<open>ropey\<close> cuts a text into lines
  is the parameter \<open>rope_line\<close>: the start of the line that holds a byte offset, and its text.
\<close>

type_synonym line_lookup = "rope \<Rightarrow> nat \<Rightarrow> (nat \<times> string) option"

section \<open>Whitespace at the start of a string\<close>

text \<open>The length of the white space character a string begins with, 0 for none.\<close>

definition whitespace_len :: "string \<Rightarrow> nat" where
  [rust_eval]: "whitespace_len s =
     (if whitespace_len_rev (rev (take 1 s)) = 1 then 1
      else if whitespace_len_rev (rev (take 2 s)) = 2 then 2
      else if whitespace_len_rev (rev (take 3 s)) = 3 then 3 else 0)"

function trim_start :: "string \<Rightarrow> string" where
  "trim_start s = (if s = [] \<or> whitespace_len s = 0 then s else trim_start (drop (whitespace_len s) s))"
  by pat_completeness auto
termination
  by (relation "measure length") (auto simp: whitespace_len_def split: if_splits)

declare trim_start.simps [simp del]

definition trim :: "string \<Rightarrow> string" where
  [rust_eval]: "trim s = trim_start (trim_end s)"

text \<open>\<open>split_whitespace\<close>.\<close>

fun until_whitespace :: "string \<Rightarrow> string" where
  "until_whitespace [] = []"
| "until_whitespace (c # s) = (if whitespace_len (c # s) \<noteq> 0 then [] else c # until_whitespace s)"

lemma trim_start_stops: "trim_start s = [] \<or> whitespace_len (trim_start s) = 0"
  by (induction s rule: trim_start.induct) (subst (1 2) trim_start.simps, auto)

lemma trim_start_length: "length (trim_start s) \<le> length s"
  by (induction s rule: trim_start.induct) (subst trim_start.simps, auto)

lemma until_whitespace_pos: "t \<noteq> [] \<Longrightarrow> whitespace_len t = 0 \<Longrightarrow> until_whitespace t \<noteq> []"
  by (cases t) auto

function split_whitespace :: "string \<Rightarrow> string list" where
  "split_whitespace s =
     (let t = trim_start s; w = until_whitespace t in
      if t = [] then [] else w # split_whitespace (drop (length w) t))"
  by pat_completeness auto
termination
proof (relation "measure length", simp)
  fix s t w
  assume t: "t = trim_start s" and w: "w = until_whitespace t" "t \<noteq> []"
  then have "0 < length w" "0 < length t"
    using trim_start_stops [of s] until_whitespace_pos [of t] by auto
  moreover have "length t \<le> length s" using t trim_start_length [of s] by simp
  ultimately show "(drop (length w) t, s) \<in> measure length" by (simp del: length_greater_0_conv)
qed

declare split_whitespace.simps [simp del]

definition first_word :: "string \<Rightarrow> string option" where
  "first_word s = (case split_whitespace s of [] \<Rightarrow> None | w # _ \<Rightarrow> Some w)"

section \<open>Sources and refs\<close>

definition is_git_source :: "string \<Rightarrow> bool" where
  "is_git_source src \<longleftrightarrow> (let t = trim src in
     starts_with t ''git::'' \<or> starts_with t ''github.com/'' \<or> starts_with t ''bitbucket.org/''
     \<or> ends_with t ''.git'' \<or> str_contains t ''.git?'' \<or> str_contains t ''.git#'')"

definition query_ref :: "string \<Rightarrow> string \<Rightarrow> (string \<times> span) option may_panic" where
  "query_ref marker src =
     (case str_find marker src of
        None \<Rightarrow> Some None
      | Some start \<Rightarrow>
          (let val_start = start + length marker in do {
             rest \<leftarrow> str_slice src val_start (length src);
             let e = val_start + (case str_find ''&'' rest of Some n \<Rightarrow> n | None \<Rightarrow> length rest);
             v \<leftarrow> str_slice src val_start e;
             Some (Some (v, (val_start, e))) }))"

definition ref_value_with_span :: "string \<Rightarrow> (string \<times> span) option may_panic" where
  "ref_value_with_span src = do {
     q \<leftarrow> query_ref ''?ref='' src;
     (case q of
        Some r \<Rightarrow> Some (Some r)
      | None \<Rightarrow> do {
          a \<leftarrow> query_ref ''&ref='' src;
          (case a of
             Some r \<Rightarrow> Some (Some r)
           | None \<Rightarrow>
               (case str_find ''#'' src of
                  None \<Rightarrow> Some None
                | Some h \<Rightarrow> do {
                    v \<leftarrow> str_slice src (h + 1) (length src);
                    Some (Some (v, (h + 1, length src))) })) }) }"

definition extract_ref :: "string \<Rightarrow> string option may_panic" where
  "extract_ref src = map_option (map_option fst) (ref_value_with_span src)"

definition ref_value_span :: "string \<Rightarrow> span option may_panic" where
  "ref_value_span src = map_option (map_option snd) (ref_value_with_span src)"

section \<open>Comments on the line\<close>

definition comment_marker :: "string \<Rightarrow> nat option" where
  "comment_marker tail = (case str_find ''//'' tail of Some m \<Rightarrow> Some m | None \<Rightarrow> str_find ''#'' tail)"

text \<open>The tag named after the first marker of a tail: \<open>&tail[marker..]\<close> starts at an ASCII byte.\<close>

definition tag_in_tail :: "string \<Rightarrow> string option" where
  "tag_in_tail tail =
     (case comment_marker tail of
        None \<Rightarrow> None
      | Some m \<Rightarrow> first_word (dropWhile (\<lambda>c. c = CHR ''/'') (dropWhile (\<lambda>c. c = CHR ''#'') (drop m tail))))"

definition line_tail :: "nat \<Rightarrow> string \<Rightarrow> nat \<Rightarrow> string may_panic" where
  "line_tail line_start line after = str_slice line (min (after - line_start) (length line)) (length line)"

definition trailing_comment_tag :: "line_lookup \<Rightarrow> rope \<Rightarrow> nat \<Rightarrow> string option may_panic" where
  "trailing_comment_tag rope_line rope after =
     (case rope_line rope after of
        None \<Rightarrow> Some None
      | Some (line_start, line) \<Rightarrow> map_option tag_in_tail (line_tail line_start line after))"

definition has_trailing_comment :: "line_lookup \<Rightarrow> rope \<Rightarrow> nat \<Rightarrow> bool may_panic" where
  "has_trailing_comment rope_line rope after =
     (case rope_line rope after of
        None \<Rightarrow> Some False
      | Some (line_start, line) \<Rightarrow>
          map_option (\<lambda>tail. str_contains tail ''#'' \<or> str_contains tail ''//'') (line_tail line_start line after))"

section \<open>Edits\<close>

record string_edit =
  te_range :: lsp_range
  te_text :: string

definition edit_between :: "rope \<Rightarrow> nat \<Rightarrow> nat \<Rightarrow> string \<Rightarrow> string_edit option may_panic" where
  "edit_between rope a b new_text = do {
     s \<leftarrow> byte_offset_to_lsp_position rope a;
     (case s of
        Inl _ \<Rightarrow> Some None
      | Inr start \<Rightarrow> do {
          e \<leftarrow> byte_offset_to_lsp_position rope b;
          Some (case e of
              Inl _ \<Rightarrow> None
            | Inr en \<Rightarrow> Some \<lparr>te_range = lsp_range_of (start, en), te_text = new_text\<rparr>) }) }"

definition ref_replacement_edit :: "rope \<Rightarrow> span \<Rightarrow> string \<Rightarrow> string \<Rightarrow> string_edit option may_panic" where
  "ref_replacement_edit rope value_span raw new_ref = do {
     sp \<leftarrow> ref_value_span raw;
     (case sp of
        None \<Rightarrow> Some None
      | Some (rs, re) \<Rightarrow> edit_between rope (fst value_span + 1 + rs) (fst value_span + 1 + re) new_ref) }"

text \<open>Where the comment goes in a line, and what is written there: the bytes replaced and the new text.\<close>

definition without_newline :: "string \<Rightarrow> string" where
  "without_newline line = rev (dropWhile (\<lambda>c. c = CHR 0x0A \<or> c = CHR 0x0D) (rev line))"

definition comment_place :: "string \<Rightarrow> nat \<Rightarrow> string \<Rightarrow> (nat \<times> nat \<times> string) may_panic" where
  "comment_place line offset tag =
     (let content_len = length (without_newline line); from = min offset content_len in do {
        tail \<leftarrow> str_slice line from content_len;
        Some (case comment_marker tail of
            Some m \<Rightarrow> (from + m, content_len, ''# '' @ tag)
          | None \<Rightarrow> (content_len, content_len, '' # '' @ tag)) })"

definition comment_edit :: "line_lookup \<Rightarrow> rope \<Rightarrow> nat \<Rightarrow> string \<Rightarrow> string_edit option may_panic" where
  "comment_edit rope_line rope after tag =
     (case rope_line rope after of
        None \<Rightarrow> Some None
      | Some (line_start, line) \<Rightarrow> do {
          (a, b, new_text) \<leftarrow> comment_place line (after - line_start) tag;
          edit_between rope (line_start + a) (line_start + b) new_text })"

section \<open>A ref can be replaced\<close>

lemma str_find_None: "str_find p s = None \<longleftrightarrow> (\<nexists>a b. s = a @ p @ b)"
  using str_contains_iff [of s p] by (auto simp: str_contains_def)

lemma str_find_short: "length s < length p \<Longrightarrow> str_find p s = None"
  by (auto simp: str_find_None)

lemma starts_with_prefix: "length p \<le> length s \<Longrightarrow> starts_with (s @ z) p = starts_with s p"
  by (simp add: starts_with_def)

lemma str_find_first:
  assumes "p \<noteq> []"
  shows "str_find p (x @ p @ z) = Some (length x) \<longleftrightarrow> str_find p (x @ butlast p) = None"
proof (induction x)
  case Nil
  then show ?case
    using assms by (simp add: str_find.simps [of p "p @ z"] starts_with_iff str_find_short)
next
  case (Cons c x)
  have pz: "p @ z = butlast p @ last p # z"
    using assms by (metis append_butlast_last_id append.assoc append_Cons append_Nil)
  have "starts_with (c # x @ p @ z) p = starts_with ((c # x @ butlast p) @ (last p # z)) p"
    by (simp only: pz append_Cons append_assoc)
  also have "\<dots> = starts_with (c # x @ butlast p) p"
    using assms by (intro starts_with_prefix) (cases p, simp_all)
  finally have "starts_with (c # x @ p @ z) p = starts_with (c # x @ butlast p) p" .
  with Cons show ?case
    by (simp add: str_find.simps [of p "c # _"])
qed

text \<open>An occurrence in a concatenation lies in one of the parts, or across the seam.\<close>

lemma occurrence_split:
  assumes "x @ s = a @ p @ b"
  shows "(\<exists>a b. x = a @ p @ b) \<or> (\<exists>a b. s = a @ p @ b)
    \<or> (\<exists>us vs a b. us \<noteq> [] \<and> vs \<noteq> [] \<and> us @ vs = p \<and> x = a @ us \<and> s = vs @ b)"
proof -
  from assms obtain us where us: "x = a @ us \<and> us @ s = p @ b \<or> x @ us = a \<and> s = us @ p @ b"
    unfolding append_eq_append_conv2 [of x s a "p @ b"] by blast
  show ?thesis
  proof (cases "x @ us = a \<and> s = us @ p @ b")
    case False
    with us have x: "x = a @ us" "us @ s = p @ b" by auto
    from x(2) obtain vs where vs: "us = p @ vs \<and> vs @ s = b \<or> us @ vs = p \<and> s = vs @ b"
      unfolding append_eq_append_conv2 [of us s p b] by blast
    show ?thesis
    proof (cases "us = p @ vs")
      case True
      with x(1) show ?thesis by blast
    next
      case False
      with vs have p: "us @ vs = p" "s = vs @ b" by auto
      consider "us = []" | "vs = []" | "us \<noteq> []" "vs \<noteq> []" by blast
      then show ?thesis
      proof cases
        case 1
        with p have "s = [] @ p @ b" by simp
        then show ?thesis by blast
      next
        case 2
        with p x(1) have "x = a @ p @ []" by simp
        then show ?thesis by blast
      next
        case 3
        with p x(1) show ?thesis by blast
      qed
    qed
  qed blast
qed

lemma no_seam:
  assumes "\<And>us vs. us \<noteq> [] \<Longrightarrow> vs \<noteq> [] \<Longrightarrow> us @ vs = p \<Longrightarrow> (\<exists>a. x = a @ us) \<Longrightarrow> (\<exists>b. s = vs @ b) \<Longrightarrow> False"
  shows "str_find p (x @ s) = None \<longleftrightarrow> str_find p x = None \<and> str_find p s = None"
proof -
  have split: "(\<exists>a b. x = a @ p @ b) \<or> (\<exists>a b. s = a @ p @ b)" if "x @ s = a @ p @ b" for a b
    using occurrence_split [OF that] assms by blast
  have "\<exists>a b. x @ s = a @ p @ b" if "x = a @ p @ b" for a b
    using that by (intro exI [of _ a] exI [of _ "b @ s"]) simp
  moreover have "\<exists>a b. x @ s = a @ p @ b" if "s = a @ p @ b" for a b
    using that by (intro exI [of _ "x @ a"] exI [of _ b]) simp
  ultimately have "(\<exists>a b. x @ s = a @ p @ b) \<longleftrightarrow> (\<exists>a b. x = a @ p @ b) \<or> (\<exists>a b. s = a @ p @ b)"
    by (intro iffI; elim exE disjE) (rule split)
  then show ?thesis unfolding str_find_None by simp
qed

lemma not_across:
  assumes "x \<noteq> []" "last x \<notin> set (butlast p)"
  shows "str_find p (x @ s) = None \<longleftrightarrow> str_find p x = None \<and> str_find p s = None"
  by (rule no_seam) (use assms in \<open>auto simp: butlast_append\<close>)

lemma not_across_hd:
  assumes "s = [] \<or> hd s \<notin> set (tl p)" "p \<noteq> []"
  shows "str_find p (x @ s) = None \<longleftrightarrow> str_find p x = None \<and> str_find p s = None"
  by (rule no_seam) (use assms in \<open>auto simp: neq_Nil_conv\<close>)

lemma skip_free:
  "p \<noteq> [] \<Longrightarrow> hd p \<notin> set new \<Longrightarrow> str_find p (new @ q) = map_option ((+) (length new)) (str_find p q)"
proof (induction new)
  case (Cons c new)
  then have "\<not> starts_with (c # new @ q) p" by (auto simp: starts_with_iff neq_Nil_conv)
  with Cons show ?case
    by (simp add: str_find.simps [of p "c # _"] option.map_comp comp_def)
qed (cases "str_find p q"; simp)

lemma replaced_None:
  assumes "str_find p (x @ v @ q) = None" "x \<noteq> []" "last x \<notin> set (butlast p)" "p \<noteq> []" "hd p \<notin> set new"
  shows "str_find p (x @ new @ q) = None"
proof -
  have "str_find p x = None" "str_find p (v @ q) = None"
    using assms(1-3) by (simp_all add: not_across)
  moreover from this(2) have "str_find p q = None"
    unfolding str_find_None by (metis append_assoc)
  ultimately show ?thesis using assms by (simp add: not_across skip_free)
qed

lemma boundary_append: "y = [] \<or> \<not> is_continuation (hd y) \<Longrightarrow> is_char_boundary (x @ y) (length x)"
  by (cases y) (auto simp: is_char_boundary_def nth_append)

lemma slice_between:
  assumes "y @ z = [] \<or> \<not> is_continuation (hd (y @ z))" "z = [] \<or> \<not> is_continuation (hd z)"
  shows "str_slice (x @ y @ z) (length x) (length x + length y) = Some y"
  using boundary_append [OF assms(1), of x] boundary_append [OF assms(2), of "x @ y"]
  by (simp add: str_slice_def)

lemma hexdigit_not_special:
  "is_ascii_hexdigit c \<Longrightarrow> \<not> is_continuation c \<and> c \<noteq> CHR ''?'' \<and> c \<noteq> CHR ''&'' \<and> c \<noteq> CHR ''#''"
  by (auto simp: is_ascii_hexdigit_def is_ascii_digit_def is_continuation_def byte_def)

text \<open>What a marker in front of a ref tells: the text around the ref, where any commit may stand instead.\<close>

lemma query_ref_replace:
  assumes "query_ref m src = Some (Some (v, (a, b)))" "m \<noteq> []"
  shows "\<exists>x q. src = (x @ m) @ v @ q \<and> a = length (x @ m) \<and> b = a + length v \<and> (q = [] \<or> hd q = CHR ''&'')
    \<and> (\<forall>new. new \<noteq> [] \<longrightarrow> list_all is_ascii_hexdigit new \<longrightarrow>
         query_ref m ((x @ m) @ new @ q) = Some (Some (new, (a, a + length new))))"
proof -
  obtain start where f: "str_find m src = Some start"
    using assms(1) by (auto simp: query_ref_def split: option.splits)
  then obtain x z where src: "src = x @ m @ z" "length x = start" using str_find_Some by blast
  define n where "n = (case str_find ''&'' z of Some n \<Rightarrow> n | None \<Rightarrow> length z)"
  define q where "q = drop n z"
  have rest: "v = take n z" "a = length (x @ m)" "b = a + n"
    using assms(1) src f by (auto simp: query_ref_def Let_def bind_eq_Some_conv str_slice_Some n_def)
  have q: "n \<le> length z \<and> (q = [] \<or> hd q = CHR ''&'')"
  proof (cases "str_find ''&'' z")
    case (Some k)
    then obtain y w where "z = y @ ''&'' @ w" "length y = k" using str_find_Some by blast
    with Some show ?thesis by (simp add: n_def q_def)
  qed (simp add: n_def q_def)
  have new: "query_ref m ((x @ m) @ new @ q) = Some (Some (new, (a, a + length new)))"
    if "new \<noteq> []" "list_all is_ascii_hexdigit new" for new
  proof -
    have amp: "CHR ''&'' \<notin> set new" and hd: "\<not> is_continuation (hd (new @ q))"
      using that hexdigit_not_special by (auto simp: list_all_iff neq_Nil_conv)
    have hq: "q = [] \<or> \<not> is_continuation (hd q)"
      using q by (auto simp: is_continuation_def byte_def)
    have "str_find m (x @ m @ new @ q) = Some (length x)"
      using f src str_find_first [OF assms(2)] by metis
    moreover have "str_slice ((x @ m) @ (new @ q) @ []) (length (x @ m)) (length (x @ m) + length (new @ q)) = Some (new @ q)"
      by (rule slice_between) (use hd in simp_all)
    moreover have "str_slice ((x @ m) @ new @ q) (length (x @ m)) (length (x @ m) + length new) = Some new"
      by (rule slice_between) (use hd hq in simp_all)
    moreover have "(case str_find ''&'' (new @ q) of Some n \<Rightarrow> n | None \<Rightarrow> length (new @ q)) = length new"
    proof (cases q)
      case Nil
      have "str_find ''&'' new = None"
        using amp skip_free [of "''&''" new "[]"] by (simp add: str_find_short)
      with Nil show ?thesis by simp
    next
      case (Cons c t)
      with q have "starts_with q ''&''" by (simp add: starts_with_def)
      with amp show ?thesis by (simp add: skip_free str_find.simps [of "''&''" q])
    qed
    ultimately show ?thesis
      by (simp add: query_ref_def Let_def rest(2) add.assoc)
  qed
  have "v @ q = z" "length v = n" using rest(1) q by (simp_all add: q_def)
  with src rest q new show ?thesis by (intro exI [of _ x] exI [of _ q]) simp
qed

lemma ref_value_replace:
  assumes "ref_value_with_span src = Some (Some (v, (a, b)))"
  shows "\<exists>p q. src = p @ v @ q \<and> a = length p \<and> b = a + length v \<and> p \<noteq> [] \<and> last p \<in> {CHR ''='', CHR ''#''}
    \<and> (q = [] \<or> hd q = CHR ''&'')
    \<and> (\<forall>new. new \<noteq> [] \<longrightarrow> list_all is_ascii_hexdigit new \<longrightarrow>
         ref_value_with_span (p @ new @ q) = Some (Some (new, (a, a + length new))))"
proof -
  have no_mark: "str_find m (p @ new @ q) = None"
    if "str_find m (p @ v @ q) = None" "m = ''?ref='' \<or> m = ''&ref=''" "p \<noteq> []" "last p \<in> {CHR ''='', CHR ''#''}"
      "list_all is_ascii_hexdigit new" for m p q new
  proof (rule replaced_None [OF that(1) that(3)])
    show "last p \<notin> set (butlast m)" using that(2,4) by auto
    show "m \<noteq> []" using that(2) by auto
    have "CHR ''?'' \<notin> set new" "CHR ''&'' \<notin> set new"
      using that(5) hexdigit_not_special unfolding list_all_iff by blast+
    then show "hd m \<notin> set new" using that(2) by auto
  qed
  have no_query: "query_ref m src = Some None \<longleftrightarrow> str_find m src = None" for m src
    by (auto simp: query_ref_def Let_def bind_eq_Some_conv split: option.splits)
  consider (query) "query_ref ''?ref='' src = Some (Some (v, (a, b)))"
    | (more) "query_ref ''?ref='' src = Some None" "query_ref ''&ref='' src = Some (Some (v, (a, b)))"
    | (fragment) h where "query_ref ''?ref='' src = Some None" "query_ref ''&ref='' src = Some None" "str_find ''#'' src = Some h"
        "str_slice src (h + 1) (length src) = Some v" "a = h + 1" "b = length src"
  proof -
    obtain r1 where r1: "query_ref ''?ref='' src = Some r1"
      using assms by (auto simp: ref_value_with_span_def bind_eq_Some_conv)
    show thesis
    proof (cases r1)
      case None
      then obtain r2 where r2: "query_ref ''&ref='' src = Some r2"
        using assms r1 by (auto simp: ref_value_with_span_def bind_eq_Some_conv)
      show thesis
      proof (cases r2)
        case None': None
        obtain h where "str_find ''#'' src = Some h"
          using assms r1 r2 None None' by (cases "str_find ''#'' src") (simp_all add: ref_value_with_span_def)
        with assms r1 r2 None None' show thesis
          by (intro fragment [of h]) (auto simp: ref_value_with_span_def bind_eq_Some_conv)
      qed (use assms r1 r2 None more in \<open>simp add: ref_value_with_span_def\<close>)
    qed (use assms r1 query in \<open>simp add: ref_value_with_span_def\<close>)
  qed
  then show ?thesis
  proof cases
    case query
    from query_ref_replace [OF this] obtain x q where
      "src = (x @ ''?ref='') @ v @ q" "a = length (x @ ''?ref='')" "b = a + length v" "q = [] \<or> hd q = CHR ''&''"
      "\<forall>new. new \<noteq> [] \<longrightarrow> list_all is_ascii_hexdigit new \<longrightarrow>
         query_ref ''?ref='' ((x @ ''?ref='') @ new @ q) = Some (Some (new, (a, a + length new)))" by auto
    then show ?thesis
      by (intro exI [of _ "x @ ''?ref=''"] exI [of _ q]) (simp add: ref_value_with_span_def)
  next
    case more
    from query_ref_replace [OF this(2)] obtain x q where
      src: "src = (x @ ''&ref='') @ v @ q" and rest: "a = length (x @ ''&ref='')" "b = a + length v" "q = [] \<or> hd q = CHR ''&''"
      "\<forall>new. new \<noteq> [] \<longrightarrow> list_all is_ascii_hexdigit new \<longrightarrow>
         query_ref ''&ref='' ((x @ ''&ref='') @ new @ q) = Some (Some (new, (a, a + length new)))" by auto
    have "query_ref ''?ref='' ((x @ ''&ref='') @ new @ q) = Some None" if "list_all is_ascii_hexdigit new" for new
      unfolding no_query by (rule no_mark [OF more(1) [unfolded no_query src]]) (use that in simp_all)
    with src rest show ?thesis
      by (intro exI [of _ "x @ ''&ref=''"] exI [of _ q]) (simp add: ref_value_with_span_def)
  next
    case fragment
    then obtain x z where src: "src = x @ ''#'' @ z" "length x = h" using str_find_Some by blast
    have v: "v = z" using fragment(4) src by (simp add: str_slice_Some)
    have "ref_value_with_span ((x @ ''#'') @ new @ []) = Some (Some (new, (a, a + length new)))"
      if "new \<noteq> []" "list_all is_ascii_hexdigit new" for new
    proof -
      have old: "src = (x @ ''#'') @ v @ []" using src v by simp
      have "query_ref m ((x @ ''#'') @ new @ []) = Some None" if "m = ''?ref='' \<or> m = ''&ref=''" for m
      proof -
        have "str_find m ((x @ ''#'') @ v @ []) = None"
          using fragment(1,2) that unfolding no_query old by blast
        from no_mark [OF this that] show ?thesis
          unfolding no_query using \<open>list_all is_ascii_hexdigit new\<close> by simp
      qed
      moreover have "str_find ''#'' (x @ ''#'' @ new) = Some (length x)"
        using fragment(3) src str_find_first [of "''#''"] by (metis list.distinct(1))
      moreover have "str_slice ((x @ ''#'') @ new @ []) (length (x @ ''#'')) (length (x @ ''#'') + length new) = Some new"
        using that hexdigit_not_special by (intro slice_between) (auto simp: list_all_iff neq_Nil_conv)
      ultimately show ?thesis
        using src fragment(5) by (simp add: ref_value_with_span_def)
    qed
    with src v fragment(5,6) show ?thesis
      by (intro exI [of _ "x @ ''#''"] exI [of _ "[]"]) simp
  qed
qed

end
