(* ===== verification/GitTags.thy ===== *)
theory GitTags
  imports GitSource Types
begin

text \<open>
  \<^verbatim>\<open>crates/tfls-provider-protocol/src/git_refs.rs\<close>: the URL of the repository behind a module source, the
  tags that \<open>git ls-remote\<close> lists with their commits, and the queries the diagnostics and code actions put
  to them, through a cache on disk. The \<open>git\<close> program is the field \<open>ls_remote\<close> of \<open>git_world\<close>, the files of
  the cache are its field \<open>tag_cache\<close>; messages of errors are left out.
\<close>

section \<open>The repository of a source\<close>

definition strip_prefix :: "string \<Rightarrow> string \<Rightarrow> string option" where
  [rust_eval]: "strip_prefix p s = (if starts_with s p then Some (drop (length p) s) else None)"

definition strip_suffix :: "string \<Rightarrow> string \<Rightarrow> string option" where
  [rust_eval]: "strip_suffix p s = (if ends_with s p then Some (take (length s - length p) s) else None)"

definition unwrap_or :: "'a option \<Rightarrow> 'a \<Rightarrow> 'a" where
  [rust_eval]: "unwrap_or x d = (case x of Some y \<Rightarrow> y | None \<Rightarrow> d)"

definition without_subdir :: "string \<Rightarrow> string may_panic" where
  "without_subdir s =
     (if str_contains s ''://'' then
        (let scheme_end = unwrap_or (map_option (\<lambda>i. i + 3) (str_find ''://'' s)) 0 in do {
           rest \<leftarrow> str_slice s scheme_end (length s);
           (case str_find ''//'' rest of
              Some rel \<Rightarrow> str_slice s 0 (scheme_end + rel)
            | None \<Rightarrow> Some s) })
      else (case str_find ''//'' s of Some i \<Rightarrow> str_slice s 0 i | None \<Rightarrow> Some s))"

definition trim_end_slashes :: "string \<Rightarrow> string" where
  [rust_eval]: "trim_end_slashes s = rev (dropWhile (\<lambda>c. c = CHR ''/'') (rev s))"

definition is_scp :: "string \<Rightarrow> bool" where
  "is_scp s \<longleftrightarrow> (case split_once CHR '':'' s of
     None \<Rightarrow> False | Some (host, _) \<Rightarrow> CHR ''@'' \<in> set host \<and> CHR ''/'' \<notin> set host)"

definition normalize_git_url :: "string \<Rightarrow> string option may_panic" where
  "normalize_git_url source =
     (let s = trim source;
          s = trim (unwrap_or (strip_prefix ''git::'' s) s);
          s = takeWhile (\<lambda>c. c \<noteq> CHR ''?'' \<and> c \<noteq> CHR ''#'') s in
      if s = [] then Some None
      else do {
        t \<leftarrow> without_subdir s;
        (let u = trim_end_slashes t in
         if u = [] then Some None
         else if str_contains s ''://'' then Some (Some u)
         else if is_scp u then Some (Some u)
         else Some (Some (''https://'' @ u))) })"

section \<open>Tags\<close>

record tag_entry =
  te_name :: string
  commit_sha :: string

type_synonym repo_tags = "tag_entry list"

text \<open>\<open>str::lines\<close>: pieces between newlines without a final carriage return, and no last empty piece.\<close>

definition strip_cr :: "string \<Rightarrow> string" where
  [rust_eval]: "strip_cr s = unwrap_or (strip_suffix [CHR 0x0D] s) s"

definition text_lines :: "string \<Rightarrow> string list" where
  "text_lines s =
     (let ps = split_on CHR 0x0A s in
      map strip_cr (butlast ps) @ (if last ps = [] then [] else [last ps]))"

text \<open>What a line says: the tag, its commit, and whether it is the peeled line of an annotated tag.\<close>

definition tag_line :: "string \<Rightarrow> (string \<times> string \<times> bool) option" where
  "tag_line line =
     (case split_whitespace line of
        sha # refname # _ \<Rightarrow>
          (case strip_prefix ''refs/tags/'' refname of
             None \<Rightarrow> None
           | Some rest \<Rightarrow>
               (case strip_suffix ''^{}'' rest of
                  Some n \<Rightarrow> Some (n, sha, True)
                | None \<Rightarrow> Some (rest, sha, False)))
      | _ \<Rightarrow> None)"

definition add_tag_line :: "(string, string \<times> bool) hash_map \<Rightarrow> string \<Rightarrow> (string, string \<times> bool) hash_map" where
  "add_tag_line m line =
     (case tag_line line of
        None \<Rightarrow> m
      | Some (n, sha, peeled) \<Rightarrow>
          (case hm_get m n of
             Some (_, True) \<Rightarrow> m
           | _ \<Rightarrow> hm_insert n (sha, peeled) m))"

definition parse_ls_remote_tags :: "string \<Rightarrow> repo_tags" where
  "parse_ls_remote_tags stdout =
     sort_by (\<lambda>a b. cmp (te_name a) (te_name b))
       (map (\<lambda>(n, sha, _). \<lparr>te_name = n, commit_sha = sha\<rparr>) (foldl add_tag_line [] (text_lines stdout)))"

definition tag_names :: "repo_tags \<Rightarrow> string list" where
  "tag_names tags = map te_name tags"

definition tag_to_sha :: "repo_tags \<Rightarrow> string \<Rightarrow> string option" where
  "tag_to_sha tags tag = map_option commit_sha (List.find (\<lambda>e. te_name e = tag) tags)"

definition cmp_tags :: "'v semver \<Rightarrow> tag_entry \<Rightarrow> tag_entry \<Rightarrow> ordering" where
  "cmp_tags S a b =
     (case (parse_version_core S (te_name a), parse_version_core S (te_name b)) of
        (Some va, Some vb) \<Rightarrow> sv_cmp S va vb
      | _ \<Rightarrow> cmp (te_name a) (te_name b))"

definition sha_to_tag :: "'v semver \<Rightarrow> repo_tags \<Rightarrow> string \<Rightarrow> string option" where
  "sha_to_tag S tags pinned =
     (if \<not> looks_like_commit_sha pinned then None
      else (let matching = filter (\<lambda>e. sha_matches (commit_sha e) pinned) tags in
            if matching = [] then None
            else Some (te_name (last (sort_by (cmp_tags S) matching)))))"

section \<open>Resolution through the cache\<close>

datatype git_error = ResolutionDisabled | NotGitSource | LsRemoteFailed | Unresolved

record git_world =
  ls_remote :: "string \<Rightarrow> string list \<Rightarrow> (git_error + string)"
  tag_cache :: "string \<Rightarrow> (repo_tags \<times> bool) option"  \<comment> \<open>by file name; the flag tells whether the file is within its day\<close>
  cache_writable :: "string \<Rightarrow> bool"
  unicode_alphanumeric :: "uchar \<Rightarrow> bool"  \<comment> \<open>\<open>char::is_alphanumeric\<close> beyond ASCII\<close>

text \<open>The directory of the cache that belongs to a URL; \<open>cache_path\<close> appends constants to it.\<close>

definition sanitise_char :: "git_world \<Rightarrow> uchar \<Rightarrow> uchar" where
  "sanitise_char w c =
     (if c < 128 \<and> is_ascii_alphanumeric (char_of c) \<or> 128 \<le> c \<and> unicode_alphanumeric w c \<or> c = 45 \<or> c = 46 \<or> c = 95
      then c else 95)"

definition sanitise :: "git_world \<Rightarrow> string \<Rightarrow> string" where
  "sanitise w s = (case from_utf8 s of Some cs \<Rightarrow> to_utf8 (map (sanitise_char w) cs) | None \<Rightarrow> s)"

definition cached_tags :: "git_world \<Rightarrow> string \<Rightarrow> (repo_tags \<times> bool) option" where
  "cached_tags w url = tag_cache w (sanitise w url)"

definition write_cache :: "git_world \<Rightarrow> string \<Rightarrow> repo_tags \<Rightarrow> git_world" where
  "write_cache w url tags =
     (let f = sanitise w url in
      if cache_writable w f then w\<lparr>tag_cache := (tag_cache w)(f \<mapsto> (tags, True))\<rparr> else w)"

definition list_repo_tags_with_runner :: "git_world \<Rightarrow> string \<Rightarrow> ((git_error + repo_tags) \<times> git_world) may_panic" where
  "list_repo_tags_with_runner w source = do {
     u \<leftarrow> normalize_git_url source;
     (case u of
        None \<Rightarrow> Some (Inl NotGitSource, w)
      | Some url \<Rightarrow>
          (case cached_tags w url of
             Some (fresh, True) \<Rightarrow> Some (Inr fresh, w)
           | cached \<Rightarrow>
               (case ls_remote w url [''--tags''] of
                  Inr stdout \<Rightarrow>
                    (let tags = parse_ls_remote_tags stdout in Some (Inr tags, write_cache w url tags))
                | Inl e \<Rightarrow>
                    (case cached of Some (stale, _) \<Rightarrow> Some (Inr stale, w) | None \<Rightarrow> Some (Inl e, w))))) }"

definition list_repo_tags :: "git_world \<Rightarrow> string \<Rightarrow> bool \<Rightarrow> ((git_error + repo_tags) \<times> git_world) may_panic" where
  "list_repo_tags w source cli_enabled =
     (if \<not> cli_enabled then Some (Inl ResolutionDisabled, w) else list_repo_tags_with_runner w source)"

text \<open>The loop over the ref specifications: the first whose output begins with a commit.\<close>

definition ref_tip :: "git_world \<Rightarrow> string \<Rightarrow> string \<Rightarrow> string option" where
  "ref_tip w url refspec =
     (case ls_remote w url [refspec] of
        Inl _ \<Rightarrow> None
      | Inr output \<Rightarrow>
          (case first_word output of
             Some sha \<Rightarrow> if looks_like_commit_sha sha then Some sha else None
           | None \<Rightarrow> None))"

definition resolve_ref_to_sha :: "git_world \<Rightarrow> string \<Rightarrow> string \<Rightarrow> bool \<Rightarrow> ((git_error + string) \<times> git_world) may_panic" where
  "resolve_ref_to_sha w source ref_name cli_enabled =
     (if \<not> cli_enabled then Some (Inl ResolutionDisabled, w)
      else do {
        (r, w') \<leftarrow> list_repo_tags w source cli_enabled;
        (case r of
           Inl e \<Rightarrow> Some (Inl e, w')
         | Inr tags \<Rightarrow>
             (case tag_to_sha tags ref_name of
                Some sha \<Rightarrow> Some (Inr sha, w')
              | None \<Rightarrow> do {
                  u \<leftarrow> normalize_git_url source;
                  (case u of
                     None \<Rightarrow> Some (Inl NotGitSource, w')
                   | Some url \<Rightarrow>
                       (case List.map_filter (ref_tip w' url)
                           [''refs/heads/'' @ ref_name, ''refs/tags/'' @ ref_name @ ''^{}'', ''refs/tags/'' @ ref_name] of
                          sha # _ \<Rightarrow> Some (Inr sha, w')
                        | [] \<Rightarrow> Some (Inl Unresolved, w'))) })) })"

definition is_repo_tags_cached :: "git_world \<Rightarrow> string \<Rightarrow> bool may_panic" where
  "is_repo_tags_cached w source = do {
     u \<leftarrow> normalize_git_url source;
     Some (case u of None \<Rightarrow> False | Some url \<Rightarrow> (case cached_tags w url of Some (_, fresh) \<Rightarrow> fresh | None \<Rightarrow> False)) }"

definition read_cached_repo_tags :: "git_world \<Rightarrow> string \<Rightarrow> repo_tags option may_panic" where
  "read_cached_repo_tags w source = do {
     u \<leftarrow> normalize_git_url source;
     Some (case u of None \<Rightarrow> None | Some url \<Rightarrow> map_option fst (cached_tags w url)) }"

section \<open>Which commit a tag names\<close>

definition pick :: "(string \<times> bool) option \<Rightarrow> string \<times> bool \<Rightarrow> (string \<times> bool) option" where
  "pick cur x = (case cur of Some (_, True) \<Rightarrow> cur | _ \<Rightarrow> Some x)"

definition lines_about :: "string \<Rightarrow> string list \<Rightarrow> (string \<times> bool) list" where
  "lines_about n lines = map snd (filter (\<lambda>(m, _). m = n) (List.map_filter tag_line lines))"

lemma add_tag_line_get:
  "hm_get (add_tag_line m line) n = foldl pick (hm_get m n) (lines_about n [line])"
  by (cases "tag_line line")
    (auto simp: add_tag_line_def lines_about_def List.map_filter_def pick_def hm_get_insert split: option.splits bool.splits prod.splits)

lemma add_tag_line_ok: "hm_ok m \<Longrightarrow> hm_ok (add_tag_line m line)"
  by (auto simp: add_tag_line_def hm_insert_ok split: option.splits prod.splits bool.splits)

lemma lines_about_Cons: "lines_about n (l # ls) = lines_about n [l] @ lines_about n ls"
  by (simp add: lines_about_def List.map_filter_def)

lemma add_tag_lines:
  assumes "hm_ok m"
  shows "hm_ok (foldl add_tag_line m lines) \<and>
    hm_get (foldl add_tag_line m lines) n = foldl pick (hm_get m n) (lines_about n lines)"
  using assms
proof (induction lines arbitrary: m)
  case Nil
  then show ?case by (simp add: lines_about_def List.map_filter_def)
next
  case (Cons l lines)
  from Cons.IH [OF add_tag_line_ok [OF Cons.prems]] show ?case
    by (simp add: add_tag_line_get lines_about_Cons [of n l lines])
qed

lemma pick_peeled: "foldl pick (Some (s, True)) xs = Some (s, True)"
  by (induction xs) (simp_all add: pick_def)

lemma pick_fold:
  "foldl pick (map_option (\<lambda>s. (s, False)) cur) xs =
     (case List.find snd xs of
        Some x \<Rightarrow> Some x
      | None \<Rightarrow> if xs = [] then map_option (\<lambda>s. (s, False)) cur else Some (last xs))"
proof (induction xs arbitrary: cur)
  case (Cons x xs)
  have first: "pick (map_option (\<lambda>s. (s, False)) cur) x = Some x" by (cases cur) (simp_all add: pick_def)
  show ?case
  proof (cases x)
    case (Pair s peeled)
    show ?thesis
    proof (cases peeled)
      case True
      with Pair first show ?thesis by (simp add: pick_peeled)
    next
      case False
      with Pair have "Some x = map_option (\<lambda>s. (s, False)) (Some s)" by simp
      with Cons.IH [of "Some s"] Pair False first show ?thesis by (simp split: option.split)
    qed
  qed
qed simp

lemma find_keyed:
  assumes "distinct (map f xs)" "x \<in> set xs"
  shows "List.find (\<lambda>y. f y = f x) xs = Some x"
  using assms by (induction xs) (auto simp: image_iff)

lemma tag_to_sha_sorted:
  assumes "hm_ok m"
  shows "tag_to_sha (sort_by (\<lambda>a b. cmp (te_name a) (te_name b)) (map (\<lambda>(n, sha, _). \<lparr>te_name = n, commit_sha = sha\<rparr>) m)) n
    = map_option fst (hm_get m n)"
proof -
  let ?es = "map (\<lambda>(n, sha, _). \<lparr>te_name = n, commit_sha = sha\<rparr>) m :: repo_tags"
  let ?s = "sort_by (\<lambda>a b. cmp (te_name a) (te_name b)) ?es"
  have names: "map te_name ?es = map fst m" by (induction m) auto
  have "mset (map te_name ?s) = mset (map te_name ?es)" by (simp only: mset_map sort_by_mset)
  then have "distinct (map te_name ?s)"
    using assms names mset_eq_imp_distinct_iff unfolding hm_ok_def by metis
  moreover have "set ?s = set ?es" by simp
  ultimately have hit: "tag_to_sha ?s n = Some sha" if "\<lparr>te_name = n, commit_sha = sha\<rparr> \<in> set ?es" for sha
    using find_keyed [of te_name ?s "\<lparr>te_name = n, commit_sha = sha\<rparr>"] that by (simp add: tag_to_sha_def)
  show ?thesis
  proof (cases "hm_get m n")
    case None
    then have "n \<notin> fst ` set m" by (simp add: hm_get_def map_of_eq_None_iff)
    moreover have "te_name ` set ?s = fst ` set m"
      using arg_cong [OF names, of set] by (simp only: set_map sort_by_set)
    ultimately have "n \<notin> te_name ` set ?s" by (simp only: simp_thms)
    then have "List.find (\<lambda>e. te_name e = n) ?s = None" unfolding find_None_iff by blast
    with None show ?thesis by (simp add: tag_to_sha_def)
  next
    case (Some x)
    then have "(n, x) \<in> set m" by (simp add: hm_get_def map_of_SomeD)
    then have "(\<lambda>(n, sha, _). \<lparr>te_name = n, commit_sha = sha\<rparr>) (n, x) \<in> set ?es"
      unfolding set_map by (rule imageI)
    then have "\<lparr>te_name = n, commit_sha = fst x\<rparr> \<in> set ?es" by (cases x) simp
    from hit [OF this] Some show ?thesis by simp
  qed
qed

text \<open>
  C15. Whatever the order of the lines that \<open>git ls-remote --tags\<close> prints, an annotated tag names the commit
  of its first peeled line, and a lightweight tag the object of its last line; a tag without a line has none.
\<close>

theorem tag_commit_exact:
  "tag_to_sha (parse_ls_remote_tags stdout) n =
     (case List.find snd (lines_about n (text_lines stdout)) of
        Some (sha, _) \<Rightarrow> Some sha
      | None \<Rightarrow> if lines_about n (text_lines stdout) = [] then None else Some (fst (last (lines_about n (text_lines stdout)))))"
  using add_tag_lines [of "[]" "text_lines stdout" n] pick_fold [of None "lines_about n (text_lines stdout)"]
  by (auto simp: parse_ls_remote_tags_def tag_to_sha_sorted hm_ok_def hm_get_def split: option.splits)

text \<open>
  The cache confuses repositories: for two sources whose URLs differ only in characters that a file name
  replaces by an underscore (or in the underscore itself), the tags fetched for the first answer for the second
  too, without asking its repository.
\<close>

definition confusable :: "git_world \<Rightarrow> string \<Rightarrow> string \<Rightarrow> bool" where
  "confusable w a b \<longleftrightarrow>
     (\<exists>cs ds. from_utf8 a = Some cs \<and> from_utf8 b = Some ds
        \<and> list_all2 (\<lambda>c d. c = d \<or> sanitise_char w c = 95 \<and> sanitise_char w d = 95) cs ds)"

lemma confusable_sanitise: "confusable w a b \<Longrightarrow> sanitise w a = sanitise w b"
proof -
  assume "confusable w a b"
  then obtain cs ds where cs: "from_utf8 a = Some cs" "from_utf8 b = Some ds"
      "list_all2 (\<lambda>c d. c = d \<or> sanitise_char w c = 95 \<and> sanitise_char w d = 95) cs ds"
    by (auto simp: confusable_def)
  from cs(3) have "map (sanitise_char w) cs = map (sanitise_char w) ds" by induction auto
  with cs(1,2) show ?thesis by (simp add: sanitise_def)
qed

theorem cache_confuses_repositories:
  assumes "normalize_git_url a = Some (Some ua)" "normalize_git_url b = Some (Some ub)" "confusable w ua ub"
    and "\<nexists>ts. cached_tags w ua = Some (ts, True)" "cache_writable w (sanitise w ua)" "ls_remote w ua [''--tags''] = Inr out"
  shows "\<exists>w'. list_repo_tags w a True = Some (Inr (parse_ls_remote_tags out), w')
    \<and> list_repo_tags w' b True = Some (Inr (parse_ls_remote_tags out), w')"
proof -
  let ?w = "write_cache w ua (parse_ls_remote_tags out)"
  have "sanitise_char ?w = sanitise_char w"
    by (rule ext) (simp add: sanitise_char_def write_cache_def Let_def)
  then have same: "sanitise ?w x = sanitise w x" for x by (simp only: sanitise_def)
  have "list_repo_tags w a True = Some (Inr (parse_ls_remote_tags out), ?w)"
    using assms(1,4,6) by (auto simp: list_repo_tags_def list_repo_tags_with_runner_def Let_def split: option.splits prod.splits bool.splits)
  moreover have "cached_tags ?w ub = Some (parse_ls_remote_tags out, True)"
    using assms(5) confusable_sanitise [OF assms(3)] same [of ub] by (simp add: cached_tags_def) (simp add: write_cache_def)
  then have "list_repo_tags ?w b True = Some (Inr (parse_ls_remote_tags out), ?w)"
    using assms(2) by (simp add: list_repo_tags_def list_repo_tags_with_runner_def)
  ultimately show ?thesis by blast
qed

end
