(* ===== verification/ModuleSources.thy ===== *)
theory ModuleSources
  imports ModuleRules GitTags
begin

text \<open>
  The rules about the \<open>source\<close> of module blocks: \<^verbatim>\<open>crates/tfls-diag/src/module_mutable_ref.rs\<close>,
  \<^verbatim>\<open>module_pinned_source.rs\<close>, \<^verbatim>\<open>module_version_presence.rs\<close>, \<^verbatim>\<open>module_shallow_clone.rs\<close> with its edits,
  \<^verbatim>\<open>module_ref_tag_mismatch.rs\<close> and \<^verbatim>\<open>module_outdated.rs\<close>. The lookups in the tag cache are arguments, as
  they are closures in the code.
\<close>

section \<open>The sources of a body\<close>

text \<open>A literal \<open>source\<close> of a module block: its value, the span of the quoted value and that of the attribute.\<close>

type_synonym source_attr = "string \<times> span option \<times> span option"

definition source_attr :: "body_item \<Rightarrow> source_attr option" where
  "source_attr item =
     (case item of
        Attribute (key, _) (EString _ s) vs sp \<Rightarrow> if key = ''source'' then Some (s, vs, sp) else None
      | _ \<Rightarrow> None)"

definition module_sources :: "body \<Rightarrow> source_attr list" where
  "module_sources b = concat (map (\<lambda>item. case item of
       Block _ (kw, _) _ inner \<Rightarrow> if kw = ''module'' then List.map_filter source_attr inner else []
     | Attribute _ _ _ _ \<Rightarrow> []) b)"

section \<open>Pins\<close>

definition mutable_ref_in :: "rope \<Rightarrow> source_attr \<Rightarrow> diagnostic list may_panic" where
  "mutable_ref_in rope a =
     (case a of
        (raw, vs, _) \<Rightarrow>
          if \<not> is_git_source raw then Some []
          else do {
            r \<leftarrow> extract_ref raw;
            (case r of
               None \<Rightarrow> Some []
             | Some r \<Rightarrow>
                 if looks_like_commit_sha r then Some []
                 else (case vs of
                     None \<Rightarrow> Some []
                   | Some sp \<Rightarrow> push_diagnostic SevWarning [] rope (Some sp)
                       (''module source is pinned to mutable git ref `'' @ r @ ''`; pin to an immutable commit SHA''))) })"

definition module_mutable_ref_diagnostics :: "body \<Rightarrow> rope \<Rightarrow> diagnostic list may_panic" where
  "module_mutable_ref_diagnostics b rope = concat_may (map (mutable_ref_in rope) (module_sources b))"

datatype source_kind = SrcGit | SrcHg | SrcOther

definition classify_source :: "string \<Rightarrow> source_kind" where
  "classify_source src =
     (let t = trim src in
      if starts_with t ''git::'' \<or> starts_with t ''github.com/'' \<or> starts_with t ''bitbucket.org/''
         \<or> ends_with t ''.git'' \<or> str_contains t ''.git?'' \<or> str_contains t ''.git#'' then SrcGit
      else if starts_with t ''hg::'' then SrcHg
      else SrcOther)"

definition has_pinned_ref :: "string \<Rightarrow> source_kind \<Rightarrow> bool" where
  "has_pinned_ref src kind =
     (case kind of
        SrcGit \<Rightarrow> str_contains src ''?ref='' \<or> str_contains src ''&ref='' \<or> str_contains src ''#''
      | SrcHg \<Rightarrow> str_contains src ''?rev='' \<or> str_contains src ''&rev=''
      | SrcOther \<Rightarrow> True)"

text \<open>The ellipsis of the message, in UTF-8.\<close>

definition ellipsis :: string where
  "ellipsis = [CHR 0xE2, CHR 0x80, CHR 0xA6]"

definition unpinned_source_in :: "rope \<Rightarrow> source_attr \<Rightarrow> diagnostic list may_panic" where
  "unpinned_source_in rope a =
     (case a of
        (raw, _, sp) \<Rightarrow>
          (let kind = classify_source raw in
           if kind = SrcOther then Some []
           else if has_pinned_ref raw kind then Some []
           else push_diagnostic SevWarning [] rope sp
             (''module source is a '' @ (if kind = SrcGit then ''git'' else ''mercurial'')
               @ '' URL but has no pinned revision (add `?ref='' @ ellipsis @ ''`)'')))"

definition module_pinned_source_diagnostics :: "body \<Rightarrow> rope \<Rightarrow> diagnostic list may_panic" where
  "module_pinned_source_diagnostics b rope = concat_may (map (unpinned_source_in rope) (module_sources b))"

section \<open>Versions of registry modules\<close>

definition looks_like_registry_source :: "string \<Rightarrow> bool" where
  "looks_like_registry_source src =
     (let t = trim src in
      if t = [] \<or> list_ex (starts_with t) [''.'', ''/'', ''git::'', ''hg::'', ''http://'', ''https://'', ''s3::'', ''gcs::'',
           ''github.com/'', ''bitbucket.org/''] then False
      else (let n = length (split_on CHR ''/'' t) in n = 3 \<or> n = 4))"

text \<open>The loop over the attributes: the last literal source, and whether there is a version.\<close>

definition source_and_version :: "body \<Rightarrow> string option \<times> bool" where
  "source_and_version b = foldl (\<lambda>(src, has_version) item.
     (case item of
        Attribute (key, _) v _ _ \<Rightarrow>
          if key = ''source'' then ((case v of EString _ s \<Rightarrow> Some s | _ \<Rightarrow> src), has_version)
          else if key = ''version'' then (src, True)
          else (src, has_version)
      | Block _ _ _ _ \<Rightarrow> (src, has_version))) (None, False) b"

definition unversioned_module :: "rope \<Rightarrow> body_item \<Rightarrow> diagnostic list may_panic" where
  "unversioned_module rope item =
     (case item of
        Attribute _ _ _ _ \<Rightarrow> Some []
      | Block _ (kw, ks) labels inner \<Rightarrow>
          if kw \<noteq> ''module'' then Some []
          else (case source_and_version inner of
              (None, _) \<Rightarrow> Some []
            | (Some source, has_version) \<Rightarrow>
                if has_version then Some []
                else if \<not> looks_like_registry_source source then Some []
                else push_diagnostic SevWarning [] rope ks
                  (''module `'' @ first_label_or labels @ ''` uses a registry source but has no `version` constraint'')))"

definition module_version_presence_diagnostics :: "body \<Rightarrow> rope \<Rightarrow> diagnostic list may_panic" where
  "module_version_presence_diagnostics b rope = concat_may (map (unversioned_module rope) b)"

section \<open>Shallow clones\<close>

definition is_pinned_to_tag :: "string \<Rightarrow> bool may_panic" where
  "is_pinned_to_tag src = do {
     r \<leftarrow> extract_ref src;
     Some (case r of
         None \<Rightarrow> False
       | Some v \<Rightarrow>
           (case v of
              c # d # _ \<Rightarrow> (c = CHR ''v'' \<or> c = CHR ''V'') \<and> is_ascii_digit d
            | _ \<Rightarrow> False)
           \<or> list_all (\<lambda>c. is_ascii_digit c \<or> c = CHR ''.'') v \<and> v \<noteq> []
           \<or> 7 \<le> length v \<and> list_all is_ascii_hexdigit v) }"

definition has_depth_one :: "string \<Rightarrow> bool" where
  "has_depth_one src \<longleftrightarrow> str_contains src ''depth=1'' \<or> str_contains src ''depth%3D1''"

definition wants_depth :: "string \<Rightarrow> bool may_panic" where
  "wants_depth raw =
     (if \<not> is_git_source raw then Some False
      else do {
        tagged \<leftarrow> is_pinned_to_tag raw;
        Some (tagged \<and> \<not> has_depth_one raw) })"

definition deep_clone_in :: "rope \<Rightarrow> source_attr \<Rightarrow> diagnostic list may_panic" where
  "deep_clone_in rope a =
     (case a of
        (raw, _, sp) \<Rightarrow> do {
          wanted \<leftarrow> wants_depth raw;
          if \<not> wanted then Some []
          else push_diagnostic SevWarning [] rope sp ''pinned git module source should add `depth=1` for a shallow clone'' })"

definition module_shallow_clone_diagnostics :: "body \<Rightarrow> rope \<Rightarrow> diagnostic list may_panic" where
  "module_shallow_clone_diagnostics b rope = concat_may (map (deep_clone_in rope) (module_sources b))"

definition shallow_clone_edit :: "rope \<Rightarrow> source_attr \<Rightarrow> string_edit list may_panic" where
  "shallow_clone_edit rope a =
     (case a of
        (raw, vs, _) \<Rightarrow> do {
          wanted \<leftarrow> wants_depth raw;
          if \<not> wanted then Some []
          else if CHR ''?'' \<notin> set raw then Some []
          else (case vs of
              None \<Rightarrow> Some []
            | Some (_, e) \<Rightarrow> do {
                t \<leftarrow> edit_between rope (e - 1) (e - 1) ''&depth=1'';
                Some (case t of None \<Rightarrow> [] | Some x \<Rightarrow> [x]) }) })"

definition shallow_clone_edits :: "body \<Rightarrow> rope \<Rightarrow> string_edit list may_panic" where
  "shallow_clone_edits b rope = concat_may (map (shallow_clone_edit rope) (module_sources b))"

section \<open>Tags against commits\<close>

definition tag_mismatch_in :: "line_lookup \<Rightarrow> rope \<Rightarrow> (string \<Rightarrow> string \<Rightarrow> string option) \<Rightarrow> source_attr \<Rightarrow> diagnostic list may_panic" where
  "tag_mismatch_in rope_line rope cached a =
     (case a of
        (raw, vs, _) \<Rightarrow>
          if \<not> is_git_source raw then Some []
          else do {
            r \<leftarrow> extract_ref raw;
            (case (r, vs) of
               (Some pinned, Some sp) \<Rightarrow>
                 if \<not> looks_like_commit_sha pinned then Some []
                 else do {
                   t \<leftarrow> trailing_comment_tag rope_line rope (snd sp);
                   (case t of
                      None \<Rightarrow> Some []
                    | Some tag \<Rightarrow>
                        (case cached raw tag of
                           None \<Rightarrow> Some []
                         | Some resolved \<Rightarrow>
                             if sha_matches resolved pinned then Some []
                             else push_diagnostic SevWarning [] rope (Some sp)
                               (''pinned commit `'' @ pinned @ ''` does not match tag `'' @ tag @ ''` (now `'' @ resolved
                                 @ ''`) '' @ em_dash @ '' the tag may have been re-pointed''))) }
             | _ \<Rightarrow> Some []) })"

definition module_ref_tag_mismatch_diagnostics :: "line_lookup \<Rightarrow> body \<Rightarrow> rope \<Rightarrow> (string \<Rightarrow> string \<Rightarrow> string option) \<Rightarrow> diagnostic list may_panic" where
  "module_ref_tag_mismatch_diagnostics rope_line b rope cached =
     concat_may (map (tag_mismatch_in rope_line rope cached) (module_sources b))"

text \<open>The version a source is at: its ref, or the tag in the comment behind a commit.\<close>

definition current_version :: "line_lookup \<Rightarrow> rope \<Rightarrow> nat \<Rightarrow> string option \<Rightarrow> string option may_panic" where
  "current_version rope_line rope after r =
     (case r of
        None \<Rightarrow> Some None
      | Some v \<Rightarrow> if \<not> looks_like_commit_sha v then Some (Some v) else trailing_comment_tag rope_line rope after)"

definition outdated_in :: "'v semver \<Rightarrow> line_lookup \<Rightarrow> rope \<Rightarrow> (string \<Rightarrow> string list option) \<Rightarrow> source_attr \<Rightarrow> diagnostic list may_panic" where
  "outdated_in S rope_line rope cached a =
     (case a of
        (raw, vs, _) \<Rightarrow>
          if \<not> is_git_source raw then Some []
          else (case vs of
              None \<Rightarrow> Some []
            | Some sp \<Rightarrow> do {
                r \<leftarrow> extract_ref raw;
                cur \<leftarrow> current_version rope_line rope (snd sp) r;
                (case cur of
                   None \<Rightarrow> Some []
                 | Some current \<Rightarrow>
                     (case cached raw of
                        None \<Rightarrow> Some []
                      | Some tags \<Rightarrow>
                          (case newer_versions S tags current of
                             [] \<Rightarrow> Some []
                           | latest # _ \<Rightarrow> push_diagnostic SevInformation [] rope (Some sp)
                               (''newer module version available: `'' @ latest @ ''` (current `'' @ current @ ''`)'')))) }))"

definition module_outdated_diagnostics :: "'v semver \<Rightarrow> line_lookup \<Rightarrow> body \<Rightarrow> rope \<Rightarrow> (string \<Rightarrow> string list option) \<Rightarrow> diagnostic list may_panic" where
  "module_outdated_diagnostics S rope_line b rope cached =
     concat_may (map (outdated_in S rope_line rope cached) (module_sources b))"

section \<open>The rules about pins together\<close>

lemma classify_git: "classify_source raw = SrcGit \<longleftrightarrow> is_git_source raw"
  by (simp add: classify_source_def is_git_source_def Let_def)

lemma query_ref_None: "query_ref m src = Some None \<longleftrightarrow> \<not> str_contains src m"
  by (auto simp: query_ref_def str_contains_def Let_def bind_eq_Some_conv split: option.splits)

lemma no_ref_unpinned:
  "extract_ref raw \<noteq> None \<Longrightarrow> extract_ref raw = Some None \<longleftrightarrow> \<not> has_pinned_ref raw SrcGit"
  using query_ref_None [of "''?ref=''" raw] query_ref_None [of "''&ref=''" raw]
  by (cases "query_ref ''?ref='' raw"; cases "query_ref ''&ref='' raw"; cases "str_find ''#'' raw")
    (auto simp: extract_ref_def ref_value_with_span_def has_pinned_ref_def str_contains_def bind_eq_Some_conv split: option.splits)

lemma push_not_empty: "push_diagnostic sev tags rope sp msg \<noteq> Some []"
  by (auto simp: push_diagnostic_def bind_eq_Some_conv)

lemma concat_may_empty: "concat_may xs = Some [] \<longleftrightarrow> (\<forall>x \<in> set xs. x = Some [])"
  by (induction xs) (auto simp: bind_eq_Some_conv)

definition pinned_to_commit :: "string \<Rightarrow> bool" where
  "pinned_to_commit raw \<longleftrightarrow>
     (case classify_source raw of
        SrcGit \<Rightarrow> (\<exists>r. extract_ref raw = Some (Some r) \<and> looks_like_commit_sha r)
      | SrcHg \<Rightarrow> str_contains raw ''?rev='' \<or> str_contains raw ''&rev=''
      | SrcOther \<Rightarrow> True)"

lemma silent_iff_pinned:
  assumes "mutable_ref_in rope (raw, Some vs, sp) \<noteq> None"
  shows "mutable_ref_in rope (raw, Some vs, sp) = Some [] \<and> unpinned_source_in rope (raw, Some vs, sp) = Some []
    \<longleftrightarrow> pinned_to_commit raw"
proof (cases "classify_source raw")
  case SrcGit
  then have git: "is_git_source raw" using classify_git by blast
  then have ref: "extract_ref raw \<noteq> None" using assms by (cases "extract_ref raw") (simp_all add: mutable_ref_in_def)
  show ?thesis
  proof (cases "extract_ref raw = Some None")
    case True
    with SrcGit no_ref_unpinned [OF ref] show ?thesis
      by (simp add: unpinned_source_in_def pinned_to_commit_def push_not_empty)
  next
    case False
    then obtain r where "extract_ref raw = Some (Some r)" using ref by auto
    with SrcGit git no_ref_unpinned [OF ref] show ?thesis
      by (simp add: mutable_ref_in_def unpinned_source_in_def pinned_to_commit_def push_not_empty)
  qed
qed (use classify_git [of raw] in \<open>auto simp: mutable_ref_in_def unpinned_source_in_def pinned_to_commit_def
    has_pinned_ref_def push_not_empty\<close>)


definition pinned_example :: body where
  "pinned_example = [Block None (''module'', None) [(''m'', None)]
     [Attribute (''source'', None) (EString None ''git::https://h/o/r?ref=0123456789'') (Some (0, 0)) None]]"

lemmas source_eval = rust_eval is_git_source_def Let_def str_find.simps trim_end_rev.simps trim_start.simps extract_ref_def
  ref_value_with_span_def query_ref_def split_whitespace.simps


end
