(* ===== verification/RefActions.thy ===== *)
theory RefActions
  imports ModuleSources
begin

text \<open>
  The code actions of \<^verbatim>\<open>crates/tfls-lsp/src/handlers/code_action_git_ref.rs\<close>: pinning a mutable ref to its
  commit, adding or correcting the tag in the comment, and moving a module to a newer version. The answers
  of \<open>git\<close> come from \<open>git_world\<close>, which the actions thread through; \<open>cli_enabled\<close> is the setting they read.
\<close>

record code_action =
  ca_title :: string
  ca_uri :: string
  ca_edits :: "string_edit list"
  ca_diagnostic :: "diagnostic option"
  ca_preferred :: bool

definition is_mutable_ref :: "diagnostic \<Rightarrow> bool" where
  "is_mutable_ref d \<longleftrightarrow> dg_severity d = SevWarning \<and> str_contains (dg_message d) ''pinned to mutable git ref''"

definition is_ref_tag_mismatch :: "diagnostic \<Rightarrow> bool" where
  "is_ref_tag_mismatch d \<longleftrightarrow> dg_severity d = SevWarning \<and> str_contains (dg_message d) ''does not match tag''"

definition is_outdated :: "diagnostic \<Rightarrow> bool" where
  "is_outdated d \<longleftrightarrow> dg_severity d = SevInformation \<and> str_contains (dg_message d) ''newer module version available''"

definition contains :: "lsp_range \<Rightarrow> lsp_position \<Rightarrow> bool" where
  "contains rg pos \<longleftrightarrow> pos_le (range_start rg) pos \<and> pos_le pos (range_end rg)"

fun find_source_at :: "rope \<Rightarrow> lsp_position \<Rightarrow> source_attr list \<Rightarrow> (span \<times> string) option may_panic" where
  "find_source_at rope pos [] = Some None"
| "find_source_at rope pos ((raw, None, sp) # rest) = find_source_at rope pos rest"
| "find_source_at rope pos ((raw, Some vs, sp) # rest) = do {
     r \<leftarrow> span_range rope vs;
     (case r of
        None \<Rightarrow> find_source_at rope pos rest
      | Some rg \<Rightarrow> if contains rg pos then Some (Some (vs, raw)) else find_source_at rope pos rest) }"

definition find_module_source_at :: "body \<Rightarrow> rope \<Rightarrow> lsp_position \<Rightarrow> (span \<times> string) option may_panic" where
  "find_module_source_at b rope pos = find_source_at rope pos (module_sources b)"

definition short :: "string \<Rightarrow> string may_panic" where
  "short sha = str_slice sha 0 (min (length sha) 12)"

definition quickfix :: "string \<Rightarrow> string \<Rightarrow> string_edit list \<Rightarrow> diagnostic option \<Rightarrow> bool \<Rightarrow> code_action" where
  "quickfix title uri edits diag preferred =
     \<lparr>ca_title = title, ca_uri = uri, ca_edits = edits, ca_diagnostic = diag, ca_preferred = preferred\<rparr>"

section \<open>Pinning a ref\<close>

text \<open>The two edits of an action: the ref replaced, and the tag put in the comment.\<close>

definition pin_edits :: "line_lookup \<Rightarrow> rope \<Rightarrow> span \<Rightarrow> string \<Rightarrow> string \<Rightarrow> string \<Rightarrow> string_edit list option may_panic" where
  "pin_edits rope_line rope sp raw sha tag = do {
     r \<leftarrow> ref_replacement_edit rope sp raw sha;
     (case r of
        None \<Rightarrow> Some None
      | Some re \<Rightarrow> do {
          c \<leftarrow> comment_edit rope_line rope (snd sp) tag;
          Some (case c of None \<Rightarrow> None | Some ce \<Rightarrow> Some [re, ce]) }) }"

definition pin_ref_action :: "git_world \<Rightarrow> bool \<Rightarrow> line_lookup \<Rightarrow> string \<Rightarrow> diagnostic \<Rightarrow> body \<Rightarrow> rope
    \<Rightarrow> (code_action option \<times> git_world) may_panic" where
  "pin_ref_action w cli_enabled rope_line uri diag b rope =
     (if \<not> cli_enabled then Some (None, w)
      else do {
        at \<leftarrow> find_module_source_at b rope (range_start (dg_range diag));
        (case at of
           None \<Rightarrow> Some (None, w)
         | Some (sp, raw) \<Rightarrow> do {
             r \<leftarrow> extract_ref raw;
             (case r of
                None \<Rightarrow> Some (None, w)
              | Some ref_name \<Rightarrow> do {
                  (res, w') \<leftarrow> resolve_ref_to_sha w raw ref_name cli_enabled;
                  (case res of
                     Inl _ \<Rightarrow> Some (None, w')
                   | Inr sha \<Rightarrow> do {
                       es \<leftarrow> pin_edits rope_line rope sp raw sha ref_name;
                       (case es of
                          None \<Rightarrow> Some (None, w')
                        | Some edits \<Rightarrow> do {
                            s \<leftarrow> short sha;
                            Some (Some (quickfix (''Pin git ref `'' @ ref_name @ ''` to commit '' @ s @ '' (keep tag as comment)'')
                              uri edits (Some diag) True), w') }) }) }) }) })"

section \<open>The comment of a pinned commit\<close>

definition add_sha_comment_action :: "git_world \<Rightarrow> bool \<Rightarrow> 'v semver \<Rightarrow> line_lookup \<Rightarrow> string \<Rightarrow> lsp_position \<Rightarrow> body \<Rightarrow> rope
    \<Rightarrow> (code_action option \<times> git_world) may_panic" where
  "add_sha_comment_action w cli_enabled S rope_line uri pos b rope =
     (if \<not> cli_enabled then Some (None, w)
      else do {
        at \<leftarrow> find_module_source_at b rope pos;
        (case at of
           None \<Rightarrow> Some (None, w)
         | Some (sp, raw) \<Rightarrow>
             if \<not> is_git_source raw then Some (None, w)
             else do {
               r \<leftarrow> extract_ref raw;
               (case r of
                  None \<Rightarrow> Some (None, w)
                | Some pinned \<Rightarrow>
                    if \<not> looks_like_commit_sha pinned then Some (None, w)
                    else do {
                      commented \<leftarrow> has_trailing_comment rope_line rope (snd sp);
                      if commented then Some (None, w)
                      else do {
                        (res, w') \<leftarrow> list_repo_tags w raw cli_enabled;
                        (case res of
                           Inl _ \<Rightarrow> Some (None, w')
                         | Inr tags \<Rightarrow>
                             (case sha_to_tag S tags pinned of
                                None \<Rightarrow> Some (None, w')
                              | Some tag \<Rightarrow> do {
                                  e \<leftarrow> comment_edit rope_line rope (snd sp) tag;
                                  Some ((case e of
                                      None \<Rightarrow> None
                                    | Some edit \<Rightarrow> Some (quickfix (''Add tag comment `'' @ tag @ ''` for pinned commit'') uri [edit] None False)), w') })) } }) }) })"

definition repin_to_tag :: "rope \<Rightarrow> string \<Rightarrow> diagnostic \<Rightarrow> span \<Rightarrow> string \<Rightarrow> repo_tags \<Rightarrow> string \<Rightarrow> code_action list may_panic" where
  "repin_to_tag rope uri diag sp raw tags comment_tag =
     (case tag_to_sha tags comment_tag of
        None \<Rightarrow> Some []
      | Some sha \<Rightarrow> do {
          e \<leftarrow> ref_replacement_edit rope sp raw sha;
          (case e of
             None \<Rightarrow> Some []
           | Some edit \<Rightarrow> do {
               s \<leftarrow> short sha;
               Some [quickfix (''Update pinned commit to tag `'' @ comment_tag @ ''` ('' @ s @ '')'') uri [edit] (Some diag) False] }) })"

definition correct_comment :: "'v semver \<Rightarrow> line_lookup \<Rightarrow> rope \<Rightarrow> string \<Rightarrow> diagnostic \<Rightarrow> span \<Rightarrow> repo_tags \<Rightarrow> string \<Rightarrow> string
    \<Rightarrow> code_action list may_panic" where
  "correct_comment S rope_line rope uri diag sp tags pinned comment_tag =
     (case sha_to_tag S tags pinned of
        None \<Rightarrow> Some []
      | Some real_tag \<Rightarrow>
          if real_tag = comment_tag then Some []
          else do {
            e \<leftarrow> comment_edit rope_line rope (snd sp) real_tag;
            Some (case e of
                None \<Rightarrow> []
              | Some edit \<Rightarrow> [quickfix (''Update comment to `'' @ real_tag @ ''` (matches pinned commit)'') uri [edit] (Some diag) False]) })"

definition mismatch_actions :: "git_world \<Rightarrow> bool \<Rightarrow> 'v semver \<Rightarrow> line_lookup \<Rightarrow> string \<Rightarrow> diagnostic \<Rightarrow> body \<Rightarrow> rope
    \<Rightarrow> (code_action list \<times> git_world) may_panic" where
  "mismatch_actions w cli_enabled S rope_line uri diag b rope =
     (if \<not> cli_enabled then Some ([], w)
      else do {
        at \<leftarrow> find_module_source_at b rope (range_start (dg_range diag));
        (case at of
           None \<Rightarrow> Some ([], w)
         | Some (sp, raw) \<Rightarrow> do {
             r \<leftarrow> extract_ref raw;
             (case r of
                None \<Rightarrow> Some ([], w)
              | Some pinned \<Rightarrow> do {
                  t \<leftarrow> trailing_comment_tag rope_line rope (snd sp);
                  (case t of
                     None \<Rightarrow> Some ([], w)
                   | Some comment_tag \<Rightarrow> do {
                       (res, w') \<leftarrow> list_repo_tags w raw cli_enabled;
                       (case res of
                          Inl _ \<Rightarrow> Some ([], w')
                        | Inr tags \<Rightarrow> do {
                            xs \<leftarrow> repin_to_tag rope uri diag sp raw tags comment_tag;
                            ys \<leftarrow> correct_comment S rope_line rope uri diag sp tags pinned comment_tag;
                            Some (xs @ ys, w') }) }) }) }) })"

section \<open>Moving to a newer version\<close>

text \<open>\<open>tag_major\<close>: the major version of a tag. The crate's field \<open>major\<close> is an argument.\<close>

definition tag_major :: "'v semver \<Rightarrow> ('v \<Rightarrow> nat) \<Rightarrow> string \<Rightarrow> nat option" where
  "tag_major S major tag =
     (case tag_namespace S tag of
        None \<Rightarrow> None
      | Some (_, c) \<Rightarrow> map_option major (parse_version_core S c))"

definition chosen_versions :: "'v semver \<Rightarrow> ('v \<Rightarrow> nat) \<Rightarrow> string \<Rightarrow> string list \<Rightarrow> string list" where
  "chosen_versions S major current candidates =
     (case candidates of
        [] \<Rightarrow> []
      | c # _ \<Rightarrow>
          (case tag_major S major current of
             None \<Rightarrow> [c]
           | Some m \<Rightarrow>
               (case List.find (\<lambda>t. tag_major S major t = Some m) candidates of
                  None \<Rightarrow> [c]
                | Some t \<Rightarrow> if t = c then [c] else [c, t])))"

definition switch_to :: "line_lookup \<Rightarrow> rope \<Rightarrow> string \<Rightarrow> diagnostic option \<Rightarrow> span \<Rightarrow> string \<Rightarrow> repo_tags \<Rightarrow> string
    \<Rightarrow> code_action list may_panic" where
  "switch_to rope_line rope uri diag sp raw tags tag =
     (case tag_to_sha tags tag of
        None \<Rightarrow> Some []
      | Some sha \<Rightarrow> do {
          r \<leftarrow> ref_replacement_edit rope sp raw sha;
          (case r of
             None \<Rightarrow> Some []
           | Some re \<Rightarrow> do {
               c \<leftarrow> comment_edit rope_line rope (snd sp) tag;
               Some [quickfix (''Update module to '' @ tag) uri (re # (case c of None \<Rightarrow> [] | Some ce \<Rightarrow> [ce])) diag False] }) })"

definition switch_version_actions :: "git_world \<Rightarrow> bool \<Rightarrow> 'v semver \<Rightarrow> ('v \<Rightarrow> nat) \<Rightarrow> line_lookup \<Rightarrow> string \<Rightarrow> lsp_position \<Rightarrow> body \<Rightarrow> rope
    \<Rightarrow> diagnostic option \<Rightarrow> (code_action list \<times> git_world) may_panic" where
  "switch_version_actions w cli_enabled S major rope_line uri pos b rope diag =
     (if \<not> cli_enabled then Some ([], w)
      else do {
        at \<leftarrow> find_module_source_at b rope pos;
        (case at of
           None \<Rightarrow> Some ([], w)
         | Some (sp, raw) \<Rightarrow>
             if \<not> is_git_source raw then Some ([], w)
             else do {
               r \<leftarrow> extract_ref raw;
               cur \<leftarrow> current_version rope_line rope (snd sp) r;
               (case cur of
                  None \<Rightarrow> Some ([], w)
                | Some current \<Rightarrow> do {
                    (res, w') \<leftarrow> list_repo_tags w raw cli_enabled;
                    (case res of
                       Inl _ \<Rightarrow> Some ([], w')
                     | Inr tags \<Rightarrow> do {
                         as \<leftarrow> concat_may (map (switch_to rope_line rope uri diag sp raw tags)
                           (chosen_versions S major current (newer_versions S (tag_names tags) current)));
                         Some (as, w') }) }) }) })"

section \<open>A comment written is read back\<close>

text \<open>The line after a comment is put into it.\<close>

definition with_comment :: "string \<Rightarrow> nat \<times> nat \<times> string \<Rightarrow> string" where
  "with_comment line place = (case place of (a, b, new) \<Rightarrow> take a line @ new @ drop b line)"

definition plain_tag :: "string \<Rightarrow> bool" where
  "plain_tag tag \<longleftrightarrow> tag \<noteq> [] \<and> hd tag \<notin> {CHR ''#'', CHR ''/''} \<and> \<not> str_contains tag ''//''
     \<and> list_all (\<lambda>c. 32 < byte c \<and> byte c < 128) tag"

lemma graphic_not_whitespace: "32 < byte c \<Longrightarrow> byte c < 128 \<Longrightarrow> whitespace_len (c # s) = 0"
  by (cases s; cases "tl s") (simp_all add: whitespace_len_def whitespace_len_rev_def)

lemma newline_whitespace: "c = CHR 0x0A \<or> c = CHR 0x0D \<Longrightarrow> whitespace_len (c # s) \<noteq> 0"
  by (elim disjE) (simp_all add: whitespace_len_def whitespace_len_rev_def byte_def)

lemma until_end:
  assumes "list_all (\<lambda>c. 32 < byte c \<and> byte c < 128) tag" "nl = [] \<or> hd nl \<in> {CHR 0x0A, CHR 0x0D}"
  shows "until_whitespace (tag @ nl) = tag"
  using assms
proof (induction tag)
  case Nil
  then show ?case using newline_whitespace [of "hd nl" "tl nl"] by (cases nl) auto
qed (simp add: graphic_not_whitespace)

lemma space_skipped: "trim_start (CHR '' '' # s) = trim_start s"
  by (subst trim_start.simps) (simp add: whitespace_len_def whitespace_len_rev_def byte_def)

lemma first_word_tag:
  assumes "plain_tag tag" "nl = [] \<or> hd nl \<in> {CHR 0x0A, CHR 0x0D}"
  shows "first_word (CHR '' '' # tag @ nl) = Some tag"
proof -
  have "trim_start (tag @ nl) = tag @ nl"
    using assms(1) by (cases tag) (auto simp: plain_tag_def trim_start.simps [of "_ # _"] graphic_not_whitespace)
  then show ?thesis
    using assms until_end [of tag nl]
    by (simp add: first_word_def split_whitespace.simps [of "CHR '' '' # _"] space_skipped Let_def plain_tag_def)
qed

text \<open>What is found behind a kept prefix that has no marker of its own.\<close>

lemma tag_found:
  assumes "plain_tag tag" "list_all (\<lambda>c. c = CHR 0x0A \<or> c = CHR 0x0D) nl"
    and "str_find ''//'' kept = None" "CHR ''#'' \<notin> set kept"
  shows "tag_in_tail (kept @ ''# '' @ tag @ nl) = Some tag"
proof -
  have nl: "nl = [] \<or> hd nl \<in> {CHR 0x0A, CHR 0x0D}" using assms(2) by (cases nl) auto
  have "CHR ''/'' \<notin> set nl" using assms(2) by (auto simp: list_all_iff)
  then have "str_find ''//'' nl = None" using skip_free [of "''//''" nl "[]"] by (simp add: str_find_short)
  moreover have "str_find ''//'' tag = None" using assms(1) by (simp add: plain_tag_def str_contains_def)
  ultimately have "str_find ''//'' (tag @ nl) = None" using nl by (subst not_across_hd) auto
  then have "str_find ''//'' (''# '' @ tag @ nl) = None"
    using skip_free [of "''//''" "''# ''" "tag @ nl"] by simp
  then have "str_find ''//'' (kept @ ''# '' @ tag @ nl) = None"
    using assms(3) by (subst not_across_hd) auto
  moreover have "str_find ''#'' (kept @ ''# '' @ tag @ nl) = Some (length kept)"
    using skip_free [of "''#''" kept "''# '' @ tag @ nl"] assms(4) by (simp add: str_find.simps [of _ "CHR ''#'' # _"] starts_with_def)
  ultimately have "comment_marker (kept @ ''# '' @ tag @ nl) = Some (length kept)"
    by (simp add: comment_marker_def)
  then show ?thesis
    using first_word_tag [OF assms(1) nl] by (simp add: tag_in_tail_def)
qed

lemma prefix_None: "str_find p (x @ y) = None \<Longrightarrow> str_find p x = None"
  unfolding str_find_None by (metis append_assoc)

lemma without_newline_split: "\<exists>nl. line = without_newline line @ nl \<and> list_all (\<lambda>c. c = CHR 0x0A \<or> c = CHR 0x0D) nl"
proof -
  let ?P = "\<lambda>c. c = CHR 0x0A \<or> c = CHR 0x0D"
  have "rev line = takeWhile ?P (rev line) @ dropWhile ?P (rev line)" by simp
  then have "line = without_newline line @ rev (takeWhile ?P (rev line))"
    unfolding without_newline_def by (metis rev_append rev_rev_ident)
  moreover have "list_all ?P (rev (takeWhile ?P (rev line)))"
    by (auto simp: list_all_iff dest: set_takeWhileD)
  ultimately show ?thesis by blast
qed

text \<open>
  C29. The comment that an action writes behind a source is the one the diagnostics read: after the edit the
  tag found on the line is the tag written, if that is a plain tag and the text kept in front of it has no hash sign.
\<close>

theorem comment_read_back:
  assumes "comment_place line offset tag = Some (a, b, new)" "plain_tag tag"
    and "offset \<le> length (without_newline line)" "CHR ''#'' \<notin> set (drop offset (take a line))"
  shows "tag_in_tail (drop offset (with_comment line (a, b, new))) = Some tag"
proof -
  obtain nl where line: "line = without_newline line @ nl" and nl: "list_all (\<lambda>c. c = CHR 0x0A \<or> c = CHR 0x0D) nl"
    using without_newline_split by blast
  define c where "c = without_newline line"
  define tail where "tail = drop offset c"
  have line': "line = c @ nl" using line by (simp add: c_def)
  have "offset \<le> length c" using assms(3) by (simp add: c_def)
  then have slice: "str_slice line offset (length c) = Some t \<Longrightarrow> t = tail" for t
    by (simp add: str_slice_Some tail_def line')
  show ?thesis
  proof (cases "comment_marker tail")
    case None
    then have place: "a = length c" "b = length c" "new = '' # '' @ tag"
      using assms(1) \<open>offset \<le> length c\<close>
      by (auto simp: comment_place_def Let_def bind_eq_Some_conv c_def [symmetric] min_absorb1 dest!: slice)
    have none: "str_find ''//'' tail = None" "str_find ''#'' tail = None"
      using None by (auto simp: comment_marker_def split: option.splits)
    have "str_find ''//'' (tail @ '' '') = None"
      using none(1) by (subst not_across_hd) (simp_all add: str_find_short)
    moreover have "CHR ''#'' \<notin> set (tail @ '' '')"
      using none(2) split_list [of "CHR ''#''" tail] by (auto simp: str_find_None)
    ultimately have "tag_in_tail ((tail @ '' '') @ ''# '' @ tag @ nl) = Some tag"
      by (rule tag_found [OF assms(2) nl])
    then show ?thesis using place \<open>offset \<le> length c\<close> by (simp add: with_comment_def line' tail_def)
  next
    case (Some m)
    then have place: "a = offset + m" "b = length c" "new = ''# '' @ tag"
      using assms(1) \<open>offset \<le> length c\<close>
      by (auto simp: comment_place_def Let_def bind_eq_Some_conv c_def [symmetric] min_absorb1 dest!: slice)
    have kept: "m \<le> length tail \<and> str_find ''//'' (take m tail) = None"
    proof (cases "str_find ''//'' tail")
      case None
      with Some have "str_find ''#'' tail = Some m" by (simp add: comment_marker_def)
      then have "m \<le> length tail" using str_find_Some by fastforce
      moreover have "str_find ''//'' (take m tail) = None"
        by (rule prefix_None [of _ _ "drop m tail"]) (simp add: None)
      ultimately show ?thesis by blast
    next
      case (Some k)
      then have m: "str_find ''//'' tail = Some m" using \<open>comment_marker tail = Some m\<close> by (simp add: comment_marker_def)
      then obtain x z where x: "tail = x @ ''//'' @ z" "length x = m" using str_find_Some by blast
      then have "str_find ''//'' (x @ butlast ''//'') = None"
        using m str_find_first [of "''//''" x z] by simp
      then have "str_find ''//'' x = None" by (rule prefix_None)
      with x show ?thesis by simp
    qed
    have "offset + m \<le> length c" using kept \<open>offset \<le> length c\<close> by (auto simp: tail_def)
    then have eq: "drop offset (take a line) = take m tail" by (simp add: place line' tail_def take_drop add.commute)
    with kept assms(4) have found: "tag_in_tail (take m tail @ ''# '' @ tag @ nl) = Some tag"
      by (intro tag_found [OF assms(2) nl]) simp_all
    have "drop offset (with_comment line (a, b, new)) = take m tail @ ''# '' @ tag @ nl"
      using eq \<open>offset + m \<le> length c\<close> by (simp add: with_comment_def place line')
    with found show ?thesis by simp
  qed
qed

lemma comment_read_back_witness:
  "tag_in_tail (drop 3 (with_comment ''ab\"  # v1\<newline>'' (5, 9, ''# v2''))) = Some ''v2''"
proof (rule comment_read_back)
  show "comment_place ''ab\"  # v1\<newline>'' 3 ''v2'' = Some (5, 9, ''# v2'')" by code_simp
qed (code_simp+)

text \<open>
  A link in the prose behind the tag is taken for the comment: on such a line the diagnostics read a part
  of the link as the tag, and an action that corrects the tag leaves the old one in place and is not read back.
\<close>

theorem link_in_comment_misread:
  "tag_in_tail '' # v1 see https://x.io'' = Some ''x.io''
   \<and> map_option (\<lambda>place. tag_in_tail (with_comment '' # v1 see https://x.io'' place)) (comment_place '' # v1 see https://x.io'' 0 ''v2'')
      = Some (Some ''v1'')"
  by code_simp

section \<open>A pin takes effect\<close>

lemma edit_between_range:
  assumes "edit_between rope a b t = Some (Some e)"
  shows "edit_range_of rope a b = Some (te_range e)"
proof -
  obtain x where x: "byte_offset_to_lsp_position rope a = Some x"
    using assms by (auto simp: edit_between_def bind_eq_Some_conv)
  then obtain s where s: "x = Inr s" using assms by (cases x) (simp_all add: edit_between_def)
  with x obtain y where y: "byte_offset_to_lsp_position rope b = Some y"
    using assms by (auto simp: edit_between_def bind_eq_Some_conv)
  with x s assms show ?thesis by (cases y) (auto simp: edit_between_def edit_range_of_def)
qed

lemma len_bytes_ascii: "list_all (\<lambda>c. byte c < 128) s \<Longrightarrow> len_bytes (map byte s) = length s"
  by (induction s) (auto simp: utf8_len_def)

lemma len_bytes_append [simp]: "len_bytes (p @ s) = len_bytes p + len_bytes s"
  by (simp add: len_bytes_def)

text \<open>The literal in the text: the source between its quotes.\<close>

definition quoted :: "string \<Rightarrow> rope" where
  "quoted raw = map byte (CHR 0x22 # raw @ [CHR 0x22])"

text \<open>
  C9. Pinning takes effect: the edit an action makes, applied by the editor as any ranged change, replaces
  the source by one whose ref is the commit, in the two query forms and as a fragment, and leaves the rest
  of the text alone.
\<close>

theorem pin_takes_effect:
  assumes "d_rope d = pre @ quoted raw @ post" "list_all (\<lambda>c. byte c < 128) raw" "len_bytes (d_rope d) < 2 ^ 32"
    and "extract_ref raw = Some (Some v)" "looks_like_commit_sha sha"
    and "ref_replacement_edit (d_rope d) (len_bytes pre, e) raw sha = Some (Some edit)"
  shows "\<exists>raw'. extract_ref raw' = Some (Some sha)
    \<and> apply_change d \<lparr>ch_range = Some (te_range edit), ch_text = map byte sha\<rparr>
      = Some (d\<lparr>d_rope := pre @ quoted raw' @ post, d_format_cache := None\<rparr>, Inr ())"
proof -
  obtain a b where ref: "ref_value_with_span raw = Some (Some (v, (a, b)))"
    using assms(4) by (auto simp: extract_ref_def)
  have hex: "sha \<noteq> []" "list_all is_ascii_hexdigit sha"
    using assms(5) by (auto simp: looks_like_commit_sha_def)
  obtain p q where raw: "raw = p @ v @ q" "a = length p" "b = a + length v" "p \<noteq> []" "last p \<in> {CHR ''='', CHR ''#''}"
      "q = [] \<or> hd q = CHR ''&''" "ref_value_with_span (p @ sha @ q) = Some (Some (sha, (a, a + length sha)))"
    using ref_value_replace [OF ref] hex by blast
  define x where "x = pre @ map byte (CHR 0x22 # p)"
  define y where "y = map byte (q @ [CHR 0x22]) @ post"
  have rope: "d_rope d = x @ map byte v @ y"
    using assms(1) raw(1) by (simp add: quoted_def x_def y_def)
  have ascii: "list_all (\<lambda>c. byte c < 128) p" "list_all (\<lambda>c. byte c < 128) v"
    using assms(2) raw(1) by auto
  have lens: "len_bytes x = len_bytes pre + 1 + a" "len_bytes (x @ map byte v) = len_bytes pre + 1 + b"
    using len_bytes_ascii ascii raw(2,3) by (simp_all add: x_def utf8_len_def byte_def)
  have "edit_range_of (d_rope d) (len_bytes x) (len_bytes (x @ map byte v)) = Some (te_range edit)"
    using assms(6) ref unfolding lens by (auto simp: ref_replacement_edit_def ref_value_span_def intro: edit_between_range)
  moreover have "\<not> splits_crlf x (map byte v @ y)"
    using raw(4,5) by (auto simp: splits_crlf_def x_def last_map byte_def)
  moreover have "\<not> splits_crlf (x @ map byte v) y"
    using raw(6) by (cases q) (auto simp: splits_crlf_def y_def byte_def)
  ultimately have "apply_change d \<lparr>ch_range = Some (te_range edit), ch_text = map byte sha\<rparr>
      = Some (d\<lparr>d_rope := x @ map byte sha @ y, d_format_cache := None\<rparr>, Inr ())"
    using assms(3) rope by (intro ranged_edit) auto
  moreover have "x @ map byte sha @ y = pre @ quoted (p @ sha @ q) @ post"
    by (simp add: quoted_def x_def y_def)
  moreover have "extract_ref (p @ sha @ q) = Some (Some sha)"
    using raw(7) by (simp add: extract_ref_def)
  ultimately show ?thesis by metis
qed

definition pinned_text :: "nat document" where
  "pinned_text = hydrated_from_cache ''u'' (quoted ''a?ref=v1'') empty_table []"

definition pin_edit :: string_edit where
  "pin_edit = \<lparr>te_range = lsp_range_of ((0, 7), (0, 9)), te_text = ''0123456''\<rparr>"

lemma pin_takes_effect_witness:
  "\<exists>raw'. extract_ref raw' = Some (Some ''0123456'')
    \<and> apply_change pinned_text \<lparr>ch_range = Some (te_range pin_edit), ch_text = map byte ''0123456''\<rparr>
      = Some (pinned_text\<lparr>d_rope := [] @ quoted raw' @ [], d_format_cache := None\<rparr>, Inr ())"
proof (rule pin_takes_effect)
  show "d_rope pinned_text = [] @ quoted ''a?ref=v1'' @ []" by (simp add: pinned_text_def hydrated_from_cache_def)
  show "ref_replacement_edit (d_rope pinned_text) (len_bytes [], 0) ''a?ref=v1'' ''0123456'' = Some (Some pin_edit)"
  proof -
    have "ref_value_span ''a?ref=v1'' = Some (Some (6, 8))" by code_simp
    then show ?thesis
      by (simp add: ref_replacement_edit_def edit_between_def pinned_text_def hydrated_from_cache_def quoted_def pin_edit_def
        span_eval utf8_len_def byte_def)
  qed
  show "len_bytes (d_rope pinned_text) < 2 ^ 32"
    by (simp add: pinned_text_def hydrated_from_cache_def quoted_def utf8_len_def byte_def)
  show "extract_ref ''a?ref=v1'' = Some (Some ''v1'')" by code_simp
qed (code_simp+)

definition fragment_source :: string where
  "fragment_source = ''git::x?a#v1.2''"

text \<open>
  The automatic fix for shallow clones spoils a pin written as a fragment behind a query: it appends the
  depth to the fragment, so the ref of the source is no longer the tag.
\<close>

theorem shallow_fix_spoils_fragment:
  "extract_ref fragment_source = Some (Some ''v1.2'')
   \<and> map_option (map te_text) (shallow_clone_edits
        [Block None (''module'', None) [] [Attribute (''source'', None) (EString None fragment_source) (Some (0, 15)) None]]
        (quoted fragment_source)) = Some [''&depth=1'']
   \<and> extract_ref (fragment_source @ ''&depth=1'') = Some (Some ''v1.2&depth=1'')"
proof (intro conjI)
  have "wants_depth fragment_source = Some True" "CHR ''?'' \<in> set fragment_source" by code_simp+
  then show "map_option (map te_text) (shallow_clone_edits
      [Block None (''module'', None) [] [Attribute (''source'', None) (EString None fragment_source) (Some (0, 15)) None]]
      (quoted fragment_source)) = Some [''&depth=1'']"
    by (simp add: shallow_clone_edits_def module_sources_def source_attr_def List.map_filter_def shallow_clone_edit_def)
      (simp add: edit_between_def quoted_def fragment_source_def span_eval utf8_len_def byte_def)
qed (code_simp+)

end
