(* ===== verification/Cursor.thy ===== *)
theory Cursor
  imports RefActions
begin

text \<open>
  What is under the cursor, and where exactly its name is written:
  \<^verbatim>\<open>crates/tfls-lsp/src/handlers/cursor.rs\<close>, \<^verbatim>\<open>highlight.rs\<close> there, and the narrowing functions of
  \<^verbatim>\<open>rename.rs\<close> that turn the span of a reference or a block into the range of the name in it. The operator
  \<open>?\<close> on a computation that may panic is \<open>attempt\<close>.
\<close>

definition attempt :: "'a option may_panic \<Rightarrow> ('a \<Rightarrow> 'b option may_panic) \<Rightarrow> 'b option may_panic" where
  "attempt m f = (case m of None \<Rightarrow> None | Some None \<Rightarrow> Some None | Some (Some x) \<Rightarrow> f x)"

text \<open>\<open>.ok()\<close>.\<close>

definition ok :: "('e + 'a) may_panic \<Rightarrow> 'a option may_panic" where
  "ok r = map_option (\<lambda>x. case x of Inl _ \<Rightarrow> None | Inr y \<Rightarrow> Some y) r"

lemma attempt_Some: "attempt m f = Some (Some y) \<longleftrightarrow> (\<exists>x. m = Some (Some x) \<and> f x = Some (Some y))"
  by (auto simp: attempt_def split: option.splits)

lemma ok_Some: "ok r = Some (Some y) \<longleftrightarrow> r = Some (Inr y)"
  by (cases r; cases "the r") (auto simp: ok_def)

section \<open>The symbol under the cursor\<close>

datatype cursor_kind = OnReference | OnDefinition

record cursor_target =
  ct_key :: symbol_key
  ct_location :: symbol_location
  ct_kind :: cursor_kind

definition cursor_contains :: "symbol_location \<Rightarrow> lsp_position \<Rightarrow> bool" where
  "cursor_contains l pos \<longleftrightarrow> (let r = location_range l in pos_le (range_start r) pos \<and> pos_le pos (range_end r))"

text \<open>The loops over the tables of the document, in their order: \<open>document_definitions\<close> lists the same entries.\<close>

definition find_symbol_at_cursor :: "'e document \<Rightarrow> lsp_position \<Rightarrow> cursor_target option" where
  "find_symbol_at_cursor d pos =
     (case reference_at_position d pos of
        Some r \<Rightarrow> Some \<lparr>ct_key = reference_key (ref_kind r), ct_location = ref_location r, ct_kind = OnReference\<rparr>
      | None \<Rightarrow>
          map_option (\<lambda>(k, l). \<lparr>ct_key = k, ct_location = l, ct_kind = OnDefinition\<rparr>)
            (List.find (\<lambda>(_, l). cursor_contains l pos) (document_definitions d)))"

definition key_at_cursor :: "'e document \<Rightarrow> lsp_position \<Rightarrow> symbol_key option" where
  "key_at_cursor d pos = map_option ct_key (find_symbol_at_cursor d pos)"

section \<open>Highlights\<close>

datatype highlight_kind = HighlightWrite | HighlightRead

definition document_highlight :: "'e store \<Rightarrow> string \<Rightarrow> lsp_position \<Rightarrow> (lsp_range \<times> highlight_kind) list option" where
  "document_highlight s u pos =
     (case hm_get (documents s) u of
        None \<Rightarrow> None
      | Some d \<Rightarrow>
          (case reference_at_position d pos of
             None \<Rightarrow> None
           | Some r \<Rightarrow>
               (let k = reference_key (ref_kind r);
                    here = filter (\<lambda>l. loc_uri l = u);
                    found = map (\<lambda>l. (location_range l, HighlightWrite)) (here (locations_at (definitions_by_name s) k))
                      @ map (\<lambda>l. (location_range l, HighlightRead)) (here (locations_at (references_by_name s) k)) in
                if found = [] then None else Some found)))"

section \<open>The name inside a range\<close>

definition is_ident_byte :: "char \<Rightarrow> bool" where
  "is_ident_byte c \<longleftrightarrow> is_ascii_alphanumeric c \<or> c = CHR ''_''"

definition word_at :: "string \<Rightarrow> string \<Rightarrow> nat \<Rightarrow> bool" where
  "word_at hay name pos \<longleftrightarrow>
     take (length name) (drop pos hay) = name
     \<and> (pos = 0 \<or> \<not> is_ident_byte (hay ! (pos - 1)))
     \<and> (pos + length name = length hay \<or> \<not> is_ident_byte (hay ! (pos + length name)))"

text \<open>The loop, from a position down to 0.\<close>

fun rfind_from :: "string \<Rightarrow> string \<Rightarrow> nat \<Rightarrow> nat option" where
  "rfind_from hay name 0 = (if word_at hay name 0 then Some 0 else None)"
| "rfind_from hay name (Suc pos) = (if word_at hay name (Suc pos) then Some (Suc pos) else rfind_from hay name pos)"

definition rfind_ident :: "string \<Rightarrow> string \<Rightarrow> nat option" where
  "rfind_ident hay name =
     (if name = [] \<or> length hay < length name then None else rfind_from hay name (length hay - length name))"

definition slice_rope :: "rope \<Rightarrow> lsp_range \<Rightarrow> string option may_panic" where
  "slice_rope rope r =
     attempt (ok (lsp_position_to_byte_offset rope (to_pos (range_start r)))) (\<lambda>a.
     attempt (ok (lsp_position_to_byte_offset rope (to_pos (range_end r)))) (\<lambda>b.
       if b < a \<or> len_bytes rope < b then Some None
       else (let i = byte_to_char rope a; j = byte_to_char rope b in
             Some (Some (to_utf8 (take (j - i) (drop i rope)))))))"

definition absolute_range :: "rope \<Rightarrow> lsp_range \<Rightarrow> nat \<Rightarrow> nat \<Rightarrow> lsp_range option may_panic" where
  "absolute_range rope outer rel_start rel_end =
     attempt (ok (lsp_position_to_byte_offset rope (to_pos (range_start outer)))) (\<lambda>base.
     attempt (ok (byte_offset_to_lsp_position rope (base + rel_start))) (\<lambda>a.
     attempt (ok (byte_offset_to_lsp_position rope (base + rel_end))) (\<lambda>b.
       Some (Some (lsp_range_of (a, b))))))"

definition narrow_identifier_range :: "rope \<Rightarrow> lsp_range \<Rightarrow> string \<Rightarrow> lsp_range option may_panic" where
  "narrow_identifier_range rope r name =
     attempt (slice_rope rope r) (\<lambda>t.
     attempt (Some (rfind_ident t name)) (\<lambda>rel. absolute_range rope r rel (rel + length name)))"

definition narrow_quoted_label :: "rope \<Rightarrow> lsp_range \<Rightarrow> string \<Rightarrow> lsp_range option may_panic" where
  "narrow_quoted_label rope r name =
     attempt (slice_rope rope r) (\<lambda>t.
     attempt (Some (str_find (CHR 0x22 # name @ [CHR 0x22]) t)) (\<lambda>rel_pos.
       absolute_range rope r (rel_pos + 1) (rel_pos + 1 + length name)))"

section \<open>A narrowed range holds the name\<close>

lemma utf8_char_high:
  assumes "scalar a" "128 \<le> a" "b \<in> set (utf8_char a)"
  shows "128 \<le> byte b"
proof -
  consider "a < 0x800" | "0x800 \<le> a" "a < 0x10000" | "0x10000 \<le> a" "a < 0x110000"
    using assms(1) by (force simp: scalar_def)
  then show ?thesis
  proof cases
    case 1
    then have "a div 64 < 32" by simp
    with 1 assms(2,3) show ?thesis by (auto simp: utf8_char_def byte_char_of)
  next
    case 2
    then have "a div 4096 < 16" by simp
    with 2 assms(2,3) show ?thesis by (auto simp: utf8_char_def byte_char_of)
  next
    case 3
    then have "a div 262144 < 5" by simp
    with 3 assms(2,3) show ?thesis by (auto simp: utf8_char_def byte_char_of)
  qed
qed

lemma utf8_char_ascii: "a < 128 \<Longrightarrow> utf8_char a = [char_of a]"
  by (simp add: utf8_char_def)

lemma ascii_seam:
  assumes "list_all scalar r" "to_utf8 r = x @ c # y" "byte c < 128"
  shows "\<exists>p s. r = p @ byte c # s \<and> to_utf8 p = x \<and> to_utf8 s = y"
  using assms
proof (induction r arbitrary: x)
  case (Cons a r)
  have eq: "utf8_char a @ to_utf8 r = x @ c # y" using Cons.prems(2) by (simp add: to_utf8_def)
  have single: "a < 128 \<and> byte c = a" if "c \<in> set (utf8_char a)"
  proof -
    have "a < 128"
    proof (rule ccontr)
      assume "\<not> a < 128"
      with utf8_char_high [of a c] that Cons.prems(1,3) show False by simp
    qed
    with that show ?thesis by (simp add: utf8_char_ascii byte_char_of)
  qed
  have nonempty: "utf8_char a \<noteq> []" by (simp add: utf8_char_def)
  show ?case
  proof (cases "c \<in> set (utf8_char a) \<and> x = []")
    case True
    with single have a: "a < 128" "byte c = a" by auto
    with eq True have "to_utf8 r = y" by (simp add: utf8_char_ascii)
    with a True show ?thesis by (intro exI [of _ "[]"] exI [of _ r]) (simp add: to_utf8_def)
  next
    case False
    have "\<exists>us. x = utf8_char a @ us \<and> to_utf8 r = us @ c # y"
    proof -
      from eq obtain us where "utf8_char a = x @ us \<and> us @ to_utf8 r = c # y \<or> utf8_char a @ us = x \<and> to_utf8 r = us @ c # y"
        unfolding append_eq_append_conv2 [of "utf8_char a" "to_utf8 r" x "c # y"] by blast
      moreover have False if us: "utf8_char a = x @ us" "us @ to_utf8 r = c # y" "us \<noteq> []"
      proof -
        have c: "c \<in> set (utf8_char a)" using us by (cases us) auto
        with single have "utf8_char a = [char_of a]" by (simp add: utf8_char_ascii)
        with us have "x = []" by (cases x) auto
        with c False show False by blast
      qed
      ultimately show ?thesis by fastforce
    qed
    then obtain us where us: "x = utf8_char a @ us" "to_utf8 r = us @ c # y" by blast
    with Cons.IH [OF _ us(2)] Cons.prems obtain p s where "r = p @ byte c # s" "to_utf8 p = us" "to_utf8 s = y" by auto
    with us(1) show ?thesis by (intro exI [of _ "a # p"] exI [of _ s]) (simp add: to_utf8_def)
  qed
qed (simp add: to_utf8_def)

lemma ascii_word:
  assumes "list_all scalar r" "to_utf8 r = x @ name @ y" "list_all (\<lambda>c. byte c < 128) name" "name \<noteq> []"
  shows "\<exists>p s. r = p @ map byte name @ s \<and> to_utf8 p = x \<and> to_utf8 s = y"
  using assms
proof (induction name arbitrary: r x)
  case (Cons c name)
  obtain p s where ps: "r = p @ byte c # s" "to_utf8 p = x" "to_utf8 s = name @ y"
    using ascii_seam [of r x c "name @ y"] Cons.prems by auto
  show ?case
  proof (cases "name = []")
    case True
    with ps show ?thesis by (intro exI [of _ p] exI [of _ s]) simp
  next
    case False
    obtain p' s' where "s = p' @ map byte name @ s'" "to_utf8 p' = []" "to_utf8 s' = y"
      using Cons.IH [of s "[]"] Cons.prems ps False by auto
    moreover from this have "p' = []" using to_utf8_length [of p'] by simp
    ultimately show ?thesis using ps by (intro exI [of _ p] exI [of _ s']) simp
  qed
qed simp

lemma offset_boundary:
  assumes "lsp_position_to_byte_offset r pos = Some (Inr a)"
  shows "\<exists>p s. r = p @ s \<and> len_bytes p = a"
proof -
  obtain i ch where pos: "pos = (i, ch)" by (cases pos)
  have i: "i < length (lines_of r)"
    using assms by (cases "i < length (lines_of r)")
      (simp_all add: pos lsp_position_to_byte_offset_def line_start_bytes_eq Let_def)
  let ?ls = "lines_of r"
  obtain n where n: "a = len_bytes (concat (take i ?ls)) + char_to_byte (?ls ! i) n"
    using assms position_to_offset [OF i, of ch] unfolding pos by auto
  have "r = concat (take i ?ls @ ?ls ! i # drop (Suc i) ?ls)"
    using id_take_nth_drop [OF i] by (metis concat_lines)
  then have "r = (concat (take i ?ls) @ take n (?ls ! i)) @ (drop n (?ls ! i) @ concat (drop (Suc i) ?ls))"
    using append_take_drop_id [of n "?ls ! i"] by (metis append_assoc concat.simps(2) concat_append)
  then show ?thesis using n by (intro exI conjI) (assumption, simp add: char_to_byte_def)
qed

lemma slice_rope_Some:
  assumes "slice_rope rope r = Some (Some t)"
  shows "\<exists>p m s. rope = p @ m @ s \<and> t = to_utf8 m \<and> lsp_position_to_byte_offset rope (to_pos (range_start r)) = Some (Inr (len_bytes p))"
proof -
  obtain a b where a: "lsp_position_to_byte_offset rope (to_pos (range_start r)) = Some (Inr a)"
      "lsp_position_to_byte_offset rope (to_pos (range_end r)) = Some (Inr b)"
    and t: "t = to_utf8 (take (byte_to_char rope b - byte_to_char rope a) (drop (byte_to_char rope a) rope))"
    using assms by (auto simp: slice_rope_def attempt_Some ok_Some Let_def split: if_splits)
  obtain p s where p: "rope = p @ s" "len_bytes p = a" using offset_boundary [OF a(1)] by blast
  then have i: "byte_to_char rope a = length p" using byte_to_char_append [of p s] by simp
  let ?n = "byte_to_char rope b - length p"
  have "rope = p @ take ?n s @ drop ?n s" "t = to_utf8 (take ?n s)"
    using p t i by simp_all
  with a(1) p(2) show ?thesis by blast
qed

lemma absolute_range_Some:
  assumes "absolute_range rope r a b = Some (Some rg)"
    and "lsp_position_to_byte_offset rope (to_pos (range_start r)) = Some (Inr base)"
  shows "edit_range_of rope (base + a) (base + b) = Some rg"
  using assms by (auto simp: absolute_range_def attempt_Some ok_Some edit_range_of_def)

lemma rfind_from_Some: "rfind_from hay name pos = Some i \<Longrightarrow> word_at hay name i"
  by (induction pos) (auto split: if_splits)

text \<open>The occurrence of the name that a narrowed range stands for.\<close>

lemma narrowed:
  assumes "list_all scalar rope" "list_all (\<lambda>c. byte c < 128) name" "name \<noteq> []"
    and "slice_rope rope r = Some (Some (x @ name @ y))" "absolute_range rope r (length x) (length x + length name) = Some (Some rg)"
  shows "\<exists>p s pre post. rope = (pre @ p) @ map byte name @ (s @ post) \<and> to_utf8 p = x \<and> to_utf8 s = y
    \<and> edit_range_of rope (len_bytes (pre @ p)) (len_bytes ((pre @ p) @ map byte name)) = Some rg"
proof -
  obtain pre m post where m: "rope = pre @ m @ post" "x @ name @ y = to_utf8 m"
      "lsp_position_to_byte_offset rope (to_pos (range_start r)) = Some (Inr (len_bytes pre))"
    using slice_rope_Some [OF assms(4)] by blast
  have "list_all scalar m" using assms(1) m(1) by simp
  then obtain p s where ps: "m = p @ map byte name @ s" "to_utf8 p = x" "to_utf8 s = y"
    using ascii_word [OF _ m(2) [symmetric] assms(2,3)] by blast
  have "length x = len_bytes p" using ps(2) to_utf8_length [of p] by simp
  then have "len_bytes (pre @ p) = len_bytes pre + length x" "len_bytes ((pre @ p) @ map byte name) = len_bytes pre + (length x + length name)"
    using len_bytes_ascii [OF assms(2)] by simp_all
  with absolute_range_Some [OF assms(5) m(3)] m(1) ps show ?thesis
    by (intro exI [of _ p] exI [of _ s] exI [of _ pre] exI [of _ post]) simp
qed

section \<open>Text on one line\<close>

definition plain_line :: "rope \<Rightarrow> bool" where
  "plain_line r \<longleftrightarrow> list_all (\<lambda>c. c < 128 \<and> c \<noteq> 10 \<and> c \<noteq> 13) r \<and> length r < 2 ^ 32"

definition in_line :: "nat \<Rightarrow> nat \<Rightarrow> lsp_range" where
  "in_line a b = lsp_range_of ((0, a), (0, b))"

lemma ascii_lengths: "list_all (\<lambda>c. c < 128) r \<Longrightarrow> len_bytes r = length r \<and> len_utf16 r = length r"
  by (induction r) (auto simp: len_bytes_def len_utf16_def utf8_len_def utf16_len_def)

lemma lines_one: "10 \<notin> set r \<Longrightarrow> lines_of r = [r]"
  by (induction r) auto

lemma plain_line_offsets:
  assumes "plain_line r" "k \<le> length r"
  shows "byte_offset_to_lsp_position r k = Some (Inr (0, k))" "lsp_position_to_byte_offset r (0, k) = Some (Inr k)"
proof -
  let ?p = "take k r" and ?s = "drop k r"
  have all: "list_all (\<lambda>c. c < 128) r" "10 \<notin> set r" "13 \<notin> set r"
    using assms(1) by (auto simp: plain_line_def list_all_iff)
  then have p: "len_bytes ?p = k" "len_utf16 ?p = k" "len_bytes r = length r"
    using assms(2) ascii_lengths [of ?p] ascii_lengths [of r] by (auto simp: list_all_iff dest: in_set_takeD)
  have "lines_of ?p = [?p]" using all(2) by (intro lines_one) (auto dest: in_set_takeD)
  with offset_to_position [of ?p ?s] p assms show one: "byte_offset_to_lsp_position r k = Some (Inr (0, k))"
    by (simp add: plain_line_def)
  have "last ?p \<noteq> 13" if "?p \<noteq> []" using all(3) that by (metis in_set_takeD last_in_set)
  then have "\<not> (?p \<noteq> [] \<and> last ?p = 13 \<and> ?s \<noteq> [] \<and> hd ?s = 10)" by blast
  from offset_position_inverse [of ?p ?s "(0, k)", OF _ this] one p assms(1)
  show "lsp_position_to_byte_offset r (0, k) = Some (Inr k)" by (simp add: plain_line_def)
qed

lemma in_line_simps [simp]:
  "to_pos (range_start (in_line a b)) = (0, a)" "to_pos (range_end (in_line a b)) = (0, b)"
  by (simp_all add: in_line_def lsp_range_of_def to_pos_def)


lemma plain_byte_to_char: "list_all (\<lambda>c. c < 128) r \<Longrightarrow> k \<le> length r \<Longrightarrow> byte_to_char r k = k"
  by (induction r k rule: byte_to_char.induct) (auto simp: utf8_len_def)

lemma plain_slice:
  assumes "plain_line r" "a \<le> b" "b \<le> length r"
  shows "slice_rope r (in_line a b) = Some (Some (to_utf8 (take (b - a) (drop a r))))"
proof -
  have all: "list_all (\<lambda>c. c < 128) r" using assms(1) by (auto simp: plain_line_def list_all_iff)
  with assms ascii_lengths [OF all] show ?thesis
    by (simp add: slice_rope_def attempt_def ok_def plain_line_offsets plain_byte_to_char)
qed

lemma plain_absolute:
  assumes "plain_line r" "k + a \<le> length r" "k + b \<le> length r"
  shows "absolute_range r (in_line k e) a b = Some (Some (in_line (k + a) (k + b)))"
  using assms by (simp add: absolute_range_def attempt_def ok_def plain_line_offsets) (simp add: in_line_def)

lemma plain_narrow:
  assumes "plain_line r" "a \<le> b" "b \<le> length r" "rfind_ident (to_utf8 (take (b - a) (drop a r))) name = Some i"
    "a + i + length name \<le> length r"
  shows "narrow_identifier_range r (in_line a b) name = Some (Some (in_line (a + i) (a + i + length name)))"
  using assms plain_absolute [of r a i "i + length name" b]
  by (simp add: narrow_identifier_range_def attempt_def plain_slice add.assoc)

lemma location_range_in_line [simp]: "location_range (location_new u (in_line a b)) = in_line a b"
  by (simp add: location_range_def location_new_def in_line_def lsp_range_of_def)

end
