(* ===== verification/Rename.thy ===== *)
theory Rename
  imports Cursor
begin

text \<open>
  \<^verbatim>\<open>crates/tfls-lsp/src/handlers/rename.rs\<close>: renaming the symbol under the cursor through the indexes of the
  store, and renaming the alias of a provider at its declaration and its calls. Edits are collected per
  document; the map of edits is an association list.
\<close>

type_synonym edit_map = "(string, string_edit list) hash_map"

definition push_edit :: "string \<Rightarrow> string_edit \<Rightarrow> edit_map \<Rightarrow> edit_map" where
  "push_edit u e m = hm_insert u ((case hm_get m u of Some es \<Rightarrow> es | None \<Rightarrow> []) @ [e]) m"

record document_edit =
  de_uri :: string
  de_version :: "int option"
  de_edits :: "string_edit list"

definition versioned_workspace_edit :: "'e store \<Rightarrow> edit_map \<Rightarrow> document_edit list" where
  "versioned_workspace_edit s m =
     map (\<lambda>(u, es). \<lparr>de_uri = u, de_version = map_option d_version (hm_get (documents s) u), de_edits = es\<rparr>) m"

definition is_valid_identifier :: "string \<Rightarrow> bool" where
  "is_valid_identifier name =
     (case name of
        [] \<Rightarrow> False
      | c # cs \<Rightarrow> (is_ascii_alphabetic c \<or> c = CHR ''_'')
          \<and> list_all (\<lambda>c. is_ascii_alphanumeric c \<or> c = CHR ''_'' \<or> c = CHR ''-'') cs)"

section \<open>Symbols\<close>

datatype edit_kind = Tail | Label

definition narrow :: "edit_kind \<Rightarrow> rope \<Rightarrow> lsp_range \<Rightarrow> string \<Rightarrow> lsp_range option may_panic" where
  "narrow kind = (case kind of Tail \<Rightarrow> narrow_identifier_range | Label \<Rightarrow> narrow_quoted_label)"

definition push_narrow_edit :: "'e store \<Rightarrow> edit_kind \<Rightarrow> string \<Rightarrow> string \<Rightarrow> edit_map \<Rightarrow> symbol_location \<Rightarrow> edit_map may_panic" where
  "push_narrow_edit s kind old_name new_name m l =
     (case hm_get (documents s) (loc_uri l) of
        None \<Rightarrow> Some m
      | Some d \<Rightarrow> do {
          r \<leftarrow> narrow kind (d_rope d) (location_range l) old_name;
          Some (case r of
              None \<Rightarrow> m
            | Some rg \<Rightarrow> push_edit (loc_uri l) \<lparr>te_range = rg, te_text = new_name\<rparr> m) })"

definition rename_symbol :: "'e store \<Rightarrow> symbol_key \<Rightarrow> string \<Rightarrow> edit_map may_panic" where
  "rename_symbol s k new_name = do {
     m \<leftarrow> fold_may (push_narrow_edit s Label (key_name k) new_name) [] (locations_at (definitions_by_name s) k);
     fold_may (push_narrow_edit s Tail (key_name k) new_name) m (locations_at (references_by_name s) k) }"

section \<open>Provider aliases\<close>

definition local_span_at :: "string \<Rightarrow> nat \<Rightarrow> (nat \<times> nat \<times> string) option may_panic" where
  "local_span_at t offset =
     (let start = offset - length (takeWhile is_ident_byte (rev (take offset t)));
          end_at = offset + length (takeWhile is_ident_byte (drop offset t)) in
      if start = end_at then Some None
      else if start < 10 \<or> take 10 (drop (start - 10) t) \<noteq> ''provider::'' then Some None
      else if 10 < start \<and> is_ident_byte (t ! (start - 11)) then Some None
      else map_option (\<lambda>s. Some (start, end_at, s)) (str_slice t start end_at))"

definition prepare_rename_provider_local :: "'e document \<Rightarrow> lsp_position \<Rightarrow> (lsp_range \<times> string) option may_panic" where
  "prepare_rename_provider_local d pos =
     attempt (ok (lsp_position_to_byte_offset (d_rope d) (to_pos pos))) (\<lambda>offset.
     attempt (local_span_at (to_utf8 (d_rope d)) offset) (\<lambda>(start, end_at, local).
     attempt (ok (byte_offset_to_lsp_position (d_rope d) start)) (\<lambda>a.
     attempt (ok (byte_offset_to_lsp_position (d_rope d) end_at)) (\<lambda>b.
       Some (Some (lsp_range_of (a, b), local))))))"

text \<open>The first entry that declares the alias decides: \<open>?\<close> leaves the function when its key has no span.\<close>

definition required_providers_key_range :: "body \<Rightarrow> rope \<Rightarrow> string \<Rightarrow> lsp_range option may_panic" where
  "required_providers_key_range b rope local =
     (case List.map_filter (\<lambda>entry. case entry of
          Attribute (key, ks) _ _ _ \<Rightarrow> if key = local then Some ks else None
        | Block _ _ _ _ \<Rightarrow> None) (provider_entries b) of
        [] \<Rightarrow> Some None
      | ks # _ \<Rightarrow>
          attempt (Some ks) (\<lambda>sp.
          attempt (ok (byte_offset_to_lsp_position rope (fst sp))) (\<lambda>a.
          attempt (ok (byte_offset_to_lsp_position rope (snd sp))) (\<lambda>c.
            Some (Some (lsp_range_of (a, c)))))))"

definition try_doc :: "string \<Rightarrow> string \<Rightarrow> edit_map \<Rightarrow> string \<times> 'e document \<Rightarrow> edit_map may_panic" where
  "try_doc old_local new_name m ud =
     (case body (d_parsed (snd ud)) of
        None \<Rightarrow> Some m
      | Some b \<Rightarrow> do {
          r \<leftarrow> required_providers_key_range b (d_rope (snd ud)) old_local;
          Some (case r of
              None \<Rightarrow> m
            | Some rg \<Rightarrow> push_edit (fst ud) \<lparr>te_range = rg, te_text = new_name\<rparr> m) })"

definition push_required_providers_attr_edits ::
    "file_sys \<Rightarrow> 'e store \<Rightarrow> string \<Rightarrow> string \<Rightarrow> string \<Rightarrow> edit_map \<Rightarrow> edit_map may_panic" where
  "push_required_providers_attr_edits fs s u old_local new_name m = do {
     m \<leftarrow> (case hm_get (documents s) u of Some d \<Rightarrow> try_doc old_local new_name m (u, d) | None \<Rightarrow> Some m);
     (case parent_dir fs u of
        None \<Rightarrow> Some m
      | Some dir \<Rightarrow>
          fold_may (try_doc old_local new_name) m
            (filter (\<lambda>(u', _). u' \<noteq> u \<and> parent_dir fs u' = Some dir) (documents s))) }"

text \<open>One occurrence of the needle: is it a call, and the edit of the alias in it.\<close>

definition call_site_edit :: "rope \<Rightarrow> string \<Rightarrow> string \<Rightarrow> string \<Rightarrow> nat \<Rightarrow> string_edit option may_panic" where
  "call_site_edit rope t old_local new_name at =
     (let after = at + length (''provider::'' @ old_local @ ''::'') in
      if at \<noteq> 0 \<and> (is_ident_byte (t ! (at - 1)) \<or> t ! (at - 1) = CHR '':'') then Some None
      else if length t \<le> after then Some None
      else if \<not> (is_ascii_alphabetic (t ! after) \<or> t ! after = CHR ''_'') then Some None
      else edit_between rope (at + 10) (at + 10 + length old_local) new_name)"

function call_sites :: "rope \<Rightarrow> string \<Rightarrow> string \<Rightarrow> string \<Rightarrow> nat \<Rightarrow> string_edit list may_panic" where
  "call_sites rope t old_local new_name search_from =
     (case str_slice t search_from (length t) of
        None \<Rightarrow> None
      | Some rest \<Rightarrow>
          (case str_find (''provider::'' @ old_local @ ''::'') rest of
             None \<Rightarrow> Some []
           | Some rel \<Rightarrow>
               (let at = search_from + rel in do {
                  e \<leftarrow> call_site_edit rope t old_local new_name at;
                  es \<leftarrow> call_sites rope t old_local new_name (at + length (''provider::'' @ old_local @ ''::''));
                  Some ((case e of None \<Rightarrow> [] | Some x \<Rightarrow> [x]) @ es) })))"
  by pat_completeness auto
termination
  by (relation "measure (\<lambda>(rope, t, old, new, i). length t + 1 - i)") (auto simp: str_slice_Some)

declare call_sites.simps [simp del]

definition push_call_site_edits :: "string \<Rightarrow> string \<Rightarrow> edit_map \<Rightarrow> string \<times> 'e document \<Rightarrow> edit_map may_panic" where
  "push_call_site_edits old_local new_name m ud = do {
     es \<leftarrow> call_sites (d_rope (snd ud)) (to_utf8 (d_rope (snd ud))) old_local new_name 0;
     Some (foldl (\<lambda>m e. push_edit (fst ud) e m) m es) }"

definition rename_provider_local ::
    "file_sys \<Rightarrow> 'e store \<Rightarrow> string \<Rightarrow> 'e document \<Rightarrow> lsp_position \<Rightarrow> string \<Rightarrow> document_edit list option may_panic" where
  "rename_provider_local fs s u d pos new_name =
     attempt (ok (lsp_position_to_byte_offset (d_rope d) (to_pos pos))) (\<lambda>offset.
     attempt (local_span_at (to_utf8 (d_rope d)) offset) (\<lambda>(_, _, old_local). do {
       m \<leftarrow> push_required_providers_attr_edits fs s u old_local new_name [];
       m \<leftarrow> fold_may (push_call_site_edits old_local new_name) m (documents s);
       Some (if m = [] then None else Some (versioned_workspace_edit s m)) }))"

section \<open>The requests\<close>

definition prepare_rename :: "'e store \<Rightarrow> string \<Rightarrow> lsp_position \<Rightarrow> (lsp_range \<times> string) option may_panic" where
  "prepare_rename s u pos =
     (case hm_get (documents s) u of
        None \<Rightarrow> Some None
      | Some d \<Rightarrow> do {
          p \<leftarrow> prepare_rename_provider_local d pos;
          (case p of
             Some r \<Rightarrow> Some (Some r)
           | None \<Rightarrow>
               (case find_symbol_at_cursor d pos of
                  None \<Rightarrow> Some None
                | Some t \<Rightarrow>
                    attempt (narrow (case ct_kind t of OnReference \<Rightarrow> Tail | OnDefinition \<Rightarrow> Label) (d_rope d)
                        (location_range (ct_location t)) (key_name (ct_key t))) (\<lambda>rg.
                      Some (Some (rg, key_name (ct_key t)))))) })"

text \<open>\<open>Inl\<close> is the error that the name is not an identifier.\<close>

definition rename :: "file_sys \<Rightarrow> 'e store \<Rightarrow> string \<Rightarrow> lsp_position \<Rightarrow> string \<Rightarrow> (string + document_edit list option) may_panic" where
  "rename fs s u pos new_name =
     (if \<not> is_valid_identifier new_name then
        Some (Inl (''`'' @ new_name @ ''` is not a valid Terraform identifier (must start with a letter or underscore and contain only letters, digits, `_` or `-`)''))
      else (case hm_get (documents s) u of
          None \<Rightarrow> Some (Inr None)
        | Some d \<Rightarrow> do {
            p \<leftarrow> rename_provider_local fs s u d pos new_name;
            (case p of
               Some edits \<Rightarrow> Some (Inr (Some edits))
             | None \<Rightarrow>
                 (case find_symbol_at_cursor d pos of
                    None \<Rightarrow> Some (Inr None)
                  | Some t \<Rightarrow> do {
                      m \<leftarrow> rename_symbol s (ct_key t) new_name;
                      Some (Inr (if m = [] then None else Some (versioned_workspace_edit s m))) })) }))"

section \<open>What an edit touches\<close>

lemma rfind_ident_Some:
  assumes "rfind_ident t name = Some i"
  shows "\<exists>x y. t = x @ name @ y \<and> length x = i"
proof -
  have "word_at t name i" using assms by (auto simp: rfind_ident_def intro: rfind_from_Some split: if_splits)
  then have "t = take i t @ name @ drop (i + length name) t"
    by (metis add.commute append_take_drop_id drop_drop word_at_def)
  moreover have "i + length name \<le> length t \<or> name = []"
    using \<open>word_at t name i\<close> unfolding word_at_def by (metis length_drop length_take min.absorb_iff2 nat_le_linear
        add.commute diff_is_0_eq le_diff_conv list.size(3) length_0_conv min.cobounded1 le_add_diff_inverse2)
  moreover have "name \<noteq> []" using assms by (auto simp: rfind_ident_def split: if_splits)
  ultimately show ?thesis by (intro exI [of _ "take i t"] exI [of _ "drop (i + length name) t"]) simp
qed

lemma narrow_occurrence:
  assumes "narrow kind rope r name = Some (Some rg)" "name \<noteq> []"
  shows "\<exists>x y. slice_rope rope r = Some (Some (x @ name @ y))
    \<and> absolute_range rope r (length x) (length x + length name) = Some (Some rg)
    \<and> (kind = Label \<longrightarrow> x \<noteq> [] \<and> last x = CHR 0x22 \<and> y \<noteq> [] \<and> hd y = CHR 0x22)"
proof (cases kind)
  case Tail
  then obtain t i where t: "slice_rope rope r = Some (Some t)" "rfind_ident t name = Some i"
      "absolute_range rope r i (i + length name) = Some (Some rg)"
    using assms(1) by (auto simp: narrow_def narrow_identifier_range_def attempt_Some)
  with rfind_ident_Some [OF t(2)] Tail show ?thesis by auto
next
  case Label
  let ?q = "CHR 0x22 # name @ [CHR 0x22]"
  obtain t i where t: "slice_rope rope r = Some (Some t)" "str_find ?q t = Some i"
      "absolute_range rope r (i + 1) (i + 1 + length name) = Some (Some rg)"
    using assms(1) Label by (auto simp: narrow_def narrow_quoted_label_def attempt_Some)
  from str_find_Some [OF t(2)] obtain a b where "t = a @ ?q @ b" "length a = i" by blast
  with t(1,3) show ?thesis
    by (intro exI [of _ "a @ [CHR 0x22]"] exI [of _ "CHR 0x22 # b"]) simp
qed

lemma to_utf8_last: "to_utf8 p \<noteq> [] \<Longrightarrow> last (to_utf8 p) = CHR 0x22 \<Longrightarrow> list_all scalar p \<Longrightarrow> p \<noteq> [] \<and> last p = 34"
proof -
  assume p: "to_utf8 p \<noteq> []" "last (to_utf8 p) = CHR 0x22" "list_all scalar p"
  then have "to_utf8 p = butlast (to_utf8 p) @ CHR 0x22 # []" by (metis append_butlast_last_id)
  then obtain q s where "p = q @ byte CHR 0x22 # s" "to_utf8 s = []"
    using ascii_seam [OF p(3), of "butlast (to_utf8 p)" "CHR 0x22" "[]"] by (auto simp: byte_def)
  moreover from this have "s = []" using to_utf8_length [of s] by simp
  ultimately show ?thesis by (simp add: byte_def)
qed

lemma to_utf8_hd: "to_utf8 s \<noteq> [] \<Longrightarrow> hd (to_utf8 s) = CHR 0x22 \<Longrightarrow> list_all scalar s \<Longrightarrow> s \<noteq> [] \<and> hd s = 34"
proof -
  assume s: "to_utf8 s \<noteq> []" "hd (to_utf8 s) = CHR 0x22" "list_all scalar s"
  then have "to_utf8 s = [] @ CHR 0x22 # tl (to_utf8 s)" by (cases "to_utf8 s") auto
  then obtain q t where "s = q @ byte CHR 0x22 # t" "to_utf8 q = []"
    using ascii_seam [OF s(3), of "[]" "CHR 0x22" "tl (to_utf8 s)"] by (auto simp: byte_def)
  moreover from this have "q = []" using to_utf8_length [of q] by simp
  ultimately show ?thesis by (simp add: byte_def)
qed

text \<open>
  C12. An edit of a rename touches a written name only: applied by the editor, it replaces one occurrence of
  the old name by the new one, between quotes at a declaration, and leaves the rest of the text alone.
\<close>

theorem rename_replaces_name:
  assumes "narrow kind (d_rope d) (location_range l) name = Some (Some rg)"
    and "list_all scalar (d_rope d)" "len_bytes (d_rope d) < 2 ^ 32"
    and "name \<noteq> []" "list_all (\<lambda>c. 32 < byte c \<and> byte c < 128) name"
  shows "\<exists>p s. d_rope d = p @ map byte name @ s
    \<and> (kind = Label \<longrightarrow> p \<noteq> [] \<and> last p = 34 \<and> s \<noteq> [] \<and> hd s = 34)
    \<and> apply_change d \<lparr>ch_range = Some rg, ch_text = new\<rparr>
        = Some (d\<lparr>d_rope := p @ new @ s, d_format_cache := None\<rparr>, Inr ())"
proof -
  have ascii: "list_all (\<lambda>c. byte c < 128) name" using assms(5) by (simp add: list_all_iff)
  obtain x y where xy: "slice_rope (d_rope d) (location_range l) = Some (Some (x @ name @ y))"
      "absolute_range (d_rope d) (location_range l) (length x) (length x + length name) = Some (Some rg)"
      "kind = Label \<longrightarrow> x \<noteq> [] \<and> last x = CHR 0x22 \<and> y \<noteq> [] \<and> hd y = CHR 0x22"
    using narrow_occurrence [OF assms(1,4)] by blast
  obtain p s pre post where ps: "d_rope d = (pre @ p) @ map byte name @ (s @ post)" "to_utf8 p = x" "to_utf8 s = y"
      "edit_range_of (d_rope d) (len_bytes (pre @ p)) (len_bytes ((pre @ p) @ map byte name)) = Some rg"
    using narrowed [OF assms(2) ascii assms(4) xy(1,2)] by blast
  have "32 < byte (hd name)" "32 < byte (last name)" using assms(4,5) by (simp_all add: list_all_iff)
  then have "hd (map byte name) \<noteq> 10" "last (map byte name) \<noteq> 13"
    using assms(4) by (auto simp: hd_map last_map)
  then have "apply_change d \<lparr>ch_range = Some rg, ch_text = new\<rparr>
      = Some (d\<lparr>d_rope := (pre @ p) @ new @ (s @ post), d_format_cache := None\<rparr>, Inr ())"
    using ps(1,4) assms(3,4) by (intro ranged_edit) (auto simp: splits_crlf_def)
  moreover have "kind = Label \<longrightarrow> p \<noteq> [] \<and> last p = 34 \<and> s \<noteq> [] \<and> hd s = 34"
    using xy(3) ps(2,3) assms(2) to_utf8_last [of p] to_utf8_hd [of s] unfolding ps(1) by auto
  ultimately show ?thesis
    using ps(1) by (intro exI [of _ "pre @ p"] exI [of _ "s @ post"]) auto
qed

section \<open>Which edits a rename makes\<close>

definition edits_of :: "edit_map \<Rightarrow> string \<Rightarrow> string_edit list" where
  "edits_of m u = (case hm_get m u of Some es \<Rightarrow> es | None \<Rightarrow> [])"

text \<open>
  A text holds a name: between quotes where the name is declared, as a whole word where it is used.
\<close>

definition holds_name :: "edit_kind \<Rightarrow> string \<Rightarrow> string \<Rightarrow> bool" where
  "holds_name kind t name \<longleftrightarrow>
     (case kind of
        Label \<Rightarrow> (\<exists>x y. t = x @ CHR 0x22 # name @ CHR 0x22 # y)
      | Tail \<Rightarrow> (\<exists>x y. t = x @ name @ y \<and> (x \<noteq> [] \<longrightarrow> \<not> is_ident_byte (last x)) \<and> (y \<noteq> [] \<longrightarrow> \<not> is_ident_byte (hd y))))"

lemma rfind_from_None: "rfind_from hay name n = None \<Longrightarrow> i \<le> n \<Longrightarrow> \<not> word_at hay name i"
  by (induction n) (auto split: if_splits elim: le_SucE)

lemma word_at_split:
  "t = x @ name @ y \<Longrightarrow> word_at t name (length x)
     \<longleftrightarrow> (x \<noteq> [] \<longrightarrow> \<not> is_ident_byte (last x)) \<and> (y \<noteq> [] \<longrightarrow> \<not> is_ident_byte (hd y))"
  by (cases x rule: rev_cases; cases y) (auto simp: word_at_def nth_append)

lemma rfind_ident_holds:
  assumes "name \<noteq> []"
  shows "rfind_ident t name \<noteq> None \<longleftrightarrow> holds_name Tail t name"
proof
  assume "rfind_ident t name \<noteq> None"
  then obtain i where i: "rfind_ident t name = Some i" by blast
  from rfind_ident_Some [OF i] obtain x y where xy: "t = x @ name @ y" "length x = i" by blast
  have "word_at t name i" using i by (auto simp: rfind_ident_def intro: rfind_from_Some split: if_splits)
  with xy word_at_split [OF xy(1)] show "holds_name Tail t name" by (auto simp: holds_name_def)
next
  assume "holds_name Tail t name"
  then obtain x y where xy: "t = x @ name @ y"
      "(x \<noteq> [] \<longrightarrow> \<not> is_ident_byte (last x)) \<and> (y \<noteq> [] \<longrightarrow> \<not> is_ident_byte (hd y))"
    by (auto simp: holds_name_def)
  have word: "word_at t name (length x)" using word_at_split [OF xy(1)] xy(2) by simp
  have "length x \<le> length t - length name" using xy(1) by simp
  from rfind_from_None [OF _ this] word have "rfind_from t name (length t - length name) \<noteq> None" by blast
  with xy(1) assms show "rfind_ident t name \<noteq> None" by (simp add: rfind_ident_def)
qed

lemma quoted_holds: "str_find (CHR 0x22 # name @ [CHR 0x22]) t \<noteq> None \<longleftrightarrow> holds_name Label t name"
  by (auto simp: str_find_None holds_name_def)

text \<open>An occurrence of the name in a slice has a range.\<close>

lemma absolute_range_ascii:
  assumes "list_all scalar rope" "list_all (\<lambda>c. byte c < 128) name" "name \<noteq> []"
    and "slice_rope rope r = Some (Some (x @ name @ y))"
  shows "\<exists>rg. absolute_range rope r (length x) (length x + length name) = Some (Some rg)"
proof -
  obtain pre m post where m: "rope = pre @ m @ post" "x @ name @ y = to_utf8 m"
      "lsp_position_to_byte_offset rope (to_pos (range_start r)) = Some (Inr (len_bytes pre))"
    using slice_rope_Some [OF assms(4)] by blast
  have "list_all scalar m" using assms(1) m(1) by simp
  then obtain p s where ps: "m = p @ map byte name @ s" "to_utf8 p = x"
    using ascii_word [OF _ m(2) [symmetric] assms(2,3)] by blast
  have "length x = len_bytes p" using ps(2) to_utf8_length [of p] by simp
  then have at: "len_bytes pre + length x = len_bytes (pre @ p)"
    "len_bytes pre + (length x + length name) = len_bytes (pre @ p @ map byte name)"
    using len_bytes_ascii [OF assms(2)] by simp_all
  obtain a where a: "byte_offset_to_lsp_position rope (len_bytes pre + length x) = Some (Inr a)"
    using offset_to_position [of "pre @ p" "map byte name @ s @ post"] unfolding at m(1) ps(1) by simp
  obtain b where b: "byte_offset_to_lsp_position rope (len_bytes pre + (length x + length name)) = Some (Inr b)"
    using offset_to_position [of "pre @ p @ map byte name" "s @ post"] unfolding at m(1) ps(1) by simp
  show ?thesis unfolding absolute_range_def attempt_def ok_def m(3) by (simp add: a b)
qed

text \<open>The narrowed range exists exactly when the text of the location holds the name.\<close>

lemma narrow_exact:
  assumes "narrow kind rope r name = Some x" "list_all scalar rope" "list_all (\<lambda>c. byte c < 128) name" "name \<noteq> []"
  shows "x \<noteq> None \<longleftrightarrow> (\<exists>t. slice_rope rope r = Some (Some t) \<and> holds_name kind t name)"
proof (cases "\<exists>t. slice_rope rope r = Some (Some t)")
  case False
  with assms(1) show ?thesis
    by (cases kind) (auto simp: narrow_def narrow_identifier_range_def narrow_quoted_label_def attempt_def split: option.splits)
next
  case True
  then obtain t where t: "slice_rope rope r = Some (Some t)" by blast
  show ?thesis
  proof (cases kind)
    case Tail
    show ?thesis
    proof (cases "rfind_ident t name")
      case None
      with assms(1) Tail t rfind_ident_holds [OF assms(4), of t] show ?thesis
        by (auto simp: narrow_def narrow_identifier_range_def attempt_def)
    next
      case (Some i)
      from rfind_ident_Some [OF this] obtain a b where ab: "t = a @ name @ b" "length a = i" by blast
      from absolute_range_ascii [OF assms(2-4) t [unfolded ab(1)]] assms(1) Tail t Some ab(2)
        rfind_ident_holds [OF assms(4), of t]
      show ?thesis by (auto simp: narrow_def narrow_identifier_range_def attempt_def)
    qed
  next
    case Label
    let ?q = "CHR 0x22 # name @ [CHR 0x22]"
    show ?thesis
    proof (cases "str_find ?q t")
      case None
      with assms(1) Label t quoted_holds [of name t] show ?thesis
        by (auto simp: narrow_def narrow_quoted_label_def attempt_def)
    next
      case (Some i)
      from str_find_Some [OF Some] obtain a b where ab: "t = a @ ?q @ b" "length a = i" by blast
      then have "slice_rope rope r = Some (Some ((a @ [CHR 0x22]) @ name @ (CHR 0x22 # b)))" using t by simp
      from absolute_range_ascii [OF assms(2-4) this] assms(1) Label t Some ab(2) quoted_holds [of name t]
      show ?thesis by (auto simp: narrow_def narrow_quoted_label_def attempt_def)
    qed
  qed
qed

text \<open>A range that covers an occurrence of the name inside a location.\<close>

definition name_inside :: "'e document \<Rightarrow> lsp_range \<Rightarrow> string \<Rightarrow> lsp_range \<Rightarrow> bool" where
  "name_inside d r name rg \<longleftrightarrow>
     (\<exists>pre p s post. d_rope d = (pre @ p) @ map byte name @ (s @ post)
        \<and> slice_rope (d_rope d) r = Some (Some (to_utf8 (p @ map byte name @ s)))
        \<and> edit_range_of (d_rope d) (len_bytes (pre @ p)) (len_bytes ((pre @ p) @ map byte name)) = Some rg)"

definition names_symbol :: "'e document \<Rightarrow> edit_kind \<Rightarrow> string \<Rightarrow> symbol_location \<Rightarrow> bool" where
  "names_symbol d kind name l \<longleftrightarrow>
     loc_uri l = d_uri d \<and> (\<exists>t. slice_rope (d_rope d) (location_range l) = Some (Some t) \<and> holds_name kind t name)"

lemma to_utf8_append: "to_utf8 (a @ b) = to_utf8 a @ to_utf8 b"
  by (simp add: to_utf8_def)

lemma to_utf8_ascii: "list_all (\<lambda>c. byte c < 128) name \<Longrightarrow> to_utf8 (map byte name) = name"
  by (induction name) (simp_all add: to_utf8_def utf8_char_def byte_def)

lemma narrow_inside:
  assumes "narrow kind (d_rope d) r name = Some (Some rg)" "list_all scalar (d_rope d)" "list_all (\<lambda>c. byte c < 128) name" "name \<noteq> []"
  shows "name_inside d r name rg"
proof -
  obtain x y where xy: "slice_rope (d_rope d) r = Some (Some (x @ name @ y))"
      "absolute_range (d_rope d) r (length x) (length x + length name) = Some (Some rg)"
    using narrow_occurrence [OF assms(1,4)] by blast
  obtain p s pre post where ps: "d_rope d = (pre @ p) @ map byte name @ (s @ post)" "to_utf8 p = x" "to_utf8 s = y"
      "edit_range_of (d_rope d) (len_bytes (pre @ p)) (len_bytes ((pre @ p) @ map byte name)) = Some rg"
    using narrowed [OF assms(2-4) xy] by blast
  have "slice_rope (d_rope d) r = Some (Some (to_utf8 (p @ map byte name @ s)))"
    using xy(1) ps(2,3) to_utf8_ascii [OF assms(3)] by (simp add: to_utf8_append)
  with ps(1,4) show ?thesis unfolding name_inside_def by blast
qed

lemma edits_of_push: "edits_of (push_edit v e m) u = (if u = v then edits_of m u @ [e] else edits_of m u)"
  by (simp add: edits_of_def push_edit_def hm_get_insert split: option.splits)

lemma push_narrow_edits:
  assumes "fold_may (push_narrow_edit s kind name new) m ls = Some m'" "hm_get (documents s) u = Some d" "d_uri d = u"
    "list_all scalar (d_rope d)" "list_all (\<lambda>c. byte c < 128) name" "name \<noteq> []"
  shows "\<exists>es. edits_of m' u = edits_of m u @ es
    \<and> list_all2 (\<lambda>l e. te_text e = new \<and> name_inside d (location_range l) name (te_range e)) (filter (names_symbol d kind name) ls) es"
  using assms(1)
proof (induction ls arbitrary: m)
  case Nil
  then show ?case by simp
next
  case (Cons l ls)
  then obtain m1 where m1: "push_narrow_edit s kind name new m l = Some m1" "fold_may (push_narrow_edit s kind name new) m1 ls = Some m'"
    by (auto split: bind_splits)
  obtain es where es: "edits_of m' u = edits_of m1 u @ es"
      "list_all2 (\<lambda>l e. te_text e = new \<and> name_inside d (location_range l) name (te_range e)) (filter (names_symbol d kind name) ls) es"
    using Cons.IH [OF m1(2)] by blast
  show ?case
  proof (cases "loc_uri l = u")
    case False
    then have "edits_of m1 u = edits_of m u"
      using m1(1) by (auto simp: push_narrow_edit_def edits_of_push split: option.splits bind_splits)
    moreover have "\<not> names_symbol d kind name l" using False assms(3) by (simp add: names_symbol_def)
    ultimately show ?thesis using es by simp
  next
    case True
    with m1(1) assms(2) obtain x where x: "narrow kind (d_rope d) (location_range l) name = Some x"
        "m1 = (case x of None \<Rightarrow> m | Some rg \<Rightarrow> push_edit u \<lparr>te_range = rg, te_text = new\<rparr> m)"
      by (auto simp: push_narrow_edit_def split: bind_splits)
    have iff: "x \<noteq> None \<longleftrightarrow> names_symbol d kind name l"
      using narrow_exact [OF x(1) assms(4-6)] True assms(3) by (simp add: names_symbol_def)
    show ?thesis
    proof (cases x)
      case None
      with es x(2) iff show ?thesis by auto
    next
      case (Some rg)
      with narrow_inside [OF x(1) [unfolded Some] assms(4-6)] iff es x(2) show ?thesis
        by (intro exI [of _ "\<lparr>te_range = rg, te_text = new\<rparr> # es"]) (simp add: edits_of_push)
    qed
  qed
qed

lemma renamed_locations:
  assumes "store_reachable F s" "rename_symbol s k new = Some m" "hm_get (documents s) u = Some d"
    and "key_name k \<noteq> []" "list_all (\<lambda>c. byte c < 128) (key_name k)"
  shows "list_all2 (\<lambda>l e. te_text e = new \<and> name_inside d (location_range l) (key_name k) (te_range e))
     (filter (names_symbol d Label (key_name k)) (locations_at (definitions_by_name s) k)
      @ filter (names_symbol d Tail (key_name k)) (locations_at (references_by_name s) k))
     (edits_of m u)"
proof -
  have d: "d_uri d = u" "list_all scalar (d_rope d)"
    using store_reachable_ok [OF assms(1)] hm_get_in [OF assms(3)]
    by (fastforce simp: store_ok_def documents_ok_def document_ok_def list_all_iff)+
  obtain m1 where m1: "fold_may (push_narrow_edit s Label (key_name k) new) [] (locations_at (definitions_by_name s) k) = Some m1"
      "fold_may (push_narrow_edit s Tail (key_name k) new) m1 (locations_at (references_by_name s) k) = Some m"
    using assms(2) by (auto simp: rename_symbol_def split: bind_splits)
  have "edits_of [] u = []" by (simp add: edits_of_def hm_get_def)
  with push_narrow_edits [OF m1(1) assms(3) d assms(5,4)] push_narrow_edits [OF m1(2) assms(3) d assms(5,4)]
  show ?thesis by (auto intro: list_all2_appendI)
qed

text \<open>
  C11. The edits a rename makes in a document are, in order, one for each location that the index files under the
  key in the document and whose text holds the name, between quotes for a declaration and as a whole word for a
  reference, and none else; each carries the new name and covers an occurrence of the old one inside its location.
\<close>

theorem rename_edits_exact:
  assumes "store_reachable F s" "rename_symbol s k new = Some m" "hm_get (documents s) u = Some d"
    and "key_name k \<noteq> []" "list_all (\<lambda>c. byte c < 128) (key_name k)"
  shows "list_all2 (\<lambda>l e. te_text e = new \<and> name_inside d (location_range l) (key_name k) (te_range e))
     (filter (names_symbol d Label (key_name k)) (locations_at (definitions_by_name s) k)
      @ filter (names_symbol d Tail (key_name k)) (locations_at (references_by_name s) k))
     (edits_of m u)"
  using renamed_locations [OF assms] .

section \<open>Renaming a resource\<close>

lemma inside_edit:
  assumes "name_inside d r name rg" "len_bytes (d_rope d) < 2 ^ 32" "name \<noteq> []" "list_all (\<lambda>c. 32 < byte c \<and> byte c < 128) name"
  shows "\<exists>p s. d_rope d = p @ map byte name @ s
    \<and> apply_change d \<lparr>ch_range = Some rg, ch_text = new\<rparr> = Some (d\<lparr>d_rope := p @ new @ s, d_format_cache := None\<rparr>, Inr ())"
proof -
  obtain pre p s post where ps: "d_rope d = (pre @ p) @ map byte name @ (s @ post)"
      "edit_range_of (d_rope d) (len_bytes (pre @ p)) (len_bytes ((pre @ p) @ map byte name)) = Some rg"
    using assms(1) unfolding name_inside_def by blast
  have "32 < byte (hd name)" "32 < byte (last name)" using assms(3,4) by (simp_all add: list_all_iff)
  then have "hd (map byte name) \<noteq> 10" "last (map byte name) \<noteq> 13"
    using assms(3) by (auto simp: hd_map last_map)
  then have "apply_change d \<lparr>ch_range = Some rg, ch_text = new\<rparr>
      = Some (d\<lparr>d_rope := (pre @ p) @ new @ (s @ post), d_format_cache := None\<rparr>, Inr ())"
    using ps assms(2,3) by (intro ranged_edit) (auto simp: splits_crlf_def)
  with ps(1) show ?thesis by blast
qed

lemma edit_map_ok: "fold_may (push_narrow_edit s kind name new) m ls = Some m' \<Longrightarrow> hm_ok m \<Longrightarrow> hm_ok m'"
proof (induction ls arbitrary: m)
  case (Cons l ls)
  then obtain m1 where m1: "push_narrow_edit s kind name new m l = Some m1" "fold_may (push_narrow_edit s kind name new) m1 ls = Some m'"
    by (auto split: bind_splits)
  with Cons.prems(2) have "hm_ok m1"
    by (auto simp: push_narrow_edit_def push_edit_def intro!: hm_insert_ok split: option.splits bind_splits)
  then show ?case by (rule Cons.IH [OF m1(2)])
qed simp

text \<open>
  C14. Renaming a resource destroys what refers to it: the name under which a resource is indexed is its type and
  its name, so each edit, wherever it is, replaces a written \<open>type.name\<close>, the type included, by the new name.
\<close>

theorem resource_rename_drops_type:
  assumes "store_reachable F s" "hm_get (documents s) u = Some d" "find_symbol_at_cursor d pos = Some t"
    and "ct_key t = resource_key Resource ty n" "list_all (\<lambda>c. 32 < byte c \<and> byte c < 128) (ty @ n)"
    and "rename_provider_local fs s u d pos new = Some None" "rename fs s u pos new = Some (Inr (Some es))"
    and "de \<in> set es" "e \<in> set (de_edits de)" "hm_get (documents s) (de_uri de) = Some d'" "len_bytes (d_rope d') < 2 ^ 32"
  shows "\<exists>x y. d_rope d' = x @ map byte (ty @ ''.'' @ n) @ y
    \<and> apply_change d' \<lparr>ch_range = Some (te_range e), ch_text = map byte (te_text e)\<rparr>
        = Some (d'\<lparr>d_rope := x @ map byte new @ y, d_format_cache := None\<rparr>, Inr ())"
proof -
  let ?k = "resource_key Resource ty n"
  obtain m where m: "rename_symbol s ?k new = Some m" "es = versioned_workspace_edit s m"
    using assms(2-4,6,7) by (auto simp: rename_def split: if_splits bind_splits)
  have "hm_ok []" by (simp add: hm_ok_def)
  then have "hm_ok m"
    using m(1) by (auto simp: rename_symbol_def split: bind_splits dest!: edit_map_ok)
  moreover have "(de_uri de, de_edits de) \<in> set m" using assms(8) m(2) by (auto simp: versioned_workspace_edit_def)
  ultimately have edits: "de_edits de = edits_of m (de_uri de)"
    by (simp add: edits_of_def hm_get_def hm_ok_def)
  have ascii: "list_all (\<lambda>c. 32 < byte c \<and> byte c < 128) (ty @ ''.'' @ n)"
    using assms(5) by (simp add: byte_def)
  have name: "key_name ?k = ty @ ''.'' @ n" by (simp add: resource_key_def)
  have "\<exists>l. te_text e = new \<and> name_inside d' (location_range l) (ty @ ''.'' @ n) (te_range e)"
    using renamed_locations [OF assms(1) m(1) assms(10)] ascii assms(9) unfolding edits name
    by (auto simp: list_all2_conv_all_nth in_set_conv_nth list_all_iff)
  then obtain l where l: "te_text e = new" "name_inside d' (location_range l) (ty @ ''.'' @ n) (te_range e)" by blast
  from inside_edit [OF l(2) assms(11) _ ascii, of "map byte new"] l(1) show ?thesis by simp
qed

end
