(* ===== verification/Navigation.thy ===== *)
theory Navigation
  imports Rename
begin

text \<open>
  Going to a definition and listing references: \<^verbatim>\<open>crates/tfls-lsp/src/handlers/navigation.rs\<close>, with the
  detectors of \<^verbatim>\<open>hover_module_input.rs\<close> and \<^verbatim>\<open>signature_help.rs\<close> that it calls, and the module helpers of
  \<^verbatim>\<open>crates/tfls-engine/src/module.rs\<close>. The directories and module manifests on disk are \<open>module_disk\<close>.
\<close>

section \<open>Child modules\<close>

text \<open>\<open>manifest\<close>: \<open>None\<close> when \<open>.terraform/modules/modules.json\<close> below the path is not a file, else its entries.\<close>

record module_disk =
  is_dir :: "path \<Rightarrow> bool"
  manifest :: "path \<Rightarrow> (string \<times> string) list option"

definition existing_dir :: "file_sys \<Rightarrow> module_disk \<Rightarrow> path \<Rightarrow> path option" where
  "existing_dir fs disk p = (case canonicalize fs p of Some c \<Rightarrow> if is_dir disk c then Some c else None | None \<Rightarrow> None)"

function manifest_dir :: "file_sys \<Rightarrow> module_disk \<Rightarrow> string \<Rightarrow> path \<Rightarrow> path option" where
  "manifest_dir fs disk label dir =
     (case manifest disk dir of
        Some es \<Rightarrow>
          (case List.map_filter (\<lambda>(key, d). if key = label then existing_dir fs disk (join_path dir d) else None) es of
             c # _ \<Rightarrow> Some c
           | [] \<Rightarrow> None)
      | None \<Rightarrow> (case path_parent dir of Some up \<Rightarrow> manifest_dir fs disk label up | None \<Rightarrow> None))"
  by pat_completeness auto
termination
  by (relation "measure (\<lambda>(fs, disk, label, dir). length dir)") (auto simp: path_parent_def split: if_splits)

declare manifest_dir.simps [simp del]

definition resolve_module_source :: "file_sys \<Rightarrow> module_disk \<Rightarrow> path \<Rightarrow> string \<Rightarrow> string \<Rightarrow> path option" where
  "resolve_module_source fs disk parent label source =
     (case existing_dir fs disk (join_path parent source) of
        Some c \<Rightarrow> Some c
      | None \<Rightarrow> manifest_dir fs disk label parent)"

text \<open>The documents directly in a directory, in the order of the map.\<close>

definition documents_in :: "file_sys \<Rightarrow> 'e store \<Rightarrow> path \<Rightarrow> 'e document list" where
  "documents_in fs s dir =
     map snd (filter (\<lambda>(u, _). case parent_dir fs u of Some p \<Rightarrow> dir_paths_match fs p dir | None \<Rightarrow> False) (documents s))"

definition module_source_in_dir :: "file_sys \<Rightarrow> 'e store \<Rightarrow> path \<Rightarrow> string \<Rightarrow> string option" where
  "module_source_in_dir fs s dir label =
     (case List.map_filter (\<lambda>d. hm_get (symbol_table.module_sources (d_symbols d)) label) (documents_in fs s dir) of
        src # _ \<Rightarrow> Some src | [] \<Rightarrow> None)"

type_synonym lsp_location = "string \<times> lsp_range"

definition to_lsp_location :: "symbol_location \<Rightarrow> lsp_location" where
  "to_lsp_location l = (loc_uri l, location_range l)"

definition lookup_child_module_symbol :: "file_sys \<Rightarrow> 'e store \<Rightarrow> path \<Rightarrow> symbol_kind \<Rightarrow> string \<Rightarrow> lsp_location option" where
  "lookup_child_module_symbol fs s child kind name =
     (case List.map_filter (\<lambda>d. case kind of
          Variable \<Rightarrow> hm_get (variables (d_symbols d)) name
        | Output \<Rightarrow> hm_get (outputs (d_symbols d)) name
        | _ \<Rightarrow> None) (documents_in fs s child) of
        found # _ \<Rightarrow> Some (to_lsp_location (sym_location found)) | [] \<Rightarrow> None)"

section \<open>Inputs and outputs of a module\<close>

definition span_contains :: "span option \<Rightarrow> nat \<Rightarrow> bool" where
  "span_contains sp offset \<longleftrightarrow> (case sp of Some (a, b) \<Rightarrow> a \<le> offset \<and> offset \<le> b | None \<Rightarrow> False)"

definition find_module_block_at :: "body \<Rightarrow> nat \<Rightarrow> (ident list \<times> body) option" where
  "find_module_block_at b offset =
     (case List.map_filter (\<lambda>item. case item of
          Block sp (kw, _) labels inner \<Rightarrow> if kw = ''module'' \<and> span_contains sp offset then Some (labels, inner) else None
        | Attribute _ _ _ _ \<Rightarrow> None) b of
        x # _ \<Rightarrow> Some x | [] \<Rightarrow> None)"

definition string_attribute :: "body \<Rightarrow> string \<Rightarrow> string option" where
  "string_attribute b key =
     (case List.map_filter (\<lambda>e. case e of EString _ s \<Rightarrow> Some s | _ \<Rightarrow> None) (attrs_named key b) of
        s # _ \<Rightarrow> Some s | [] \<Rightarrow> None)"

fun attribute_key_at :: "body \<Rightarrow> nat \<Rightarrow> rope \<Rightarrow> (string \<times> lsp_range) option may_panic" where
  "attribute_key_at [] offset rope = Some None"
| "attribute_key_at (Block _ _ _ _ # b) offset rope = attribute_key_at b offset rope"
| "attribute_key_at (Attribute (key, ks) _ _ _ # b) offset rope =
     (case ks of
        None \<Rightarrow> Some None
      | Some (a, e) \<Rightarrow>
          if a \<le> offset \<and> offset \<le> e then attempt (span_range rope (a, e)) (\<lambda>r. Some (Some (key, r)))
          else attribute_key_at b offset rope)"

definition module_input_goto_at :: "file_sys \<Rightarrow> module_disk \<Rightarrow> 'e store \<Rightarrow> 'e document \<Rightarrow> string \<Rightarrow> lsp_position \<Rightarrow> lsp_location option may_panic" where
  "module_input_goto_at fs disk s d u pos =
     attempt (Some (body (d_parsed d))) (\<lambda>b.
     attempt (ok (lsp_position_to_byte_offset (d_rope d) (to_pos pos))) (\<lambda>offset.
     attempt (Some (find_module_block_at b offset)) (\<lambda>(labels, inner).
     attempt (Some (case labels of [] \<Rightarrow> None | l # _ \<Rightarrow> Some (fst l))) (\<lambda>label.
     attempt (Some (string_attribute inner ''source'')) (\<lambda>source.
     attempt (attribute_key_at inner offset (d_rope d)) (\<lambda>(key, _).
       if key \<in> {''source'', ''version'', ''providers'', ''count'', ''for_each'', ''depends_on''} then Some None
       else
         attempt (Some (parent_dir fs u)) (\<lambda>parent.
         attempt (Some (resolve_module_source fs disk parent label source)) (\<lambda>child.
           Some (lookup_child_module_symbol fs s child Variable key)))))))))"

text \<open>
  The cursor on the output segment of \<open>module.LABEL.OUTPUT\<close>, with indexes after the label, or on an attribute
  behind it.
\<close>

definition module_output_hit :: "trav_op list \<Rightarrow> nat \<Rightarrow> (string \<times> string) option" where
  "module_output_hit ops offset =
     (case ops of
        GetAttr _ label # rest \<Rightarrow>
          (case dropWhile (\<lambda>op. case op of Index _ \<Rightarrow> True | _ \<Rightarrow> False) rest of
             GetAttr (Some (a, e)) output # tail \<Rightarrow>
               (let last_end = snd (last ((a, e) # List.map_filter (\<lambda>op. case op of GetAttr sp _ \<Rightarrow> sp | _ \<Rightarrow> None) tail)) in
                if a \<le> offset \<and> offset \<le> last_end then Some (label, output) else None)
           | _ \<Rightarrow> None)
      | _ \<Rightarrow> None)"

definition first_some :: "'a option list \<Rightarrow> 'a option" where
  "first_some xs = (case List.map_filter id xs of x # _ \<Rightarrow> Some x | [] \<Rightarrow> None)"

fun find_module_output_segment_in_expr :: "nat \<Rightarrow> expr \<Rightarrow> (string \<times> string) option" where
  "find_module_output_segment_in_expr offset (ETraversal sp root ops) =
     first_some ((case root of EVariable v \<Rightarrow> if v = ''module'' then module_output_hit ops offset else None | _ \<Rightarrow> None)
       # find_module_output_segment_in_expr offset root
       # map (\<lambda>op. case op of Index e \<Rightarrow> find_module_output_segment_in_expr offset e | _ \<Rightarrow> None) ops)"
| "find_module_output_segment_in_expr offset (EFuncCall sp ns name args) =
     first_some (map (find_module_output_segment_in_expr offset) args)"
| "find_module_output_segment_in_expr offset (EConditional c t f) =
     first_some [find_module_output_segment_in_expr offset c, find_module_output_segment_in_expr offset t,
       find_module_output_segment_in_expr offset f]"
| "find_module_output_segment_in_expr offset (EBinaryOp sp l op r) =
     first_some [find_module_output_segment_in_expr offset l, find_module_output_segment_in_expr offset r]"
| "find_module_output_segment_in_expr offset (EUnaryOp op e) = find_module_output_segment_in_expr offset e"
| "find_module_output_segment_in_expr offset (EParenthesis e) = find_module_output_segment_in_expr offset e"
| "find_module_output_segment_in_expr offset (EArray es) = first_some (map (find_module_output_segment_in_expr offset) es)"
| "find_module_output_segment_in_expr offset (EObject sp kvs) =
     first_some (map (\<lambda>(k, v). find_module_output_segment_in_expr offset v) kvs)"
| "find_module_output_segment_in_expr offset (EFor kv vv coll key v cond) =
     first_some [find_module_output_segment_in_expr offset coll, find_module_output_segment_in_expr offset v]"
| "find_module_output_segment_in_expr offset _ = None"

fun find_module_output_segment_in_item :: "nat \<Rightarrow> body_item \<Rightarrow> (string \<times> string) option" where
  "find_module_output_segment_in_item offset (Attribute _ e _ _) = find_module_output_segment_in_expr offset e"
| "find_module_output_segment_in_item offset (Block _ _ _ inner) =
     first_some (map (find_module_output_segment_in_item offset) inner)"

definition find_module_output_segment_at :: "body \<Rightarrow> nat \<Rightarrow> (string \<times> string) option" where
  "find_module_output_segment_at b offset = first_some (map (find_module_output_segment_in_item offset) b)"

definition module_output_goto_at :: "file_sys \<Rightarrow> module_disk \<Rightarrow> 'e store \<Rightarrow> 'e document
    \<Rightarrow> string \<Rightarrow> lsp_position \<Rightarrow> lsp_location option may_panic" where
  "module_output_goto_at fs disk s d u pos =
     attempt (Some (body (d_parsed d))) (\<lambda>b.
     attempt (ok (lsp_position_to_byte_offset (d_rope d) (to_pos pos))) (\<lambda>offset.
     attempt (Some (find_module_output_segment_at b offset)) (\<lambda>(label, name).
     attempt (Some (parent_dir fs u)) (\<lambda>parent.
     attempt (Some (case hm_get (symbol_table.module_sources (d_symbols d)) label of
         Some src \<Rightarrow> Some src | None \<Rightarrow> module_source_in_dir fs s parent label)) (\<lambda>source.
     attempt (Some (resolve_module_source fs disk parent label source)) (\<lambda>child.
       Some (lookup_child_module_symbol fs s child Output name)))))))"

section \<open>Functions of providers\<close>

text \<open>\<open>split\<close> by a string.\<close>

function split_by :: "string \<Rightarrow> string \<Rightarrow> string list" where
  "split_by sep t =
     (case str_find sep t of
        None \<Rightarrow> [t]
      | Some i \<Rightarrow> if sep = [] then [t] else take i t # split_by sep (drop (i + length sep) t))"
  by pat_completeness auto
termination
  by (relation "measure (\<lambda>(sep, t). length t)") (auto dest!: str_find_Some)

declare split_by.simps [simp del]

definition identifier_ending_at :: "string \<Rightarrow> nat \<Rightarrow> string option" where
  "identifier_ending_at t e =
     (let start = e - length (takeWhile is_ident_byte (rev (take e t))) in
      if start = e then None else str_slice t start e)"

definition qualified_name_ending_at :: "string \<Rightarrow> nat \<Rightarrow> string option" where
  "qualified_name_ending_at t e =
     (case identifier_ending_at t e of
        None \<Rightarrow> None
      | Some fn_name \<Rightarrow>
          (let fn_start = e - length fn_name in
           if fn_start < 2 \<or> take 2 (drop (fn_start - 2) t) \<noteq> ''::'' then Some fn_name
           else (case identifier_ending_at t (fn_start - 2) of
               None \<Rightarrow> None
             | Some local \<Rightarrow>
                 (let local_start = fn_start - 2 - length local in
                  if local_start < 10 \<or> take 10 (drop (local_start - 10) t) \<noteq> ''provider::'' then Some fn_name
                  else if 0 < local_start - 10 \<and> is_ident_byte (t ! (local_start - 11)) then Some fn_name
                  else Some (''provider::'' @ local @ ''::'' @ fn_name)))))"

text \<open>The end of the identifier around an offset, and the alias and function of a qualified name.\<close>

definition ident_end :: "string \<Rightarrow> nat \<Rightarrow> nat" where
  "ident_end t offset = offset + length (takeWhile is_ident_byte (drop offset t))"

definition provider_call :: "string \<Rightarrow> (string \<times> string) option" where
  "provider_call name =
     (case split_by ''::'' name of
        [p, local, f] \<Rightarrow> if p = ''provider'' then Some (local, f) else None
      | _ \<Rightarrow> None)"

definition extract_provider_local_under_cursor :: "string \<Rightarrow> nat \<Rightarrow> string option may_panic" where
  "extract_provider_local_under_cursor t offset =
     (let e = ident_end t offset in
      case (case qualified_name_ending_at t e of Some name \<Rightarrow> provider_call name | None \<Rightarrow> None) of
        Some (local, _) \<Rightarrow> Some (Some local)
      | None \<Rightarrow>
          (let start = e - length (takeWhile is_ident_byte (rev (take e t))) in
           if start = e then Some None
           else if start < 10 \<or> take 10 (drop (start - 10) t) \<noteq> ''provider::'' then Some None
           else if 10 < start \<and> is_ident_byte (t ! (start - 11)) then Some None
           else map_option Some (str_slice t start e)))"

definition required_providers_attr_location :: "string \<times> 'e document \<Rightarrow> string \<Rightarrow> lsp_location option may_panic" where
  "required_providers_attr_location ud local =
     (case body (d_parsed (snd ud)) of
        None \<Rightarrow> Some None
      | Some b \<Rightarrow> attempt (required_providers_key_range b (d_rope (snd ud)) local) (\<lambda>r. Some (Some (fst ud, r))))"

text \<open>The first answer among documents.\<close>

fun first_hit :: "('a \<Rightarrow> 'b option may_panic) \<Rightarrow> 'a list \<Rightarrow> 'b option may_panic" where
  "first_hit f [] = Some None"
| "first_hit f (x # xs) = do {
     r \<leftarrow> f x;
     (case r of Some y \<Rightarrow> Some (Some y) | None \<Rightarrow> first_hit f xs) }"

definition provider_function_goto_at :: "file_sys \<Rightarrow> 'e store \<Rightarrow> 'e document \<Rightarrow> string \<Rightarrow> lsp_position \<Rightarrow> lsp_location option may_panic" where
  "provider_function_goto_at fs s d u pos =
     attempt (ok (lsp_position_to_byte_offset (d_rope d) (to_pos pos))) (\<lambda>offset.
     attempt (extract_provider_local_under_cursor (to_utf8 (d_rope d)) offset) (\<lambda>local. do {
       own \<leftarrow> required_providers_attr_location (u, d) local;
       (case own of
          Some l \<Rightarrow> Some (Some l)
        | None \<Rightarrow>
            (case parent_dir fs u of
               None \<Rightarrow> Some None
             | Some dir \<Rightarrow>
                 first_hit (\<lambda>ud. required_providers_attr_location ud local)
                   (filter (\<lambda>(u', _). u' \<noteq> u \<and> parent_dir fs u' = Some dir) (documents s)))) }))"

section \<open>Going to a definition\<close>

text \<open>The locations filed under a key that lie in the module of a document.\<close>

definition scoped :: "file_sys \<Rightarrow> string \<Rightarrow> symbol_location list \<Rightarrow> symbol_location list" where
  "scoped fs u ls = (case parent_dir fs u of Some dir \<Rightarrow> filter (\<lambda>l. location_in_dir fs l dir) ls | None \<Rightarrow> ls)"

definition goto_reference :: "file_sys \<Rightarrow> 'e store \<Rightarrow> string \<Rightarrow> lsp_position \<Rightarrow> lsp_location list option" where
  "goto_reference fs s u pos =
     (case hm_get (documents s) u of
        None \<Rightarrow> None
      | Some d \<Rightarrow>
          (case reference_at_position d pos of
             None \<Rightarrow> None
           | Some r \<Rightarrow>
               (let ls = map to_lsp_location (scoped fs u (locations_at (definitions_by_name s) (reference_key (ref_kind r)))) in
                if ls = [] then None else Some ls)))"

datatype goto_response = Scalar lsp_location | Several "lsp_location list"

definition goto_definition :: "file_sys \<Rightarrow> module_disk \<Rightarrow> 'e store \<Rightarrow> string \<Rightarrow> lsp_position
    \<Rightarrow> goto_response option may_panic" where
  "goto_definition fs disk s u pos =
     (let generic = Some (map_option Several (goto_reference fs s u pos)) in
      case hm_get (documents s) u of
        None \<Rightarrow> generic
      | Some d \<Rightarrow> do {
          a \<leftarrow> module_input_goto_at fs disk s d u pos;
          (case a of
             Some l \<Rightarrow> Some (Some (Scalar l))
           | None \<Rightarrow> do {
               b \<leftarrow> module_output_goto_at fs disk s d u pos;
               (case b of
                  Some l \<Rightarrow> Some (Some (Scalar l))
                | None \<Rightarrow> do {
                    c \<leftarrow> provider_function_goto_at fs s d u pos;
                    (case c of Some l \<Rightarrow> Some (Some (Scalar l)) | None \<Rightarrow> generic) }) }) })"

definition goto_declaration :: "file_sys \<Rightarrow> module_disk \<Rightarrow> 'e store \<Rightarrow> string \<Rightarrow> lsp_position
    \<Rightarrow> goto_response option may_panic" where
  "goto_declaration = goto_definition"

section \<open>References\<close>

text \<open>The provider an alias stands for: the last segment of its source, or the alias itself.\<close>

definition required_providers_parse_source_provider_name :: "string \<Rightarrow> string option" where
  "required_providers_parse_source_provider_name src =
     (let l = last (split_on CHR ''/'' src) in if l = [] then None else Some l)"

definition provider_key_name :: "obj_key \<Rightarrow> string option" where
  "provider_key_name k = (case k of KIdent i \<Rightarrow> Some i | KExpr (EString _ s) \<Rightarrow> Some s | KExpr _ \<Rightarrow> None)"

definition provider_of_entry :: "string \<Rightarrow> expr \<Rightarrow> string" where
  "provider_of_entry local v =
     (case v of
        EObject _ kvs \<Rightarrow>
          (case List.map_filter (\<lambda>(k, e). if provider_key_name k = Some ''source'' then string_value e else None) kvs of
             src # _ \<Rightarrow> (case required_providers_parse_source_provider_name src of Some n \<Rightarrow> n | None \<Rightarrow> local)
           | [] \<Rightarrow> local)
      | _ \<Rightarrow> local)"

definition required_providers_local_to_name :: "body \<Rightarrow> string \<Rightarrow> string option" where
  "required_providers_local_to_name b local =
     (case attrs_named local (provider_entries b) of v # _ \<Rightarrow> Some (provider_of_entry local v) | [] \<Rightarrow> None)"

text \<open>The first answer among the documents of the directory of a document, that document first.\<close>

definition lookup_local_in_workspace :: "file_sys \<Rightarrow> 'e store \<Rightarrow> string \<Rightarrow> string \<Rightarrow> string option" where
  "lookup_local_in_workspace fs s u local =
     (let ask = (\<lambda>d. case body (d_parsed d) of Some b \<Rightarrow> required_providers_local_to_name b local | None \<Rightarrow> None);
          own = (case hm_get (documents s) u of Some d \<Rightarrow> ask d | None \<Rightarrow> None) in
      case own of
        Some n \<Rightarrow> Some n
      | None \<Rightarrow>
          (case parent_dir fs u of
             None \<Rightarrow> None
           | Some dir \<Rightarrow>
               (case List.map_filter (\<lambda>(u', d). if u' \<noteq> u \<and> parent_dir fs u' = Some dir then ask d else None) (documents s) of
                  n # _ \<Rightarrow> Some n | [] \<Rightarrow> None)))"

text \<open>\<open>as_block()?\<close> ends the search at the first attribute of the file.\<close>

definition probe_provider_local :: "string \<Rightarrow> body \<Rightarrow> string option" where
  "probe_provider_local provider_name b =
     (case List.map_filter (\<lambda>entry. case entry of
          Attribute (local, _) _ _ _ \<Rightarrow>
            if required_providers_local_to_name b local = Some provider_name then Some local else None
        | Block _ _ _ _ \<Rightarrow> None)
        (provider_entries (takeWhile (\<lambda>item. case item of Block _ _ _ _ \<Rightarrow> True | Attribute _ _ _ _ \<Rightarrow> False) b)) of
        l # _ \<Rightarrow> Some l | [] \<Rightarrow> None)"

definition lookup_provider_local :: "file_sys \<Rightarrow> 'e store \<Rightarrow> string \<Rightarrow> string \<Rightarrow> string option" where
  "lookup_provider_local fs s u provider_name =
     (let ask = (\<lambda>d. case body (d_parsed d) of Some b \<Rightarrow> probe_provider_local provider_name b | None \<Rightarrow> None);
          own = (case hm_get (documents s) u of Some d \<Rightarrow> ask d | None \<Rightarrow> None) in
      case own of
        Some l \<Rightarrow> Some l
      | None \<Rightarrow>
          (case parent_dir fs u of
             None \<Rightarrow> None
           | Some dir \<Rightarrow>
               (case List.map_filter (\<lambda>(u', d). if parent_dir fs u' = Some dir then ask d else None) (documents s) of
                  l # _ \<Rightarrow> Some l | [] \<Rightarrow> None)))"

text \<open>The occurrences of a needle that stand alone, from an offset on. Every needle begins with \<open>provider::\<close>.\<close>

definition stands_alone :: "string \<Rightarrow> nat \<Rightarrow> nat \<Rightarrow> bool" where
  "stands_alone t a b \<longleftrightarrow>
     (a = 0 \<or> \<not> (is_ident_byte (t ! (a - 1)) \<or> t ! (a - 1) = CHR '':''))
     \<and> (length t \<le> b \<or> \<not> (is_ident_byte (t ! b) \<or> t ! b = CHR '':''))"

function calls_in :: "rope \<Rightarrow> string \<Rightarrow> string \<Rightarrow> nat \<Rightarrow> lsp_range list may_panic" where
  "calls_in rope t needle search_from =
     (if needle = [] then Some []
      else case str_slice t search_from (length t) of
        None \<Rightarrow> None
      | Some rest \<Rightarrow>
          (case str_find needle rest of
             None \<Rightarrow> Some []
           | Some rel \<Rightarrow>
               (let a = search_from + rel; b = a + length needle in do {
                  hit \<leftarrow> (if stands_alone t a b then do {
                      st \<leftarrow> ok (byte_offset_to_lsp_position rope a);
                      en \<leftarrow> ok (byte_offset_to_lsp_position rope b);
                      Some (case (st, en) of (Some p, Some q) \<Rightarrow> [lsp_range_of (p, q)] | _ \<Rightarrow> []) }
                    else Some []);
                  more \<leftarrow> calls_in rope t needle b;
                  Some (hit @ more) })))"
  by pat_completeness auto
termination
  by (relation "measure (\<lambda>(rope, t, needle, i). length t + 1 - i)")
    (auto simp: str_slice_Some diff_less_mono2 simp flip: length_greater_0_conv)

declare calls_in.simps [simp del]

fun calls_in_documents :: "(string \<times> 'e document \<Rightarrow> string) \<Rightarrow> (string \<times> 'e document) list \<Rightarrow> lsp_location list may_panic" where
  "calls_in_documents needle [] = Some []"
| "calls_in_documents needle ((u, d) # uds) = do {
     here \<leftarrow> calls_in (d_rope d) (to_utf8 (d_rope d)) (needle (u, d)) 0;
     more \<leftarrow> calls_in_documents needle uds;
     Some (map (\<lambda>r. (u, r)) here @ more) }"

definition provider_function_references_at :: "file_sys \<Rightarrow> 'e store \<Rightarrow> 'e document \<Rightarrow> string \<Rightarrow> lsp_position \<Rightarrow> lsp_location list option may_panic" where
  "provider_function_references_at fs s d u pos =
     attempt (ok (lsp_position_to_byte_offset (d_rope d) (to_pos pos))) (\<lambda>offset.
       (let t = to_utf8 (d_rope d) in
        attempt (Some (qualified_name_ending_at t (ident_end t offset))) (\<lambda>name.
        attempt (Some (provider_call name)) (\<lambda>(cursor_local, fn_name).
          (let provider_name = (case lookup_local_in_workspace fs s u cursor_local of Some n \<Rightarrow> n | None \<Rightarrow> cursor_local);
               needle = (\<lambda>(u', d'). ''provider::'' @
                 (case lookup_provider_local fs s u' provider_name of Some l \<Rightarrow> l | None \<Rightarrow> cursor_local) @ ''::'' @ fn_name) in
           map_option Some (calls_in_documents needle (documents s)))))))"

definition indexed_references :: "file_sys \<Rightarrow> 'e store \<Rightarrow> bool \<Rightarrow> string \<Rightarrow> symbol_key \<Rightarrow> lsp_location list" where
  "indexed_references fs s include_declaration u key =
     map to_lsp_location
       ((if include_declaration then scoped fs u (locations_at (definitions_by_name s) key) else [])
        @ scoped fs u (locations_at (references_by_name s) key))"

definition references :: "file_sys \<Rightarrow> 'e store \<Rightarrow> bool \<Rightarrow> string \<Rightarrow> lsp_position \<Rightarrow> lsp_location list option may_panic" where
  "references fs s include_declaration u pos =
     (let some_or_none = (\<lambda>ls. if ls = [] then None else Some ls) in
      case hm_get (documents s) u of
        None \<Rightarrow> Some None
      | Some d \<Rightarrow> do {
          p \<leftarrow> provider_function_references_at fs s d u pos;
          Some (case p of
              Some ls \<Rightarrow> some_or_none ls
            | None \<Rightarrow>
                (case key_at_cursor d pos of
                   None \<Rightarrow> None
                 | Some key \<Rightarrow> some_or_none (indexed_references fs s include_declaration u key))) })"

section \<open>Going there and reporting agree\<close>

lemma check_reference_eq:
  "check_reference f r = Some g \<Longrightarrow> check_reference (\<lambda>_. False) r' = Some g \<Longrightarrow> ref_kind r' = ref_kind r \<and> \<not> f (ref_kind r)"
  by (auto simp: check_reference_def undefined_warning_def split: reference_kind.splits if_splits)

lemma reported_iff:
  assumes "r \<in> set refs" "checkable (ref_kind r)"
  shows "(\<exists>g \<in> set (undefined_reference_diagnostics refs f). check_reference (\<lambda>_. False) r = Some g) \<longleftrightarrow> \<not> f (ref_kind r)"
proof
  assume "\<exists>g \<in> set (undefined_reference_diagnostics refs f). check_reference (\<lambda>_. False) r = Some g"
  then obtain r' g where "check_reference f r' = Some g" "check_reference (\<lambda>_. False) r = Some g"
    by (auto simp: undefined_reference_diagnostics_def map_filter_def)
  then show "\<not> f (ref_kind r)" using check_reference_eq by metis
next
  assume no: "\<not> f (ref_kind r)"
  then obtain g where "check_reference f r = Some g" "check_reference (\<lambda>_. False) r = Some g"
    using assms(2) by (cases "ref_kind r") (auto simp: check_reference_def checkable_def)
  with assms(1) show "\<exists>g \<in> set (undefined_reference_diagnostics refs f). check_reference (\<lambda>_. False) r = Some g"
    unfolding undefined_reference_diagnostics_def map_filter_def by force
qed

lemma goto_reference_None:
  assumes "hm_get (documents s) u = Some d" "reference_at_position d pos = Some r" "checkable (ref_kind r)"
  shows "goto_reference fs s u pos = None \<longleftrightarrow> \<not> is_defined_in_module fs s (parent_dir fs u) (ref_kind r)"
  using assms(1,2) unfolding is_defined_iff [OF assms(3)]
  by (auto simp: goto_reference_def scoped_def Let_def filter_empty_conv ex_in_conv split: option.splits)

lemma declared_iff_defined:
  assumes "store_ok s" "indexed s (documents s)" "checkable k" "\<not> is_tftest_uri u"
  shows "declared_in_scope fs s u k \<longleftrightarrow> is_defined_in_module fs s (parent_dir fs u) k"
proof -
  have dir: "resolving_dir fs u = parent_dir fs u" using assms(4) by (simp add: resolving_dir_def)
  have "documents_ok (documents s)" "index_wf (definitions_by_name s)"
      "entries (definitions_by_name s) = document_entries document_definitions (documents s)"
    using assms(1,2) by (auto simp: store_ok_def indexed_def)
  note def = resolves_iff [OF assms(3) this, of fs u, unfolded dir]
  show ?thesis
  proof (cases "parent_dir fs u")
    case None
    with def show ?thesis by (simp add: declared_in_scope_def in_scope_def dir)
  next
    case (Some p)
    then have "in_scope fs u u' \<longleftrightarrow> (\<exists>q. parent_dir fs u' = Some q \<and> dir_paths_match fs q p)" for u'
      by (auto simp: in_scope_def dir dir_paths_match_def [of fs p p])
    with def Some show ?thesis by (simp add: declared_in_scope_def)
  qed
qed

text \<open>
  C10. In a cleanly parsed document other than a test file, on a reference that the linter checks, going to the
  definition comes back empty exactly when the linter
  reports the reference as undefined, in every reachable store: the two requests never contradict each
  other, although one asks the index for locations and the other also asks the document itself.
\<close>

theorem goto_agrees_with_diagnostics:
  assumes "store_reachable F s" "hm_get (documents s) u = Some d" "\<not> has_errors (d_parsed d)" "\<not> is_tftest_uri u"
    and "reference_at_position d pos = Some r" "checkable (ref_kind r)"
  shows "goto_reference fs s u pos = None
    \<longleftrightarrow> (\<exists>g \<in> set (undefined_references fs s u). check_reference (\<lambda>_. False) r = Some g)"
proof -
  have ok: "store_ok s" "indexed s (documents s)"
    using store_reachable_ok [OF assms(1)] by (simp_all add: store_ok_def)
  have "undefined_references fs s u = undefined_reference_diagnostics (d_references d) (declared_in_scope fs s u)"
    by (rule undefined_references_eq [OF ok(1) assms(2,3) refl ok(2)]) simp
  moreover have "r \<in> set (d_references d)"
    using assms(5) by (auto simp: reference_at_position_def dest!: min_by_key_spec(1))
  ultimately show ?thesis
    by (simp add: reported_iff assms(6) goto_reference_None [OF assms(2,5,6)] declared_iff_defined [OF ok assms(6,4)])
qed



section \<open>What a rename leaves alone, and what it should have\<close>

definition one_reference :: "string \<Rightarrow> rope \<Rightarrow> reference_kind \<Rightarrow> nat \<Rightarrow> nat document" where
  "one_reference u r k n = hydrated_from_cache u r empty_table
     [\<lparr>ref_kind = k, ref_location = location_new u (in_line 0 n)\<rparr>]"

definition var_x :: rope where
  "var_x = map byte ''var.x''"

definition two_modules :: "nat store" where
  "two_modules = upsert_document (one_reference ''/b/main.tf'' var_x (RefVariable ''x'') 5)
     (upsert_document (one_reference ''/a/main.tf'' var_x (RefVariable ''x'') 5) store_new)"

lemma one_reference_rope [simp]: "d_rope (one_reference u r k n) = r"
  by (simp add: one_reference_def hydrated_from_cache_def)

lemma one_reference_ok: "list_all scalar r \<Longrightarrow> n < 2 ^ 32 \<Longrightarrow> \<not> is_tftest_uri u \<Longrightarrow> document_ok (one_reference u r k n)"
  by (simp add: one_reference_def hydrated_from_cache_def document_ok_def table_ok_def keyed_def within_def hm_ok_def
      empty_table_def location_new_def in_line_def lsp_range_of_def)

lemma two_modules_reachable: "store_reachable F two_modules"
  unfolding two_modules_def
  by (intro store_reachable.intros held_document.hydrated [OF one_reference_def one_reference_ok])
    (simp_all add: scalar_def byte_def var_x_def is_tftest_uri_def ends_with_def)

lemma two_modules_simps:
  "documents two_modules = [(''/a/main.tf'', one_reference ''/a/main.tf'' var_x (RefVariable ''x'') 5),
     (''/b/main.tf'', one_reference ''/b/main.tf'' var_x (RefVariable ''x'') 5)]"
  "locations_at (definitions_by_name two_modules) k = []"
  "locations_at (references_by_name two_modules) \<lparr>key_kind = Variable, key_name = ''x''\<rparr>
     = [location_new ''/a/main.tf'' (in_line 0 5), location_new ''/b/main.tf'' (in_line 0 5)]"
  by (simp_all add: two_modules_def upsert_document_def add_to_indexes_def Let_def store_new_def hm_insert_def one_reference_def
      hydrated_from_cache_def document_definitions_def document_references_def empty_table_def keyed_by_name_def
      keyed_by_address_def locations_at_def hm_get_def index_push_def index_add_def location_new_def reference_key_def
      remove_from_indexes_def)


lemma two_modules_narrow:
  "narrow Tail var_x (in_line 0 5) ''x'' = Some (Some (in_line 4 5))"
proof -
  have "rfind_ident (to_utf8 (take (5 - 0) (drop 0 var_x))) ''x'' = Some 4" by code_simp
  from plain_narrow [OF _ _ _ this] show ?thesis by (simp add: narrow_def plain_line_def byte_def var_x_def)
qed

text \<open>
  C13. A rename is not confined to the module: in a reachable store with two directories that each mention a
  variable of the same name, renaming it in one edits the other, although asking for the references of the
  same cursor lists only the first.
\<close>

theorem rename_crosses_modules:
  "\<exists>(s :: nat store) fs u v pos. (\<forall>F. store_reachable F s) \<and> parent_dir fs u \<noteq> parent_dir fs v
     \<and> (\<exists>es. rename fs s u pos ''y'' = Some (Inr (Some es)) \<and> v \<in> de_uri ` set es)
     \<and> (\<exists>ls. references fs s True u pos = Some (Some ls) \<and> v \<notin> fst ` set ls)"
proof -
  let ?u = "''/a/main.tf''" and ?v = "''/b/main.tf''"
  let ?d = "\<lambda>u. one_reference u var_x (RefVariable ''x'') 5"
  let ?pos = "\<lparr>pos_line = 0, pos_character = 4\<rparr>" and ?key = "\<lparr>key_kind = Variable, key_name = ''x''\<rparr>"
  have docs: "hm_get (documents two_modules) ?u = Some (?d ?u)" "hm_get (documents two_modules) ?v = Some (?d ?v)"
    by (simp_all add: two_modules_simps hm_get_def)
  have dirs: "parent_dir linked_fs ?u = Some [''a'']" "parent_dir linked_fs ?v = Some [''b'']"
    by (simp_all add: parent_dir_def path_parent_def linked_fs_def)
  have line: "plain_line var_x" by (simp add: plain_line_def byte_def var_x_def)
  have t: "to_utf8 var_x = ''var.x''" by code_simp
  have off: "lsp_position_to_byte_offset var_x (0, 4) = Some (Inr 4)"
    using plain_line_offsets(2) [OF line, of 4] by (simp add: var_x_def)
  have target: "find_symbol_at_cursor (?d u) ?pos
      = Some \<lparr>ct_key = ?key, ct_location = location_new u (in_line 0 5), ct_kind = OnReference\<rparr>" for u
    by (simp add: find_symbol_at_cursor_def reference_at_position_def one_reference_def hydrated_from_cache_def
      range_contains_def location_range_def location_new_def in_line_def lsp_range_of_def pos_le_def reference_key_def to_pos_def)
  have "rename_provider_local linked_fs two_modules ?u (?d ?u) ?pos new = Some None" for new
  proof -
    have "local_span_at ''var.x'' 4 = Some None" by code_simp
    then show ?thesis by (simp add: rename_provider_local_def attempt_def ok_def off t to_pos_def)
  qed
  moreover have "rename_symbol two_modules ?key new
      = Some [(?u, [\<lparr>te_range = in_line 4 5, te_text = new\<rparr>]), (?v, [\<lparr>te_range = in_line 4 5, te_text = new\<rparr>])]" for new
    using two_modules_narrow by (simp add: rename_symbol_def two_modules_simps push_narrow_edit_def location_new_def
      location_range_def docs push_edit_def hm_insert_def hm_get_def in_line_def lsp_range_of_def)
  moreover have "is_valid_identifier ''y''" by code_simp
  ultimately have ren: "\<exists>es. rename linked_fs two_modules ?u ?pos ''y'' = Some (Inr (Some es)) \<and> ?v \<in> de_uri ` set es"
    by (simp add: rename_def docs target versioned_workspace_edit_def)
  have "provider_function_references_at linked_fs two_modules (?d ?u) ?u ?pos = Some None"
  proof -
    have "qualified_name_ending_at ''var.x'' (ident_end ''var.x'' 4) = Some ''x''" "provider_call ''x'' = None" by code_simp+
    then show ?thesis by (simp add: provider_function_references_at_def attempt_def ok_def off t to_pos_def)
  qed
  moreover have here: "indexed_references linked_fs two_modules True ?u ?key = [(?u, in_line 0 5)]"
    by (simp add: indexed_references_def two_modules_simps scoped_def dirs location_in_dir_def location_new_def
      dir_paths_match_def to_lsp_location_def location_range_def in_line_def lsp_range_of_def) (simp add: linked_fs_def)
  ultimately have "references linked_fs two_modules True ?u ?pos = Some (Some [(?u, in_line 0 5)])"
    by (simp add: references_def docs key_at_cursor_def target here)
  then have "\<exists>ls. references linked_fs two_modules True ?u ?pos = Some (Some ls) \<and> ?v \<notin> fst ` set ls" by simp
  note here = this
  show ?thesis
    by (rule exI [of _ two_modules], rule exI [of _ linked_fs], rule exI [of _ ?u], rule exI [of _ ?v], rule exI [of _ ?pos])
      (use ren here two_modules_reachable dirs in simp)
qed

definition type_line :: rope where
  "type_line = map byte ''a_b.c.d''"

definition one_resource :: "nat store" where
  "one_resource = upsert_document (one_reference ''/a/main.tf'' type_line (RefResource ''a_b'' ''c'') 7) store_new"

lemma one_resource_reachable: "store_reachable F one_resource"
  unfolding one_resource_def
  by (intro store_reachable.intros held_document.hydrated [OF one_reference_def one_reference_ok])
    (simp_all add: scalar_def byte_def type_line_def is_tftest_uri_def ends_with_def)

lemma one_resource_simps:
  "documents one_resource = [(''/a/main.tf'', one_reference ''/a/main.tf'' type_line (RefResource ''a_b'' ''c'') 7)]"
  "locations_at (definitions_by_name one_resource) k = []"
  "locations_at (references_by_name one_resource) \<lparr>key_kind = Resource, key_name = ''a_b.c''\<rparr>
     = [location_new ''/a/main.tf'' (in_line 0 7)]"
  by (simp_all add: one_resource_def upsert_document_def add_to_indexes_def Let_def store_new_def hm_insert_def one_reference_def
      hydrated_from_cache_def document_definitions_def document_references_def empty_table_def keyed_by_name_def
      keyed_by_address_def locations_at_def hm_get_def index_push_def index_add_def location_new_def reference_key_def
      resource_key_def remove_from_indexes_def)

lemma resource_rename_drops_type_witness:
  "\<exists>e. (\<exists>de es. rename linked_fs one_resource ''/a/main.tf'' \<lparr>pos_line = 0, pos_character = 4\<rparr> ''y'' = Some (Inr (Some es))
       \<and> de \<in> set es \<and> e \<in> set (de_edits de))
     \<and> (\<exists>x y. type_line = x @ map byte ''a_b.c'' @ y
          \<and> map_option (d_rope \<circ> fst) (apply_change (one_reference ''/a/main.tf'' type_line (RefResource ''a_b'' ''c'') 7)
               \<lparr>ch_range = Some (te_range e), ch_text = map byte (te_text e)\<rparr>) = Some (x @ map byte ''y'' @ y))"
proof -
  let ?u = "''/a/main.tf''" and ?pos = "\<lparr>pos_line = 0, pos_character = 4\<rparr>" and ?key = "\<lparr>key_kind = Resource, key_name = ''a_b.c''\<rparr>"
  let ?d = "one_reference ?u type_line (RefResource ''a_b'' ''c'') 7"
  let ?e = "\<lparr>te_range = in_line 0 5, te_text = ''y''\<rparr>"
  let ?de = "\<lparr>de_uri = ?u, de_version = Some (d_version ?d), de_edits = [?e]\<rparr>"
  have doc: "hm_get (documents one_resource) ?u = Some ?d" by (simp add: one_resource_simps hm_get_def)
  have line: "plain_line type_line" by (simp add: plain_line_def byte_def type_line_def)
  have off: "lsp_position_to_byte_offset type_line (0, 4) = Some (Inr 4)"
    using plain_line_offsets(2) [OF line, of 4] by (simp add: type_line_def)
  have target: "find_symbol_at_cursor ?d ?pos
      = Some \<lparr>ct_key = ?key, ct_location = location_new ?u (in_line 0 7), ct_kind = OnReference\<rparr>"
    by (simp add: find_symbol_at_cursor_def reference_at_position_def one_reference_def hydrated_from_cache_def
      range_contains_def location_range_def location_new_def in_line_def lsp_range_of_def pos_le_def reference_key_def
      resource_key_def to_pos_def)
  have "local_span_at (to_utf8 type_line) 4 = Some None" by code_simp
  then have not_alias: "rename_provider_local linked_fs one_resource ?u ?d ?pos ''y'' = Some None"
    by (simp add: rename_provider_local_def attempt_def ok_def off to_pos_def)
  have "rfind_ident (to_utf8 (take (7 - 0) (drop 0 type_line))) ''a_b.c'' = Some 0" by code_simp
  then have "narrow Tail type_line (in_line 0 7) ''a_b.c'' = Some (Some (in_line 0 5))"
    using plain_narrow [OF line, of 0 7 "''a_b.c''" 0] by (simp add: narrow_def type_line_def eval_nat_numeral)
  then have "rename_symbol one_resource ?key ''y'' = Some [(?u, [?e])]"
    by (simp add: rename_symbol_def one_resource_simps push_narrow_edit_def location_new_def
      location_range_def doc push_edit_def hm_insert_def hm_get_def in_line_def lsp_range_of_def)
  moreover have "is_valid_identifier ''y''" by code_simp
  ultimately have ren: "rename linked_fs one_resource ?u ?pos ''y'' = Some (Inr (Some [?de]))"
    by (simp add: rename_def doc target not_alias versioned_workspace_edit_def)
  have "len_bytes (d_rope ?d) < 2 ^ 32" by (simp add: type_line_def byte_def utf8_len_def len_bytes_def)
  moreover have "ct_key \<lparr>ct_key = ?key, ct_location = location_new ?u (in_line 0 7), ct_kind = OnReference\<rparr> = resource_key Resource ''a_b'' ''c''"
    by (simp add: resource_key_def)
  moreover have "list_all (\<lambda>c. 32 < byte c \<and> byte c < 128) (''a_b'' @ ''c'')" by (simp add: byte_def)
  ultimately have "\<exists>x y. d_rope ?d = x @ map byte (''a_b'' @ ''.'' @ ''c'') @ y
    \<and> apply_change ?d \<lparr>ch_range = Some (te_range ?e), ch_text = map byte (te_text ?e)\<rparr>
        = Some (?d\<lparr>d_rope := x @ map byte ''y'' @ y, d_format_cache := None\<rparr>, Inr ())"
    using resource_rename_drops_type [OF one_resource_reachable [of tiny_front] doc target _ _ not_alias ren, of "''a_b''" "''c''" ?de ?e ?d] doc
    by simp
  with ren show ?thesis by (intro exI [of _ ?e]) (fastforce simp del: map_append)
qed

lemma one_reference_simps:
  "d_references (one_reference u r k n) = [\<lparr>ref_kind = k, ref_location = location_new u (in_line 0 n)\<rparr>]"
  "\<not> has_errors (d_parsed (one_reference u r k n))" "d_symbols (one_reference u r k n) = empty_table"
  by (simp_all add: one_reference_def hydrated_from_cache_def has_errors_def)

lemma rename_replaces_name_witness:
  "\<exists>p s. var_x = p @ map byte ''x'' @ s
     \<and> apply_change (one_reference ''/a/main.tf'' var_x (RefVariable ''x'') 5) \<lparr>ch_range = Some (in_line 4 5), ch_text = map byte ''y''\<rparr>
         = Some ((one_reference ''/a/main.tf'' var_x (RefVariable ''x'') 5)\<lparr>d_rope := p @ map byte ''y'' @ s, d_format_cache := None\<rparr>, Inr ())"
proof -
  let ?d = "one_reference ''/a/main.tf'' var_x (RefVariable ''x'') 5"
  have "narrow Tail (d_rope ?d) (location_range (location_new ''/a/main.tf'' (in_line 0 5))) ''x'' = Some (Some (in_line 4 5))"
    using two_modules_narrow by simp
  moreover have "list_all scalar (d_rope ?d)" "len_bytes (d_rope ?d) < 2 ^ 32"
    by (simp_all add: var_x_def scalar_def byte_def utf8_len_def len_bytes_def)
  moreover have "list_all (\<lambda>c. 32 < byte c \<and> byte c < 128) ''x''" by (simp add: byte_def)
  ultimately show ?thesis using rename_replaces_name [of Tail ?d] by fastforce
qed

lemma rename_edits_exact_witness:
  "\<exists>m. rename_symbol two_modules \<lparr>key_kind = Variable, key_name = ''x''\<rparr> ''y'' = Some m
     \<and> map te_text (edits_of m ''/b/main.tf'') = [''y'']"
proof -
  let ?d = "one_reference ''/b/main.tf'' var_x (RefVariable ''x'') 5" and ?k = "\<lparr>key_kind = Variable, key_name = ''x''\<rparr>"
  have "rename_symbol two_modules ?k ''y'' \<noteq> None"
    using two_modules_narrow by (simp add: rename_symbol_def two_modules_simps push_narrow_edit_def location_new_def
      location_range_def push_edit_def hm_insert_def hm_get_def in_line_def lsp_range_of_def)
  then obtain m where m: "rename_symbol two_modules ?k ''y'' = Some m" by blast
  have doc: "hm_get (documents two_modules) ''/b/main.tf'' = Some ?d" by (simp add: two_modules_simps hm_get_def)
  have line: "plain_line var_x" by (simp add: plain_line_def byte_def var_x_def)
  have dot: "\<not> is_ident_byte (CHR ''.'')" by code_simp
  have "to_utf8 var_x = ''var.'' @ ''x'' @ []" by code_simp
  then have "holds_name Tail (to_utf8 var_x) ''x''"
    unfolding holds_name_def edit_kind.case by (intro exI [of _ "''var.''"] exI [of _ "[]"]) (simp add: dot)
  moreover have "slice_rope var_x (in_line 0 5) = Some (Some (to_utf8 var_x))"
    using plain_slice [OF line, of 0 5] by (simp add: var_x_def)
  moreover have "loc_uri (location_new u r) = u" for u r by (simp add: location_new_def)
  ultimately have refs: "filter (names_symbol ?d Tail ''x'') (locations_at (references_by_name two_modules) ?k)
      = [location_new ''/b/main.tf'' (in_line 0 5)]"
    by (simp add: two_modules_simps names_symbol_def) (simp add: one_reference_def hydrated_from_cache_def)
  have key: "key_name ?k = ''x''" by simp
  have ascii: "list_all (\<lambda>c. byte c < 128) ''x''" by (simp add: byte_def)
  have defs: "locations_at (definitions_by_name two_modules) ?k = []" by (simp add: two_modules_simps)
  have "list_all2 (\<lambda>l e. te_text e = ''y'' \<and> name_inside ?d (location_range l) ''x'' (te_range e))
      [location_new ''/b/main.tf'' (in_line 0 5)] (edits_of m ''/b/main.tf'')"
    using rename_edits_exact [OF two_modules_reachable [of tiny_front] m doc, unfolded key defs refs filter.simps append_Nil] ascii by simp
  then obtain e where "edits_of m ''/b/main.tf'' = [e]" "te_text e = ''y''"
    unfolding list_all2_Cons1 list_all2_Nil by blast
  with m show ?thesis by (intro exI [of _ m]) simp
qed

lemma goto_agrees_with_diagnostics_witness:
  "\<exists>g \<in> set (undefined_references linked_fs two_modules ''/a/main.tf''). dg_message g = ''undefined variable `x`''"
proof -
  let ?u = "''/a/main.tf''" and ?pos = "\<lparr>pos_line = 0, pos_character = 4\<rparr>"
  let ?r = "\<lparr>ref_kind = RefVariable ''x'', ref_location = location_new ?u (in_line 0 5)\<rparr>"
  let ?d = "one_reference ?u var_x (RefVariable ''x'') 5"
  have doc: "hm_get (documents two_modules) ?u = Some ?d" by (simp add: two_modules_simps hm_get_def)
  have at: "reference_at_position ?d ?pos = Some ?r"
    by (simp add: reference_at_position_def one_reference_simps range_contains_def in_line_def lsp_range_of_def pos_le_def to_pos_def
      location_range_def location_new_def)
  have "goto_reference linked_fs two_modules ?u ?pos = None"
    by (simp add: goto_reference_def doc at scoped_def two_modules_simps split: option.splits)
  moreover have "\<not> is_tftest_uri ?u" "checkable (ref_kind ?r)" by (simp_all add: is_tftest_uri_def ends_with_def checkable_def)
  ultimately obtain g where "g \<in> set (undefined_references linked_fs two_modules ?u)" "check_reference (\<lambda>_. False) ?r = Some g"
    using goto_agrees_with_diagnostics [OF two_modules_reachable [of tiny_front] doc one_reference_simps(2) _ at, of linked_fs] by blast
  moreover from this(2) have "dg_message g = ''undefined variable `x`''" by (auto simp: check_reference_def undefined_warning_def)
  ultimately show ?thesis by blast
qed

end
