(* ===== verification/ExprRules.thy ===== *)
theory ExprRules
  imports Navigation UnknownRules ValidationSpec
begin

text \<open>
  The rules of \<^verbatim>\<open>crates/tfls-diag/src/\<close> that look at one expression at a time: \<^verbatim>\<open>deprecated_index.rs\<close>,
  \<^verbatim>\<open>deprecated_interpolation.rs\<close>, \<^verbatim>\<open>deprecated_lookup.rs\<close>, \<^verbatim>\<open>empty_list_equality.rs\<close>,
  \<^verbatim>\<open>workspace_remote.rs\<close>, and \<^verbatim>\<open>sensitive_output.rs\<close>, which follows a value into its parts.
\<close>

section \<open>Expressions of a body\<close>

definition index_in_op :: "rope \<Rightarrow> trav_op \<Rightarrow> diagnostic list may_panic" where
  "index_in_op rope op =
     (case op of
        LegacyIndex sp n \<Rightarrow>
          push_diagnostic SevWarning [Deprecated] rope sp (''legacy attribute-style index '' @ backquote (''.'' @ show_nat n)
            @ '' is deprecated; use '' @ backquote (''['' @ show_nat n @ '']'') @ '' instead'')
      | _ \<Rightarrow> Some [])"

definition deprecated_index_diagnostics :: "body \<Rightarrow> rope \<Rightarrow> diagnostic list may_panic" where
  "deprecated_index_diagnostics b rope = concat_may (map (\<lambda>e.
     case e of ETraversal _ _ ops \<Rightarrow> concat_may (map (index_in_op rope) ops) | _ \<Rightarrow> Some []) (visit_body b))"

definition deprecated_interpolation_diagnostics :: "body \<Rightarrow> rope \<Rightarrow> diagnostic list may_panic" where
  "deprecated_interpolation_diagnostics b rope = concat_may (map (\<lambda>e.
     case e of
       EStringTemplate sp [Interpolation _] \<Rightarrow>
         push_diagnostic SevWarning [Deprecated] rope sp
           ''interpolation-only expressions are deprecated; use the expression directly''
     | _ \<Rightarrow> Some []) (visit_body b))"

definition deprecated_lookup_diagnostics :: "body \<Rightarrow> rope \<Rightarrow> diagnostic list may_panic" where
  "deprecated_lookup_diagnostics b rope = concat_may (map (\<lambda>e.
     case e of
       EFuncCall sp ns name args \<Rightarrow>
         if ns = [] \<and> name = ''lookup'' \<and> length args = 2 then
           push_diagnostic SevWarning [Deprecated] rope sp
             (''two-argument '' @ backquote ''lookup()'' @ '' is deprecated; pass a default as the third argument'')
         else Some []
     | _ \<Rightarrow> Some []) (visit_body b))"

definition is_empty_array :: "expr \<Rightarrow> bool" where
  "is_empty_array e \<longleftrightarrow> e = EArray []"

definition empty_list_equality_diagnostics :: "body \<Rightarrow> rope \<Rightarrow> diagnostic list may_panic" where
  "empty_list_equality_diagnostics b rope = concat_may (map (\<lambda>e.
     case e of
       EBinaryOp sp l op r \<Rightarrow>
         if op \<noteq> ''=='' \<and> op \<noteq> ''!='' then Some []
         else if \<not> is_empty_array l \<and> \<not> is_empty_array r then Some []
         else push_diagnostic SevWarning [] rope sp
           (if op = ''=='' then
              ''comparing with '' @ backquote ''== []'' @ '' is always false; use '' @ backquote ''length(x) == 0'' @ '' instead''
            else
              ''comparing with '' @ backquote ''!= []'' @ '' is always true; use '' @ backquote ''length(x) > 0'' @ '' instead'')
     | _ \<Rightarrow> Some []) (visit_body b))"

section \<open>The workspace of a remote backend\<close>

definition uses_remote_backend :: "body \<Rightarrow> bool" where
  "uses_remote_backend b = list_ex (\<lambda>item. case item of
     Block _ (kw, _) labels _ \<Rightarrow> kw = ''cloud'' \<or> (kw = ''backend'' \<and> (case labels of l # _ \<Rightarrow> fst l = ''remote'' | [] \<Rightarrow> False))
   | Attribute _ _ _ _ \<Rightarrow> False) (nested_bodies ''terraform'' b)"

definition is_terraform_workspace :: "expr \<Rightarrow> bool" where
  "is_terraform_workspace e \<longleftrightarrow>
     (case e of
        ETraversal _ (EVariable v) (GetAttr _ name # _) \<Rightarrow> v = ''terraform'' \<and> name = ''workspace''
      | _ \<Rightarrow> False)"

definition workspace_remote_diagnostics :: "body \<Rightarrow> rope \<Rightarrow> diagnostic list may_panic" where
  "workspace_remote_diagnostics b rope =
     (if \<not> uses_remote_backend b then Some []
      else concat_may (map (\<lambda>e.
        case e of
          ETraversal sp _ _ \<Rightarrow>
            if is_terraform_workspace e then
              push_diagnostic SevWarning [] rope sp (backquote ''terraform.workspace'' @ '' is not meaningful with ''
                @ backquote ''cloud {}'' @ '' or '' @ backquote ''backend \"remote\"'')
            else Some []
        | _ \<Rightarrow> Some []) (visit_body b)))"

section \<open>Sensitive variables in outputs\<close>

definition block_has_sensitive_true :: "body \<Rightarrow> bool" where
  "block_has_sensitive_true inner = list_ex (\<lambda>e. e = EBool True) (attrs_named ''sensitive'' inner)"

definition sensitive_variable_names :: "body \<Rightarrow> string set" where
  "sensitive_variable_names b = set (List.map_filter (\<lambda>item. case item of
     Block _ (kw, _) (l # _) inner \<Rightarrow> if kw = ''variable'' \<and> block_has_sensitive_true inner then Some (fst l) else None
   | _ \<Rightarrow> None) b)"

definition traversal_var_name :: "expr \<Rightarrow> trav_op list \<Rightarrow> string option" where
  "traversal_var_name root ops =
     (case (root, ops) of
        (EVariable v, GetAttr _ name # _) \<Rightarrow> if v = ''var'' then Some name else None
      | _ \<Rightarrow> None)"

fun contains_sensitive_ref :: "string set \<Rightarrow> expr \<Rightarrow> bool" where
  "contains_sensitive_ref S (ETraversal sp root ops) \<longleftrightarrow>
     (case traversal_var_name root ops of Some n \<Rightarrow> n \<in> S | None \<Rightarrow> False) \<or> contains_sensitive_ref S root"
| "contains_sensitive_ref S (EFuncCall sp ns name args) \<longleftrightarrow>
     \<not> (ns = [] \<and> name = ''nonsensitive'') \<and> list_ex (contains_sensitive_ref S) args"
| "contains_sensitive_ref S (EArray es) \<longleftrightarrow> list_ex (contains_sensitive_ref S) es"
| "contains_sensitive_ref S (EObject sp kvs) \<longleftrightarrow> list_ex (\<lambda>(k, v).
     (case k of KExpr e \<Rightarrow> contains_sensitive_ref S e | KIdent _ \<Rightarrow> False) \<or> contains_sensitive_ref S v) kvs"
| "contains_sensitive_ref S (EParenthesis e) \<longleftrightarrow> contains_sensitive_ref S e"
| "contains_sensitive_ref S (EConditional c t f) \<longleftrightarrow>
     contains_sensitive_ref S c \<or> contains_sensitive_ref S t \<or> contains_sensitive_ref S f"
| "contains_sensitive_ref S (EUnaryOp op e) \<longleftrightarrow> contains_sensitive_ref S e"
| "contains_sensitive_ref S (EBinaryOp sp l op r) \<longleftrightarrow> contains_sensitive_ref S l \<or> contains_sensitive_ref S r"
| "contains_sensitive_ref S (EFor kv vv coll key v cond) \<longleftrightarrow> contains_sensitive_ref S coll
     \<or> (case key of Some e \<Rightarrow> contains_sensitive_ref S e | None \<Rightarrow> False) \<or> contains_sensitive_ref S v
     \<or> (case cond of Some e \<Rightarrow> contains_sensitive_ref S e | None \<Rightarrow> False)"
| "contains_sensitive_ref S (EStringTemplate sp els) \<longleftrightarrow> list_ex (\<lambda>el.
     case el of Interpolation e \<Rightarrow> contains_sensitive_ref S e | _ \<Rightarrow> False) els"
| "contains_sensitive_ref S _ \<longleftrightarrow> False"

definition exposed_output :: "rope \<Rightarrow> string set \<Rightarrow> body_item \<Rightarrow> diagnostic list may_panic" where
  "exposed_output rope S item =
     (case item of
        Attribute _ _ _ _ \<Rightarrow> Some []
      | Block _ (kw, _) labels inner \<Rightarrow>
          if kw \<noteq> ''output'' then Some []
          else if block_has_sensitive_true inner then Some []
          else (case attrs_named ''value'' inner of
              [] \<Rightarrow> Some []
            | v # _ \<Rightarrow>
                if \<not> contains_sensitive_ref S v then Some []
                else (case labels of
                    [] \<Rightarrow> Some []
                  | (name, sp) # _ \<Rightarrow> do {
                      r \<leftarrow> opt_span_range rope sp;
                      Some (case r of
                          None \<Rightarrow> []
                        | Some rg \<Rightarrow> [error_at rg (''output '' @ backquote name @ '' exposes a sensitive value '' @ em_dash
                            @ '' add '' @ backquote ''sensitive = true'' @ '' (or wrap the value in ''
                            @ backquote ''nonsensitive(...)'' @ '' if intentional)'')]) })))"

definition sensitive_output_diagnostics :: "body \<Rightarrow> rope \<Rightarrow> string set \<Rightarrow> diagnostic list may_panic" where
  "sensitive_output_diagnostics b rope extra_sensitive =
     (let S = sensitive_variable_names b \<union> extra_sensitive in
      if S = {} then Some [] else concat_may (map (exposed_output rope S) b))"

section \<open>What is exposed\<close>

text \<open>
  A sensitive variable reaches the value of an expression through any part of it, unless the part goes through
  \<open>nonsensitive\<close>.
\<close>

definition desensitised :: "expr \<Rightarrow> bool" where
  "desensitised e \<longleftrightarrow> (case e of EFuncCall _ ns name _ \<Rightarrow> ns = [] \<and> name = ''nonsensitive'' | _ \<Rightarrow> False)"

definition reads_sensitive :: "string set \<Rightarrow> expr \<Rightarrow> bool" where
  "reads_sensitive S e \<longleftrightarrow> (case e of
     ETraversal _ root ops \<Rightarrow> (\<exists>n \<in> S. traversal_var_name root ops = Some n) | _ \<Rightarrow> False)"

inductive exposes :: "string set \<Rightarrow> expr \<Rightarrow> bool" where
  "reads_sensitive S e \<Longrightarrow> exposes S e"
| "part_of c e \<Longrightarrow> \<not> desensitised e \<Longrightarrow> exposes S c \<Longrightarrow> exposes S e"

text \<open>The shapes the walk does not look into.\<close>

definition blind_spot :: "expr \<Rightarrow> bool" where
  "blind_spot e \<longleftrightarrow> (case e of
     EHeredocTemplate _ \<Rightarrow> True
   | EStringTemplate _ els \<Rightarrow> list_ex (\<lambda>el. case el of DirIf _ _ _ \<Rightarrow> True | DirFor _ _ \<Rightarrow> True | _ \<Rightarrow> False) els
   | ETraversal _ _ ops \<Rightarrow> list_ex (\<lambda>op. case op of Index _ \<Rightarrow> True | _ \<Rightarrow> False) ops
   | _ \<Rightarrow> False)"

lemma contains_sound_step:
  "contains_sensitive_ref S e \<Longrightarrow>
     reads_sensitive S e \<or> \<not> desensitised e \<and> (\<exists>c. part_of c e \<and> contains_sensitive_ref S c)"
proof (cases e)
  case (EObject sp kvs)
  assume "contains_sensitive_ref S e"
  then obtain k v where "(k, v) \<in> set kvs" "(case k of KExpr e \<Rightarrow> contains_sensitive_ref S e | KIdent _ \<Rightarrow> False) \<or> contains_sensitive_ref S v"
    unfolding EObject by (auto simp: list_ex_iff)
  then show ?thesis unfolding EObject desensitised_def by (auto split: obj_key.splits)
next
  case (EStringTemplate sp els)
  assume "contains_sensitive_ref S e"
  then obtain e' where "Interpolation e' \<in> set els" "contains_sensitive_ref S e'"
    unfolding EStringTemplate by (auto simp: list_ex_iff split: element.splits) (metis element.exhaust)
  then have "part_of e' e \<and> contains_sensitive_ref S e'" unfolding EStringTemplate by auto
  then show ?thesis unfolding EStringTemplate desensitised_def by auto
qed (auto simp: reads_sensitive_def desensitised_def list_ex_iff split: option.splits)

lemma contains_complete_step:
  assumes "\<not> blind_spot e" "reads_sensitive S e \<or> \<not> desensitised e \<and> (\<exists>c. part_of c e \<and> contains_sensitive_ref S c)"
  shows "contains_sensitive_ref S e"
proof (cases e)
  case (EObject sp kvs)
  then obtain c where "part_of c e" "contains_sensitive_ref S c" using assms(2) by (auto simp: reads_sensitive_def)
  then consider k where "(k, c) \<in> set kvs" | v where "(KExpr c, v) \<in> set kvs" unfolding EObject by auto
  then show ?thesis
  proof cases
    case 1
    with \<open>contains_sensitive_ref S c\<close> show ?thesis unfolding EObject by (force simp: list_ex_iff)
  next
    case 2
    with \<open>contains_sensitive_ref S c\<close> have "\<exists>kv \<in> set kvs. (\<lambda>(k, v).
        (case k of KExpr e \<Rightarrow> contains_sensitive_ref S e | KIdent _ \<Rightarrow> False) \<or> contains_sensitive_ref S v) kv"
      by (intro bexI [of _ "(KExpr c, v)"]) simp_all
    then show ?thesis unfolding EObject by (simp add: list_ex_iff)
  qed
next
  case (EStringTemplate sp els)
  then obtain c el where "el \<in> set els" "in_element c el" "contains_sensitive_ref S c"
    using assms(2) by (auto simp: reads_sensitive_def)
  moreover have "\<not> (case el of DirIf _ _ _ \<Rightarrow> True | DirFor _ _ \<Rightarrow> True | _ \<Rightarrow> False)"
    using assms(1) EStringTemplate \<open>el \<in> set els\<close> by (auto simp: blind_spot_def list_ex_iff)
  ultimately have "el = Interpolation c" by (cases el rule: element.exhaust) auto
  with \<open>el \<in> set els\<close> \<open>contains_sensitive_ref S c\<close> show ?thesis
    unfolding EStringTemplate by (auto simp: list_ex_iff intro!: bexI [of _ el])
next
  case (ETraversal sp root ops)
  then have "Index c \<notin> set ops" for c using assms(1) by (auto simp: blind_spot_def list_ex_iff split: trav_op.splits)
  with assms(2) show ?thesis unfolding ETraversal by (auto simp: reads_sensitive_def)
qed (use assms in \<open>auto simp: reads_sensitive_def desensitised_def list_ex_iff blind_spot_def split: option.splits\<close>)

lemma exposes_iff: "exposes S e \<longleftrightarrow> reads_sensitive S e \<or> \<not> desensitised e \<and> (\<exists>c. part_of c e \<and> exposes S c)"
  by (subst exposes.simps) blast

lemma contains_exposes: "contains_sensitive_ref S e \<Longrightarrow> exposes S e"
proof (induction "size e" arbitrary: e rule: less_induct)
  case less
  from contains_sound_step [OF less.prems] less.hyps part_of_size show ?case
    by (subst exposes_iff) blast
qed

text \<open>
  C31. The search for sensitive variables in the value of an output raises no false alarm: it finds one only when one
  occurs in the value, at any depth, outside every call of \<open>nonsensitive\<close>. And it misses none, as long as no part
  of the value is a heredoc, a template with directives or a computed index.
\<close>

theorem sensitive_ref_exact:
  "(contains_sensitive_ref S e \<longrightarrow> exposes S e)
   \<and> ((\<forall>c. part_of\<^sup>*\<^sup>* c e \<longrightarrow> \<not> blind_spot c) \<longrightarrow> contains_sensitive_ref S e = exposes S e)"
proof -
  have "exposes S e \<Longrightarrow> (\<forall>c. part_of\<^sup>*\<^sup>* c e \<longrightarrow> \<not> blind_spot c) \<Longrightarrow> contains_sensitive_ref S e"
  proof (induction rule: exposes.induct)
    case (1 S e)
    then show ?case by (auto intro: contains_complete_step)
  next
    case (2 c e S)
    then have "contains_sensitive_ref S c" by (metis rtranclp.rtrancl_into_rtrancl)
    with 2 show ?case by (intro contains_complete_step [of e]) auto
  qed
  with contains_exposes show ?thesis by blast
qed

text \<open>The value is a heredoc that interpolates the variable.\<close>

definition leaking_output :: body where
  "leaking_output = [Block None (''variable'', None) [(''secret'', None)] [Attribute (''sensitive'', None) (EBool True) None None],
     Block None (''output'', None) [(''leak'', Some (0, 0))]
       [Attribute (''value'', None) (EHeredocTemplate [Interpolation (ETraversal None (EVariable ''var'') [GetAttr None ''secret''])])
          None None]]"

text \<open>
  A secret in a heredoc goes unreported: the output shows the value of a variable of the same file that is
  declared sensitive, and the rule is silent.
\<close>

theorem heredoc_leak_unreported:
  "sensitive_output_diagnostics leaking_output [] {} = Some []
   \<and> (\<exists>v. exposes (sensitive_variable_names leaking_output) v
        \<and> (\<exists>name. Block None (''output'', None) [name] [Attribute (''value'', None) v None None] \<in> set leaking_output))"
proof
  have names: "sensitive_variable_names leaking_output = {''secret''}"
    by (simp add: sensitive_variable_names_def leaking_output_def block_has_sensitive_true_def attrs_named_def List.map_filter_def)
  show "sensitive_output_diagnostics leaking_output [] {} = Some []"
    unfolding sensitive_output_diagnostics_def names
    by (simp add: leaking_output_def exposed_output_def block_has_sensitive_true_def attrs_named_def List.map_filter_def)
  let ?ref = "ETraversal None (EVariable ''var'') [GetAttr None ''secret'']"
  have "exposes {''secret''} ?ref" by (rule exposes.intros(1)) (simp add: reads_sensitive_def traversal_var_name_def)
  then have "exposes {''secret''} (EHeredocTemplate [Interpolation ?ref])"
    by (rule exposes.intros(2) [rotated 2]) (simp_all add: desensitised_def)
  then show "\<exists>v. exposes (sensitive_variable_names leaking_output) v
      \<and> (\<exists>name. Block None (''output'', None) [name] [Attribute (''value'', None) v None None] \<in> set leaking_output)"
    unfolding names by (intro exI [of _ "EHeredocTemplate [Interpolation ?ref]"]) (auto simp: leaking_output_def)
qed

lemma sensitive_ref_exact_witness:
  "contains_sensitive_ref {''s''} (EParenthesis (ETraversal None (EVariable ''var'') [GetAttr None ''s'']))
     = exposes {''s''} (EParenthesis (ETraversal None (EVariable ''var'') [GetAttr None ''s'']))"
proof -
  let ?v = "ETraversal None (EVariable ''var'') [GetAttr None ''s'']"
  have "c = EVariable ''var'' \<or> c = ?v \<or> c = EParenthesis ?v" if "part_of\<^sup>*\<^sup>* c (EParenthesis ?v)" for c
    using that by (induction rule: converse_rtranclp_induct) auto
  then have "\<not> blind_spot c" if "part_of\<^sup>*\<^sup>* c (EParenthesis ?v)" for c using that by (fastforce simp: blind_spot_def)
  with sensitive_ref_exact [of "{''s''}" "EParenthesis ?v"] show ?thesis by blast
qed

end
