(* ===== verification/BlockRules.thy ===== *)
theory BlockRules
  imports ExprRules
begin

text \<open>
  The rules of \<^verbatim>\<open>crates/tfls-diag/src/\<close> that look at one block at a time: \<^verbatim>\<open>documented_variables.rs\<close>,
  \<^verbatim>\<open>documented_outputs.rs\<close>, \<^verbatim>\<open>naming_convention.rs\<close>, \<^verbatim>\<open>duplicate_definition.rs\<close>, \<^verbatim>\<open>meta_arguments.rs\<close>,
  \<^verbatim>\<open>lifecycle_literal.rs\<close>, \<^verbatim>\<open>missing_tags.rs\<close>, \<^verbatim>\<open>variable_default_type.rs\<close> and \<^verbatim>\<open>tftest.rs\<close>.
\<close>

section \<open>Descriptions and names\<close>

definition undocumented :: "string \<Rightarrow> rope \<Rightarrow> body_item \<Rightarrow> diagnostic list may_panic" where
  "undocumented kind rope item =
     (case item of
        Block _ (kw, ks) labels inner \<Rightarrow>
          if kw \<noteq> kind \<or> list_ex (is_attr ''description'') inner then Some []
          else push_diagnostic SevInformation [] rope ks (kind @ '' '' @ backquote (first_label_or labels) @ '' has no description'')
      | Attribute _ _ _ _ \<Rightarrow> Some [])"

definition documented_variables_diagnostics :: "body \<Rightarrow> rope \<Rightarrow> diagnostic list may_panic" where
  "documented_variables_diagnostics b rope = concat_may (map (undocumented ''variable'' rope) b)"

definition documented_outputs_diagnostics :: "body \<Rightarrow> rope \<Rightarrow> diagnostic list may_panic" where
  "documented_outputs_diagnostics b rope = concat_may (map (undocumented ''output'' rope) b)"

definition is_ascii_lowercase :: "char \<Rightarrow> bool" where
  "is_ascii_lowercase c \<longleftrightarrow> 97 \<le> byte c \<and> byte c \<le> 122"

definition is_snake_case :: "string \<Rightarrow> bool" where
  "is_snake_case s =
     (case s of
        [] \<Rightarrow> False
      | c # cs \<Rightarrow> is_ascii_lowercase c
          \<and> list_all (\<lambda>c. is_ascii_lowercase c \<or> is_ascii_digit c \<or> c = CHR ''_'') cs)"

definition check_name :: "rope \<Rightarrow> string \<Rightarrow> ident \<Rightarrow> diagnostic list may_panic" where
  "check_name rope what name =
     (if is_snake_case (fst name) then Some []
      else push_diagnostic SevInformation [] rope (snd name) (what @ '' '' @ backquote (fst name) @ '' should be snake_case''))"

definition misnamed :: "rope \<Rightarrow> body_item \<Rightarrow> diagnostic list may_panic" where
  "misnamed rope item =
     (case item of
        Attribute _ _ _ _ \<Rightarrow> Some []
      | Block _ (kw, _) labels inner \<Rightarrow>
          if kw = ''locals'' then
            concat_may (map (\<lambda>entry. case entry of
              Attribute key _ _ _ \<Rightarrow> check_name rope ''local'' key | Block _ _ _ _ \<Rightarrow> Some []) inner)
          else if kw = ''resource'' \<or> kw = ''data'' then
            (case labels of _ # l # _ \<Rightarrow> check_name rope (kw @ '' name'') l | _ \<Rightarrow> Some [])
          else if kw \<in> {''variable'', ''output'', ''module'', ''provider''} then
            (case labels of l # _ \<Rightarrow> check_name rope (kw @ '' name'') l | [] \<Rightarrow> Some [])
          else Some [])"

definition naming_convention_diagnostics :: "body \<Rightarrow> rope \<Rightarrow> diagnostic list may_panic" where
  "naming_convention_diagnostics b rope = concat_may (map (misnamed rope) b)"

section \<open>Duplicate definitions\<close>

text \<open>A definition found in the file: its key, the range of its name, its kind and its label.\<close>

record found_definition =
  fd_key :: string
  fd_range :: lsp_range
  fd_kind :: string
  fd_label :: string

definition single_label :: "rope \<Rightarrow> ident list \<Rightarrow> (string \<times> lsp_range) option may_panic" where
  "single_label rope labels =
     (case labels of
        [] \<Rightarrow> Some None
      | (name, sp) # _ \<Rightarrow> do { r \<leftarrow> opt_span_range rope sp; Some (map_option (\<lambda>rg. (name, rg)) r) })"

definition two_labels :: "rope \<Rightarrow> ident list \<Rightarrow> (string \<times> string \<times> lsp_range) option may_panic" where
  "two_labels rope labels =
     (case labels of
        (ty, tsp) # (name, nsp) # _ \<Rightarrow> do {
          r \<leftarrow> opt_span_range rope (case nsp of Some s \<Rightarrow> Some s | None \<Rightarrow> tsp);
          Some (map_option (\<lambda>rg. (ty, name, rg)) r) }
      | _ \<Rightarrow> Some None)"

definition definitions_of :: "rope \<Rightarrow> body_item \<Rightarrow> found_definition list may_panic" where
  "definitions_of rope item =
     (case item of
        Attribute _ _ _ _ \<Rightarrow> Some []
      | Block _ (kw, _) labels inner \<Rightarrow>
          if kw \<in> {''variable'', ''output'', ''module''} then do {
            l \<leftarrow> single_label rope labels;
            Some (case l of None \<Rightarrow> []
              | Some (name, rg) \<Rightarrow> [\<lparr>fd_key = kw @ '':'' @ name, fd_range = rg, fd_kind = kw, fd_label = name\<rparr>]) }
          else if kw \<in> {''resource'', ''data''} then do {
            l \<leftarrow> two_labels rope labels;
            Some (case l of None \<Rightarrow> []
              | Some (ty, name, rg) \<Rightarrow>
                  [\<lparr>fd_key = kw @ '':'' @ ty @ ''.'' @ name, fd_range = rg, fd_kind = kw, fd_label = ty @ ''.'' @ name\<rparr>]) }
          else if kw = ''locals'' then
            concat_may (map (\<lambda>entry. case entry of
              Block _ _ _ _ \<Rightarrow> Some []
            | Attribute (name, ks) _ _ _ \<Rightarrow> do {
                r \<leftarrow> opt_span_range rope ks;
                Some (case r of None \<Rightarrow> []
                  | Some rg \<Rightarrow> [\<lparr>fd_key = ''local:'' @ name, fd_range = rg, fd_kind = ''local'', fd_label = name\<rparr>]) }) inner)
          else Some [])"

definition duplicate_of :: "lsp_range \<Rightarrow> found_definition \<Rightarrow> diagnostic" where
  "duplicate_of first d = error_at (fd_range d) (''duplicate '' @ fd_kind d @ '' '' @ backquote (fd_label d) @ '' '' @ em_dash
     @ '' already defined on line '' @ show_nat (pos_line (range_start first) + 1))"

definition record_definition ::
    "(string, lsp_range) hash_map \<times> diagnostic list \<Rightarrow> found_definition \<Rightarrow> (string, lsp_range) hash_map \<times> diagnostic list" where
  "record_definition st d =
     (case hm_get (fst st) (fd_key d) of
        Some first \<Rightarrow> (fst st, snd st @ [duplicate_of first d])
      | None \<Rightarrow> (hm_insert (fd_key d) (fd_range d) (fst st), snd st))"

definition duplicate_definition_diagnostics :: "body \<Rightarrow> rope \<Rightarrow> diagnostic list may_panic" where
  "duplicate_definition_diagnostics b rope = do {
     ds \<leftarrow> concat_may (map (definitions_of rope) b);
     Some (snd (foldl record_definition ([], []) ds)) }"

section \<open>Meta-arguments\<close>

definition check_depends_on :: "rope \<Rightarrow> expr \<Rightarrow> diagnostic list may_panic" where
  "check_depends_on rope v =
     (case v of
        EArray es \<Rightarrow> concat_may (map (\<lambda>e. case e of
          EString sp s \<Rightarrow> do {
            rg \<leftarrow> expr_range sp rope;
            Some [error_at rg (''depends_on entries must be references, not strings '' @ em_dash
              @ '' remove the quotes around '' @ backquote s)] }
        | _ \<Rightarrow> Some []) es)
      | _ \<Rightarrow> Some [])"

record meta_state =
  count_range :: "lsp_range option"
  each_attr :: "(lsp_range \<times> expr) option"
  meta_out :: "diagnostic list"

definition meta_entry :: "rope \<Rightarrow> meta_state \<Rightarrow> body_item \<Rightarrow> meta_state may_panic" where
  "meta_entry rope st item =
     (case item of
        Block _ _ _ _ \<Rightarrow> Some st
      | Attribute (key, ks) v _ _ \<Rightarrow>
          if key = ''count'' then do { r \<leftarrow> opt_span_range rope ks; Some (st\<lparr>count_range := r\<rparr>) }
          else if key = ''for_each'' then do {
            r \<leftarrow> opt_span_range rope ks;
            Some (case r of Some rg \<Rightarrow> st\<lparr>each_attr := Some (rg, v)\<rparr> | None \<Rightarrow> st) }
          else if key = ''depends_on'' then do {
            ds \<leftarrow> check_depends_on rope v;
            Some (st\<lparr>meta_out := meta_out st @ ds\<rparr>) }
          else Some st)"

definition out_of_scope :: "bool \<Rightarrow> bool \<Rightarrow> rope \<Rightarrow> expr \<Rightarrow> diagnostic list may_panic" where
  "out_of_scope has_count has_for_each rope e =
     (case e of
        ETraversal sp (EVariable v) _ \<Rightarrow>
          if v \<noteq> ''each'' \<and> v \<noteq> ''count'' then Some []
          else if (if v = ''each'' then has_for_each else has_count) then Some []
          else do {
            rg \<leftarrow> expr_range sp rope;
            Some [error_at rg (backquote (v @ ''.*'') @ '' is only valid in a block with ''
              @ backquote (if v = ''each'' then ''for_each'' else ''count'') @ '' set'')] }
      | _ \<Rightarrow> Some [])"

definition meta_block :: "rope \<Rightarrow> body \<Rightarrow> diagnostic list may_panic" where
  "meta_block rope inner = do {
     st \<leftarrow> fold_may (meta_entry rope) \<lparr>count_range = None, each_attr = None, meta_out = []\<rparr> inner;
     scope \<leftarrow> concat_may (map (out_of_scope (count_range st \<noteq> None) (each_attr st \<noteq> None) rope) (visit_body inner));
     Some (meta_out st
       @ (case (count_range st, each_attr st) of
            (Some _, Some (rg, _)) \<Rightarrow>
              [error_at rg (backquote ''count'' @ '' and '' @ backquote ''for_each'' @ '' cannot both be set on the same block'')]
          | _ \<Rightarrow> [])
       @ (case each_attr st of
            Some (rg, EArray _) \<Rightarrow>
              [warning_at rg (backquote ''for_each'' @ '' requires a map or a set of strings, not a list '' @ em_dash
                 @ '' wrap the value in '' @ backquote ''toset(...)'')]
          | _ \<Rightarrow> [])
       @ scope) }"

definition meta_argument_diagnostics :: "body \<Rightarrow> rope \<Rightarrow> diagnostic list may_panic" where
  "meta_argument_diagnostics b rope = concat_may (map (\<lambda>item. case item of
     Block _ (kw, _) _ inner \<Rightarrow> if kw \<in> {''resource'', ''data'', ''module''} then meta_block rope inner else Some []
   | Attribute _ _ _ _ \<Rightarrow> Some []) b)"

section \<open>Literals in lifecycle blocks\<close>

definition reserved_roots :: "string list" where
  "reserved_roots = [''var'', ''local'', ''data'', ''module'', ''each'', ''count'', ''terraform'', ''path'', ''self'']"

definition replace_index_is_legal :: "bool \<Rightarrow> bool \<Rightarrow> expr \<Rightarrow> bool" where
  "replace_index_is_legal has_count has_for_each idx =
     (case idx of
        EString _ _ \<Rightarrow> True
      | ENumber _ \<Rightarrow> True
      | ETraversal _ (EVariable head) ops \<Rightarrow>
          (let attrs = Unknown.get_attrs ops in
           if head = ''count'' \<and> attrs = [''index''] then has_count
           else if head = ''each'' \<and> attrs \<in> {[''key''], [''value'']} then has_for_each
           else False)
      | _ \<Rightarrow> False)"

definition is_managed_resource_ref :: "bool \<Rightarrow> bool \<Rightarrow> expr \<Rightarrow> bool" where
  "is_managed_resource_ref has_count has_for_each e =
     (case e of
        ETraversal _ (EVariable head) ops \<Rightarrow>
          head \<notin> set reserved_roots
          \<and> list_all (\<lambda>op. case op of
               GetAttr _ _ \<Rightarrow> True | Index idx \<Rightarrow> replace_index_is_legal has_count has_for_each idx | _ \<Rightarrow> False) ops
          \<and> 1 \<le> length (Unknown.get_attrs ops)
      | _ \<Rightarrow> False)"

definition replace_triggered_by_is_legal :: "bool \<Rightarrow> bool \<Rightarrow> expr \<Rightarrow> bool" where
  "replace_triggered_by_is_legal has_count has_for_each v =
     (case v of EArray es \<Rightarrow> list_all (is_managed_resource_ref has_count has_for_each) es | _ \<Rightarrow> False)"

definition is_static_attribute_path :: "expr \<Rightarrow> bool" where
  "is_static_attribute_path e =
     (case e of
        EVariable v \<Rightarrow> v \<notin> set reserved_roots
      | ETraversal _ (EVariable head) ops \<Rightarrow>
          head \<notin> set reserved_roots
          \<and> list_all (\<lambda>op. case op of
               GetAttr _ _ \<Rightarrow> True
             | Index idx \<Rightarrow> (case idx of EString _ _ \<Rightarrow> True | ENumber _ \<Rightarrow> True | _ \<Rightarrow> False)
             | _ \<Rightarrow> False) ops
      | _ \<Rightarrow> False)"

definition ignore_changes_is_literal :: "expr \<Rightarrow> bool" where
  "ignore_changes_is_literal v =
     (case v of
        EVariable x \<Rightarrow> x = ''all''
      | EArray es \<Rightarrow> list_all is_static_attribute_path es
      | _ \<Rightarrow> False)"

text \<open>The message for an argument of a lifecycle block, when it is not a literal of the required form.\<close>

definition lifecycle_message :: "bool \<Rightarrow> bool \<Rightarrow> string \<Rightarrow> expr \<Rightarrow> string option" where
  "lifecycle_message has_count has_for_each key v =
     (if key \<in> {''prevent_destroy'', ''create_before_destroy''} then
        (case v of EBool _ \<Rightarrow> None
         | _ \<Rightarrow> Some (backquote key @ '' must be a literal boolean '' @ em_dash @ '' Terraform processes '' @ backquote ''lifecycle''
             @ '' before expression evaluation and rejects anything else with \"Variables may not be used here\".''))
      else if key = ''ignore_changes'' then
        (if ignore_changes_is_literal v then None
         else Some (backquote ''ignore_changes'' @ '' must be the keyword '' @ backquote ''all''
             @ '' or a list of static attribute references (e.g. '' @ backquote ''[tags, metadata]'' @ '') '' @ em_dash
             @ '' Terraform processes '' @ backquote ''lifecycle''
             @ '' before expression evaluation and rejects variables, quoted strings, and expressions here.''))
      else if key = ''replace_triggered_by'' then
        (if replace_triggered_by_is_legal has_count has_for_each v then None
         else Some (backquote ''replace_triggered_by'' @ '' only accepts managed resource instance references (e.g. ''
             @ backquote ''aws_instance.web'' @ '' or '' @ backquote ''aws_instance.web.id'' @ '') '' @ em_dash
             @ '' \"Only managed resource instances can be used in replace_triggered_by\". To trigger on an arbitrary value, route it through a ''
             @ backquote ''terraform_data'' @ '' resource ('' @ backquote (''input = '' @ ellipsis)
             @ '') and reference '' @ backquote ''terraform_data.x.output'' @ ''.''))
      else None)"

definition check_lifecycle :: "rope \<Rightarrow> bool \<Rightarrow> bool \<Rightarrow> body_item \<Rightarrow> diagnostic list may_panic" where
  "check_lifecycle rope has_count has_for_each entry =
     (case entry of
        Block _ _ _ _ \<Rightarrow> Some []
      | Attribute (key, _) v vsp _ \<Rightarrow>
          (case lifecycle_message has_count has_for_each key v of
             None \<Rightarrow> Some []
           | Some msg \<Rightarrow> do { rg \<leftarrow> expr_range vsp rope; Some [error_at rg msg] }))"

definition lifecycle_of_resource :: "rope \<Rightarrow> body_item \<Rightarrow> diagnostic list may_panic" where
  "lifecycle_of_resource rope item =
     (case item of
        Attribute _ _ _ _ \<Rightarrow> Some []
      | Block _ (kw, _) _ inner \<Rightarrow>
          if kw \<noteq> ''resource'' then Some []
          else (let has_count = list_ex (is_attr ''count'') inner; has_for_each = list_ex (is_attr ''for_each'') inner in
            concat_may (map (check_lifecycle rope has_count has_for_each) (nested_bodies ''lifecycle'' inner))))"

definition lifecycle_literal_diagnostics :: "body \<Rightarrow> rope \<Rightarrow> diagnostic list may_panic" where
  "lifecycle_literal_diagnostics b rope = concat_may (map (lifecycle_of_resource rope) b)"

section \<open>Missing tags\<close>

definition aws_name_tag_resources :: "string list" where
  "aws_name_tag_resources = [''aws_autoscaling_group'', ''aws_customer_gateway'', ''aws_db_instance'', ''aws_ebs_volume'',
     ''aws_eip'', ''aws_elb'', ''aws_instance'', ''aws_internet_gateway'', ''aws_lb'', ''aws_nat_gateway'',
     ''aws_network_interface'', ''aws_route_table'', ''aws_security_group'', ''aws_subnet'', ''aws_vpc'',
     ''aws_vpc_peering_connection'', ''aws_vpn_connection'', ''aws_vpn_gateway'']"

text \<open>The table is sorted, so the binary search of the code is membership.\<close>

lemma aws_table_sorted: "sorted_wrt (\<lambda>a b. (a, b) \<in> lexord {(x, y). x < y}) (map (map byte) aws_name_tag_resources)"
  by (simp add: aws_name_tag_resources_def byte_def)

definition provider_of :: "string \<Rightarrow> string" where
  "provider_of type_name = (case split_once CHR ''_'' type_name of Some (p, _) \<Rightarrow> p | None \<Rightarrow> type_name)"

definition anchor_span :: "ident \<Rightarrow> ident list \<Rightarrow> span option" where
  "anchor_span kw labels =
     (case labels of
        (_, Some sp) # _ \<Rightarrow> Some sp
      | _ \<Rightarrow> snd kw)"

definition tag_attribute :: "schema \<Rightarrow> string option" where
  "tag_attribute sc =
     (if ''tags'' \<in> fst ` set (attributes (schema_block sc)) then Some ''tags''
      else if ''labels'' \<in> fst ` set (attributes (schema_block sc)) then Some ''labels''
      else None)"

definition untagged :: "rope \<Rightarrow> schema_lookup \<Rightarrow> string set \<Rightarrow> body_item \<Rightarrow> diagnostic list may_panic" where
  "untagged rope lookup suppressed item =
     (case item of
        Block _ kw ((type_name, lsp) # labels) inner \<Rightarrow>
          if fst kw \<noteq> ''resource'' then Some []
          else (case lookup_resource lookup type_name of
              None \<Rightarrow> Some []
            | Some sc \<Rightarrow>
                (case tag_attribute sc of
                   None \<Rightarrow> Some []
                 | Some tag_attr \<Rightarrow>
                     if provider_of type_name \<in> suppressed then Some []
                     else if list_ex (is_attr tag_attr) inner then Some []
                     else push_diagnostic SevWarning [] rope (anchor_span kw ((type_name, lsp) # labels))
                       (''resource '' @ backquote type_name @ '' supports '' @ backquote tag_attr @ '' but none are set'')))
      | _ \<Rightarrow> Some [])"

definition missing_tags_diagnostics :: "body \<Rightarrow> rope \<Rightarrow> schema_lookup \<Rightarrow> string set \<Rightarrow> diagnostic list may_panic" where
  "missing_tags_diagnostics b rope lookup suppressed = concat_may (map (untagged rope lookup suppressed) b)"

definition expr_has_name_key :: "expr \<Rightarrow> bool" where
  "expr_has_name_key e = list_ex (\<lambda>e'. case e' of
     EObject _ kvs \<Rightarrow> list_ex (\<lambda>(k, _). object_key_name k = Some ''Name'') kvs | _ \<Rightarrow> False) (visit_expr e)"

definition unnamed :: "rope \<Rightarrow> body_item \<Rightarrow> diagnostic list may_panic" where
  "unnamed rope item =
     (case item of
        Block _ kw ((type_name, lsp) # labels) inner \<Rightarrow>
          if fst kw \<noteq> ''resource'' then Some []
          else if type_name \<notin> set aws_name_tag_resources then Some []
          else if (case attrs_named ''tags'' inner of v # _ \<Rightarrow> expr_has_name_key v | [] \<Rightarrow> False) then Some []
          else push_diagnostic SevWarning [] rope (anchor_span kw ((type_name, lsp) # labels))
            (''resource '' @ backquote type_name @ '' should set a '' @ backquote ''Name'' @ '' tag (shown in the AWS console)'')
      | _ \<Rightarrow> Some [])"

definition missing_name_tag_diagnostics :: "body \<Rightarrow> rope \<Rightarrow> diagnostic list may_panic" where
  "missing_name_tag_diagnostics b rope = concat_may (map (unnamed rope) b)"

definition provider_names_with_default_tags :: "body \<Rightarrow> string list" where
  "provider_names_with_default_tags b = List.map_filter (\<lambda>item. case item of
     Block _ (kw, _) ((name, _) # _) inner \<Rightarrow>
       if kw = ''provider'' \<and> list_ex (\<lambda>i. is_block ''default_tags'' i \<or> is_attr ''default_tags'' i) inner then Some name else None
   | _ \<Rightarrow> None) b"

section \<open>Defaults of variables\<close>

definition type_and_default :: "body \<Rightarrow> expr option \<times> (expr \<times> span option) option" where
  "type_and_default inner = foldl (\<lambda>(t, d) item. case item of
       Attribute (key, _) v _ sp \<Rightarrow>
         if key = ''type'' then (Some v, d) else if key = ''default'' then (t, Some (v, sp)) else (t, d)
     | Block _ _ _ _ \<Rightarrow> (t, d)) (None, None) inner"

definition default_mismatch :: "rope \<Rightarrow> body_item \<Rightarrow> diagnostic list may_panic" where
  "default_mismatch rope item =
     (case item of
        Attribute _ _ _ _ \<Rightarrow> Some []
      | Block _ (kw, _) _ inner \<Rightarrow>
          if kw \<noteq> ''variable'' then Some []
          else (case type_and_default inner of
              (Some t, Some (v, sp)) \<Rightarrow>
                (let declared = parse_type_expr t; actual = parse_value_shape v in
                 if satisfies declared actual then Some []
                 else (let detail = explain_mismatch declared actual in
                   push_diagnostic SevError [] rope sp
                     (if detail = [] then ''default value of type '' @ backquote (show_type actual)
                        @ '' does not match declared type '' @ backquote (show_type declared)
                      else ''default does not match declared type '' @ backquote (show_type declared) @ '': '' @ detail)))
            | _ \<Rightarrow> Some []))"

definition variable_default_type_diagnostics :: "body \<Rightarrow> rope \<Rightarrow> diagnostic list may_panic" where
  "variable_default_type_diagnostics b rope = concat_may (map (default_mismatch rope) b)"

section \<open>Test files\<close>

definition top_level_blocks :: "string list" where
  "top_level_blocks = [''test'', ''variables'', ''provider'', ''run'', ''mock_provider'', ''override_resource'',
     ''override_data'', ''override_module'']"

definition run_blocks :: "string list" where
  "run_blocks = [''plan_options'', ''variables'', ''module'', ''assert'', ''override_resource'', ''override_data'',
     ''override_module'', ''mock_provider'']"

definition overrides :: "string list" where
  "overrides = [''override_resource'', ''override_data'', ''override_module'']"

definition keyword_or_string :: "expr \<Rightarrow> string option" where
  "keyword_or_string e = (case e of EVariable v \<Rightarrow> Some v | EString _ s \<Rightarrow> Some s | _ \<Rightarrow> None)"

text \<open>The first attribute of a key, with the span of its value.\<close>

definition attr_value :: "body \<Rightarrow> string \<Rightarrow> (expr \<times> span option) option" where
  "attr_value inner key =
     (case List.map_filter (\<lambda>item. case item of
          Attribute (k, _) v vsp _ \<Rightarrow> if k = key then Some (v, vsp) else None
        | Block _ _ _ _ \<Rightarrow> None) inner of
        x # _ \<Rightarrow> Some x | [] \<Rightarrow> None)"

definition check_enum :: "rope \<Rightarrow> body \<Rightarrow> string \<Rightarrow> string \<times> string \<Rightarrow> diagnostic list may_panic" where
  "check_enum rope inner key allowed =
     (case attr_value inner key of
        None \<Rightarrow> Some []
      | Some (v, vsp) \<Rightarrow>
          (case keyword_or_string v of
             None \<Rightarrow> Some []
           | Some kw \<Rightarrow>
               if kw \<noteq> fst allowed \<and> kw \<noteq> snd allowed then do {
                 rg \<leftarrow> expr_range vsp rope;
                 Some [error_at rg (''invalid '' @ backquote key @ '' '' @ backquote kw @ '' '' @ em_dash @ '' expected ''
                   @ backquote (fst allowed) @ '' or '' @ backquote (snd allowed))] }
               else Some []))"

definition check_override_during :: "rope \<Rightarrow> body \<Rightarrow> diagnostic list may_panic" where
  "check_override_during rope inner = check_enum rope inner ''override_during'' (''plan'', ''apply'')"

definition validate_plan_options :: "rope \<Rightarrow> body \<Rightarrow> diagnostic list may_panic" where
  "validate_plan_options rope inner = check_enum rope inner ''mode'' (''normal'', ''refresh-only'')"

definition require_attr :: "rope \<Rightarrow> ident \<Rightarrow> body \<Rightarrow> string \<Rightarrow> diagnostic list may_panic" where
  "require_attr rope kw inner key =
     (if attr_value inner key = None then do {
        rg \<leftarrow> expr_range (snd kw) rope;
        Some [error_at rg (backquote (fst kw) @ '' is missing required attribute '' @ backquote key)] }
      else Some [])"

definition validate_override :: "rope \<Rightarrow> ident \<Rightarrow> body \<Rightarrow> diagnostic list may_panic" where
  "validate_override rope kw inner = concat_may [require_attr rope kw inner ''target'', check_override_during rope inner]"

definition validate_mock_provider :: "rope \<Rightarrow> body \<Rightarrow> diagnostic list may_panic" where
  "validate_mock_provider rope inner = concat_may (check_override_during rope inner # map (\<lambda>item. case item of
       Attribute _ _ _ _ \<Rightarrow> Some []
     | Block _ kw _ sub \<Rightarrow>
         if fst kw \<noteq> ''mock_resource'' \<and> fst kw \<noteq> ''mock_data'' then do {
           rg \<leftarrow> expr_range (snd kw) rope;
           Some [error_at rg (''unknown block '' @ backquote (fst kw) @ '' in '' @ backquote ''mock_provider'' @ '' '' @ em_dash
             @ '' expected '' @ backquote ''mock_resource'' @ '' or '' @ backquote ''mock_data'')] }
         else check_override_during rope sub) inner)"

definition run_item :: "rope \<Rightarrow> body_item \<Rightarrow> diagnostic list may_panic" where
  "run_item rope item =
     (case item of
        Attribute _ _ _ _ \<Rightarrow> Some []
      | Block _ kw _ sub \<Rightarrow>
          if fst kw \<notin> set run_blocks then do {
            rg \<leftarrow> expr_range (snd kw) rope;
            Some [error_at rg (''unknown block '' @ backquote (fst kw) @ '' in '' @ backquote ''run'' @ '' '' @ em_dash
              @ '' expected one of: '' @ join_with '', '' run_blocks)] }
          else if fst kw = ''assert'' then
            concat_may [require_attr rope kw sub ''condition'', require_attr rope kw sub ''error_message'']
          else if fst kw = ''plan_options'' then validate_plan_options rope sub
          else if fst kw \<in> set overrides then validate_override rope kw sub
          else Some [])"

definition validate_run :: "rope \<Rightarrow> body \<Rightarrow> diagnostic list may_panic" where
  "validate_run rope inner =
     concat_may (check_enum rope inner ''command'' (''plan'', ''apply'') # map (run_item rope) inner)"

definition tftest_item :: "rope \<Rightarrow> body_item \<Rightarrow> diagnostic list may_panic" where
  "tftest_item rope item =
     (case item of
        Attribute _ _ _ _ \<Rightarrow> Some []
      | Block _ kw _ inner \<Rightarrow>
          if fst kw \<notin> set top_level_blocks then do {
            rg \<leftarrow> expr_range (snd kw) rope;
            Some [error_at rg (''unknown test-file block '' @ backquote (fst kw) @ '' '' @ em_dash
              @ '' expected one of: '' @ join_with '', '' top_level_blocks)] }
          else if fst kw = ''run'' then validate_run rope inner
          else if fst kw \<in> set overrides then validate_override rope kw inner
          else if fst kw = ''mock_provider'' then validate_mock_provider rope inner
          else Some [])"

definition tftest_diagnostics :: "body \<Rightarrow> rope \<Rightarrow> diagnostic list may_panic" where
  "tftest_diagnostics b rope = concat_may (map (tftest_item rope) b)"

section \<open>Which definitions are duplicates\<close>

definition repeats :: "found_definition list \<Rightarrow> diagnostic list" where
  "repeats ds = concat (map (\<lambda>j. case List.find (\<lambda>d. fd_key d = fd_key (ds ! j)) (take j ds) of
     Some first \<Rightarrow> [duplicate_of (fd_range first) (ds ! j)] | None \<Rightarrow> []) [0..<length ds])"

lemma find_append: "List.find P (xs @ ys) = (case List.find P xs of Some x \<Rightarrow> Some x | None \<Rightarrow> List.find P ys)"
  by (induction xs) simp_all

lemma repeats_snoc: "repeats (ds @ [d]) = repeats ds
    @ (case List.find (\<lambda>d'. fd_key d' = fd_key d) ds of Some first \<Rightarrow> [duplicate_of (fd_range first) d] | None \<Rightarrow> [])"
proof -
  have "concat (map (\<lambda>j. case List.find (\<lambda>d'. fd_key d' = fd_key ((ds @ [d]) ! j)) (take j (ds @ [d])) of
      Some first \<Rightarrow> [duplicate_of (fd_range first) ((ds @ [d]) ! j)] | None \<Rightarrow> []) [0..<length ds]) = repeats ds"
    unfolding repeats_def by (intro arg_cong [where f = concat] map_cong) (auto simp: nth_append split: option.splits)
  then show ?thesis by (simp add: repeats_def cong: option.case_cong)
qed

lemma record_definitions:
  "hm_get (fst (foldl record_definition ([], []) ds)) k = map_option fd_range (List.find (\<lambda>d. fd_key d = k) ds)
   \<and> snd (foldl record_definition ([], []) ds) = repeats ds"
proof (induction ds arbitrary: k rule: rev_induct)
  case Nil
  show ?case by (simp add: hm_get_def repeats_def)
next
  case (snoc d ds)
  from snoc [of "fd_key d"] snoc [of k] show ?case
    by (cases "List.find (\<lambda>d'. fd_key d' = fd_key d) ds")
      (auto simp: record_definition_def repeats_snoc hm_get_insert find_append split: option.splits)
qed

text \<open>
  A definition is reported as a duplicate exactly when an earlier definition of the file has the same kind and
  name, and the message names the line of the first one: the first definition itself is never reported.
\<close>

theorem duplicates_exact:
  assumes "concat_may (map (definitions_of rope) b) = Some ds"
  shows "duplicate_definition_diagnostics b rope = Some (concat (map (\<lambda>j.
    case List.find (\<lambda>d. fd_key d = fd_key (ds ! j)) (take j ds) of
      Some first \<Rightarrow> [duplicate_of (fd_range first) (ds ! j)]
    | None \<Rightarrow> []) [0..<length ds]))"
  using assms record_definitions [of ds] by (simp add: duplicate_definition_diagnostics_def repeats_def)

lemma duplicates_exact_witness:
  "duplicate_definition_diagnostics
     [Block None (''locals'', None) [] [Attribute (''a'', Some (0, 0)) ENull None None, Attribute (''a'', Some (0, 0)) ENull None None]] []
   = Some [error_at default_range (''duplicate local `a` '' @ em_dash @ '' already defined on line 1'')]"
proof -
  let ?d = "\<lparr>fd_key = ''local:a'', fd_range = default_range, fd_kind = ''local'', fd_label = ''a''\<rparr>"
  have "concat_may (map (definitions_of []) [Block None (''locals'', None) []
     [Attribute (''a'', Some (0, 0)) ENull None None, Attribute (''a'', Some (0, 0)) ENull None None]]) = Some [?d, ?d]"
    by (simp add: definitions_of_def span_eval default_range_def)
  moreover have "show_nat (Suc 0) = ''1''" by code_simp
  ultimately show ?thesis using duplicates_exact [of "[]" _ "[?d, ?d]"]
    by (simp add: duplicate_of_def default_range_def backquote_def upt_rec)
qed

end
