(* ===== verification/TextRules.thy ===== *)
theory TextRules
  imports BlockRules
begin

text \<open>
  The two rules of \<^verbatim>\<open>crates/tfls-diag/src/\<close> that read the text of the file: \<^verbatim>\<open>comment_syntax.rs\<close>, which scans all
  of it, and \<^verbatim>\<open>map_duplicate_keys.rs\<close>, which scans the text of every object, because the parser has already
  merged equal keys in the tree. The loops are step functions under \<open>scan_loop\<close>.
\<close>

section \<open>Comments\<close>

text \<open>The flags of the scan exclude each other.\<close>

datatype comment_mode = InCode | InText | InLineComment | InBlockComment | InHeredoc string

record comment_state =
  cs_mode :: comment_mode
  cs_line_start :: nat
  cs_line :: nat
  cs_col :: nat
  cs_out :: "diagnostic list"

definition slash_comment :: "nat \<Rightarrow> nat \<Rightarrow> diagnostic" where
  "slash_comment l c = \<lparr>dg_range = lsp_range_of ((l, c), (l, c + 2)), dg_severity = SevInformation,
     dg_message = ''use '' @ backquote ''#'' @ '' for comments instead of '' @ backquote ''//'', dg_tags = []\<rparr>"

definition next_line :: "comment_state \<Rightarrow> nat \<Rightarrow> (comment_state \<times> nat) option" where
  "next_line st i = Some (st\<lparr>cs_line := cs_line st + 1, cs_col := 0, cs_line_start := i + 1\<rparr>, i + 1)"

definition go_on :: "comment_state \<Rightarrow> nat \<Rightarrow> nat \<Rightarrow> (comment_state \<times> nat) option" where
  "go_on st i n = Some (st\<lparr>cs_col := cs_col st + n\<rparr>, i + n)"

definition comment_code_step :: "string \<Rightarrow> comment_state \<Rightarrow> nat \<Rightarrow> (comment_state \<times> nat) option" where
  "comment_code_step src st i =
     (let b = src ! i; following = byte_at src (i + 1) in
      if b = CHR 0x22 then go_on (st\<lparr>cs_mode := InText\<rparr>) i 1
      else if b = CHR ''<'' \<and> following = Some (CHR ''<'') then
        (let tag_start = (if byte_at src (i + 2) = Some (CHR ''-'') then i + 3 else i + 2);
             j = skip_while is_ident_byte src tag_start in
         if tag_start < j then do {
           tag \<leftarrow> str_slice src tag_start j;
           go_on (st\<lparr>cs_mode := InHeredoc tag\<rparr>) i (j - i) }
         else go_on st i 1)
      else if b = CHR ''/'' \<and> following = Some (CHR ''/'') then
        go_on (st\<lparr>cs_mode := InLineComment, cs_out := cs_out st @ [slash_comment (cs_line st) (cs_col st)]\<rparr>) i 2
      else if b = CHR ''/'' \<and> following = Some (CHR ''*'') then go_on (st\<lparr>cs_mode := InBlockComment\<rparr>) i 2
      else if b = CHR ''#'' then go_on st i (skip_while (\<lambda>c. c \<noteq> CHR 0x0A) src i - i)
      else if b = CHR 0x0A then next_line st i
      else go_on st i 1)"

definition comment_step :: "string \<Rightarrow> comment_state \<Rightarrow> nat \<Rightarrow> (comment_state \<times> nat) option" where
  "comment_step src st i =
     (let b = src ! i; following = byte_at src (i + 1) in
      case cs_mode st of
        InHeredoc tag \<Rightarrow>
          if b = CHR 0x0A then
            (let line_text = (case str_slice src (cs_line_start st) i of Some t \<Rightarrow> t | None \<Rightarrow> []) in
             next_line (if trim line_text = tag then st\<lparr>cs_mode := InCode\<rparr> else st) i)
          else go_on st i 1
      | InLineComment \<Rightarrow> if b = CHR 0x0A then next_line (st\<lparr>cs_mode := InCode\<rparr>) i else go_on st i 1
      | InBlockComment \<Rightarrow>
          if b = CHR 0x0A then next_line st i
          else if b = CHR ''*'' \<and> following = Some (CHR ''/'') then go_on (st\<lparr>cs_mode := InCode\<rparr>) i 2
          else go_on st i 1
      | InText \<Rightarrow>
          if b = CHR 0x5C \<and> following \<noteq> None then go_on st i 2
          else (let st' = (if b = CHR 0x22 then st\<lparr>cs_mode := InCode\<rparr> else st) in
            if b = CHR 0x0A then next_line st' i else go_on st' i 1)
      | InCode \<Rightarrow> comment_code_step src st i)"

definition comment_syntax_diagnostics :: "rope \<Rightarrow> diagnostic list may_panic" where
  "comment_syntax_diagnostics rope =
     (let src = to_utf8 rope in
      map_option cs_out (scan_loop (\<lambda>_. True) (comment_step src) (length src)
        \<lparr>cs_mode = InCode, cs_line_start = 0, cs_line = 0, cs_col = 0, cs_out = []\<rparr> 0))"

section \<open>Strings and heredocs of an object\<close>

text \<open>\<open>b as char\<close>: the byte read as a code point of Latin-1, then written in UTF-8.\<close>

definition latin1 :: "char \<Rightarrow> string" where
  "latin1 c = utf8_char (byte c)"

definition unescaped :: "char \<Rightarrow> string" where
  "unescaped c =
     (if c = CHR ''n'' then [CHR 0x0A] else if c = CHR ''t'' then [CHR 0x09] else latin1 c)"

text \<open>The rest of a string from an offset inside it, at a depth of interpolations. A nested string ends behind its start.\<close>

function read_string_from :: "string \<Rightarrow> nat \<Rightarrow> nat \<Rightarrow> string \<Rightarrow> (nat \<times> string) option" where
  "read_string_from s j depth contents =
     (if length s \<le> j then None
      else let b = s ! j; following = byte_at s (j + 1); sigil = (b = CHR ''$'' \<or> b = CHR ''%'') in
        if b = CHR 0x5C \<and> following \<noteq> None then read_string_from s (j + 2) depth (contents @ unescaped (s ! (j + 1)))
        else if sigil \<and> following = Some b \<and> byte_at s (j + 2) = Some (CHR ''{'') then
          read_string_from s (j + 3) depth (contents @ [b, CHR ''{''])
        else if sigil \<and> following = Some (CHR ''{'') then
          read_string_from s (j + 2) (depth + 1) (contents @ [b, CHR ''{''])
        else if 0 < depth then
          (if b = CHR ''{'' then read_string_from s (j + 1) (depth + 1) (contents @ [b])
           else if b = CHR ''}'' then read_string_from s (j + 1) (depth - 1) (contents @ [b])
           else if b = CHR 0x22 then
             (case read_string_from s (j + 1) 0 [] of
                None \<Rightarrow> None
              | Some (e, _) \<Rightarrow>
                  if e \<le> j then None
                  else read_string_from s e depth (contents @ concat (map latin1 (take (e - j) (drop j s)))))
           else read_string_from s (j + 1) depth (contents @ latin1 b))
        else if b = CHR 0x22 then Some (j + 1, contents)
        else read_string_from s (j + 1) depth (contents @ latin1 b))"
  by pat_completeness auto
termination
  by (relation "measure (\<lambda>(s, j, d, c). length s - j)") auto

declare read_string_from.simps [simp del]

definition read_string :: "string \<Rightarrow> nat \<Rightarrow> (nat \<times> string) option" where
  "read_string s i = read_string_from s (i + 1) 0 []"

definition is_blank_cr :: "char \<Rightarrow> bool" where
  "is_blank_cr c \<longleftrightarrow> is_blank c \<or> c = CHR 0x0D"

function heredoc_lines :: "string \<Rightarrow> string \<Rightarrow> nat \<Rightarrow> nat option" where
  "heredoc_lines s terminator k =
     (let line = takeWhile (\<lambda>c. c \<noteq> CHR 0x0A) (drop k s);
          line_end = k + length line;
          trimmed = rev (dropWhile is_blank_cr (rev (dropWhile is_blank line))) in
      if trimmed = terminator then Some (if line_end < length s then line_end + 1 else line_end)
      else if length s \<le> line_end then None
      else heredoc_lines s terminator (line_end + 1))"
  by pat_completeness auto
termination
  by (relation "measure (\<lambda>(s, t, k). length s - k)") (auto simp: Let_def)

declare heredoc_lines.simps [simp del]

definition skip_heredoc :: "string \<Rightarrow> nat \<Rightarrow> nat option" where
  "skip_heredoc s i =
     (let ident_start = (if byte_at s (i + 2) = Some (CHR ''-'') then i + 3 else i + 2);
          k = skip_while is_ident_continue s ident_start;
          eol = skip_while is_blank_cr s k in
      if k = ident_start then None
      else if byte_at s eol \<noteq> Some (CHR 0x0A) then None
      else heredoc_lines s (take (k - ident_start) (drop ident_start s)) (eol + 1))"

section \<open>Keys of an object\<close>

record keys_state =
  ks_depth :: int
  ks_at_key :: bool
  ks_stop :: bool
  ks_out :: "(string \<times> span) list"

text \<open>The separator after a key, behind blanks: where to go on, and whether there is one.\<close>

definition key_separator :: "string \<Rightarrow> nat \<Rightarrow> nat \<times> bool" where
  "key_separator s e =
     (let j = skip_while is_blank s e in (j, byte_at s j \<in> {Some (CHR ''=''), Some (CHR '':'')}))"

definition push_key :: "string \<Rightarrow> nat \<Rightarrow> string \<Rightarrow> nat \<times> nat \<Rightarrow> keys_state \<Rightarrow> keys_state \<times> nat" where
  "push_key s base name ab st =
     (case key_separator s (snd ab) of
        (j, True) \<Rightarrow> (st\<lparr>ks_out := ks_out st @ [(name, (base + fst ab, base + snd ab))], ks_at_key := False\<rparr>, j)
      | (j, False) \<Rightarrow> (st, j))"

definition keys_step :: "string \<Rightarrow> nat \<Rightarrow> keys_state \<Rightarrow> nat \<Rightarrow> (keys_state \<times> nat) option" where
  "keys_step s base st i =
     (let b = s ! i; following = byte_at s (i + 1); eol = skip_while (\<lambda>c. c \<noteq> CHR 0x0A) s i in
      if b = CHR ''{'' then
        Some (st\<lparr>ks_depth := ks_depth st + 1, ks_at_key := (if ks_depth st + 1 = 1 then True else ks_at_key st)\<rparr>, i + 1)
      else if b = CHR ''}'' then Some (st\<lparr>ks_depth := ks_depth st - 1, ks_stop := (ks_depth st - 1 = 0)\<rparr>, i + 1)
      else if b = CHR ''('' \<or> b = CHR ''['' then Some (st\<lparr>ks_depth := ks_depth st + 1\<rparr>, i + 1)
      else if b = CHR '')'' \<or> b = CHR '']'' then Some (st\<lparr>ks_depth := ks_depth st - 1\<rparr>, i + 1)
      else if (b = CHR '','' \<or> b = CHR 0x0A) \<and> ks_depth st = 1 then Some (st\<lparr>ks_at_key := True\<rparr>, i + 1)
      else if b = CHR ''#'' then Some (st, eol)
      else if b = CHR ''/'' \<and> following = Some (CHR ''/'') then Some (st, eol)
      else if b = CHR ''/'' \<and> following = Some (CHR ''*'') then
        Some (st, (case str_find ''*/'' (drop (i + 2) s) of Some r \<Rightarrow> i + 2 + r + 2 | None \<Rightarrow> length s))
      else if b = CHR 0x22 then
        (case read_string s i of
           None \<Rightarrow> Some (st\<lparr>ks_stop := True\<rparr>, i + 1)
         | Some (e, content) \<Rightarrow>
             Some (if ks_depth st = 1 \<and> ks_at_key st then push_key s base content (i, e) st else (st, e)))
      else if b = CHR ''<'' \<and> following = Some (CHR ''<'') then
        Some (case skip_heredoc s i of
          Some e \<Rightarrow> (st\<lparr>ks_at_key := True\<rparr>, e)
        | None \<Rightarrow> (st\<lparr>ks_at_key := False\<rparr>, i + 1))
      else if is_ident_start b \<and> ks_depth st = 1 \<and> ks_at_key st then
        (let e = skip_while is_ident_continue s i in do {
           ident \<leftarrow> str_slice s i e;
           Some (push_key s base ident (i, e) st) })
      else if is_blank_cr b then Some (st, i + 1)
      else Some (st\<lparr>ks_at_key := False\<rparr>, i + 1))"

definition extract_top_level_keys :: "string \<Rightarrow> nat \<Rightarrow> (string \<times> span) list may_panic" where
  "extract_top_level_keys s base =
     (if \<not> starts_with s ''{'' then Some []
      else map_option ks_out (scan_loop (\<lambda>st. \<not> ks_stop st) (keys_step s base) (length s)
        \<lparr>ks_depth = 0, ks_at_key = False, ks_stop = False, ks_out = []\<rparr> 0))"

definition check_key :: "rope \<Rightarrow> string list \<times> diagnostic list \<Rightarrow> string \<times> span \<Rightarrow> (string list \<times> diagnostic list) may_panic" where
  "check_key rope st key =
     (if fst key \<in> set (fst st) then do {
        ds \<leftarrow> push_diagnostic SevError [] rope (Some (snd key)) (''duplicate key '' @ backquote (fst key) @ '' in object literal ''
          @ em_dash @ '' later values override earlier ones'');
        Some (fst st, snd st @ ds) }
      else Some (fst key # fst st, snd st))"

definition duplicate_keys_in :: "rope \<Rightarrow> string \<Rightarrow> expr \<Rightarrow> diagnostic list may_panic" where
  "duplicate_keys_in rope source e =
     (case e of
        EObject (Some (a, b)) _ \<Rightarrow>
          if length source < b then Some []
          else do {
            t \<leftarrow> str_slice source a b;
            keys \<leftarrow> extract_top_level_keys t a;
            map_option snd (fold_may (check_key rope) ([], []) keys) }
      | _ \<Rightarrow> Some [])"

definition map_duplicate_keys_diagnostics :: "body \<Rightarrow> rope \<Rightarrow> diagnostic list may_panic" where
  "map_duplicate_keys_diagnostics b rope = concat_may (map (duplicate_keys_in rope (to_utf8 rope)) (visit_body b))"

section \<open>Where a comment is reported\<close>

text \<open>The line of an offset and its column in bytes.\<close>

definition place :: "string \<Rightarrow> nat \<Rightarrow> nat \<times> nat" where
  "place src i = (count_list (take i src) (CHR 0x0A), length (takeWhile (\<lambda>c. c \<noteq> CHR 0x0A) (rev (take i src))))"

definition comment_at :: "string \<Rightarrow> nat \<Rightarrow> diagnostic" where
  "comment_at src j = slash_comment (fst (place src j)) (snd (place src j))"

definition placed :: "string \<Rightarrow> comment_state \<Rightarrow> nat \<Rightarrow> bool" where
  "placed src st i \<longleftrightarrow> i \<le> length src \<and> (cs_line st, cs_col st) = place src i
     \<and> (\<forall>d \<in> set (cs_out st). \<exists>j. take 2 (drop j src) = ''//'' \<and> d = comment_at src j)"

lemma scan_loop_inv:
  assumes "\<And>s i. i < n \<Longrightarrow> go s \<Longrightarrow> P s i \<Longrightarrow> \<exists>s' j. step s i = Some (s', j) \<and> i < j \<and> P s' j" "P s i"
  shows "\<exists>s' j. scan_loop go step n s i = Some s' \<and> P s' j \<and> (n \<le> j \<or> \<not> go s')"
  using assms(2)
proof (induction "n - i" arbitrary: s i rule: less_induct)
  case less
  show ?case
  proof (cases "n \<le> i \<or> \<not> go s")
    case False
    then obtain s' j where "step s i = Some (s', j)" "i < j" "P s' j"
      using assms(1) [of i s] less.prems by auto
    then show ?thesis using less.hyps [of j s'] False by (subst scan_loop.simps) auto
  qed (use less.prems in \<open>subst scan_loop.simps, auto\<close>)
qed

lemma place_on:
  assumes "i + n \<le> length src" "CHR 0x0A \<notin> set (take n (drop i src))"
  shows "place src (i + n) = (fst (place src i), snd (place src i) + n)"
proof -
  have "\<forall>c \<in> set (rev (take n (drop i src))). c \<noteq> CHR 0x0A" using assms(2) by auto
  then have "takeWhile (\<lambda>c. c \<noteq> CHR 0x0A) (rev (take n (drop i src)) @ rev (take i src))
      = rev (take n (drop i src)) @ takeWhile (\<lambda>c. c \<noteq> CHR 0x0A) (rev (take i src))"
    by (intro takeWhile_append2) simp
  then show ?thesis using assms by (simp add: place_def take_add min_def) linarith
qed

lemma place_newline: "i < length src \<Longrightarrow> src ! i = CHR 0x0A \<Longrightarrow> place src (Suc i) = (Suc (fst (place src i)), 0)"
  by (simp add: place_def take_Suc_conv_app_nth)

lemma go_on_placed:
  assumes "placed src st i" "0 < n" "i + n \<le> length src" "CHR 0x0A \<notin> set (take n (drop i src))"
    "cs_line st' = cs_line st" "cs_col st' = cs_col st"
    "\<forall>d \<in> set (cs_out st'). d \<in> set (cs_out st) \<or> (\<exists>j. take 2 (drop j src) = ''//'' \<and> d = comment_at src j)"
  shows "\<exists>s' j. go_on st' i n = Some (s', j) \<and> i < j \<and> placed src s' j"
proof -
  have "placed src (st'\<lparr>cs_col := cs_col st' + n\<rparr>) (i + n)"
    unfolding placed_def
  proof (intro conjI ballI)
    show "(cs_line (st'\<lparr>cs_col := cs_col st' + n\<rparr>), cs_col (st'\<lparr>cs_col := cs_col st' + n\<rparr>)) = place src (i + n)"
      using assms(1,5,6) unfolding place_on [OF assms(3,4)] placed_def by (metis comment_state.select_convs(3,4)
        comment_state.simps comment_state.surjective fst_conv snd_conv)
  next
    fix d assume "d \<in> set (cs_out (st'\<lparr>cs_col := cs_col st' + n\<rparr>))"
    with assms(1,7) show "\<exists>j. take 2 (drop j src) = ''//'' \<and> d = comment_at src j" by (auto simp: placed_def)
  qed (use assms(3) in simp)
  with assms(2) show ?thesis by (simp add: go_on_def)
qed

lemma next_line_placed:
  assumes "placed src st i" "i < length src" "src ! i = CHR 0x0A"
    "cs_line st' = cs_line st" "cs_out st' = cs_out st"
  shows "\<exists>s' j. next_line st' i = Some (s', j) \<and> i < j \<and> placed src s' j"
  using assms place_newline [OF assms(2,3)] by (auto simp: next_line_def placed_def) (metis fst_conv)

lemma one_char: "i < length src \<Longrightarrow> take 1 (drop i src) = [src ! i]"
  by (simp add: take_Suc_conv_app_nth [of 0])

lemma two_chars: "Suc i < length src \<Longrightarrow> take 2 (drop i src) = [src ! i, src ! Suc i]"
  by (simp add: numeral_2_eq_2 take_Suc_conv_app_nth)

lemma byte_at_Some: "byte_at src i = Some c \<longleftrightarrow> i < length src \<and> src ! i = c"
  by (simp add: byte_at_def)

lemma skip_line:
  assumes "i < length src" "src ! i \<noteq> CHR 0x0A"
  shows "i < skip_while (\<lambda>c. c \<noteq> CHR 0x0A) src i" "skip_while (\<lambda>c. c \<noteq> CHR 0x0A) src i \<le> length src"
    "CHR 0x0A \<notin> set (take (skip_while (\<lambda>c. c \<noteq> CHR 0x0A) src i - i) (drop i src))"
proof -
  have "takeWhile (\<lambda>c. c \<noteq> CHR 0x0A) (drop i src) \<noteq> []"
    using assms by (simp add: takeWhile_eq_Nil_iff hd_drop_conv_nth)
  then show "i < skip_while (\<lambda>c. c \<noteq> CHR 0x0A) src i" by (simp add: skip_while_def)
  show "skip_while (\<lambda>c. c \<noteq> CHR 0x0A) src i \<le> length src"
    using skip_while_stops [of "\<lambda>c. c \<noteq> CHR 0x0A" src i] assms(1) by simp
  have "take (length (takeWhile (\<lambda>c. c \<noteq> CHR 0x0A) (drop i src))) (drop i src) = takeWhile (\<lambda>c. c \<noteq> CHR 0x0A) (drop i src)"
    by (metis takeWhile_eq_take)
  then show "CHR 0x0A \<notin> set (take (skip_while (\<lambda>c. c \<noteq> CHR 0x0A) src i - i) (drop i src))"
    by (auto simp: skip_while_def dest: set_takeWhileD)
qed

text \<open>A tag behind \<open><<\<close> or \<open><<-\<close>.\<close>

lemma heredoc_tag:
  assumes "from_utf8 src = Some rope" "src ! i = CHR ''<''" "byte_at src (Suc i) = Some (CHR ''<'')"
    "a = (if byte_at src (i + 2) = Some (CHR ''-'') then i + 3 else i + 2)" "a < skip_while is_ident_byte src a"
  shows "\<exists>tag. str_slice src a (skip_while is_ident_byte src a) = Some tag"
    "skip_while is_ident_byte src a \<le> length src"
    "CHR 0x0A \<notin> set (take (skip_while is_ident_byte src a - i) (drop i src))"
proof -
  let ?j = "skip_while is_ident_byte src a"
  have ascii: "is_ident_byte c \<Longrightarrow> byte c < 128 \<and> c \<noteq> CHR 0x0A" for c
    by (auto simp: is_ident_byte_def is_ascii_alphanumeric_def is_ascii_alphabetic_def is_ascii_digit_def byte_def)
  from skip_while_gt [OF assms(5)] have a: "a < length src" "is_ident_byte (src ! a)" by simp_all
  then have "good_offset src rope a" using ascii_good(1) [OF assms(1)] ascii by blast
  moreover have "good_offset src rope ?j"
    using skip_while_good(2) [of src rope a is_ident_byte] assms(1) a ascii by blast
  ultimately show "\<exists>tag. str_slice src a ?j = Some tag" using good_slice assms(5) by (metis less_imp_le)
  show j: "?j \<le> length src" using skip_while_stops [of is_ident_byte src a] a(1) by simp
  have "i + 2 \<le> a" "a \<le> i + 3" by (simp_all add: assms(4))
  have "src ! k \<noteq> CHR 0x0A" if "i \<le> k" "k < ?j" for k
  proof (cases "k < a")
    case True
    have "k = i \<or> k = Suc i \<or> k = i + 2 \<and> byte_at src (i + 2) = Some (CHR ''-'')"
    proof (cases "byte_at src (i + 2) = Some (CHR ''-'')")
      case yes: True
      then have "k < i + 3" using True assms(4) by simp
      with that(1) yes show ?thesis by (simp only: simp_thms) linarith
    next
      case False
      then have "k < i + 2" using True assms(4) by simp
      with that(1) show ?thesis by linarith
    qed
    then show ?thesis using assms(2,3) by (auto simp: byte_at_Some)
  next
    case False
    moreover have "drop a src ! (k - a) = src ! k" using False a(1) by simp
    ultimately have "is_ident_byte (src ! k)"
      using that(2) takeWhile_nth [of "k - a" is_ident_byte "drop a src"]
        set_takeWhileD [OF nth_mem [of "k - a" "takeWhile is_ident_byte (drop a src)"]] by (auto simp: skip_while_def)
    then show ?thesis using ascii by blast
  qed
  then show "CHR 0x0A \<notin> set (take (?j - i) (drop i src))"
    using j by (auto simp: in_set_conv_nth)
qed

definition no_continued_line :: "string \<Rightarrow> bool" where
  "no_continued_line src \<longleftrightarrow> (\<forall>j. Suc j < length src \<longrightarrow> src ! j = CHR 0x5C \<longrightarrow> src ! Suc j \<noteq> CHR 0x0A)"

lemma code_step_placed:
  assumes "from_utf8 src = Some rope" "i < length src" "placed src st i"
  shows "\<exists>s' j. comment_code_step src st i = Some (s', j) \<and> i < j \<and> placed src s' j"
proof -
  let ?tag = "if byte_at src (i + 2) = Some (CHR ''-'') then i + 3 else i + 2"
  have one: "\<exists>s' j. go_on st' i 1 = Some (s', j) \<and> i < j \<and> placed src s' j"
    if "src ! i \<noteq> CHR 0x0A" "cs_line st' = cs_line st" "cs_col st' = cs_col st" "cs_out st' = cs_out st" for st'
    by (rule go_on_placed [OF assms(3)]) (use that assms(2) one_char [OF assms(2)] in auto)
  have two: "\<exists>s' j. go_on st' i 2 = Some (s', j) \<and> i < j \<and> placed src s' j"
    if "src ! i = CHR ''/''" "byte_at src (i + 1) = Some c" "c \<noteq> CHR 0x0A" "cs_line st' = cs_line st" "cs_col st' = cs_col st"
      "cs_out st' = cs_out st \<or> c = CHR ''/'' \<and> cs_out st' = cs_out st @ [slash_comment (cs_line st) (cs_col st)]" for st' c
  proof (rule go_on_placed [OF assms(3)])
    have i: "Suc i < length src" "src ! Suc i = c" using that(2) by (simp_all add: byte_at_Some)
    then show "i + 2 \<le> length src" "CHR 0x0A \<notin> set (take 2 (drop i src))" using that(1,3) by (simp_all add: two_chars)
    have "slash_comment (cs_line st) (cs_col st) = comment_at src i"
      using assms(3) by (metis comment_at_def fst_conv placed_def snd_conv)
    with that(1,6) i show "\<forall>d \<in> set (cs_out st'). d \<in> set (cs_out st) \<or> (\<exists>j. take 2 (drop j src) = ''//'' \<and> d = comment_at src j)"
      by (auto simp: two_chars intro!: exI [of _ i])
  qed (use that in simp_all)
  have heredoc: "\<exists>s' j. do { tag \<leftarrow> str_slice src ?tag (skip_while is_ident_byte src ?tag);
       go_on (st\<lparr>cs_mode := InHeredoc tag\<rparr>) i (skip_while is_ident_byte src ?tag - i) } = Some (s', j) \<and> i < j \<and> placed src s' j"
    if "src ! i = CHR ''<''" "byte_at src (i + 1) = Some (CHR ''<'')" "?tag < skip_while is_ident_byte src ?tag"
  proof -
    note tag = heredoc_tag [OF assms(1) that(1) that(2) [simplified] refl that(3)]
    from tag(1) obtain t where t: "str_slice src ?tag (skip_while is_ident_byte src ?tag) = Some t" by blast
    have "i < ?tag" by simp
    then have j: "i < skip_while is_ident_byte src ?tag" using that(3) by (rule less_trans)
    have "\<exists>s' j. go_on (st\<lparr>cs_mode := InHeredoc t\<rparr>) i (skip_while is_ident_byte src ?tag - i) = Some (s', j) \<and> i < j \<and> placed src s' j"
      by (rule go_on_placed [OF assms(3)]) (use j tag(2,3) in auto)
    with t show ?thesis by simp
  qed
  have hash: "\<exists>s' j. go_on st i (skip_while (\<lambda>c. c \<noteq> CHR 0x0A) src i - i) = Some (s', j) \<and> i < j \<and> placed src s' j"
    if "src ! i = CHR ''#''"
    by (rule go_on_placed [OF assms(3)]) (use that skip_line [OF assms(2)] in auto)
  show ?thesis
  proof (cases "src ! i = CHR 0x0A")
    case True
    then have "comment_code_step src st i = next_line st i" by (simp add: comment_code_step_def Let_def)
    with next_line_placed [OF assms(3,2) True refl refl] show ?thesis by simp
  next
    case False
    show ?thesis
      unfolding comment_code_step_def Let_def using False heredoc hash two [of "CHR ''/''"] two [of "CHR ''*''"]
      by (simp add: one del: One_nat_def split del: if_split) (auto intro!: one two simp del: One_nat_def split: if_splits)
  qed
qed

lemma comment_step_placed:
  assumes "from_utf8 src = Some rope" "no_continued_line src" "i < length src" "placed src st i"
  shows "\<exists>s' j. comment_step src st i = Some (s', j) \<and> i < j \<and> placed src s' j"
proof -
  have one: "\<exists>s' j. go_on st' i 1 = Some (s', j) \<and> i < j \<and> placed src s' j"
    if "src ! i \<noteq> CHR 0x0A" "cs_line st' = cs_line st" "cs_col st' = cs_col st" "cs_out st' = cs_out st" for st'
    by (rule go_on_placed [OF assms(4)]) (use that assms(3) one_char [OF assms(3)] in auto)
  have two: "\<exists>s' j. go_on st' i 2 = Some (s', j) \<and> i < j \<and> placed src s' j"
    if "Suc i < length src" "src ! i \<noteq> CHR 0x0A" "src ! Suc i \<noteq> CHR 0x0A" "cs_line st' = cs_line st" "cs_col st' = cs_col st"
      "cs_out st' = cs_out st" for st'
    by (rule go_on_placed [OF assms(4)]) (use that two_chars [OF that(1)] in auto)
  note newline = next_line_placed [OF assms(4,3)]
  show ?thesis
  proof (cases "cs_mode st")
    case InCode
    then show ?thesis using code_step_placed [OF assms(1,3,4)] by (simp add: comment_step_def)
  next
    case InText
    show ?thesis
    proof (cases "src ! i = CHR 0x5C \<and> byte_at src (i + 1) \<noteq> None")
      case True
      then have "Suc i < length src" by (auto simp: byte_at_def split: if_splits)
      then show ?thesis using True two [of st] assms(2) InText
        by (simp add: comment_step_def no_continued_line_def)
    next
      case False
      define st' where "st' = (if src ! i = CHR 0x22 then st\<lparr>cs_mode := InCode\<rparr> else st)"
      have "comment_step src st i = (if src ! i = CHR 0x0A then next_line st' i else go_on st' i 1)"
        using False InText by (auto simp: comment_step_def st'_def Let_def)
      moreover have "cs_line st' = cs_line st" "cs_col st' = cs_col st" "cs_out st' = cs_out st" by (simp_all add: st'_def)
      ultimately show ?thesis using one [of st'] newline [of st'] by simp
    qed
  next
    case InLineComment
    then show ?thesis using one [of st] newline [of "st\<lparr>cs_mode := InCode\<rparr>"]
      by (cases "src ! i = CHR 0x0A") (simp_all add: comment_step_def)
  next
    case InBlockComment
    then show ?thesis using one [of st] newline [of st] two [of "st\<lparr>cs_mode := InCode\<rparr>"]
      by (cases "src ! i = CHR 0x0A") (auto simp: comment_step_def byte_at_Some)
  next
    case (InHeredoc tag)
    let ?t = "case str_slice src (cs_line_start st) i of Some t \<Rightarrow> t | None \<Rightarrow> []"
    define st' where "st' = (if trim ?t = tag then st\<lparr>cs_mode := InCode\<rparr> else st)"
    have "comment_step src st i = (if src ! i = CHR 0x0A then next_line st' i else go_on st i 1)"
      using InHeredoc by (auto simp: comment_step_def st'_def Let_def)
    moreover have "cs_line st' = cs_line st" "cs_out st' = cs_out st" by (simp_all add: st'_def)
    ultimately show ?thesis using one [of st] newline [of st'] by simp
  qed
qed

text \<open>
  On every text the scan for comments ends without a panic, and each comment it reports begins with \<open>//\<close> in
  the text, at the line reported and the column counted in bytes: unless a backslash ends a line, the counters
  of line and column never drift from the text.
\<close>

theorem comments_located:
  assumes "list_all scalar rope" "no_continued_line (to_utf8 rope)"
  shows "\<exists>ds. comment_syntax_diagnostics rope = Some ds
    \<and> (\<forall>d \<in> set ds. \<exists>j. take 2 (drop j (to_utf8 rope)) = ''//'' \<and> d = comment_at (to_utf8 rope) j)"
proof -
  let ?src = "to_utf8 rope" and ?st = "\<lparr>cs_mode = InCode, cs_line_start = 0, cs_line = 0, cs_col = 0, cs_out = []\<rparr>"
  have "placed ?src ?st 0" by (simp add: placed_def place_def)
  then have "\<exists>s' j. scan_loop (\<lambda>_. True) (comment_step ?src) (length ?src) ?st 0 = Some s' \<and> placed ?src s' j
      \<and> (length ?src \<le> j \<or> \<not> True)"
    by (intro scan_loop_inv comment_step_placed [OF from_to_utf8 [OF assms(1)] assms(2)]) simp_all
  then show ?thesis by (auto simp: comment_syntax_diagnostics_def Let_def placed_def)
qed

text \<open>The text \<open>a = "${f("http://h")}"\<close>, a call whose argument is a URL, inside a string.\<close>

definition nested_url :: rope where
  "nested_url = map byte ''a = \"${f(\"http://h\")}\"''"

theorem comments_located_witness:
  "list_all scalar nested_url \<and> no_continued_line (to_utf8 nested_url)
   \<and> (\<exists>ds. comment_syntax_diagnostics nested_url = Some ds
     \<and> (\<forall>d \<in> set ds. \<exists>j. take 2 (drop j (to_utf8 nested_url)) = ''//'' \<and> d = comment_at (to_utf8 nested_url) j))"
proof -
  have "list_all scalar nested_url" by (simp add: nested_url_def scalar_def byte_def)
  moreover have "CHR 0x5C \<notin> set (to_utf8 nested_url)" by code_simp
  then have "no_continued_line (to_utf8 nested_url)" by (metis no_continued_line_def nth_mem Suc_lessD)
  ultimately show ?thesis using comments_located by blast
qed

text \<open>
  A URL in a string nested in the interpolation of another string is reported as a comment: the scan takes
  the first quote inside the interpolation for the end of the outer string.
\<close>

theorem nested_url_reported: "comment_syntax_diagnostics nested_url = Some [slash_comment 0 15]"
  by code_simp

end
