(* ===== verification/ConstraintRules.thy ===== *)
theory ConstraintRules
  imports TextRules
begin

text \<open>
  \<^verbatim>\<open>crates/tfls-diag/src/version_constraint.rs\<close>: the check of the three kinds of version constraints that a
  body can hold, against the grammar and against the published versions. The versions are those the cache
  lookup of the caller has; the parser of constraints is \<^theory_text>\<open>VersionConstraint\<close>.
\<close>

section \<open>Sources of versions\<close>

datatype constraint_source = CsTerraformCli | CsProvider string string | CsModule string string string

type_synonym version_cache = "constraint_source \<Rightarrow> string list option"

definition source_label :: "constraint_source \<Rightarrow> string" where
  "source_label src =
     (case src of
        CsTerraformCli \<Rightarrow> ''the Terraform / OpenTofu CLI''
      | CsProvider ns name \<Rightarrow> ns @ ''/'' @ name
      | CsModule ns name provider \<Rightarrow> ns @ ''/'' @ name @ ''/'' @ provider)"

definition is_public_registry_host :: "string \<Rightarrow> bool" where
  "is_public_registry_host host \<longleftrightarrow> host = ''registry.terraform.io'' \<or> host = ''registry.opentofu.org''"

definition parse_provider_source :: "string \<Rightarrow> (string \<times> string) option" where
  "parse_provider_source s =
     (case split_on CHR ''/'' (trim s) of
        [ns, name] \<Rightarrow> if ns \<noteq> [] \<and> name \<noteq> [] then Some (ns, name) else None
      | [host, ns, name] \<Rightarrow>
          if ns \<noteq> [] \<and> name \<noteq> [] then (if is_public_registry_host host then Some (ns, name) else None) else None
      | _ \<Rightarrow> None)"

definition parse_module_source_parts :: "string \<Rightarrow> (string \<times> string \<times> string) option" where
  "parse_module_source_parts s0 =
     (let s = trim s0 in
      if starts_with s ''.'' \<or> starts_with s ''/'' \<or> str_contains s ''://'' \<or> str_contains s ''::'' then None
      else (case split_on CHR ''/'' s of
          [ns, name, provider] \<Rightarrow>
            if ns \<noteq> [] \<and> name \<noteq> [] \<and> provider \<noteq> [] then Some (ns, name, provider) else None
        | [host, ns, name, provider] \<Rightarrow>
            if ns \<noteq> [] \<and> name \<noteq> [] \<and> provider \<noteq> [] then
              (if is_public_registry_host host then Some (ns, name, provider) else None)
            else None
        | _ \<Rightarrow> None))"

section \<open>Checking one constraint\<close>

text \<open>\<open>read_slice\<close>: the rope cannot be cut inside a character.\<close>

definition read_slice :: "rope \<Rightarrow> span \<Rightarrow> string may_panic" where
  "read_slice rope sp =
     (if len_bytes rope < snd sp \<or> snd sp < fst sp then Some [] else str_slice (to_utf8 rope) (fst sp) (snd sp))"

text \<open>A diagnostic at a span, unless the span is outside the text.\<close>

definition push_at_span :: "severity \<Rightarrow> rope \<Rightarrow> span \<Rightarrow> string \<Rightarrow> diagnostic list may_panic" where
  "push_at_span sev rope sp msg = do {
     rg \<leftarrow> span_range rope sp;
     Some (case rg of
         None \<Rightarrow> []
       | Some x \<Rightarrow> [\<lparr>dg_range = x, dg_severity = sev, dg_message = msg, dg_tags = []\<rparr>]) }"

definition constraint_errors :: "rope \<Rightarrow> nat \<Rightarrow> constraint_error list \<Rightarrow> diagnostic list may_panic" where
  "constraint_errors rope inner_start errs = concat_may (map (\<lambda>e.
     push_at_span SevError rope (inner_start + fst (ce_span e), inner_start + snd (ce_span e)) (ce_message e)) errs)"

definition validate_constraint_string_syntax_only :: "span \<Rightarrow> rope \<Rightarrow> diagnostic list may_panic" where
  "validate_constraint_string_syntax_only value_span rope =
     (if snd value_span \<le> fst value_span + 2 then Some []
      else do {
        inner \<leftarrow> read_slice rope (fst value_span + 1, snd value_span - 1);
        parsed \<leftarrow> parse inner;
        constraint_errors rope (fst value_span + 1) (p_errors parsed) })"

definition no_published_version :: "version_cache \<Rightarrow> constraint_source \<Rightarrow> constraint list \<Rightarrow> bool" where
  "no_published_version cache src cs \<longleftrightarrow>
     (case cache src of None \<Rightarrow> False | Some versions \<Rightarrow> \<not> list_ex (satisfies_all cs) versions)"

definition validate_constraint_string :: "span \<Rightarrow> rope \<Rightarrow> constraint_source \<Rightarrow> version_cache \<Rightarrow> diagnostic list may_panic" where
  "validate_constraint_string value_span rope src cache =
     (if snd value_span \<le> fst value_span + 2 then Some []
      else do {
        let inner_span = (fst value_span + 1, snd value_span - 1);
        inner \<leftarrow> read_slice rope inner_span;
        parsed \<leftarrow> parse inner;
        errors \<leftarrow> constraint_errors rope (fst inner_span) (p_errors parsed);
        (if p_errors parsed \<noteq> [] \<or> p_constraints parsed = [] then Some errors
         else if no_published_version cache src (p_constraints parsed) then
           map_option ((@) errors) (push_at_span SevWarning rope inner_span
             (''no published version of '' @ source_label src @ '' matches '' @ backquote inner))
         else Some errors) })"

section \<open>Walking a body\<close>

text \<open>A string literal with its span.\<close>

definition located_string :: "span option \<Rightarrow> expr \<Rightarrow> (string \<times> span) option" where
  "located_string sp e = do { s \<leftarrow> string_value e; w \<leftarrow> sp; Some (s, w) }"

definition validate_string_value_attr :: "span option \<Rightarrow> expr \<Rightarrow> rope \<Rightarrow> constraint_source \<Rightarrow> version_cache
    \<Rightarrow> diagnostic list may_panic" where
  "validate_string_value_attr sp e rope src cache =
     (case located_string sp e of
        None \<Rightarrow> Some []
      | Some (_, w) \<Rightarrow> validate_constraint_string w rope src cache)"

definition string_span :: "expr \<Rightarrow> span option" where
  "string_span e = (case e of EString sp _ \<Rightarrow> sp | EStringTemplate sp _ \<Rightarrow> sp | _ \<Rightarrow> None)"

definition object_key_as_str :: "obj_key \<Rightarrow> string option" where
  "object_key_as_str k = (case k of KIdent i \<Rightarrow> Some i | KExpr (EString _ s) \<Rightarrow> Some s | _ \<Rightarrow> None)"

text \<open>The loop over an object's fields: the last \<open>source\<close>, and the last \<open>version\<close> that is a string.\<close>

definition source_and_version_fields :: "(obj_key \<times> expr) list \<Rightarrow> string option \<times> (string \<times> span) option" where
  "source_and_version_fields fs = foldl (\<lambda>(source, ver) (k, v).
     (if object_key_as_str k = Some ''source'' then (string_value v, ver)
      else if object_key_as_str k = Some ''version'' then
        (source, case located_string (string_span v) v of None \<Rightarrow> ver | Some w \<Rightarrow> Some w)
      else (source, ver))) (None, None) fs"

definition check_provider_entry :: "rope \<Rightarrow> version_cache \<Rightarrow> body_item \<Rightarrow> diagnostic list may_panic" where
  "check_provider_entry rope cache entry =
     (case entry of
        Attribute _ (EObject _ fs) _ _ \<Rightarrow>
          (case source_and_version_fields fs of
             (source, ver) \<Rightarrow>
               (case Option.bind source parse_provider_source of
                  None \<Rightarrow> Some []
                | Some (ns, name) \<Rightarrow>
                    (case ver of
                       None \<Rightarrow> Some []
                     | Some (_, sp) \<Rightarrow> validate_constraint_string sp rope (CsProvider ns name) cache)))
      | _ \<Rightarrow> Some [])"

definition walk_required_providers :: "body \<Rightarrow> rope \<Rightarrow> version_cache \<Rightarrow> diagnostic list may_panic" where
  "walk_required_providers b rope cache = concat_may (map (check_provider_entry rope cache) b)"

definition walk_terraform :: "body \<Rightarrow> rope \<Rightarrow> version_cache \<Rightarrow> diagnostic list may_panic" where
  "walk_terraform b rope cache = concat_may (map (\<lambda>item.
     case item of
       Attribute (key, _) v vs _ \<Rightarrow>
         if key = ''required_version'' then validate_string_value_attr vs v rope CsTerraformCli cache else Some []
     | Block _ (kw, _) _ inner \<Rightarrow>
         if kw = ''required_providers'' then walk_required_providers inner rope cache else Some []) b)"

definition module_source_and_version :: "body \<Rightarrow> string option \<times> (string \<times> span) option" where
  "module_source_and_version b = foldl (\<lambda>(source, ver) item.
     (case item of
        Attribute (key, _) v vs _ \<Rightarrow>
          if key = ''source'' then (case string_value v of None \<Rightarrow> source | Some s \<Rightarrow> Some s, ver)
          else if key = ''version'' then (source, case located_string vs v of None \<Rightarrow> ver | Some w \<Rightarrow> Some w)
          else (source, ver)
      | Block _ _ _ _ \<Rightarrow> (source, ver))) (None, None) b"

definition walk_module :: "body \<Rightarrow> rope \<Rightarrow> version_cache \<Rightarrow> diagnostic list may_panic" where
  "walk_module b rope cache =
     (case module_source_and_version b of
        (_, None) \<Rightarrow> Some []
      | (source, Some (_, sp)) \<Rightarrow>
          (case Option.bind source parse_module_source_parts of
             Some (ns, name, provider) \<Rightarrow> validate_constraint_string sp rope (CsModule ns name provider) cache
           | None \<Rightarrow> validate_constraint_string_syntax_only sp rope))"

definition constraint_diagnostics :: "body \<Rightarrow> rope \<Rightarrow> version_cache \<Rightarrow> diagnostic list may_panic" where
  "constraint_diagnostics b rope cache = concat_may (map (\<lambda>item.
     case item of
       Block _ (kw, _) _ inner \<Rightarrow>
         if kw = ''terraform'' then walk_terraform inner rope cache
         else if kw = ''module'' then walk_module inner rope cache
         else Some []
     | Attribute _ _ _ _ \<Rightarrow> Some []) b)"

section \<open>A constraint that ends in a comma\<close>

text \<open>
  A version constraint with a blank piece, such as one that ends in a comma and a space, crashes the rule, and with
  it the diagnostics of the file: the check hands the text between the quotes to the parser, which
  panics on it, whatever is in the cache.
\<close>

theorem blank_constraint_crashes:
  assumes "to_utf8 rope = a @ CHR 0x22 # inner @ CHR 0x22 # z" "utf8_shape inner"
    and "piece \<in> set (split_on CHR '','' inner)" "piece \<noteq> []" "list_all is_ascii_whitespace piece"
  shows "constraint_diagnostics
    [Block bs (''terraform'', ks) [] [Attribute (''required_version'', ka) (EString es v) (Some (length a, length a + length inner + 2)) sp]]
    rope cache = None"
proof -
  have "inner \<noteq> []" using assms(3,4) by auto
  moreover have "len_bytes rope = length (to_utf8 rope)" using to_utf8_length [of rope] by simp
  moreover have "parse inner = None" using parse_None_iff [OF utf8_shape_lead_from [OF assms(2)]] assms(3-5) by blast
  moreover have "t = inner" if "str_slice (to_utf8 rope) (length a + 1) (length a + length inner + 1) = Some t" for t
    using that by (simp add: str_slice_Some assms(1))
  ultimately have "validate_constraint_string (length a, length a + length inner + 2) rope CsTerraformCli cache = None"
    by (cases "str_slice (to_utf8 rope) (length a + 1) (length a + length inner + 1)")
      (auto simp: validate_constraint_string_def read_slice_def assms(1) Let_def)
  then show ?thesis
    by (simp add: constraint_diagnostics_def walk_terraform_def validate_string_value_attr_def located_string_def string_value_def)
qed

end
