(* ===== verification/Spec2Isabelle.thy ===== *)
theory Spec2Isabelle
  imports VersionConstraint VariableType Types LockFile GitRef JobQueue Position Parse
    References Symbols Fallback Aligned Document Store Schema Workspace Cycles UnknownRules ValidationSpec Navigation ConstraintRules
begin

text \<open>
  \<^bold>\<open>terraform-ls-rs\<close> is a language server and linter for Terraform and OpenTofu. A file of the
  workspace is held as a document (a rope of characters, the tree its parser returned, the symbols
  and references read off that tree); documents live in a concurrent store that indexes what they
  declare and mention; a background worker drains a queue of jobs that parse files, scan directories
  and fetch provider schemas; diagnostics and editor requests read the store. This development models
  the core of that: the data, the parsing front end around \<^verbatim>\<open>hcl-edit\<close>, the state, and the reasoning
  about versions and types that the diagnostics rest on. Paths below are relative to
  \<^verbatim>\<open>crates/\<close>.

  \<^bold>\<open>Theories and sources.\<close>
  \<^item> \<open>Prelude\<close>: strings as lists of bytes, Rust's slicing, splitting and number parsing with their
    panics and overflows, hash maps as distinct association lists in an arbitrary iteration order
    (\<open>hm_insert\<close>, \<open>hm_get\<close>), folds over steps that may panic, the collections \<open>rust_str\<close> and
    \<open>rust_eval\<close>. \<open>BTree\<close>: ordered maps. \<open>StableSort\<close>: the sort of the standard library.
  \<^item> \<open>Hcl\<close>: the syntax tree of \<^verbatim>\<open>hcl-edit\<close> as far as the code looks into it, with source spans.
  \<^item> \<open>VersionConstraint\<close>: \<^verbatim>\<open>tfls-core/src/version_constraint.rs\<close>. \<open>VariableType\<close>:
    \<^verbatim>\<open>tfls-core/src/variable_type.rs\<close>. \<open>Types\<close>: \<^verbatim>\<open>types.rs\<close> and \<^verbatim>\<open>uri.rs\<close> there. \<open>LockFile\<close> and
    \<open>GitRef\<close>: \<^verbatim>\<open>lock_file.rs\<close> and \<^verbatim>\<open>git_ref.rs\<close> there.
  \<^item> \<open>Rope\<close>, \<open>Position\<close>, \<open>Safe\<close>, \<open>Parse\<close>: text with UTF-8 and UTF-16 lengths, and
    \<^verbatim>\<open>tfls-parser/src/position.rs\<close>, \<^verbatim>\<open>safe.rs\<close>, \<^verbatim>\<open>parse.rs\<close>, \<^verbatim>\<open>error.rs\<close>.
  \<^item> \<open>References\<close>: \<^verbatim>\<open>tfls-parser/src/references.rs\<close> and the shared walker
    \<^verbatim>\<open>tfls-diag/src/expr_walk.rs\<close>. \<open>Symbols\<close>: \<^verbatim>\<open>tfls-parser/src/traversal.rs\<close>. \<open>Fallback\<close>: the byte
    scanners \<^verbatim>\<open>fallback_symbols.rs\<close> and \<^verbatim>\<open>fallback_references.rs\<close>. \<open>Aligned\<close>: spans on character
    boundaries never panic in them.
  \<^item> \<open>Document\<close>: \<^verbatim>\<open>tfls-state/src/document.rs\<close>, \<^verbatim>\<open>lookup.rs\<close>, \<^verbatim>\<open>error.rs\<close> and the cached formatting
    of \<^verbatim>\<open>tfls-engine/src/format_scan.rs\<close>. \<open>Store\<close> and \<open>Workspace\<close>: the document half and the caches
    of \<^verbatim>\<open>tfls-state/src/store.rs\<close>. \<open>JobQueue\<close>: \<^verbatim>\<open>tfls-state/src/jobs.rs\<close> with the worker loop of
    \<^verbatim>\<open>tfls-lsp/src/indexer.rs\<close>. \<open>Schema\<close>: \<^verbatim>\<open>tfls-schema/src/types.rs\<close> and \<^verbatim>\<open>functions.rs\<close>.
  \<^item> \<open>Diagnostics\<close>: what a lint rule produces. \<open>Cycles\<close>: \<^verbatim>\<open>tfls-diag/src/cyclic_locals.rs\<close>, a depth-first
    search over the references between locals. \<open>Unknown\<close>: \<^verbatim>\<open>tfls-diag/src/unknown_value.rs\<close>, which decides
    whether a value is known at plan time by following locals, loop variables, data blocks and resource
    attributes; \<open>UnknownRules\<close>: the rules \<^verbatim>\<open>for_each_unknown_keys.rs\<close> and \<^verbatim>\<open>import_unknown_id.rs\<close> over it.
  \<^item> \<open>Deprecation\<close>: \<^verbatim>\<open>tfls-diag/src/deprecation_rule.rs\<close> and the rule tables of the nine modules that use
    it, with the version gate over \<open>VersionConstraint\<close>. \<open>Validation\<close>:
    \<^verbatim>\<open>tfls-diag/src/schema_validation.rs\<close>, a body against its schema, block by block;
    \<open>ValidationOrder\<close> and \<open>ValidationSpec\<close>: its independence of the order of hash maps and the conditions
    under which each of its diagnostics appears.
  \<^item> \<open>ModuleGraph\<close>: what a rule asks about the whole module, twice as in the code: collected in one pass by
    \<^verbatim>\<open>tfls-engine/src/snapshot.rs\<close>, and looked up question by question by the adapter of
    \<^verbatim>\<open>pipeline.rs\<close>; with the directory helpers of \<^verbatim>\<open>module.rs\<close>. \<open>ModuleRules\<close>: the rules that ask, from
    \<^verbatim>\<open>tfls-diag/src/\<close> (references, unused declarations, variable types, required providers and versions,
    file layout), and how the pipeline resolves a reference in the store.
  \<^item> \<open>GitSource\<close>, \<open>GitTags\<close>, \<open>ModuleSources\<close>, \<open>RefActions\<close>: where modules come from. Reading and editing
    the \<open>ref\<close> of a source string (\<^verbatim>\<open>tfls-diag/src/git_source.rs\<close>); the tags of a repository, normalised,
    parsed and cached (\<^verbatim>\<open>tfls-provider-protocol/src/git_refs.rs\<close>); the six rules about pins, versions, clones
    and tags over them; and the edits that the quick fixes of
    \<^verbatim>\<open>tfls-lsp/src/handlers/code_action_git_ref.rs\<close> offer for what the rules report.
  \<^item> \<open>Cursor\<close>, \<open>Rename\<close>, \<open>Navigation\<close>: the handlers \<^verbatim>\<open>cursor.rs\<close>, \<^verbatim>\<open>highlight.rs\<close>, \<^verbatim>\<open>rename.rs\<close> and
    \<^verbatim>\<open>navigation.rs\<close> of \<^verbatim>\<open>tfls-lsp\<close> over the store: the symbol under the cursor, where its name is
    written, the edits of a rename, definitions and references.
  \<^item> The remaining lint rules of \<^verbatim>\<open>tfls-diag/src/\<close>: \<open>ExprRules\<close>, over the expressions of a body
    (deprecated syntax, comparisons with an empty list, the workspace name under a remote backend, sensitive
    outputs); \<open>BlockRules\<close>, over its blocks (descriptions, names, duplicates, meta-arguments, \<open>lifecycle\<close>, tags,
    defaults against types, test files); \<open>TextRules\<close>, over its bytes (comment syntax, duplicate keys of a map);
    \<open>ConstraintRules\<close>, over its version constraints.

  \<^bold>\<open>Conventions.\<close> A computation that may panic returns \<open>'a may_panic\<close>, an option whose \<open>None\<close> is the
  panic; a \<^verbatim>\<open>Result\<close> is a sum, \<open>Inl\<close> the error; a \<^verbatim>\<open>&mut\<close> argument is returned updated. Source
  strings are lists of bytes; editor text is a list of Unicode scalar values. A loop over bytes is a
  step function and \<open>scan_loop\<close>, a partial function whose \<open>None\<close> also covers a loop that never ends,
  so the totality theorems of \<open>Fallback\<close> include termination. Concurrency appears where the
  code has it: the job queue is a step relation of producers and worker, deliveries of changes are an
  arbitrary sequence, and the operations of the store, which hold one lock, are atomic steps.

  \<^bold>\<open>What is shown.\<close>
  \<^item> Store: in every reachable state the indexes hold exactly what the documents declare and mention;
    open buffers are never overwritten by the background indexer; a failed edit leaves a document
    in neither index. Workspace: a directory is scanned once, cached lock files are the ones on
    disk, a caller's contribution is replaced and nothing else touched, listed names resolve.
  \<^item> Job queue: it refines one deduplicating first-in-first-out queue per priority; no wake-up is lost.
  \<^item> Documents: out-of-order full-text deliveries converge, a ranged edit replaces exactly its range,
    the format cache is transparent, analysis does not panic.
  \<^item> Parsing: recovery keeps byte positions, the pre-scan bounds nesting by 500, the guarded parser
    returns on every input, symbols and references extracted are exactly those of the tree, and the
    fallback scanners end without panic on every text.
  \<^item> Versions and types: constraints print and parse back, a comma is a conjunction, the pessimistic
    operator is a window; types print and parse back, conditionals raise no false alarm.
  \<^item> Lint rules: cyclic locals are found whatever the iteration order of the maps, though not every member
    of every cycle; the unknown-value analysis raises no alarm where no definition an expression reaches mentions
    a managed resource (apart from template directives, whose loop variable it takes for one), always sees a resource attribute that goes into the value and that the configuration does not set, and answers within a bounded stack unless
    a loop shadows a variable of its own collection, where it never does. A deprecation is reported only
    when every version the constraint admits supports the replacement; validation against a schema returns
    on every body, reports the same diagnostics in whatever order the hash maps iterate, and flags an
    unmet relation, a missing attribute and a misplaced nested block exactly under the conditions stated.
    A sensitive variable is found in an output exactly when it goes into the value, except behind heredocs,
    directives and computed indexes; a definition is reported as duplicate exactly when an earlier one has its
    address; a comment is reported at the place where it is written.
  \<^item> Modules: the snapshot and the adapter agree on every question unless a file is reached through a link,
    where the snapshot misses references, or the module calls itself; in a reachable store a reference to a variable, a local or
    a module is reported as undefined, and a variable, a local or a data block as unused, exactly when the documents
    of the module say so.
  \<^item> Module sources: a file passes the two rules about pins exactly when its git and mercurial sources are
    pinned; the commit of a tag does not depend on the order of the listing; the edit that pins a source,
    applied as the editor applies it, leaves a source whose \<open>ref\<close> is the commit; two repositories whose names a
    file name cannot tell apart share one entry of the cache of tags.
  \<^item> Requests: outside test files, going to the definition of a reference finds nothing exactly when the linter
    reports it; the edits of a rename are one for each location indexed under the name whose text holds it, and each
    replaces a written occurrence of it; but a rename is not confined to the module, and every edit of a resource's
    rename drops its type.

  \<^bold>\<open>Bounds and fuel.\<close> The job queue's sequence counter is a 64-bit word, and the refinement is stated
  for runs of fewer than \<open>2 ^ 64\<close> operations. Recovery runs at most 64 passes, as the code does.
  \<open>merge_types\<close> recurses on fuel computed from the depths of its arguments; \<open>merge_types_unfold\<close>
  shows that it always satisfies the recursion of the code. The unknown-value analysis recurses on the
  stack it is given, \<open>None\<close> being an overflow; \<open>stack_bound\<close> is one that is enough. The search for
  cycles is a partial function, and \<open>cycles_reported\<close> includes that it ends. The depths the fallback scanners
  count in 32 bits (\<open>references_step\<close>) are natural numbers here: they wrap only behind \<open>2 ^ 32\<close> open braces.

  \<^bold>\<open>Parameters.\<close> Code outside the repository is an argument: the parser and its error spans and the
  formatter (fields of \<open>front_end\<close>), the JSON front end, the semver crate (\<open>GitRef\<close>), the file system
  of the lock cache (\<open>lock_fs\<close>), the schemas and child-module outputs that the unknown-value analysis
  asks for (fields of \<open>unknown_ctx\<close>), the file system that resolves paths and lists directories
  (\<open>file_sys\<close>), directories and module manifests (\<open>module_disk\<close>), running \<^verbatim>\<open>git\<close> and the files of the tag
  cache (\<open>git_world\<close>), the line index of the rope crate (\<open>line_lookup\<close>), the schema and upgrade-hint lookups of \<open>Validation\<close>, the cache of
  published versions (\<open>ConstraintRules\<close>), the rendering of
  a JSON value (\<open>Schema\<close>). The hypotheses about them
  (the parser survives below the nesting bound and reports spans on character boundaries, a disk
  that changes only with its modification time) are named, and each has a concrete instance.

  \<^bold>\<open>Not modelled.\<close> The request handlers other than those named, the orchestration of the pipeline, the command line
  tools, the provider protocol and registry clients, the directory walker and the schema fetcher:
  they are assembly of responses, network, process and disk access around the state modelled here.
\<close>

end
